(* ===== verification/Prelude.thy ===== *)
theory Prelude
  imports Main "HOL-Library.Word" "HOL-Library.Monad_Syntax"
begin

section \<open>Prelude: types, hint collections and shared word lemmas\<close>

text \<open>
  The machine types of the kernel (it is compiled for a 32-bit x86), the
  development's hint collections, and the lemmas on words, lists and options
  that the components share.
\<close>

unbundle bit_operations_syntax

type_synonym u8 = "8 word"
type_synonym u16 = "16 word"
type_synonym u32 = "32 word"
type_synonym i32 = "32 word"

text \<open>
  \<open>mem_simps\<close>: reads of an updated memory; \<open>hdr_simps\<close>: the fields of
  headers that do not overlap; \<open>frame_simps\<close>: what an operation leaves alone.
\<close>

named_theorems mem_simps
named_theorems hdr_simps
named_theorems frame_simps

text \<open>The bytes of a C string literal, without its terminator.\<close>

definition bytes_of :: "string \<Rightarrow> u8 list" where
  "bytes_of s = map of_char s"

lemma bytes_of_Nil [simp]: "bytes_of [] = []"
  by (simp add: bytes_of_def)

lemma length_bytes_of [simp]: "length (bytes_of s) = length s"
  by (simp add: bytes_of_def)

subsection \<open>Addresses as natural numbers\<close>

text \<open>
  Proofs speak of addresses as natural numbers below \<open>2 ^ 32\<close>; the code's
  words are their images under \<open>of_nat\<close>, so the code's pointer additions need
  no overflow reasoning, and comparisons need only these lemmas.
\<close>

lemma of_nat_u32_eq:
  "a < 2 ^ 32 \<Longrightarrow> b < 2 ^ 32 \<Longrightarrow> (of_nat a :: u32) = of_nat b \<longleftrightarrow> a = b"
  by (simp add: word_of_nat_eq_iff take_bit_nat_eq_self)

lemma unat_of_nat_u32: "a < 2 ^ 32 \<Longrightarrow> unat (of_nat a :: u32) = a"
  by (simp add: unat_of_nat take_bit_nat_eq_self)

lemma of_nat_u32_le:
  "a < 2 ^ 32 \<Longrightarrow> b < 2 ^ 32 \<Longrightarrow> (of_nat a :: u32) \<le> of_nat b \<longleftrightarrow> a \<le> b"
  by (simp add: word_le_nat_alt unat_of_nat_u32)

lemma of_nat_u32_less:
  "a < 2 ^ 32 \<Longrightarrow> b < 2 ^ 32 \<Longrightarrow> (of_nat a :: u32) < of_nat b \<longleftrightarrow> a < b"
  by (simp add: word_less_nat_alt unat_of_nat_u32)

lemma unat_u32_lt: "unat (x :: u32) < 2 ^ 32"
  using unsigned_less [of x] by simp

lemma unat_u8_lt: "unat (x :: u8) < 256"
  using unsigned_less [of x] by simp

lemma of_nat_unat_u32 [simp]: "of_nat (unat (x :: u32)) = x"
  by simp

lemma push_bit_1_of_nat: "push_bit k (1 :: u32) = of_nat (2 ^ k)"
  by (simp add: push_bit_eq_mult)

lemma of_nat_add_u32: "of_nat a + (of_nat b :: u32) = of_nat (a + b)"
  by simp

subsection \<open>Step relations\<close>

text \<open>A step relation with an invariant, and one that implements an abstract step relation.\<close>

locale invariant_steps =
  fixes step :: "'s \<Rightarrow> 's \<Rightarrow> bool" and inv :: "'s \<Rightarrow> bool"
  assumes keeps: "step s t \<Longrightarrow> inv s \<Longrightarrow> inv t"
begin

lemma reaches: "step\<^sup>*\<^sup>* s t \<Longrightarrow> inv s \<Longrightarrow> inv t"
  by (induction rule: rtranclp_induct) (auto intro: keeps)

end

locale simulation =
  fixes step :: "'s \<Rightarrow> 's \<Rightarrow> bool" and astep :: "'a \<Rightarrow> 'a \<Rightarrow> bool" and rel :: "'s \<Rightarrow> 'a \<Rightarrow> bool"
  assumes simulates: "step s t \<Longrightarrow> rel s x \<Longrightarrow> \<exists>y. rel t y \<and> astep x y"
begin

lemma runs: "step\<^sup>*\<^sup>* s t \<Longrightarrow> rel s x \<Longrightarrow> \<exists>y. rel t y \<and> astep\<^sup>*\<^sup>* x y"
  by (induction rule: rtranclp_induct) (blast dest: simulates intro: rtranclp.rtrancl_into_rtrancl)+

end

sublocale simulation \<subseteq> invariant_steps step "\<lambda>s. \<exists>x. rel s x"
  by unfold_locales (use simulates in blast)

end
