(* ===== verification/Memory.thy ===== *)
theory Memory
  imports Prelude
begin

section \<open>Memory: the flat byte memory and C pointers into it\<close>

text \<open>
  The kernel runs without paging, so memory is one total map from 32-bit
  addresses to bytes. This theory has the little-endian 32-bit accesses the
  compiler emits for pointer and \<open>uint32_t\<close> fields, byte ranges, pointers to
  characters, and the lemmas that a write leaves disjoint ranges alone.
\<close>

type_synonym memory = "u32 \<Rightarrow> u8"

subsection \<open>32-bit accesses\<close>

definition rd32 :: "memory \<Rightarrow> u32 \<Rightarrow> u32" where
  "rd32 m a = ucast (m a) OR push_bit 8 (ucast (m (a + 1)))
     OR push_bit 16 (ucast (m (a + 2))) OR push_bit 24 (ucast (m (a + 3)))"

definition wr32 :: "memory \<Rightarrow> u32 \<Rightarrow> u32 \<Rightarrow> memory" where
  "wr32 m a v = m(a := ucast v, a + 1 := ucast (drop_bit 8 v),
     a + 2 := ucast (drop_bit 16 v), a + 3 := ucast (drop_bit 24 v))"

lemma bytes_join:
  "ucast (ucast v :: u8) OR push_bit 8 (ucast (ucast (drop_bit 8 v) :: u8))
     OR push_bit 16 (ucast (ucast (drop_bit 16 v) :: u8))
     OR push_bit 24 (ucast (ucast (drop_bit 24 v) :: u8)) = (v :: u32)"
proof (rule bit_word_eqI)
  fix n assume "n < LENGTH(32)"
  moreover have "n < 8 \<or> 8 \<le> n \<and> n < 16 \<or> 16 \<le> n \<and> n < 24 \<or> 24 \<le> n" by arith
  ultimately show "bit (ucast (ucast v :: u8) OR push_bit 8 (ucast (ucast (drop_bit 8 v) :: u8))
     OR push_bit 16 (ucast (ucast (drop_bit 16 v) :: u8))
     OR push_bit 24 (ucast (ucast (drop_bit 24 v) :: u8)) :: u32) n = bit v n"
    by (auto simp: bit_simps)
qed

lemma rd32_wr32_same [mem_simps]: "rd32 (wr32 m a v) a = v"
  by (simp add: rd32_def wr32_def bytes_join)

text \<open>Two address ranges of the given lengths that do not meet.\<close>

definition disj :: "nat \<Rightarrow> nat \<Rightarrow> nat \<Rightarrow> nat \<Rightarrow> bool" where
  "disj a n b k \<longleftrightarrow> a + n \<le> b \<or> b + k \<le> a"

lemma wr32_other:
  assumes "a + 4 \<le> 2 ^ 32" "x < 2 ^ 32" "x < a \<or> a + 4 \<le> x"
  shows "wr32 m (of_nat a) v (of_nat x) = m (of_nat x)"
proof -
  have "(of_nat x :: u32) \<noteq> of_nat (a + i)" if "i < 4" for i
    using assms that of_nat_u32_eq [of x "a + i"] by auto
  from this [of 0] this [of 1] this [of 2] this [of 3] show ?thesis
    by (simp add: wr32_def add.commute)
qed

lemma rd32_cong:
  assumes "\<And>x. a \<le> x \<Longrightarrow> x < a + 4 \<Longrightarrow> m' (of_nat x) = m (of_nat x)"
  shows "rd32 m' (of_nat a) = rd32 m (of_nat a)"
  using assms [of a] assms [of "a + 1"] assms [of "a + 2"] assms [of "a + 3"]
  by (simp add: rd32_def add.commute)

lemma rd32_wr32_disj:
  assumes "a + 4 \<le> 2 ^ 32" "b + 4 \<le> 2 ^ 32" "disj a 4 b 4"
  shows "rd32 (wr32 m (of_nat a) v) (of_nat b) = rd32 m (of_nat b)"
  by (rule rd32_cong, rule wr32_other) (use assms in \<open>auto simp: disj_def\<close>)

lemma rd32_upd_disj:
  assumes "a < 2 ^ 32" "b + 4 \<le> 2 ^ 32" "disj a 1 b 4"
  shows "rd32 (m(of_nat a := v)) (of_nat b) = rd32 m (of_nat b)"
proof (rule rd32_cong)
  fix x assume "b \<le> x" "x < b + 4"
  with assms have "x < 2 ^ 32" "x \<noteq> a" by (auto simp: disj_def)
  with assms(1) show "(m(of_nat a := v)) (of_nat x) = m (of_nat x)"
    by (simp add: of_nat_u32_eq)
qed

subsection \<open>Byte ranges\<close>

definition rd_bytes :: "memory \<Rightarrow> u32 \<Rightarrow> nat \<Rightarrow> u8 list" where
  "rd_bytes m a n = map (\<lambda>i. m (a + of_nat i)) [0..<n]"

lemma length_rd_bytes [simp]: "length (rd_bytes m a n) = n"
  by (simp add: rd_bytes_def)

lemma nth_rd_bytes [simp]: "i < n \<Longrightarrow> rd_bytes m a n ! i = m (a + of_nat i)"
  by (simp add: rd_bytes_def)

text \<open>Overwriting the bytes from \<open>a\<close> on by a list.\<close>

definition wr_bytes :: "memory \<Rightarrow> u32 \<Rightarrow> u8 list \<Rightarrow> memory" where
  "wr_bytes m a bs = (\<lambda>x. if unat (x - a) < length bs then bs ! unat (x - a) else m x)"

lemma wr_bytes_Nil [simp]: "wr_bytes m a [] = m"
  by (simp add: wr_bytes_def)

lemma unat_minus_1_u32: "x \<noteq> 0 \<Longrightarrow> unat (x - 1 :: u32) = unat x - 1"
  by (simp add: unat_minus_one)

lemma wr_bytes_Cons:
  assumes "length bs < 2 ^ 32"
  shows "wr_bytes (m(a := b)) (a + 1) bs = wr_bytes m a (b # bs)"
proof
  fix x :: u32
  show "wr_bytes (m(a := b)) (a + 1) bs x = wr_bytes m a (b # bs) x"
  proof (cases "x = a")
    case True
    have "unat (a - (a + 1) :: u32) = 2 ^ 32 - 1"
      by (simp add: unsigned_minus_1_eq_mask mask_eq_exp_minus_1)
    with True assms show ?thesis by (simp add: wr_bytes_def)
  next
    case False
    then have "unat (x - (a + 1)) = unat (x - a) - 1" and pos: "0 < unat (x - a)"
      using unat_minus_1_u32 [of "x - a"] by (simp_all add: diff_diff_eq unat_gt_0)
    with False show ?thesis
      by (auto simp: wr_bytes_def nth_Cons' less_Suc_eq_le)
  qed
qed

lemma wr_bytes_at:
  assumes "i < length bs" "length bs \<le> 2 ^ 32"
  shows "wr_bytes m a bs (a + of_nat i) = bs ! i"
  using assms by (simp add: wr_bytes_def unat_of_nat_u32)

text \<open>Two memories that hold the same byte at every address of a set.\<close>

definition same_on :: "nat set \<Rightarrow> memory \<Rightarrow> memory \<Rightarrow> bool" where
  "same_on A m m' \<longleftrightarrow> (\<forall>x\<in>A. x < 2 ^ 32 \<longrightarrow> m' (of_nat x) = m (of_nat x))"

lemma same_on_refl [simp, intro]: "same_on A m m"
  by (simp add: same_on_def)

lemma same_on_trans [trans]: "same_on A m m' \<Longrightarrow> same_on A m' m'' \<Longrightarrow> same_on A m m''"
  by (simp add: same_on_def)

lemma same_on_subset: "same_on B m m' \<Longrightarrow> A \<subseteq> B \<Longrightarrow> same_on A m m'"
  by (auto simp: same_on_def)

lemma same_onD: "same_on A m m' \<Longrightarrow> x \<in> A \<Longrightarrow> x < 2 ^ 32 \<Longrightarrow> m' (of_nat x) = m (of_nat x)"
  by (simp add: same_on_def)

lemma same_on_wr32:
  "a + 4 \<le> 2 ^ 32 \<Longrightarrow> A \<inter> {a..<a + 4} = {} \<Longrightarrow> same_on A m (wr32 m (of_nat a) v)"
  unfolding same_on_def by (intro ballI impI wr32_other) (auto simp: disjoint_iff not_less)

lemma same_on_upd:
  "a < 2 ^ 32 \<Longrightarrow> a \<notin> A \<Longrightarrow> same_on A m (m(of_nat a := v))"
  unfolding same_on_def by (auto simp: of_nat_u32_eq)

lemma same_on_wr_bytes:
  assumes "a + length bs \<le> 2 ^ 32" "A \<inter> {a..<a + length bs} = {}"
  shows "same_on A m (wr_bytes m (of_nat a) bs)"
  unfolding same_on_def
proof (intro ballI impI)
  fix x assume x: "x \<in> A" "x < 2 ^ 32"
  with assms have out: "x < a \<or> a + length bs \<le> x" by (auto simp: disjoint_iff not_less)
  have a32: "a \<le> 2 ^ 32" using assms by simp
  have "length bs \<le> unat (of_nat x - of_nat a :: u32) \<or> bs = []"
  proof (cases "bs = []")
    case False
    then have "a < 2 ^ 32" using assms(1) by (cases bs) auto
    with out x assms(1) show ?thesis
      by (auto simp: unat_sub_if' unat_of_nat_u32 split: if_splits)
  qed simp
  then show "wr_bytes m (of_nat a) bs (of_nat x) = m (of_nat x)"
    by (auto simp: wr_bytes_def)
qed

lemma rd_bytes_wr_bytes:
  "length bs = n \<Longrightarrow> n \<le> 2 ^ 32 \<Longrightarrow> rd_bytes (wr_bytes m a bs) a n = bs"
  by (rule nth_equalityI) (auto simp: wr_bytes_at)

lemma rd_bytes_same_on:
  assumes "same_on A m m'" "{a..<a + n} \<subseteq> A" "a + n \<le> 2 ^ 32"
  shows "rd_bytes m' (of_nat a) n = rd_bytes m (of_nat a) n"
proof (rule nth_equalityI)
  fix i assume "i < length (rd_bytes m' (of_nat a) n)"
  then have "i < n" by simp
  with assms have "m' (of_nat (a + i)) = m (of_nat (a + i))"
    by (intro same_onD [OF assms(1)]) auto
  with \<open>i < n\<close> show "rd_bytes m' (of_nat a) n ! i = rd_bytes m (of_nat a) n ! i" by simp
qed simp

lemma rd32_same_on:
  "same_on A m m' \<Longrightarrow> {a..<a + 4} \<subseteq> A \<Longrightarrow> a + 4 \<le> 2 ^ 32 \<Longrightarrow>
     rd32 m' (of_nat a) = rd32 m (of_nat a)"
  by (rule rd32_cong) (auto dest!: same_onD)

subsection \<open>Pointers to characters\<close>

text \<open>
  A \<open>const char*\<close> points into memory, or into a string literal of the program
  text, whose bytes no code writes. Reading past the terminator of a literal,
  which the code never does, is read as zero.
\<close>

datatype cptr = Mem u32 | Lit "u8 list" nat

fun ld :: "memory \<Rightarrow> cptr \<Rightarrow> u8" where
  "ld m (Mem a) = m a"
| "ld m (Lit bs i) = (if i < length bs then bs ! i else 0)"

fun padd :: "cptr \<Rightarrow> nat \<Rightarrow> cptr" where
  "padd (Mem a) n = Mem (a + of_nat n)"
| "padd (Lit bs i) n = Lit bs (i + n)"

definition lit :: "string \<Rightarrow> cptr" where
  "lit s = Lit (bytes_of s) 0"

lemma padd_0 [simp]: "padd p 0 = p"
  by (cases p) auto

lemma padd_padd [simp]: "padd (padd p i) j = padd p (i + j)"
  by (cases p) (auto simp: algebra_simps)

end
