(* ===== verification/CString.thy ===== *)
theory CString
  imports Memory
begin

section \<open>CString: the string library (fake_libc/string.c)\<close>

text \<open>
  The functions of string.c that neither allocate nor keep state. A loop over a
  C string may run for ever when no terminator is found, so it is a
  \<open>partial_function (option)\<close>: \<open>None\<close> is "does not return". The loops over a
  byte count are recursive on the count. \<open>cstr m p s\<close> says that \<open>p\<close> points
  to the string \<open>s\<close> in memory \<open>m\<close>.
\<close>

subsection \<open>Operations\<close>

partial_function (option) strlen_loop :: "memory \<Rightarrow> cptr \<Rightarrow> u32 \<Rightarrow> u32 option" where
  "strlen_loop m s len =
     (if ld m s \<noteq> 0 then strlen_loop m (padd s 1) (len + 1) else Some len)"

definition strlen :: "memory \<Rightarrow> cptr \<Rightarrow> u32 option" where
  "strlen m s = strlen_loop m s 0"

partial_function (option) strcmp :: "memory \<Rightarrow> cptr \<Rightarrow> cptr \<Rightarrow> int option" where
  "strcmp m s1 s2 =
     (if ld m s1 \<noteq> 0 \<and> ld m s1 = ld m s2 then strcmp m (padd s1 1) (padd s2 1)
      else Some (uint (ld m s1) - uint (ld m s2)))"

partial_function (option) strcpy_loop :: "memory \<Rightarrow> u32 \<Rightarrow> cptr \<Rightarrow> memory option" where
  "strcpy_loop m dest_ptr src =
     (let c = ld m src; m' = m(dest_ptr := c)
      in if c \<noteq> 0 then strcpy_loop m' (dest_ptr + 1) (padd src 1) else Some m')"

definition strcpy :: "memory \<Rightarrow> u32 \<Rightarrow> cptr \<Rightarrow> (u32 \<times> memory) option" where
  "strcpy m dest src = do { m' \<leftarrow> strcpy_loop m dest src; Some (dest, m') }"

fun memcpy_loop :: "memory \<Rightarrow> u32 \<Rightarrow> cptr \<Rightarrow> nat \<Rightarrow> memory" where
  "memcpy_loop m d s 0 = m"
| "memcpy_loop m d s (Suc n) = memcpy_loop (m(d := ld m s)) (d + 1) (padd s 1) n"

definition memcpy :: "memory \<Rightarrow> u32 \<Rightarrow> cptr \<Rightarrow> u32 \<Rightarrow> memory" where
  "memcpy m dest src n = memcpy_loop m dest src (unat n)"

fun memset_loop :: "memory \<Rightarrow> u32 \<Rightarrow> u8 \<Rightarrow> nat \<Rightarrow> memory" where
  "memset_loop m d c 0 = m"
| "memset_loop m d c (Suc n) = memset_loop (m(d := c)) (d + 1) c n"

definition memset :: "memory \<Rightarrow> u32 \<Rightarrow> i32 \<Rightarrow> u32 \<Rightarrow> memory" where
  "memset m dest c n = memset_loop m dest (ucast c) (unat n)"

fun memmove_back :: "memory \<Rightarrow> u32 \<Rightarrow> u32 \<Rightarrow> nat \<Rightarrow> memory" where
  "memmove_back m d s 0 = m"
| "memmove_back m d s (Suc n) = memmove_back (m(d - 1 := m (s - 1))) (d - 1) (s - 1) n"

definition memmove :: "memory \<Rightarrow> u32 \<Rightarrow> u32 \<Rightarrow> u32 \<Rightarrow> memory" where
  "memmove m dest src n =
     (if dest < src \<or> src + n \<le> dest then memcpy_loop m dest (Mem src) (unat n)
      else memmove_back m (dest + n) (src + n) (unat n))"

text \<open>
  The condition of the loop of \<open>strncmp\<close> is \<open>n-- > 0 && *s1 && *s2\<close>: the
  decrement happens whenever the condition is evaluated, also when it then
  fails, and wraps at zero.
\<close>

partial_function (option) strncmp_loop :: "memory \<Rightarrow> cptr \<Rightarrow> cptr \<Rightarrow> u32 \<Rightarrow> int option" where
  "strncmp_loop m s1 s2 n =
     (let n' = n - 1
      in if n > 0 \<and> ld m s1 \<noteq> 0 \<and> ld m s2 \<noteq> 0
         then if ld m s1 \<noteq> ld m s2 then Some (uint (ld m s1) - uint (ld m s2))
              else strncmp_loop m (padd s1 1) (padd s2 1) n'
         else if n' > 0
              then if ld m s1 \<noteq> 0 then Some 1 else if ld m s2 \<noteq> 0 then Some (- 1) else Some 0
              else Some 0)"

definition strncmp :: "memory \<Rightarrow> cptr \<Rightarrow> cptr \<Rightarrow> u32 \<Rightarrow> int option" where
  "strncmp m s1 s2 n = (if n = 0 then Some 0 else strncmp_loop m s1 s2 n)"

text \<open>The null pointer is address 0.\<close>

partial_function (option) strchr :: "memory \<Rightarrow> cptr \<Rightarrow> u8 \<Rightarrow> cptr option" where
  "strchr m s c =
     (if ld m s \<noteq> 0 then if ld m s = c then Some s else strchr m (padd s 1) c
      else if c = 0 then Some s else Some (Mem 0))"

subsection \<open>Strings in memory\<close>

definition cstr :: "memory \<Rightarrow> cptr \<Rightarrow> u8 list \<Rightarrow> bool" where
  "cstr m p s \<longleftrightarrow> 0 \<notin> set s \<and> (\<forall>i<length s. ld m (padd p i) = s ! i) \<and>
     ld m (padd p (length s)) = 0"

definition rd_chars :: "memory \<Rightarrow> cptr \<Rightarrow> nat \<Rightarrow> u8 list" where
  "rd_chars m p n = map (\<lambda>i. ld m (padd p i)) [0..<n]"

lemma length_rd_chars [simp]: "length (rd_chars m p n) = n"
  by (simp add: rd_chars_def)

lemma rd_chars_Mem [simp]: "rd_chars m (Mem a) n = rd_bytes m a n"
  by (simp add: rd_chars_def rd_bytes_def)

lemma rd_chars_Suc: "rd_chars m p (Suc n) = ld m p # rd_chars m (padd p 1) n"
  unfolding rd_chars_def upt_conv_Cons [OF zero_less_Suc]
  by (simp add: map_Suc_upt [symmetric] del: map_Suc_upt upt_Suc)

lemma cstr_Nil: "cstr m p [] \<longleftrightarrow> ld m p = 0"
  by (simp add: cstr_def)

lemma cstr_Cons: "cstr m p (c # s) \<longleftrightarrow> c \<noteq> 0 \<and> ld m p = c \<and> cstr m (padd p 1) s"
  by (auto simp: cstr_def nth_Cons' less_Suc_eq_0_disj All_less_Suc2)

lemma cstr_nonzero: "cstr m p s \<Longrightarrow> 0 \<notin> set s"
  by (simp add: cstr_def)

lemma cstr_lit: "0 \<notin> set (bytes_of s) \<Longrightarrow> cstr m (lit s) (bytes_of s)"
  by (simp add: cstr_def lit_def)

lemma cstr_unique: "cstr m p s \<Longrightarrow> cstr m p t \<Longrightarrow> s = t"
proof (induction s arbitrary: p t)
  case Nil
  then show ?case by (cases t) (auto simp: cstr_Nil cstr_Cons)
next
  case (Cons c s)
  then show ?case by (cases t) (auto simp: cstr_Nil cstr_Cons)
qed

subsection \<open>What the functions compute\<close>

lemma strlen_loop_cstr:
  "cstr m p s \<Longrightarrow> strlen_loop m p len = Some (len + of_nat (length s))"
proof (induction s arbitrary: p len)
  case Nil
  then show ?case by (simp add: strlen_loop.simps cstr_Nil)
next
  case (Cons c s)
  then show ?case
    by (subst strlen_loop.simps) (simp add: cstr_Cons algebra_simps)
qed

lemma strlen_cstr: "cstr m p s \<Longrightarrow> strlen m p = Some (of_nat (length s))"
  by (simp add: strlen_def strlen_loop_cstr)

text \<open>A result of \<open>strlen\<close> is always the distance to a terminator.\<close>

lemma strlen_loop_SomeD:
  "strlen_loop m p len = Some n \<Longrightarrow> \<exists>s. cstr m p s \<and> n = len + of_nat (length s)"
proof (rule strlen_loop.raw_induct
    [where P = "\<lambda>m p len n. \<exists>s. cstr m p s \<and> n = len + of_nat (length s)"])
  fix f m p len n
  assume IH: "\<And>m p len n. f m p len = Some n \<Longrightarrow>
      \<exists>s. cstr m p s \<and> n = len + of_nat (length s)"
    and eq: "(if ld m p \<noteq> 0 then f m (padd p 1) (len + 1) else Some len) = Some n"
  show "\<exists>s. cstr m p s \<and> n = len + of_nat (length s)"
  proof (cases "ld m p = 0")
    case True
    with eq have "cstr m p [] \<and> n = len + of_nat (length [])" by (simp add: cstr_Nil)
    then show ?thesis ..
  next
    case False
    with eq IH obtain s where "cstr m (padd p 1) s" "n = len + 1 + of_nat (length s)"
      by fastforce
    with False have "cstr m p (ld m p # s) \<and> n = len + of_nat (length (ld m p # s))"
      by (simp add: cstr_Cons algebra_simps)
    then show ?thesis ..
  qed
qed

text \<open>Sign of the comparison of two byte strings, as the C standard gives it.\<close>

fun str_order :: "u8 list \<Rightarrow> u8 list \<Rightarrow> int" where
  "str_order [] [] = 0"
| "str_order [] (d # t) = - uint d"
| "str_order (c # s) [] = uint c"
| "str_order (c # s) (d # t) = (if c = d then str_order s t else uint c - uint d)"

lemma strcmp_cstr: "cstr m p s \<Longrightarrow> cstr m q t \<Longrightarrow> strcmp m p q = Some (str_order s t)"
proof (induction s t arbitrary: p q rule: str_order.induct)
  case (4 c s d t)
  then show ?case by (subst strcmp.simps) (auto simp: cstr_Cons)
qed (subst strcmp.simps, auto simp: cstr_Nil cstr_Cons)+

lemma str_order_eq_0:
  "0 \<notin> set s \<Longrightarrow> 0 \<notin> set t \<Longrightarrow> str_order s t = 0 \<longleftrightarrow> s = t"
  by (induction s t rule: str_order.induct) (auto simp: word_uint_eq_iff)

lemma str_order_less_0:
  "0 \<notin> set s \<Longrightarrow> 0 \<notin> set t \<Longrightarrow> str_order s t < 0 \<longleftrightarrow> ord_class.lexordp s t"
proof (induction s t rule: str_order.induct)
  case (2 d t)
  then have "0 < uint d" by (simp add: word_neq_0_conv word_less_def)
  then show ?case by simp
next
  case (4 c s d t)
  then show ?case by (auto simp: word_less_def word_uint_eq_iff)
qed auto

lemma strcmp_eq_0:
  "cstr m p s \<Longrightarrow> cstr m q t \<Longrightarrow> strcmp m p q = Some r \<Longrightarrow> r = 0 \<longleftrightarrow> s = t"
  using str_order_eq_0 [of s t] by (simp add: strcmp_cstr) (metis cstr_nonzero)

lemma strchr_cstr:
  assumes "cstr m p s" "c \<noteq> 0"
  shows "strchr m p c = Some (if c \<in> set s
     then padd p (length (takeWhile (\<lambda>x. x \<noteq> c) s)) else Mem 0)"
  using assms
proof (induction s arbitrary: p)
  case Nil
  then show ?case by (subst strchr.simps) (simp add: cstr_Nil)
next
  case (Cons x s)
  then show ?case by (subst strchr.simps) (auto simp: cstr_Cons)
qed

lemma strchr_0_cstr: "cstr m p s \<Longrightarrow> strchr m p 0 = Some (padd p (length s))"
proof (induction s arbitrary: p)
  case Nil
  then show ?case by (subst strchr.simps) (simp add: cstr_Nil)
next
  case (Cons x s)
  then show ?case by (subst strchr.simps) (auto simp: cstr_Cons)
qed

subsection \<open>Copying and filling\<close>

lemma rd_chars_cong:
  "(\<And>i. i < n \<Longrightarrow> ld m' (padd p i) = ld m (padd p i)) \<Longrightarrow> rd_chars m' p n = rd_chars m p n"
  by (simp add: rd_chars_def)

lemma ld_upd: "p \<noteq> Mem a \<Longrightarrow> ld (m(a := v)) p = ld m p"
  by (cases p) auto

text \<open>
  Copying upwards is right when no source byte is overwritten before it is
  read: no destination address meets a later source address.
\<close>

lemma memcpy_loop_wr_bytes:
  assumes "n \<le> 2 ^ 32" "\<And>i j. j < i \<Longrightarrow> i < n \<Longrightarrow> padd p i \<noteq> Mem (d + of_nat j)"
  shows "memcpy_loop m d p n = wr_bytes m d (rd_chars m p n)"
  using assms
proof (induction n arbitrary: m d p)
  case 0
  then show ?case by (simp add: rd_chars_def)
next
  case (Suc n)
  let ?m = "m(d := ld m p)"
  have ap: "padd (padd p 1) i \<noteq> Mem (d + 1 + of_nat j)" if "j < i" "i < n" for i j
    using Suc.prems(2) [of "Suc j" "Suc i"] that by (simp add: algebra_simps)
  have "memcpy_loop m d p (Suc n) = memcpy_loop ?m (d + 1) (padd p 1) n" by simp
  also have "\<dots> = wr_bytes ?m (d + 1) (rd_chars ?m (padd p 1) n)"
    using Suc.prems(1) ap by (intro Suc.IH) auto
  also have "rd_chars ?m (padd p 1) n = rd_chars m (padd p 1) n"
    using Suc.prems(2) [of 0] by (intro rd_chars_cong ld_upd) simp
  also have "wr_bytes ?m (d + 1) (rd_chars m (padd p 1) n) = wr_bytes m d (rd_chars m p (Suc n))"
    using Suc.prems(1) by (simp add: wr_bytes_Cons rd_chars_Suc)
  finally show ?case .
qed

lemma memcpy_wr_bytes:
  assumes "\<And>i j. j < i \<Longrightarrow> i < unat n \<Longrightarrow> padd p i \<noteq> Mem (d + of_nat j)"
  shows "memcpy m d p n = wr_bytes m d (rd_chars m p (unat n))"
  unfolding memcpy_def using assms unat_u32_lt [of n] by (intro memcpy_loop_wr_bytes) auto

lemma memcpy_lit: "memcpy m d (Lit bs i) n = wr_bytes m d (rd_chars m (Lit bs i) (unat n))"
  by (rule memcpy_wr_bytes) simp

lemma memcpy_disj:
  assumes "d + n \<le> 2 ^ 32" "s + n \<le> 2 ^ 32" "disj s n d n" "n < 2 ^ 32"
  shows "memcpy m (of_nat d) (Mem (of_nat s)) (of_nat n) =
     wr_bytes m (of_nat d) (rd_bytes m (of_nat s) n)"
proof -
  have "memcpy m (of_nat d) (Mem (of_nat s)) (of_nat n) =
      wr_bytes m (of_nat d) (rd_chars m (Mem (of_nat s)) (unat (of_nat n :: u32)))"
  proof (rule memcpy_wr_bytes)
    fix i j assume "j < i" "i < unat (of_nat n :: u32)"
    with assms have "(of_nat (s + i) :: u32) \<noteq> of_nat (d + j)"
      by (subst of_nat_u32_eq) (auto simp: disj_def unat_of_nat_u32)
    then show "padd (Mem (of_nat s)) i \<noteq> Mem (of_nat d + of_nat j)" by simp
  qed
  with assms(4) show ?thesis by (simp add: unat_of_nat_u32)
qed

lemma memset_loop_wr_bytes:
  "n \<le> 2 ^ 32 \<Longrightarrow> memset_loop m d c n = wr_bytes m d (replicate n c)"
proof (induction n arbitrary: m d)
  case (Suc n)
  then have "memset_loop m d c (Suc n) = wr_bytes (m(d := c)) (d + 1) (replicate n c)" by simp
  with Suc.prems show ?case by (simp add: wr_bytes_Cons)
qed simp

lemma memset_wr_bytes: "memset m d c n = wr_bytes m d (replicate (unat n) (ucast c))"
  using unat_u32_lt [of n] by (simp add: memset_def memset_loop_wr_bytes)

lemma wr_bytes_snoc:
  assumes "length bs < 2 ^ 32"
  shows "wr_bytes (m(a + of_nat (length bs) := b)) a bs = wr_bytes m a (bs @ [b])"
proof
  fix x :: u32
  show "wr_bytes (m(a + of_nat (length bs) := b)) a bs x = wr_bytes m a (bs @ [b]) x"
  proof (cases "x = a + of_nat (length bs)")
    case True
    with assms have "unat (x - a) = length bs" by (simp add: unat_of_nat_u32)
    with True show ?thesis by (simp add: wr_bytes_def nth_append)
  next
    case False
    have "unat (x - a) \<noteq> length bs"
    proof
      assume "unat (x - a) = length bs"
      then have "x - a = of_nat (length bs)" by (metis of_nat_unat_u32)
      with False show False by (simp add: algebra_simps)
    qed
    with False show ?thesis by (auto simp: wr_bytes_def nth_append less_Suc_eq)
  qed
qed

lemma rd_bytes_Suc: "rd_bytes m a (Suc n) = rd_bytes m a n @ [m (a + of_nat n)]"
  by (simp add: rd_bytes_def)

lemma rd_bytes_cong:
  "(\<And>i. i < n \<Longrightarrow> m' (a + of_nat i) = m (a + of_nat i)) \<Longrightarrow> rd_bytes m' a n = rd_bytes m a n"
  by (simp add: rd_bytes_def)

lemma memmove_back_wr_bytes:
  assumes "n \<le> 2 ^ 32"
    and "\<And>i j. i < j \<Longrightarrow> j < n \<Longrightarrow> s + of_nat i \<noteq> d + of_nat j"
  shows "memmove_back m (d + of_nat n) (s + of_nat n) n = wr_bytes m d (rd_bytes m s n)"
  using assms
proof (induction n arbitrary: m)
  case 0
  then show ?case by (simp add: rd_bytes_def)
next
  case (Suc n)
  let ?m = "m(d + of_nat n := m (s + of_nat n))"
  have "memmove_back m (d + of_nat (Suc n)) (s + of_nat (Suc n)) (Suc n) =
      memmove_back ?m (d + of_nat n) (s + of_nat n) n"
    by (simp add: algebra_simps)
  also have "\<dots> = wr_bytes ?m d (rd_bytes ?m s n)"
    using Suc.prems by (intro Suc.IH) auto
  also have "rd_bytes ?m s n = rd_bytes m s n"
    using Suc.prems(2) [of _ n] by (intro rd_bytes_cong) simp
  also have "wr_bytes ?m d (rd_bytes m s n) = wr_bytes m d (rd_bytes m s (Suc n))"
    using wr_bytes_snoc [of "rd_bytes m s n" m d] Suc.prems(1) by (simp add: rd_bytes_Suc)
  finally show ?case .
qed

lemma memmove_wr_bytes:
  assumes "unat src + unat n < 2 ^ 32" "unat dest + unat n \<le> 2 ^ 32"
  shows "memmove m dest src n = wr_bytes m dest (rd_bytes m src (unat n))"
proof -
  have ne: "src + of_nat i \<noteq> dest + of_nat j"
    if "i < unat n" "j < unat n" "unat src + i \<noteq> unat dest + j" for i j
    using that assms of_nat_u32_eq [of "unat src + i" "unat dest + j"] by simp
  have end_src: "unat (src + n) = unat src + unat n"
    using assms(1) by (simp add: unat_word_ariths)
  show ?thesis
  proof (cases "dest < src \<or> src + n \<le> dest")
    case True
    have "memcpy_loop m dest (Mem src) (unat n) = wr_bytes m dest (rd_chars m (Mem src) (unat n))"
    proof (rule memcpy_loop_wr_bytes)
      fix i j assume "j < i" "i < unat n"
      with True end_src have "unat src + i \<noteq> unat dest + j"
        by (auto simp: word_less_nat_alt word_le_nat_alt)
      with \<open>j < i\<close> \<open>i < unat n\<close> ne [of i j] show "padd (Mem src) i \<noteq> Mem (dest + of_nat j)"
        by simp
    qed (use unat_u32_lt [of n] in simp)
    with True show ?thesis by (simp add: memmove_def)
  next
    case False
    have "memmove_back m (dest + of_nat (unat n)) (src + of_nat (unat n)) (unat n)
        = wr_bytes m dest (rd_bytes m src (unat n))"
    proof (rule memmove_back_wr_bytes)
      fix i j assume "i < j" "j < unat n"
      with False have "unat src + i \<noteq> unat dest + j"
        by (auto simp: word_less_nat_alt)
      with \<open>i < j\<close> \<open>j < unat n\<close> ne [of i j] show "src + of_nat i \<noteq> dest + of_nat j"
        by simp
    qed (use unat_u32_lt [of n] in simp)
    with False show ?thesis by (simp add: memmove_def)
  qed
qed

lemma strcpy_loop_cstr:
  assumes "cstr m p s" "length s < 2 ^ 32"
    and "\<And>i j. j < i \<Longrightarrow> i \<le> length s \<Longrightarrow> padd p i \<noteq> Mem (d + of_nat j)"
  shows "strcpy_loop m d p = Some (wr_bytes m d (s @ [0]))"
  using assms
proof (induction s arbitrary: m d p)
  case Nil
  then show ?case
    using wr_bytes_Cons [of "[]" m d 0] by (subst strcpy_loop.simps) (simp add: cstr_Nil)
next
  case (Cons c s)
  let ?m = "m(d := c)"
  have ap: "padd (padd p 1) i \<noteq> Mem (d + 1 + of_nat j)" if "j < i" "i \<le> length s" for i j
    using Cons.prems(3) [of "Suc j" "Suc i"] that by (simp add: algebra_simps)
  have keep: "ld ?m (padd (padd p 1) i) = ld m (padd (padd p 1) i)" if "i \<le> length s" for i
    using Cons.prems(3) [of 0 "Suc i"] that by (intro ld_upd) simp
  from Cons.prems(1) have c: "c \<noteq> 0" "ld m p = c" and "cstr m (padd p 1) s"
    by (simp_all add: cstr_Cons)
  then have cs: "cstr ?m (padd p 1) s" using keep unfolding cstr_def by (simp del: fun_upd_apply)
  then have "strcpy_loop ?m (d + 1) (padd p 1) = Some (wr_bytes ?m (d + 1) (s @ [0]))"
    using Cons.prems(2) ap by (intro Cons.IH [OF cs]) simp_all
  with c Cons.prems(2) show ?case
    by (subst strcpy_loop.simps) (simp add: wr_bytes_Cons)
qed

text \<open>
  \<open>strncmp\<close> when its first \<open>n\<close> characters agree and neither string ends among
  them: the counter has wrapped below zero when the loop ends, so the function
  goes on to compare character \<open>n\<close>.
\<close>

lemma strncmp_loop_wrap:
  assumes "cstr m p s" "cstr m q t" "n \<le> length s" "n \<le> length t" "take n s = take n t"
    "n < 2 ^ 32"
  shows "strncmp_loop m p q (of_nat n) =
     Some (if n < length s then 1 else if n < length t then - 1 else 0)"
  using assms
proof (induction n arbitrary: p q s t)
  case 0
  then show ?case
    by (cases s; cases t) (simp_all add: strncmp_loop.simps cstr_Nil cstr_Cons word_gt_0)
next
  case (Suc n)
  then obtain c s' d t' where st: "s = c # s'" "t = d # t'" by (cases s; cases t) auto
  with Suc.prems have "strncmp_loop m (padd p 1) (padd q 1) (of_nat n) =
      Some (if n < length s' then 1 else if n < length t' then - 1 else 0)"
    by (intro Suc.IH) (auto simp: cstr_Cons)
  moreover have "(of_nat (Suc n) :: u32) > 0"
    using Suc.prems of_nat_u32_less [of 0 "Suc n"] by simp
  ultimately show ?case
    using Suc.prems st by (subst strncmp_loop.simps) (auto simp: cstr_Cons)
qed

end
