(* ===== verification/Terminal.thy ===== *)
theory Terminal
  imports CString
begin

section \<open>Terminal: the VGA text console (kernel/kernel.c)\<close>

text \<open>
  The console's state is the cursor, the current colour and the text buffer at
  physical address 0xB8000, a map from cell index to entry; the loops of the
  code are folds over their index range. The record begins with the memory,
  because the text written is read from it. The invariant says that the cursor
  is on the screen, and every write that goes through the cursor keeps it and
  stays inside the 80 x 25 cells.
\<close>

subsection \<open>State and operations\<close>

record term_state =
  mem :: memory
  terminal_row :: u32
  terminal_column :: u32
  terminal_color :: u8
  terminal_buffer :: "u32 \<Rightarrow> u16"

abbreviation "VGA_WIDTH \<equiv> 80 :: u32"
abbreviation "VGA_HEIGHT \<equiv> 25 :: u32"

datatype vga_color = VGA_COLOR_BLACK | VGA_COLOR_BLUE | VGA_COLOR_GREEN | VGA_COLOR_CYAN
  | VGA_COLOR_RED | VGA_COLOR_MAGENTA | VGA_COLOR_BROWN | VGA_COLOR_LIGHT_GREY
  | VGA_COLOR_DARK_GREY | VGA_COLOR_LIGHT_BLUE | VGA_COLOR_LIGHT_GREEN | VGA_COLOR_LIGHT_CYAN
  | VGA_COLOR_LIGHT_RED | VGA_COLOR_LIGHT_MAGENTA | VGA_COLOR_LIGHT_BROWN | VGA_COLOR_WHITE

fun vga_code :: "vga_color \<Rightarrow> u8" where
  "vga_code VGA_COLOR_BLACK = 0"
| "vga_code VGA_COLOR_BLUE = 1"
| "vga_code VGA_COLOR_GREEN = 2"
| "vga_code VGA_COLOR_CYAN = 3"
| "vga_code VGA_COLOR_RED = 4"
| "vga_code VGA_COLOR_MAGENTA = 5"
| "vga_code VGA_COLOR_BROWN = 6"
| "vga_code VGA_COLOR_LIGHT_GREY = 7"
| "vga_code VGA_COLOR_DARK_GREY = 8"
| "vga_code VGA_COLOR_LIGHT_BLUE = 9"
| "vga_code VGA_COLOR_LIGHT_GREEN = 10"
| "vga_code VGA_COLOR_LIGHT_CYAN = 11"
| "vga_code VGA_COLOR_LIGHT_RED = 12"
| "vga_code VGA_COLOR_LIGHT_MAGENTA = 13"
| "vga_code VGA_COLOR_LIGHT_BROWN = 14"
| "vga_code VGA_COLOR_WHITE = 15"

definition vga_entry_color :: "vga_color \<Rightarrow> vga_color \<Rightarrow> u8" where
  "vga_entry_color fg bg = vga_code fg OR push_bit 4 (vga_code bg)"

definition vga_entry :: "u8 \<Rightarrow> u8 \<Rightarrow> u16" where
  "vga_entry uc color = ucast uc OR push_bit 8 (ucast color)"

definition terminal_setcolor :: "u8 \<Rightarrow> 'a term_state_scheme \<Rightarrow> 'a term_state_scheme" where
  "terminal_setcolor color s = s\<lparr>terminal_color := color\<rparr>"

definition terminal_putentryat ::
  "u8 \<Rightarrow> u8 \<Rightarrow> u32 \<Rightarrow> u32 \<Rightarrow> 'a term_state_scheme \<Rightarrow> 'a term_state_scheme" where
  "terminal_putentryat c color x y s =
     (let index = y * VGA_WIDTH + x
      in s\<lparr>terminal_buffer := (terminal_buffer s)(index := vga_entry c color)\<rparr>)"

definition terminal_clear :: "'a term_state_scheme \<Rightarrow> 'a term_state_scheme" where
  "terminal_clear s =
     (let s = fold (\<lambda>y s. fold (\<lambda>x s.
        terminal_putentryat (of_char CHR '' '') (terminal_color s) (of_nat x) (of_nat y) s)
        [0..<80] s) [0..<25] s
      in s\<lparr>terminal_column := 0, terminal_row := 0\<rparr>)"

definition terminal_refresh :: "'a term_state_scheme \<Rightarrow> 'a term_state_scheme" where
  "terminal_refresh s =
     fold (\<lambda>y s. fold (\<lambda>x s.
       let index = of_nat y * VGA_WIDTH + of_nat x; oc = terminal_buffer s index
       in terminal_putentryat (ucast oc) (terminal_color s) (of_nat x) (of_nat y) s)
       [0..<80] s) [0..<25] s"

definition terminal_advance_row :: "'a term_state_scheme \<Rightarrow> 'a term_state_scheme" where
  "terminal_advance_row s =
     (let s = s\<lparr>terminal_row := terminal_row s + 1\<rparr>;
          s = (if terminal_row s = VGA_HEIGHT then terminal_clear (s\<lparr>terminal_row := 0\<rparr>) else s)
      in s\<lparr>terminal_column := 0\<rparr>)"

definition terminal_putchar :: "u8 \<Rightarrow> 'a term_state_scheme \<Rightarrow> 'a term_state_scheme" where
  "terminal_putchar c s =
     (if c = 0x0A then terminal_advance_row s
      else
        let s = terminal_putentryat c (terminal_color s) (terminal_column s) (terminal_row s) s;
            s = s\<lparr>terminal_column := terminal_column s + 1\<rparr>
        in if terminal_column s = VGA_WIDTH
           then let s = s\<lparr>terminal_column := 0, terminal_row := terminal_row s + 1\<rparr>
                in if terminal_row s = VGA_HEIGHT then s\<lparr>terminal_row := 0\<rparr> else s
           else s)"

text \<open>The loop of \<open>terminal_write\<close> over the \<open>size\<close> bytes from \<open>data\<close> on.\<close>

fun terminal_write_loop ::
  "cptr \<Rightarrow> nat \<Rightarrow> 'a term_state_scheme \<Rightarrow> 'a term_state_scheme" where
  "terminal_write_loop data 0 s = s"
| "terminal_write_loop data (Suc n) s =
     (let c = ld (mem s) data
      in terminal_write_loop (padd data 1) n
           (if c = 0x0A then terminal_advance_row s else terminal_putchar c s))"

definition terminal_write :: "cptr \<Rightarrow> u32 \<Rightarrow> 'a term_state_scheme \<Rightarrow> 'a term_state_scheme" where
  "terminal_write data sz s = terminal_write_loop data (unat sz) s"

definition terminal_writestring ::
  "cptr \<Rightarrow> 'a term_state_scheme \<Rightarrow> 'a term_state_scheme option" where
  "terminal_writestring data s =
     do { len \<leftarrow> strlen (mem s) data; Some (terminal_write data len s) }"

text \<open>
  The digits of \<open>terminal_writeint\<close>, least significant first, as the code
  stores them in its buffer before printing it backwards. Negating the least
  \<open>int\<close> wraps to itself.
\<close>

fun writeint_digits :: "nat \<Rightarrow> u8 list" where
  "writeint_digits num =
     (if num > 0 then (of_nat (num mod 10) + 48) # writeint_digits (num div 10) else [])"

declare writeint_digits.simps [simp del]

definition terminal_writeint :: "i32 \<Rightarrow> 'a term_state_scheme \<Rightarrow> 'a term_state_scheme" where
  "terminal_writeint num s =
     (if num = 0 then terminal_putchar (of_char CHR ''0'') s
      else
        let (num, s) = (if sint num < 0 then (- num, terminal_putchar (of_char CHR ''-'') s)
                        else (num, s))
        in fold terminal_putchar (rev (writeint_digits (nat (sint num)))) s)"

definition init_terminal :: "'a term_state_scheme \<Rightarrow> 'a term_state_scheme option" where
  "init_terminal s =
     (let s = s\<lparr>terminal_row := 0, terminal_column := 0,
                terminal_color := vga_entry_color VGA_COLOR_LIGHT_GREY VGA_COLOR_BLACK\<rparr>;
          s = fold (\<lambda>y s. fold (\<lambda>x s.
            let index = of_nat y * VGA_WIDTH + of_nat x
            in s\<lparr>terminal_buffer :=
                 (terminal_buffer s)(index := vga_entry (of_char CHR '' '') (terminal_color s))\<rparr>)
            [0..<80] s) [0..<25] s
      in terminal_writestring (lit ''shompOS>'') s)"

subsection \<open>What the operations leave alone\<close>

text \<open>Only the cursor and the text buffer change.\<close>

definition term_frame :: "'a term_state_scheme \<Rightarrow> 'a term_state_scheme \<Rightarrow> bool" where
  "term_frame s s' \<longleftrightarrow> mem s' = mem s \<and> terminal_color s' = terminal_color s \<and>
     term_state.more s' = term_state.more s"

lemma term_frame_refl [simp, intro]: "term_frame s s"
  by (simp add: term_frame_def)

lemma term_frame_trans [trans]: "term_frame s s' \<Longrightarrow> term_frame s' s'' \<Longrightarrow> term_frame s s''"
  by (simp add: term_frame_def)

lemma term_frame_state:
  "term_frame s s' \<Longrightarrow> s' = s\<lparr>terminal_row := terminal_row s',
     terminal_column := terminal_column s', terminal_buffer := terminal_buffer s'\<rparr>"
  by (simp add: term_frame_def)

lemma fold_preserves:
  assumes "\<And>s. R s s" "\<And>s t u. R s t \<Longrightarrow> R t u \<Longrightarrow> R s u" "\<And>x s. x \<in> set xs \<Longrightarrow> R s (f x s)"
  shows "R s (fold f xs s)"
  using assms(3)
proof (induction xs arbitrary: s)
  case (Cons x xs)
  then have "R s (f x s)" "R (f x s) (fold f xs (f x s))" by auto
  with assms(2) show ?case by auto
qed (simp add: assms(1))

lemma term_frame_fold:
  "(\<And>x s. x \<in> set xs \<Longrightarrow> term_frame s (f x s)) \<Longrightarrow> term_frame s (fold f xs s)"
  by (rule fold_preserves) (auto intro: term_frame_trans)

lemma term_frame_putentryat [intro]: "term_frame s (terminal_putentryat c color x y s)"
  by (simp add: terminal_putentryat_def Let_def term_frame_def)

lemma term_frame_clear [intro]: "term_frame s (terminal_clear s)"
proof -
  have "term_frame s (fold (\<lambda>y s. fold (\<lambda>x s.
        terminal_putentryat (of_char CHR '' '') (terminal_color s) (of_nat x) (of_nat y) s)
        [0..<80] s) [0..<25] s)"
    by (intro term_frame_fold term_frame_putentryat)
  then show ?thesis by (simp add: terminal_clear_def Let_def term_frame_def)
qed

lemma term_frame_advance_row [intro]: "term_frame s (terminal_advance_row s)"
  using term_frame_clear [of "s\<lparr>terminal_row := 0\<rparr>"]
  by (simp add: terminal_advance_row_def Let_def term_frame_def)

lemma term_frame_putchar [intro]: "term_frame s (terminal_putchar c s)"
  using term_frame_advance_row [of s]
  by (simp add: terminal_putchar_def terminal_putentryat_def Let_def term_frame_def)

lemma term_frame_write_loop [intro]: "term_frame s (terminal_write_loop data n s)"
proof (induction n arbitrary: data s)
  case (Suc n)
  let ?s = "if ld (mem s) data = 0x0A then terminal_advance_row s
    else terminal_putchar (ld (mem s) data) s"
  have "term_frame s ?s" by auto
  also have "term_frame ?s (terminal_write_loop (padd data 1) n ?s)" by (rule Suc.IH)
  finally show ?case by (simp add: Let_def)
qed simp

lemma term_frame_writestring:
  "terminal_writestring data s = Some s' \<Longrightarrow> term_frame s s'"
  by (auto simp: terminal_writestring_def terminal_write_def bind_eq_Some_conv)

lemma term_frame_writeint: "term_frame s (terminal_writeint num s)"
proof -
  have "term_frame t (fold terminal_putchar cs t)" for t and cs
    by (intro term_frame_fold term_frame_putchar)
  then show ?thesis
    by (auto simp: terminal_writeint_def Let_def intro: term_frame_trans [OF term_frame_putchar])
qed

lemma terminal_writestring_cstr:
  "cstr (mem s) p bs \<Longrightarrow> length bs < 2 ^ 32 \<Longrightarrow>
     terminal_writestring p s = Some (terminal_write_loop p (length bs) s)"
  by (simp add: terminal_writestring_def strlen_cstr terminal_write_def unat_of_nat_u32)

subsection \<open>Staying on the screen\<close>

definition on_screen :: "'a term_state_scheme \<Rightarrow> bool" where
  "on_screen s \<longleftrightarrow> terminal_row s < VGA_HEIGHT \<and> terminal_column s < VGA_WIDTH"

text \<open>The cells behind the visible 2000 hold what they held.\<close>

definition cells_kept :: "'a term_state_scheme \<Rightarrow> 'a term_state_scheme \<Rightarrow> bool" where
  "cells_kept s s' \<longleftrightarrow> (\<forall>i\<ge>2000. terminal_buffer s' i = terminal_buffer s i)"

lemma cells_kept_refl [simp, intro]: "cells_kept s s"
  by (simp add: cells_kept_def)

lemma cells_kept_trans [trans]: "cells_kept s s' \<Longrightarrow> cells_kept s' s'' \<Longrightarrow> cells_kept s s''"
  by (simp add: cells_kept_def)

lemma cell_index:
  "x < VGA_WIDTH \<Longrightarrow> y < VGA_HEIGHT \<Longrightarrow> unat (y * VGA_WIDTH + x) = unat y * 80 + unat x"
  by (simp add: word_less_nat_alt unat_word_ariths)

lemma cells_kept_putentryat [intro]:
  assumes "x < VGA_WIDTH" "y < VGA_HEIGHT"
  shows "cells_kept s (terminal_putentryat c color x y s)"
  using cell_index [OF assms] assms
  by (auto simp: cells_kept_def terminal_putentryat_def Let_def word_less_nat_alt word_le_nat_alt)

lemma cells_kept_clear [intro]: "cells_kept s (terminal_clear s)"
proof -
  have "cells_kept s (fold (\<lambda>y s. fold (\<lambda>x s.
        terminal_putentryat (of_char CHR '' '') (terminal_color s) (of_nat x) (of_nat y) s)
        [0..<80] s) [0..<25] s)"
    by (rule fold_preserves [where R = cells_kept], simp, erule (1) cells_kept_trans,
        rule fold_preserves [where R = cells_kept], simp, erule (1) cells_kept_trans,
        rule cells_kept_putentryat)
       (auto simp: of_nat_u32_less [of _ 80, simplified] of_nat_u32_less [of _ 25, simplified])
  then show ?thesis by (simp add: terminal_clear_def Let_def cells_kept_def)
qed

lemma on_screen_clear [simp]: "on_screen (terminal_clear s)"
  by (simp add: terminal_clear_def Let_def on_screen_def)

lemma succ_less_u32: "x < n \<Longrightarrow> x + 1 \<noteq> n \<Longrightarrow> x + 1 < (n :: u32)"
  by (metis inc_le order_le_imp_less_or_eq)

lemma advance_row_screen:
  "on_screen s \<Longrightarrow> on_screen (terminal_advance_row s) \<and> cells_kept s (terminal_advance_row s)"
  using cells_kept_clear [of "s\<lparr>terminal_row := 0\<rparr>"] on_screen_clear [of "s\<lparr>terminal_row := 0\<rparr>"]
    succ_less_u32 [of "terminal_row s" VGA_HEIGHT]
  by (simp add: terminal_advance_row_def Let_def on_screen_def cells_kept_def)

lemma putchar_screen:
  assumes "on_screen s"
  shows "on_screen (terminal_putchar c s) \<and> cells_kept s (terminal_putchar c s)"
proof (cases "c = 0x0A")
  case True
  with advance_row_screen [OF assms] show ?thesis by (simp add: terminal_putchar_def)
next
  case False
  have "cells_kept s (terminal_putentryat c (terminal_color s) (terminal_column s) (terminal_row s) s)"
    using assms by (intro cells_kept_putentryat) (simp_all add: on_screen_def)
  moreover from False have "terminal_buffer (terminal_putchar c s) =
      terminal_buffer (terminal_putentryat c (terminal_color s) (terminal_column s) (terminal_row s) s)"
    by (simp add: terminal_putchar_def terminal_putentryat_def Let_def)
  ultimately have "cells_kept s (terminal_putchar c s)" unfolding cells_kept_def by metis
  moreover from False assms succ_less_u32 [of "terminal_row s" VGA_HEIGHT]
    succ_less_u32 [of "terminal_column s" VGA_WIDTH]
  have "on_screen (terminal_putchar c s)"
    by (simp add: terminal_putchar_def terminal_putentryat_def Let_def on_screen_def)
  ultimately show ?thesis by blast
qed

lemma write_loop_screen:
  "on_screen s \<Longrightarrow>
     on_screen (terminal_write_loop data n s) \<and> cells_kept s (terminal_write_loop data n s)"
proof (induction n arbitrary: data s)
  case (Suc n)
  let ?s = "if ld (mem s) data = 0x0A then terminal_advance_row s
    else terminal_putchar (ld (mem s) data) s"
  have "on_screen ?s" "cells_kept s ?s"
    using Suc.prems advance_row_screen [of s] putchar_screen [of s] by auto
  with Suc.IH [of ?s "padd data 1"] show ?case
    by (auto simp: Let_def intro: cells_kept_trans)
qed simp

lemma writestring_screen:
  "terminal_writestring data s = Some s' \<Longrightarrow> on_screen s \<Longrightarrow> on_screen s' \<and> cells_kept s s'"
  using write_loop_screen
  by (auto simp: terminal_writestring_def terminal_write_def bind_eq_Some_conv)

subsection \<open>Plain text lands at the cursor\<close>

definition cursor :: "'a term_state_scheme \<Rightarrow> nat" where
  "cursor s = unat (terminal_row s) * 80 + unat (terminal_column s)"

lemma cursor_less: "on_screen s \<Longrightarrow> cursor s < 2000"
  by (simp add: on_screen_def cursor_def word_less_nat_alt)

text \<open>
  One printable character: the cell under the cursor is set, and the cursor
  moves on by one, from the last cell of the screen back to the first.
\<close>

lemma unat_succ_u32: "x < (n :: u32) \<Longrightarrow> unat (x + 1) = Suc (unat x)"
  using unat_u32_lt [of n] by (simp add: unat_word_ariths word_less_nat_alt)

lemma putchar_plain:
  assumes "on_screen s" "c \<noteq> 0x0A"
  shows "cursor (terminal_putchar c s) = (cursor s + 1) mod 2000"
    and "terminal_buffer (terminal_putchar c s) =
      (terminal_buffer s)(of_nat (cursor s) := vga_entry c (terminal_color s))"
proof -
  have rc: "terminal_row s < VGA_HEIGHT" "terminal_column s < VGA_WIDTH"
    using assms(1) by (simp_all add: on_screen_def)
  then have n: "unat (terminal_row s) < 25" "unat (terminal_column s) < 80"
    by (simp_all add: word_less_nat_alt)
  have r1: "terminal_row s + 1 = VGA_HEIGHT \<longleftrightarrow> unat (terminal_row s) = 24"
    and c1: "terminal_column s + 1 = VGA_WIDTH \<longleftrightarrow> unat (terminal_column s) = 79"
    using unat_succ_u32 [OF rc(1)] unat_succ_u32 [OF rc(2)]
    by (simp_all only: word_unat_eq_iff) simp_all
  show "cursor (terminal_putchar c s) = (cursor s + 1) mod 2000"
    using assms(2) n unat_succ_u32 [OF rc(1)] unat_succ_u32 [OF rc(2)]
    unfolding terminal_putchar_def terminal_putentryat_def Let_def cursor_def
    by (simp add: r1 c1 del: diff_eq_eq eq_diff_eq)
  have "terminal_row s * VGA_WIDTH + terminal_column s = of_nat (cursor s)"
    by (simp add: cursor_def)
  with assms(2) show "terminal_buffer (terminal_putchar c s) =
      (terminal_buffer s)(of_nat (cursor s) := vga_entry c (terminal_color s))"
    by (simp add: terminal_putchar_def terminal_putentryat_def Let_def)
qed

lemma mod_add_2000: "((a + 1) mod 2000 + i) mod 2000 = (a + Suc i) mod (2000 :: nat)"
  by (simp add: mod_add_left_eq)

lemma mod_2000_ne: "a < 2000 \<Longrightarrow> 0 < j \<Longrightarrow> j < 2000 \<Longrightarrow> (a + j) mod 2000 \<noteq> (a :: nat)"
  by (cases "a + j < 2000") (simp_all add: le_mod_geq)

lemma write_loop_plain:
  assumes "on_screen s" "rd_chars (mem s) data n = bs" "0x0A \<notin> set bs" "n \<le> 2000"
  shows "cursor (terminal_write_loop data n s) = (cursor s + n) mod 2000 \<and>
    (\<forall>i<n. terminal_buffer (terminal_write_loop data n s) (of_nat ((cursor s + i) mod 2000)) =
       vga_entry (bs ! i) (terminal_color s)) \<and>
    (\<forall>c. (\<forall>i<n. c \<noteq> of_nat ((cursor s + i) mod 2000)) \<longrightarrow>
       terminal_buffer (terminal_write_loop data n s) c = terminal_buffer s c)"
  using assms
proof (induction n arbitrary: data s bs)
  case 0
  then show ?case using cursor_less [of s] by simp
next
  case (Suc n)
  let ?c = "ld (mem s) data" and ?t = "terminal_putchar (ld (mem s) data) s"
  let ?u = "terminal_write_loop (padd data 1) n ?t"
  obtain bs' where bs: "bs = ?c # bs'" "rd_chars (mem s) (padd data 1) n = bs'"
    using Suc.prems(2) by (auto simp: rd_chars_Suc)
  with Suc.prems(3) have c: "?c \<noteq> 0x0A" and bs'nl: "0x0A \<notin> set bs'" by auto
  have u: "terminal_write_loop data (Suc n) s = ?u" using c by simp
  have fr: "mem ?t = mem s" "terminal_color ?t = terminal_color s"
    using term_frame_putchar [of s ?c] by (simp_all add: term_frame_def)
  note pc = putchar_plain [OF Suc.prems(1) c]
  have IH: "cursor ?u = (cursor ?t + n) mod 2000"
    "\<forall>i<n. terminal_buffer ?u (of_nat ((cursor ?t + i) mod 2000)) =
       vga_entry (bs' ! i) (terminal_color s)"
    "\<forall>c. (\<forall>i<n. c \<noteq> of_nat ((cursor ?t + i) mod 2000)) \<longrightarrow>
       terminal_buffer ?u c = terminal_buffer ?t c"
    using Suc.IH [of ?t "padd data 1" bs'] putchar_screen [OF Suc.prems(1), of ?c] bs(2) bs'nl
      Suc.prems(4) fr by simp_all
  note IH' = IH [unfolded pc(1) mod_add_2000] and buf = pc(2)
  have curs: "(cursor s + 0) mod 2000 = cursor s" using cursor_less [OF Suc.prems(1)] by simp
  have first: "(of_nat (cursor s) :: u32) \<noteq> of_nat ((cursor s + Suc i) mod 2000)" if "i < n" for i
  proof -
    have "(cursor s + Suc i) mod 2000 \<noteq> cursor s"
      using that Suc.prems(4) cursor_less [OF Suc.prems(1)]
      by (intro mod_2000_ne) auto
    moreover have "(cursor s + Suc i) mod 2000 < 2 ^ 32"
      by (rule less_le_trans [OF mod_less_divisor]) simp_all
    ultimately show ?thesis
      using cursor_less [OF Suc.prems(1)] of_nat_u32_eq [of "cursor s"] by auto
  qed
  have cell0: "terminal_buffer ?u (of_nat (cursor s)) = vga_entry ?c (terminal_color s)"
    using IH'(3) [rule_format, of "of_nat (cursor s)"] first unfolding buf by simp
  show ?case unfolding u
  proof (intro conjI allI impI)
    show "cursor ?u = (cursor s + Suc n) mod 2000" by (rule IH'(1))
  next
    fix i assume i: "i < Suc n"
    show "terminal_buffer ?u (of_nat ((cursor s + i) mod 2000)) = vga_entry (bs ! i) (terminal_color s)"
    proof (cases i)
      case 0
      with cell0 curs bs(1) show ?thesis by simp
    next
      case (Suc j)
      with i IH'(2) bs(1) show ?thesis by (simp del: add_Suc_right)
    qed
  next
    fix c :: u32 assume ne: "\<forall>i<Suc n. c \<noteq> of_nat ((cursor s + i) mod 2000)"
    then have "c \<noteq> of_nat (cursor s)" using curs by force
    moreover have "\<forall>i<n. c \<noteq> of_nat ((cursor s + Suc i) mod 2000)" using ne by blast
    ultimately show "terminal_buffer ?u c = terminal_buffer s c"
      using IH'(3) unfolding buf by simp
  qed
qed

end
