(* ===== verification/Heap.thy ===== *)
theory Heap
  imports Terminal "HOL-Library.Signed_Division"
begin

section \<open>Heap: the buddy allocator (memory/heap.c, memory/heap.h, fake_libc.c)\<close>

text \<open>
  Every block of the heap starts with a packed 9-byte header in memory: the two
  pointers of a \<open>list_header\<close> and one byte that holds the bit field \<open>is_free\<close>
  (bit 0) and \<open>scale\<close> (bits 1 to 7). The array \<open>free_list\<close> of list heads is in
  memory too, at a link-time address; its entry \<open>i\<close> is at \<open>free_list + 8 * i\<close>.
  The list operations only touch memory, so they are functions on memories;
  \<open>brk\<close>, \<open>allocate\<close> and \<open>free\<close> work on the heap's state.
\<close>

subsection \<open>Headers in memory\<close>

definition hnext :: "memory \<Rightarrow> u32 \<Rightarrow> u32" where
  "hnext m a = rd32 m a"

definition hprev :: "memory \<Rightarrow> u32 \<Rightarrow> u32" where
  "hprev m a = rd32 m (a + 4)"

definition set_next :: "memory \<Rightarrow> u32 \<Rightarrow> u32 \<Rightarrow> memory" where
  "set_next m a v = wr32 m a v"

definition set_prev :: "memory \<Rightarrow> u32 \<Rightarrow> u32 \<Rightarrow> memory" where
  "set_prev m a v = wr32 m (a + 4) v"

definition is_free :: "memory \<Rightarrow> u32 \<Rightarrow> bool" where
  "is_free m a = bit (m (a + 8)) 0"

definition scale :: "memory \<Rightarrow> u32 \<Rightarrow> u8" where
  "scale m a = drop_bit 1 (m (a + 8))"

definition set_is_free :: "memory \<Rightarrow> u32 \<Rightarrow> bool \<Rightarrow> memory" where
  "set_is_free m a b = m(a + 8 := push_bit 1 (scale m a) OR of_bool b)"

definition set_scale :: "memory \<Rightarrow> u32 \<Rightarrow> u8 \<Rightarrow> memory" where
  "set_scale m a k = m(a + 8 := push_bit 1 k OR of_bool (is_free m a))"

abbreviation "HEAP_LOWER_BOUND \<equiv> 0x4000000 :: u32"
abbreviation "MAX_BLOCK_SCALE \<equiv> 0x0F :: u8"
abbreviation "MIN_BLOCK_SCALE \<equiv> 0x04 :: u8"

text \<open>\<open>sizeof(block_header)\<close>, packed.\<close>

abbreviation "HEADER_SIZE \<equiv> 9 :: u32"

record heap_state = term_state +
  free_list :: u32
  current_brk :: u32

subsection \<open>Helpers of fake_libc.c and the size computation\<close>

definition is_end_of_list :: "memory \<Rightarrow> u32 \<Rightarrow> bool" where
  "is_end_of_list m node \<longleftrightarrow> hnext m node = node"

definition is_head_of_list :: "memory \<Rightarrow> u32 \<Rightarrow> bool" where
  "is_head_of_list m node \<longleftrightarrow> hprev m node = node"

definition max_c :: "int \<Rightarrow> int \<Rightarrow> int" where
  "max_c a b = (if a \<ge> b then a else b)"

text \<open>GCC's \<open>__builtin_clz\<close>: the number of leading zero bits of a nonzero word.\<close>

definition clz :: "u32 \<Rightarrow> nat" where
  "clz x = length (takeWhile (\<lambda>i. \<not> bit x i) (rev [0..<32]))"

definition size_to_scale :: "u32 \<Rightarrow> u8" where
  "size_to_scale sz = (let sz = sz + HEADER_SIZE in of_nat (32 - clz (sz - 1)))"

subsection \<open>Free-list operations\<close>

definition free_list_entry :: "u32 \<Rightarrow> u8 \<Rightarrow> u32" where
  "free_list_entry fl k = fl + 8 * ucast k"

definition shl1 :: "u8 \<Rightarrow> u32" where
  "shl1 k = push_bit (unat k) 1"

definition blkmngr_add_to_free_list :: "u32 \<Rightarrow> u32 \<Rightarrow> memory \<Rightarrow> memory" where
  "blkmngr_add_to_free_list fl block m =
     (let blk = block;
          list = free_list_entry fl (scale m block);
          m = (if is_end_of_list m list then set_next m blk blk
               else let m = set_next m blk (hnext m list)
                    in set_prev m (hnext m list) blk);
          m = set_next m list blk;
          m = set_prev m blk list
      in set_is_free m block True)"

definition blkmngr_remove_from_free_list :: "u32 \<Rightarrow> memory \<Rightarrow> memory" where
  "blkmngr_remove_from_free_list block m =
     (let blk = block;
          m = (if is_end_of_list m blk then set_next m (hprev m blk) (hprev m blk)
               else let m = set_next m (hprev m blk) (hnext m blk)
                    in set_prev m (hnext m blk) (hprev m blk));
          m = set_prev m blk blk;
          m = set_next m blk blk
      in set_is_free m block False)"

text \<open>The scan of \<open>__blkmngr_find_fit\<close> for the first scale with a free block.\<close>

function find_fit_scan :: "u32 \<Rightarrow> memory \<Rightarrow> u8 \<Rightarrow> u8" where
  "find_fit_scan fl m search_scale =
     (if is_end_of_list m (free_list_entry fl search_scale) \<and> search_scale < MAX_BLOCK_SCALE
      then find_fit_scan fl m (search_scale + 1) else search_scale)"
  by pat_completeness auto
termination
proof (relation "measure (\<lambda>(fl, m, k). 15 - unat k)")
  fix fl :: u32 and m :: memory and k :: u8
  assume "is_end_of_list m (free_list_entry fl k) \<and> k < MAX_BLOCK_SCALE"
  then have "unat k < 15" by (simp add: word_less_nat_alt)
  then show "((fl, m, k + 1), fl, m, k) \<in> measure (\<lambda>(fl, m, k). 15 - unat k)"
    by (simp add: unat_word_ariths)
qed simp

declare find_fit_scan.simps [simp del]

definition blkmngr_find_fit :: "u32 \<Rightarrow> u8 \<Rightarrow> memory \<Rightarrow> u32 \<times> memory" where
  "blkmngr_find_fit fl request_scale m =
     (let curr = free_list_entry fl (find_fit_scan fl m request_scale)
      in if \<not> is_end_of_list m curr \<and> hnext m curr \<noteq> 0
         then let curr = hnext m curr;
                  m = blkmngr_remove_from_free_list curr m
              in (curr, set_is_free m curr False)
         else (0, m))"

definition blkmngr_split_block :: "u32 \<Rightarrow> u32 \<Rightarrow> memory \<Rightarrow> memory" where
  "blkmngr_split_block fl block m =
     (if block = 0 \<or> scale m block \<le> MIN_BLOCK_SCALE then m
      else
        let m = set_scale m block (scale m block - 1);
            new_block = block + shl1 (scale m block);
            m = set_scale m new_block (scale m block)
        in blkmngr_add_to_free_list fl new_block m)"

definition buddy_offset :: "memory \<Rightarrow> u32 \<Rightarrow> i32" where
  "buddy_offset m curr_block =
     (let block_offset = curr_block - HEAP_LOWER_BOUND
      in if sint block_offset smod sint (shl1 (scale m curr_block + 1)) \<noteq> 0
         then - shl1 (scale m curr_block) else shl1 (scale m curr_block))"

text \<open>
  The merge loop of \<open>__blkmngr_coalesce_block\<close>; \<open>buddy_offset\<close> and \<open>buddy\<close> are
  recomputed at the end of each round, as the code does.
\<close>

partial_function (option) coalesce_loop ::
  "i32 \<Rightarrow> u32 \<Rightarrow> u32 \<Rightarrow> memory \<Rightarrow> (u32 \<times> memory) option" where
  "coalesce_loop offset buddy curr_block m =
     (if is_free m buddy \<and> scale m buddy = scale m curr_block \<and>
         scale m curr_block < MAX_BLOCK_SCALE
      then
        let m = blkmngr_remove_from_free_list buddy m;
            curr_block = (if sint offset < 0 then buddy else curr_block);
            m = set_scale m curr_block (scale m curr_block + 1);
            offset = buddy_offset m curr_block
        in coalesce_loop offset (curr_block + offset) curr_block m
      else Some (curr_block, m))"

definition blkmngr_coalesce_block :: "u32 \<Rightarrow> memory \<Rightarrow> (u32 \<times> memory) option" where
  "blkmngr_coalesce_block block m =
     (let offset = buddy_offset m block in coalesce_loop offset (block + offset) block m)"

subsection \<open>The program break\<close>

text \<open>
  The two loops of \<open>brk\<close>. Addresses wrap, so for an arbitrary argument they may
  never reach it.
\<close>

partial_function (option) brk_grow ::
  "u32 \<Rightarrow> 'a heap_state_scheme \<Rightarrow> 'a heap_state_scheme option" where
  "brk_grow addr s =
     (if addr > current_brk s
      then
        let big_block = current_brk s;
            m = set_scale (mem s) big_block MAX_BLOCK_SCALE;
            m = blkmngr_add_to_free_list (free_list s) big_block m
        in brk_grow addr (s\<lparr>mem := m, current_brk := current_brk s + shl1 MAX_BLOCK_SCALE\<rparr>)
      else Some s)"

partial_function (option) brk_shrink ::
  "u32 \<Rightarrow> 'a heap_state_scheme \<Rightarrow> (8 word \<times> 'a heap_state_scheme) option" where
  "brk_shrink addr s =
     (if addr < current_brk s
      then
        let block = current_brk s - shl1 MAX_BLOCK_SCALE
        in if scale (mem s) block \<noteq> MAX_BLOCK_SCALE \<or> \<not> is_free (mem s) block
           then Some (- 1, s)
           else brk_shrink addr (s\<lparr>mem := blkmngr_remove_from_free_list block (mem s),
                                   current_brk := current_brk s - shl1 MAX_BLOCK_SCALE\<rparr>)
      else Some (0, s))"

definition brk ::
  "u32 \<Rightarrow> 'a heap_state_scheme \<Rightarrow> (8 word \<times> 'a heap_state_scheme) option" where
  "brk addr s =
     (if addr > current_brk s then do { s \<leftarrow> brk_grow addr s; Some (0, s) }
      else brk_shrink addr s)"

definition sbrk ::
  "i32 \<Rightarrow> 'a heap_state_scheme \<Rightarrow> (8 word \<times> 'a heap_state_scheme) option" where
  "sbrk inc s =
     (if inc = 0 then Some (- 1, s)
      else brk (current_brk s + push_bit (unat MAX_BLOCK_SCALE) inc) s)"

subsection \<open>Initialisation, allocation and release\<close>

definition init_heap :: "u32 \<Rightarrow> 'a heap_state_scheme \<Rightarrow> 'a heap_state_scheme option" where
  "init_heap heap_addr s =
     (let s = s\<lparr>current_brk := heap_addr\<rparr>;
          m = fold (\<lambda>i m. let e = free_list_entry (free_list s) (of_nat i)
                          in set_next (set_prev m e e) e e) [4..<16] (mem s)
      in do { (_, s) \<leftarrow> sbrk 1 (s\<lparr>mem := m\<rparr>); Some s })"

partial_function (option) split_loop ::
  "u32 \<Rightarrow> u32 \<Rightarrow> u32 \<Rightarrow> memory \<Rightarrow> memory option" where
  "split_loop fl block request_scale m =
     (if ucast (scale m block) > request_scale
      then split_loop fl block request_scale (blkmngr_split_block fl block m)
      else Some m)"

definition allocate ::
  "u32 \<Rightarrow> 'a heap_state_scheme \<Rightarrow> (u32 \<times> 'a heap_state_scheme) option" where
  "allocate request_size s =
     (if request_size > shl1 MAX_BLOCK_SCALE - HEADER_SIZE \<or> request_size = 0 then Some (0, s)
      else
        let request_scale = of_int (max_c (uint (size_to_scale request_size)) (uint MIN_BLOCK_SCALE));
            (block, m) = blkmngr_find_fit (free_list s) (ucast request_scale) (mem s)
        in if block \<noteq> 0
           then do {
             m \<leftarrow> split_loop (free_list s) block request_scale m;
             Some (block + HEADER_SIZE, s\<lparr>mem := m\<rparr>) }
           else do {
             (ret, s) \<leftarrow> sbrk 1 (s\<lparr>mem := m\<rparr>);
             if ret = - 1 then Some (0, s)
             else let (block, m) = blkmngr_find_fit (free_list s) (ucast request_scale) (mem s)
                  in Some (block + HEADER_SIZE, s\<lparr>mem := m\<rparr>) })"

definition free :: "u32 \<Rightarrow> 'a heap_state_scheme \<Rightarrow> (u8 \<times> 'a heap_state_scheme) option" where
  "free data s =
     (if data = 0 then Some (1, s)
      else
        let block = data - HEADER_SIZE
        in if hnext (mem s) block \<noteq> block \<or> hprev (mem s) block \<noteq> block
           then do {
             s \<leftarrow> terminal_writestring (lit (CHR 0x0A # ''BLOCK DATA CORRUPTED. failed to free'')) s;
             Some (1, s) }
           else do {
             (block, m) \<leftarrow> blkmngr_coalesce_block block (mem s);
             let m = blkmngr_add_to_free_list (free_list s) block m;
             let s = s\<lparr>mem := m\<rparr>;
             let block_end = block + shl1 MAX_BLOCK_SCALE;
             if scale (mem s) block = MAX_BLOCK_SCALE \<and> current_brk s = block_end
             then do { (_, s) \<leftarrow> sbrk (- 1) s; Some (0, s) }
             else Some (0, s) })"

end
