(* ===== verification/HeapList.thy ===== *)
theory HeapList
  imports Heap
begin

section \<open>HeapList: the doubly linked free lists\<close>

text \<open>
  The free lists of heap.c as lists of addresses. \<open>chain m p xs\<close> says that the
  \<open>next\<close> pointers lead from the node \<open>p\<close> through \<open>xs\<close>, that the last node
  points to itself (the code's end marker) and that the \<open>prev\<close> pointers lead
  back. The two list operations are shown to be cons and removal on these lists,
  with everything else they leave alone.
\<close>

abbreviation "W \<equiv> (of_nat :: nat \<Rightarrow> u32)"

subsection \<open>Headers that do not overlap\<close>

text \<open>
  \<open>H\<close> are the addresses of list heads (8 bytes each), \<open>D\<close> those of block headers
  (9 bytes each).
\<close>

definition nodes_ok :: "nat set \<Rightarrow> nat set \<Rightarrow> bool" where
  "nodes_ok H D \<longleftrightarrow> H \<inter> D = {} \<and> (\<forall>a\<in>H. a + 8 \<le> 2 ^ 32) \<and> (\<forall>a\<in>D. a + 9 \<le> 2 ^ 32) \<and>
     (\<forall>a\<in>H \<union> D. \<forall>b\<in>H \<union> D. a \<noteq> b \<longrightarrow> a + 8 \<le> b \<or> b + 8 \<le> a) \<and>
     (\<forall>a\<in>D. \<forall>b\<in>H \<union> D. a \<noteq> b \<longrightarrow> a + 9 \<le> b \<or> b + 8 \<le> a)"

lemma nodes_ok_lt: "nodes_ok H D \<Longrightarrow> a \<in> H \<union> D \<Longrightarrow> a < 2 ^ 32"
  unfolding nodes_ok_def by fastforce

lemma nodes_ok_8: "nodes_ok H D \<Longrightarrow> a \<in> H \<union> D \<Longrightarrow> a + 8 \<le> 2 ^ 32"
  unfolding nodes_ok_def by fastforce

lemma nodes_ok_9: "nodes_ok H D \<Longrightarrow> a \<in> D \<Longrightarrow> a + 9 \<le> 2 ^ 32"
  unfolding nodes_ok_def by fastforce

lemma nodes_ok_apart:
  "nodes_ok H D \<Longrightarrow> a \<in> H \<union> D \<Longrightarrow> b \<in> H \<union> D \<Longrightarrow> a \<noteq> b \<Longrightarrow> a + 8 \<le> b \<or> b + 8 \<le> a"
  unfolding nodes_ok_def by blast

lemma nodes_ok_apart_D:
  "nodes_ok H D \<Longrightarrow> a \<in> D \<Longrightarrow> b \<in> H \<union> D \<Longrightarrow> a \<noteq> b \<Longrightarrow> a + 9 \<le> b \<or> b + 8 \<le> a"
  unfolding nodes_ok_def by blast

lemma nodes_ok_disjoint: "nodes_ok H D \<Longrightarrow> h \<in> H \<Longrightarrow> d \<in> D \<Longrightarrow> h \<noteq> d"
  unfolding nodes_ok_def by (metis IntI empty_iff)

lemma nodes_ok_eq:
  "nodes_ok H D \<Longrightarrow> a \<in> H \<union> D \<Longrightarrow> b \<in> H \<union> D \<Longrightarrow> W a = W b \<longleftrightarrow> a = b"
  by (rule of_nat_u32_eq) (erule (1) nodes_ok_lt)+

lemma nodes_ok_subset: "nodes_ok H D \<Longrightarrow> D' \<subseteq> D \<Longrightarrow> nodes_ok H D'"
  unfolding nodes_ok_def by (elim conjE, intro conjI) (blast+)

subsection \<open>Field accesses\<close>

lemma scale_less: "unat (scale m a) < 128"
  using unat_u8_lt [of "m (a + 8)"] by (simp add: scale_def drop_bit_eq_div unat_div)

lemma W_plus: "W a + 4 = W (a + 4)" "W a + 8 = W (a + 8)"
  by simp_all

lemma hnext_set_next [hdr_simps]:
  assumes "nodes_ok H D" "a \<in> H \<union> D" "b \<in> H \<union> D"
  shows "hnext (set_next m (W a) v) (W b) = (if b = a then v else hnext m (W b))"
  using nodes_ok_apart [OF assms] nodes_ok_8 [OF assms(1,2)] nodes_ok_8 [OF assms(1,3)]
  by (auto simp: hnext_def set_next_def mem_simps disj_def intro!: rd32_wr32_disj)

lemma hprev_set_next [hdr_simps]:
  assumes "nodes_ok H D" "a \<in> H \<union> D" "b \<in> H \<union> D"
  shows "hprev (set_next m (W a) v) (W b) = hprev m (W b)"
  using nodes_ok_apart [OF assms] nodes_ok_8 [OF assms(1,2)] nodes_ok_8 [OF assms(1,3)]
  unfolding hprev_def set_next_def W_plus
  by (cases "a = b"; intro rd32_wr32_disj) (auto simp: disj_def)

lemma hnext_set_prev [hdr_simps]:
  assumes "nodes_ok H D" "a \<in> H \<union> D" "b \<in> H \<union> D"
  shows "hnext (set_prev m (W a) v) (W b) = hnext m (W b)"
  using nodes_ok_apart [OF assms] nodes_ok_8 [OF assms(1,2)] nodes_ok_8 [OF assms(1,3)]
  unfolding hnext_def set_prev_def W_plus
  by (cases "a = b"; intro rd32_wr32_disj) (auto simp: disj_def)

lemma hprev_set_prev [hdr_simps]:
  assumes "nodes_ok H D" "a \<in> H \<union> D" "b \<in> H \<union> D"
  shows "hprev (set_prev m (W a) v) (W b) = (if b = a then v else hprev m (W b))"
proof (cases "b = a")
  case False
  with nodes_ok_apart [OF assms] nodes_ok_8 [OF assms(1,2)] nodes_ok_8 [OF assms(1,3)]
  have "rd32 (wr32 m (W (a + 4)) v) (W (b + 4)) = rd32 m (W (b + 4))"
    by (intro rd32_wr32_disj) (auto simp: disj_def)
  with False show ?thesis by (simp add: hprev_def set_prev_def)
qed (simp add: hprev_def set_prev_def mem_simps)

text \<open>The flag byte of a block is neither in a list part nor another flag byte.\<close>

lemma flag_byte_wr32:
  assumes "nodes_ok H D" "a \<in> H \<union> D" "b \<in> D"
  shows "wr32 m (W a) v (W (b + 8)) = m (W (b + 8))"
    and "wr32 m (W (a + 4)) v (W (b + 8)) = m (W (b + 8))"
  using nodes_ok_apart_D [OF assms(1,3,2)] nodes_ok_8 [OF assms(1,2)] nodes_ok_9 [OF assms(1,3)]
  by (intro wr32_other; auto)+

lemma flag_byte_eq:
  assumes "nodes_ok H D" "a \<in> D" "b \<in> D"
  shows "W (a + 8) = W (b + 8) \<longleftrightarrow> a = b"
  using nodes_ok_9 [OF assms(1,2)] nodes_ok_9 [OF assms(1,3)] by (subst of_nat_u32_eq) auto

lemma scale_set_next [hdr_simps]:
  "nodes_ok H D \<Longrightarrow> a \<in> H \<union> D \<Longrightarrow> b \<in> D \<Longrightarrow> scale (set_next m (W a) v) (W b) = scale m (W b)"
  unfolding scale_def set_next_def W_plus by (simp only: flag_byte_wr32)

lemma scale_set_prev [hdr_simps]:
  "nodes_ok H D \<Longrightarrow> a \<in> H \<union> D \<Longrightarrow> b \<in> D \<Longrightarrow> scale (set_prev m (W a) v) (W b) = scale m (W b)"
  unfolding scale_def set_prev_def W_plus by (simp only: flag_byte_wr32)

lemma is_free_set_next [hdr_simps]:
  "nodes_ok H D \<Longrightarrow> a \<in> H \<union> D \<Longrightarrow> b \<in> D \<Longrightarrow> is_free (set_next m (W a) v) (W b) = is_free m (W b)"
  unfolding is_free_def set_next_def W_plus by (simp only: flag_byte_wr32)

lemma is_free_set_prev [hdr_simps]:
  "nodes_ok H D \<Longrightarrow> a \<in> H \<union> D \<Longrightarrow> b \<in> D \<Longrightarrow> is_free (set_prev m (W a) v) (W b) = is_free m (W b)"
  unfolding is_free_def set_prev_def W_plus by (simp only: flag_byte_wr32)

lemma flag_join:
  fixes k :: u8
  assumes "unat k < 128"
  shows "drop_bit 1 (push_bit 1 k OR of_bool b) = k" "bit (push_bit 1 k OR of_bool b) 0 = b"
proof -
  have "\<not> bit (unat k) 7"
    using assms by (simp add: bit_iff_odd)
  then have k7: "\<not> bit k 7" by (simp add: bit_unsigned_iff)
  show "drop_bit 1 (push_bit 1 k OR of_bool b) = k"
  proof (rule bit_word_eqI)
    fix n assume n: "n < LENGTH(8)"
    show "bit (drop_bit 1 (push_bit 1 k OR of_bool b)) n = bit k n"
      unfolding bit_drop_bit_eq bit_or_iff bit_push_bit_iff o_def
      using n k7 by (cases "n = 7") (simp_all add: bit_1_iff)
  qed
  show "bit (push_bit 1 k OR of_bool b) 0 = b"
    unfolding bit_or_iff bit_push_bit_iff by (simp add: bit_1_iff)
qed

lemma scale_set_scale [hdr_simps]:
  assumes "nodes_ok H D" "a \<in> D" "b \<in> D" "unat k < 128"
  shows "scale (set_scale m (W a) k) (W b) = (if b = a then k else scale m (W b))"
  using flag_byte_eq [OF assms(1,3,2)] flag_join(1) [OF assms(4)]
  unfolding scale_def set_scale_def W_plus by simp

lemma is_free_set_scale [hdr_simps]:
  assumes "nodes_ok H D" "a \<in> D" "b \<in> D" "unat k < 128"
  shows "is_free (set_scale m (W a) k) (W b) = is_free m (W b)"
  using flag_byte_eq [OF assms(1,3,2)] flag_join(2) [OF assms(4)]
  unfolding is_free_def set_scale_def W_plus by simp

lemma scale_set_is_free [hdr_simps]:
  assumes "nodes_ok H D" "a \<in> D" "b \<in> D"
  shows "scale (set_is_free m (W a) f) (W b) = scale m (W b)"
  using flag_byte_eq [OF assms(1,3,2)] flag_join(1) [OF scale_less [of m "W a"]]
  unfolding set_is_free_def W_plus by (simp add: scale_def)

lemma is_free_set_is_free [hdr_simps]:
  assumes "nodes_ok H D" "a \<in> D" "b \<in> D"
  shows "is_free (set_is_free m (W a) f) (W b) = (if b = a then f else is_free m (W b))"
  using flag_byte_eq [OF assms(1,3,2)] flag_join(2) [OF scale_less [of m "W a"]]
  unfolding set_is_free_def W_plus by (simp add: is_free_def)

lemma links_upd_flag:
  assumes "nodes_ok H D" "a \<in> D" "b \<in> H \<union> D"
  shows "hnext (m(W (a + 8) := v)) (W b) = hnext m (W b)"
    and "hprev (m(W (a + 8) := v)) (W b) = hprev m (W b)"
  using nodes_ok_apart_D [OF assms] nodes_ok_9 [OF assms(1,2)] nodes_ok_8 [OF assms(1,3)]
  unfolding hnext_def hprev_def W_plus
  by (cases "a = b"; intro rd32_upd_disj; auto simp: disj_def)+

lemma links_set_flag [hdr_simps]:
  assumes "nodes_ok H D" "a \<in> D" "b \<in> H \<union> D"
  shows "hnext (set_scale m (W a) k) (W b) = hnext m (W b)"
    and "hprev (set_scale m (W a) k) (W b) = hprev m (W b)"
    and "hnext (set_is_free m (W a) f) (W b) = hnext m (W b)"
    and "hprev (set_is_free m (W a) f) (W b) = hprev m (W b)"
  unfolding set_scale_def set_is_free_def W_plus by (simp_all only: links_upd_flag [OF assms])

subsection \<open>Bytes outside the headers\<close>

definition hdr_bytes :: "nat set \<Rightarrow> nat set \<Rightarrow> nat set" where
  "hdr_bytes H D = (\<Union>h\<in>H. {h..<h + 8}) \<union> (\<Union>d\<in>D. {d..<d + 9})"

lemma hdr_bytes_links: "a \<in> H \<union> D \<Longrightarrow> {a..<a + 8} \<subseteq> hdr_bytes H D"
  unfolding hdr_bytes_def by force

lemma same_on_links:
  assumes "nodes_ok H D" "a \<in> H \<union> D"
  shows "same_on (- hdr_bytes H D) m (set_next m (W a) v)"
    and "same_on (- hdr_bytes H D) m (set_prev m (W a) v)"
proof -
  have "\<And>x. a \<le> x \<Longrightarrow> x < a + 8 \<Longrightarrow> x \<in> hdr_bytes H D"
    using hdr_bytes_links [OF assms(2)] by auto
  then show "same_on (- hdr_bytes H D) m (set_next m (W a) v)"
    "same_on (- hdr_bytes H D) m (set_prev m (W a) v)"
    unfolding set_next_def set_prev_def W_plus using nodes_ok_8 [OF assms]
    by (intro same_on_wr32; force)+
qed

lemma same_on_flags:
  assumes "nodes_ok H D" "a \<in> D"
  shows "same_on (- hdr_bytes H D) m (set_scale m (W a) k)"
    and "same_on (- hdr_bytes H D) m (set_is_free m (W a) f)"
proof -
  have "a + 8 \<in> hdr_bytes H D" using assms(2) unfolding hdr_bytes_def by force
  then show "same_on (- hdr_bytes H D) m (set_scale m (W a) k)"
    "same_on (- hdr_bytes H D) m (set_is_free m (W a) f)"
    unfolding set_scale_def set_is_free_def W_plus
    using nodes_ok_9 [OF assms] by (intro same_on_upd; auto)+
qed

lemmas same_on_steps = same_on_links same_on_flags

subsection \<open>Chains\<close>

fun chain :: "memory \<Rightarrow> nat \<Rightarrow> nat list \<Rightarrow> bool" where
  "chain m p [] \<longleftrightarrow> hnext m (W p) = W p"
| "chain m p (x # xs) \<longleftrightarrow> hnext m (W p) = W x \<and> hprev m (W x) = W p \<and> chain m x xs"

text \<open>The links from \<open>p\<close> through \<open>xs\<close>, without the end marker.\<close>

fun seg :: "memory \<Rightarrow> nat \<Rightarrow> nat list \<Rightarrow> bool" where
  "seg m p [] \<longleftrightarrow> True"
| "seg m p (x # xs) \<longleftrightarrow> hnext m (W p) = W x \<and> hprev m (W x) = W p \<and> seg m x xs"

lemma chain_append: "chain m p (xs @ ys) \<longleftrightarrow> seg m p xs \<and> chain m (last (p # xs)) ys"
  by (induction xs arbitrary: p) auto

lemma chain_cong:
  assumes "\<And>x. x \<in> insert p (set xs) \<Longrightarrow> hnext m' (W x) = hnext m (W x)"
    and "\<And>x. x \<in> set xs \<Longrightarrow> hprev m' (W x) = hprev m (W x)"
  shows "chain m' p xs \<longleftrightarrow> chain m p xs"
  using assms
proof (induction xs arbitrary: p)
  case (Cons x xs)
  have "chain m' x xs \<longleftrightarrow> chain m x xs" by (rule Cons.IH) (use Cons.prems in auto)
  with Cons.prems show ?case by simp
qed simp

lemma seg_cong:
  assumes "\<And>x. x \<in> set (butlast (p # xs)) \<Longrightarrow> hnext m' (W x) = hnext m (W x)"
    and "\<And>x. x \<in> set xs \<Longrightarrow> hprev m' (W x) = hprev m (W x)"
  shows "seg m' p xs \<longleftrightarrow> seg m p xs"
  using assms
proof (induction xs arbitrary: p)
  case (Cons x xs)
  have "seg m' x xs \<longleftrightarrow> seg m x xs" by (rule Cons.IH) (use Cons.prems in auto)
  with Cons.prems show ?case by simp
qed simp

lemma chain_head:
  assumes "nodes_ok H D" "h \<in> H" "set xs \<subseteq> D" "chain m h xs"
  shows "is_end_of_list m (W h) \<longleftrightarrow> xs = []" and "xs \<noteq> [] \<Longrightarrow> hnext m (W h) = W (hd xs)"
proof -
  show "xs \<noteq> [] \<Longrightarrow> hnext m (W h) = W (hd xs)" using assms(4) by (cases xs) auto
  show "is_end_of_list m (W h) \<longleftrightarrow> xs = []"
  proof (cases xs)
    case (Cons x ys)
    with assms nodes_ok_disjoint [OF assms(1,2), of x] nodes_ok_eq [OF assms(1), of x h]
    show ?thesis by (auto simp: is_end_of_list_def)
  qed (use assms(4) in \<open>simp add: is_end_of_list_def\<close>)
qed

subsection \<open>Adding a block\<close>

lemma add_to_free_list_eq:
  assumes ok: "nodes_ok H D" and h: "h \<in> H" "W h = free_list_entry fl (scale m (W b))"
    and b: "b \<in> D" and xs: "set xs \<subseteq> D" and ch: "chain m h xs"
  shows "blkmngr_add_to_free_list fl (W b) m =
    set_is_free (set_prev (set_next
      (if xs = [] then set_next m (W b) (W b)
       else set_prev (set_next m (W b) (W (hd xs))) (W (hd xs)) (W b))
      (W h) (W b)) (W b) (W h)) (W b) True"
proof -
  have "hnext (set_next m (W b) v) (W h) = hnext m (W h)" for v
    using nodes_ok_disjoint [OF ok h(1) b] h(1) b by (simp add: hdr_simps [OF ok])
  with chain_head [OF ok h(1) xs ch] show ?thesis
    unfolding blkmngr_add_to_free_list_def h(2) [symmetric] by (simp add: Let_def)
qed

lemma add_to_free_list:
  assumes ok: "nodes_ok H D" and h: "h \<in> H" "W h = free_list_entry fl (scale m (W b))"
    and b: "b \<in> D" "b \<notin> set xs" and xs: "set xs \<subseteq> D" "distinct xs" and ch: "chain m h xs"
    and m': "m' = blkmngr_add_to_free_list fl (W b) m"
  shows "chain m' h (b # xs)"
    and "\<And>c. c \<in> D \<Longrightarrow> is_free m' (W c) = (c = b \<or> is_free m (W c))"
    and "\<And>c. c \<in> D \<Longrightarrow> scale m' (W c) = scale m (W c)"
    and "\<And>c. c \<in> H \<union> D \<Longrightarrow> c \<notin> insert h (insert b (set xs)) \<Longrightarrow>
           hnext m' (W c) = hnext m (W c) \<and> hprev m' (W c) = hprev m (W c)"
    and "same_on (- hdr_bytes H D) m m'"
proof -
  note eq = add_to_free_list_eq [OF ok h b(1) xs(1) ch]
  have hD: "h \<notin> D" "b \<noteq> h" "h \<noteq> b" "h \<notin> set xs" using nodes_ok_disjoint [OF ok h(1)] b(1) xs(1) by blast+
  have mem: "h \<in> H \<union> D" "b \<in> H \<union> D" "\<And>x. x \<in> set xs \<Longrightarrow> x \<in> H \<union> D"
    using h(1) b(1) xs(1) by auto
  have hd: "hd xs \<in> D" "hd xs \<noteq> b" "hd xs \<noteq> h" if "xs \<noteq> []"
    using that hD xs b hd_in_set [OF that] by auto
  note simps = hdr_simps [OF ok] mem h(1) b hD
  show "chain m' h (b # xs)"
  proof (cases xs)
    case Nil
    then show ?thesis by (simp add: m' eq simps)
  next
    case (Cons x ys)
    then have x: "x \<in> D" "x \<noteq> b" "x \<noteq> h" "x \<notin> set ys" and ys: "set ys \<subseteq> D" "h \<notin> set ys" "b \<notin> set ys"
      using xs b hD by auto
    have "chain m' x ys = chain m x ys"
      by (rule chain_cong) (use x ys xs Cons in \<open>auto simp: m' eq simps subset_iff\<close>)
    with ch Cons x show ?thesis by (simp add: m' eq simps)
  qed
  show "\<And>c. c \<in> D \<Longrightarrow> is_free m' (W c) = (c = b \<or> is_free m (W c))"
    using hd by (simp add: m' eq simps)
  show "\<And>c. c \<in> D \<Longrightarrow> scale m' (W c) = scale m (W c)"
    using hd by (simp add: m' eq simps)
  show "\<And>c. c \<in> H \<union> D \<Longrightarrow> c \<notin> insert h (insert b (set xs)) \<Longrightarrow>
           hnext m' (W c) = hnext m (W c) \<and> hprev m' (W c) = hprev m (W c)"
    using hd by (auto simp: m' eq simps)
  show "same_on (- hdr_bytes H D) m m'"
    using hd unfolding m' eq by (auto intro!: same_on_trans [OF _ same_on_steps(4)]
      same_on_trans [OF _ same_on_steps(1)] same_on_trans [OF _ same_on_steps(2)] simp: simps ok)
qed

subsection \<open>Removing a block\<close>

lemma remove_from_free_list_eq:
  assumes ok: "nodes_ok H D" and h: "h \<in> H"
    and xs: "set (ys @ b # zs) \<subseteq> D" "distinct (ys @ b # zs)" and ch: "chain m h (ys @ b # zs)"
  shows "blkmngr_remove_from_free_list (W b) m =
    set_is_free (set_next (set_prev
      (if zs = [] then set_next m (W (last (h # ys))) (W (last (h # ys)))
       else set_prev (set_next m (W (last (h # ys))) (W (hd zs))) (W (hd zs)) (W (last (h # ys))))
      (W b) (W b)) (W b) (W b)) (W b) False"
proof -
  let ?p = "last (h # ys)"
  have "?p \<in> set (h # ys)" by (rule last_in_set) simp
  then have p: "?p \<in> H \<union> D" "?p \<noteq> b" and b: "b \<in> D"
    using h xs nodes_ok_disjoint [OF ok h, of b] by (auto simp del: last.simps)
  have chb: "hprev m (W b) = W ?p" "chain m b zs"
    using ch by (auto simp: chain_append)
  have fr: "hprev (set_next m (W ?p) v) (W b) = hprev m (W b)"
     "hnext (set_next m (W ?p) v) (W b) = hnext m (W b)" for v
    using p b by (simp_all add: hdr_simps [OF ok])
  show ?thesis
  proof (cases zs)
    case Nil
    with chb show ?thesis by (simp add: blkmngr_remove_from_free_list_def is_end_of_list_def Let_def)
  next
    case (Cons z zs')
    with xs have "z \<noteq> b" "z \<in> D" by auto
    then have "W z \<noteq> W b" using nodes_ok_eq [OF ok, of z b] b by auto
    with chb Cons fr show ?thesis
      by (simp add: blkmngr_remove_from_free_list_def is_end_of_list_def Let_def)
  qed
qed

lemma remove_from_free_list:
  assumes ok: "nodes_ok H D" and h: "h \<in> H"
    and xs: "set (ys @ b # zs) \<subseteq> D" "distinct (ys @ b # zs)" and ch: "chain m h (ys @ b # zs)"
    and m': "m' = blkmngr_remove_from_free_list (W b) m"
  shows "chain m' h (ys @ zs)"
    and "hnext m' (W b) = W b" "hprev m' (W b) = W b"
    and "\<And>c. c \<in> D \<Longrightarrow> is_free m' (W c) = (c \<noteq> b \<and> is_free m (W c))"
    and "\<And>c. c \<in> D \<Longrightarrow> scale m' (W c) = scale m (W c)"
    and "\<And>c. c \<in> H \<union> D \<Longrightarrow> c \<notin> insert h (set (ys @ b # zs)) \<Longrightarrow>
           hnext m' (W c) = hnext m (W c) \<and> hprev m' (W c) = hprev m (W c)"
    and "same_on (- hdr_bytes H D) m m'"
proof -
  define p where "p = last (h # ys)"
  note eq = remove_from_free_list_eq [OF ok h xs ch, folded p_def]
  have hD: "h \<notin> D" using nodes_ok_disjoint [OF ok h(1)] by blast
  have lp: "p \<in> set (h # ys)" unfolding p_def by (rule last_in_set) simp
  then have p: "p \<in> H \<union> D" "p \<noteq> b" "b \<noteq> p" "p \<notin> set zs" and b: "b \<in> D" "b \<in> H \<union> D"
    using h xs hD by (auto)
  have hd: "hd zs \<in> D" "hd zs \<noteq> b" "hd zs \<noteq> p" "hd zs \<notin> set ys" if "zs \<noteq> []"
  proof -
    have z: "hd zs \<in> set zs" by (rule hd_in_set [OF that])
    with p(4) show "hd zs \<noteq> p" by metis
    from z xs show "hd zs \<in> D" "hd zs \<noteq> b" "hd zs \<notin> set ys" by auto
  qed
  have "p \<in> H \<or> p \<in> D" using p(1) by simp
  note simps = hdr_simps [OF ok] p b h this
  have ys: "x \<in> H \<union> D" "x \<noteq> b" if "x \<in> set (h # ys)" for x
    using that xs h hD by auto
  have zs: "x \<in> H \<union> D" "x \<noteq> b" if "x \<in> set zs" for x
    using that xs h hD by auto
  have chs: "seg m h ys" "hprev m (W b) = W p" "chain m b zs"
    using ch by (auto simp: chain_append p_def)
  have notp: "x \<noteq> p" if "x \<in> set (butlast (h # ys))" for x
  proof -
    have "distinct (butlast (h # ys) @ [p])"
      unfolding p_def using xs hD by (subst append_butlast_last_id) auto
    with that show ?thesis by auto
  qed
  have "seg m' h ys \<longleftrightarrow> seg m h ys"
  proof (rule seg_cong)
    fix x assume x: "x \<in> set (butlast (h # ys))"
    have "x \<in> H \<union> D" "x \<noteq> b" "x \<noteq> p"
      by (rule ys [OF in_set_butlastD [OF x]] notp [OF x])+
    with hd show "hnext m' (W x) = hnext m (W x)"
      by (simp add: m' eq simps)
  next
    fix x assume "x \<in> set ys"
    with ys [of x] hd show "hprev m' (W x) = hprev m (W x)"
      by (auto simp: m' eq simps)
  qed
  moreover have "chain m' p zs"
  proof (cases zs)
    case Nil
    then show ?thesis using p b by (simp only: m' eq) (simp add: simps)
  next
    case (Cons z zs')
    then have z: "z \<in> D" "z \<noteq> b" "z \<notin> set zs'" "z \<noteq> p" using zs xs p(4) by auto
    have "chain m' z zs' = chain m z zs'"
    proof (rule chain_cong)
      fix x assume x: "x \<in> insert z (set zs')"
      then have "x \<noteq> p" using Cons p(4) by auto
      with x zs [of x] Cons z show "hnext m' (W x) = hnext m (W x)"
        by (simp only: m' eq) (auto simp: simps)
    next
      fix x assume x: "x \<in> set zs'"
      with zs [of x] Cons z show "hprev m' (W x) = hprev m (W x)"
        by (simp only: m' eq) (auto simp: simps)
    qed
    with Cons chs z show ?thesis by (simp only: m' eq) (simp add: simps)
  qed
  ultimately show "chain m' h (ys @ zs)" using chs(1) by (simp add: chain_append p_def)
  show "hnext m' (W b) = W b" "hprev m' (W b) = W b"
    using hd by (simp_all only: m' eq) (simp_all add: simps)
  show "\<And>c. c \<in> D \<Longrightarrow> is_free m' (W c) = (c \<noteq> b \<and> is_free m (W c))"
    using hd by (simp only: m' eq) (simp add: simps)
  show "\<And>c. c \<in> D \<Longrightarrow> scale m' (W c) = scale m (W c)"
    using hd by (simp only: m' eq) (simp add: simps)
  show "hnext m' (W c) = hnext m (W c) \<and> hprev m' (W c) = hprev m (W c)"
    if c: "c \<in> H \<union> D" "c \<notin> insert h (set (ys @ b # zs))" for c
  proof -
    have "c \<noteq> p" "c \<noteq> b" "zs \<noteq> [] \<Longrightarrow> c \<noteq> hd zs"
      using c lp by (auto)
    with hd c show ?thesis by (simp only: m' eq) (simp add: simps)
  qed
  show "same_on (- hdr_bytes H D) m m'"
    using hd p(1) unfolding m' eq by (auto intro!: same_on_trans [OF _ same_on_steps(4)]
      same_on_trans [OF _ same_on_steps(1)] same_on_trans [OF _ same_on_steps(2)] simp: ok b h)
qed

end
