(* ===== verification/HeapLayout.thy ===== *)
theory HeapLayout
  imports HeapList
begin

section \<open>HeapLayout: the partition of the heap into blocks\<close>

text \<open>
  The geometry of the buddy system, with no memory in it. A block map \<open>B\<close> gives
  the scale of every block by its address. \<open>layout lim B\<close> says that the blocks
  are aligned to their size, do not overlap and cover the heap from its lower
  bound to the break; splitting a block, merging two buddies, growing and
  shrinking the heap keep it.
\<close>

definition heap_base :: nat where
  "heap_base = 0x4000000"

definition layout :: "nat \<Rightarrow> (nat \<rightharpoonup> nat) \<Rightarrow> bool" where
  "layout lim B \<longleftrightarrow> heap_base \<le> lim \<and> 2 ^ 15 dvd lim \<and> lim + 2 ^ 15 \<le> 2 ^ 32 \<and>
     (\<forall>a k. B a = Some k \<longrightarrow>
        4 \<le> k \<and> k \<le> 15 \<and> heap_base \<le> a \<and> 2 ^ k dvd a \<and> a + 2 ^ k \<le> lim) \<and>
     (\<forall>a k a' k'. B a = Some k \<longrightarrow> B a' = Some k' \<longrightarrow> a < a' \<longrightarrow> a + 2 ^ k \<le> a') \<and>
     (\<forall>x. heap_base \<le> x \<longrightarrow> x < lim \<longrightarrow> (\<exists>a k. B a = Some k \<and> a \<le> x \<and> x < a + 2 ^ k))"

lemma layoutD_brk:
  "layout lim B \<Longrightarrow> heap_base \<le> lim" "layout lim B \<Longrightarrow> 2 ^ 15 dvd lim"
  "layout lim B \<Longrightarrow> lim + 2 ^ 15 \<le> 2 ^ 32"
  unfolding layout_def by blast+

lemma layoutD_block:
  assumes "layout lim B" "B a = Some k"
  shows "4 \<le> k" "k \<le> 15" "heap_base \<le> a" "2 ^ k dvd a" "a + 2 ^ k \<le> lim"
  using assms unfolding layout_def by blast+

lemma layoutD_apart:
  "layout lim B \<Longrightarrow> B a = Some k \<Longrightarrow> B a' = Some k' \<Longrightarrow> a < a' \<Longrightarrow> a + 2 ^ k \<le> a'"
  unfolding layout_def by blast

lemma layoutD_cover:
  "layout lim B \<Longrightarrow> heap_base \<le> x \<Longrightarrow> x < lim \<Longrightarrow> \<exists>a k. B a = Some k \<and> a \<le> x \<and> x < a + 2 ^ k"
  unfolding layout_def by blast

lemma layoutI:
  assumes "heap_base \<le> lim" "2 ^ 15 dvd lim" "lim + 2 ^ 15 \<le> 2 ^ 32"
    and "\<And>a k. B a = Some k \<Longrightarrow>
      4 \<le> k \<and> k \<le> 15 \<and> heap_base \<le> a \<and> 2 ^ k dvd a \<and> a + 2 ^ k \<le> lim"
    and "\<And>a k a' k'. B a = Some k \<Longrightarrow> B a' = Some k' \<Longrightarrow> a < a' \<Longrightarrow> a + 2 ^ k \<le> a'"
    and "\<And>x. heap_base \<le> x \<Longrightarrow> x < lim \<Longrightarrow> \<exists>a k. B a = Some k \<and> a \<le> x \<and> x < a + 2 ^ k"
  shows "layout lim B"
  using assms unfolding layout_def by blast

lemma layout_16: "layout lim B \<Longrightarrow> B a = Some k \<Longrightarrow> a + 16 \<le> lim \<and> a + 16 \<le> a + 2 ^ k"
  using layoutD_block [of lim B a k] power_increasing [of 4 k "2 :: nat"] by simp

lemma layout_split:
  assumes L: "layout lim B" and a: "B a = Some (Suc k)" and k: "4 \<le> k"
  shows "layout lim (B(a \<mapsto> k, a + 2 ^ k \<mapsto> k))"
proof -
  define h :: nat where "h = 2 ^ k"
  have pos: "0 < h" by (simp add: h_def)
  note A = layoutD_block [OF L a]
  have dv: "h dvd a" using A(4) unfolding h_def by (rule power_le_dvd) simp
  have ends: "a + 2 * h \<le> lim" "k \<le> 15" "heap_base \<le> a" using A by (simp_all add: h_def)
  have other: "b + 2 ^ j \<le> a \<or> a + 2 * h \<le> b" if "B b = Some j" "b \<noteq> a" for b j
    using layoutD_apart [OF L a that(1)] layoutD_apart [OF L that(1) a] that(2)
    by (cases "a < b") (auto simp: h_def)
  show ?thesis unfolding h_def [symmetric]
  proof (rule layoutI)
    show "heap_base \<le> lim" "2 ^ 15 dvd lim" "lim + 2 ^ 15 \<le> 2 ^ 32" by (rule layoutD_brk [OF L])+
  next
    fix b j assume b: "(B(a \<mapsto> k, a + h \<mapsto> k)) b = Some j"
    then have "b = a + h \<and> j = k \<or> b = a \<and> j = k \<or> B b = Some j"
      by (simp split: if_splits)
    then consider "b = a + h" "j = k" | "b = a" "j = k" | "B b = Some j" by blast
    then show "4 \<le> j \<and> j \<le> 15 \<and> heap_base \<le> b \<and> 2 ^ j dvd b \<and> b + 2 ^ j \<le> lim"
    proof cases
      case 1
      with dv ends k show ?thesis unfolding h_def by simp
    next
      case 2
      with dv ends k show ?thesis unfolding h_def by simp
    next
      case 3
      with layoutD_block [OF L 3] show ?thesis by blast
    qed
  next
    fix b j c i
    assume b: "(B(a \<mapsto> k, a + h \<mapsto> k)) b = Some j"
      and c: "(B(a \<mapsto> k, a + h \<mapsto> k)) c = Some i" and bc: "b < c"
    have "b \<in> {a, a + h} \<and> j = k \<or> b \<noteq> a \<and> B b = Some j"
      "c \<in> {a, a + h} \<and> i = k \<or> c \<noteq> a \<and> B c = Some i"
      using b c by (auto split: if_splits)
    then show "b + 2 ^ j \<le> c"
    proof (elim disjE conjE)
      assume "b \<noteq> a" "B b = Some j" "c \<noteq> a" "B c = Some i"
      with bc show ?thesis using layoutD_apart [OF L, of b j c i] by simp
    next
      assume "b \<noteq> a" "B b = Some j" "c \<in> {a, a + h}"
      with bc pos show ?thesis using other [of b j] by auto
    next
      assume "b \<in> {a, a + h}" "j = k" "c \<noteq> a" "B c = Some i"
      moreover have "(0 :: nat) < 2 ^ i" by simp
      ultimately have "a + 2 * h \<le> c" using bc pos other [of c i] by auto
      with \<open>b \<in> {a, a + h}\<close> \<open>j = k\<close> show ?thesis by (auto simp: h_def)
    qed (use bc in \<open>auto simp: h_def\<close>)
  next
    fix x assume x: "heap_base \<le> x" "x < lim"
    then obtain b j where b: "B b = Some j" "b \<le> x" "x < b + 2 ^ j" using layoutD_cover [OF L] by blast
    consider "b = a" "x < a + h" | "b = a" "a + h \<le> x" | "b \<noteq> a" by linarith
    then show "\<exists>b j. (B(a \<mapsto> k, a + h \<mapsto> k)) b = Some j \<and> b \<le> x \<and> x < b + 2 ^ j"
    proof cases
      case 1
      with b(2) pos show ?thesis by (intro exI [of _ a] exI [of _ k]) (simp add: h_def)
    next
      case 2
      with a b(1) have "j = Suc k" by simp
      with 2 b(3) show ?thesis by (intro exI [of _ "a + h"] exI [of _ k]) (simp add: h_def)
    next
      case 3
      with other [OF b(1)] b(2,3) pos have "b \<noteq> a + h" by auto
      with 3 b show ?thesis by (intro exI [of _ b] exI [of _ j]) simp
    qed
  qed
qed

subsection \<open>Buddies\<close>

definition buddy :: "nat \<Rightarrow> nat \<Rightarrow> nat" where
  "buddy a k = (if 2 ^ Suc k dvd a then a + 2 ^ k else a - 2 ^ k)"

lemma not_dvd_Suc:
  assumes "2 ^ k dvd a" "\<not> 2 ^ Suc k dvd (a :: nat)"
  obtains q where "a = 2 ^ k * (2 * q + 1)"
proof -
  obtain c where c: "a = 2 ^ k * c" using assms(1) by (auto elim: dvdE)
  then have "odd c" using assms(2) by (auto elim!: evenE)
  then obtain q where "c = 2 * q + 1" by (auto elim: oddE)
  with c that show ?thesis by blast
qed

lemma buddy_upper: "2 ^ k dvd (a :: nat) \<Longrightarrow> \<not> 2 ^ Suc k dvd a \<Longrightarrow> 2 ^ k \<le> a \<and> 2 ^ Suc k dvd a - 2 ^ k"
  by (erule (1) not_dvd_Suc) (auto simp: algebra_simps)

lemma buddy_lower: "2 ^ Suc k dvd (a :: nat) \<Longrightarrow> \<not> 2 ^ Suc k dvd a + 2 ^ k"
  by (metis dvd_add_right_iff nat_dvd_not_less lessI power_strict_increasing_iff
      one_less_numeral_iff semiring_norm(76) zero_less_numeral zero_less_power)

lemma buddy_dvd: "2 ^ k dvd a \<Longrightarrow> 2 ^ k dvd buddy a k"
  by (auto simp: buddy_def intro: dvd_diff_nat)

lemma buddy_buddy: "2 ^ k dvd a \<Longrightarrow> buddy (buddy a k) k = a"
  using buddy_upper [of k a] buddy_lower [of k a] by (auto simp: buddy_def)

lemma buddy_neq: "2 ^ k dvd a \<Longrightarrow> buddy a k \<noteq> a"
  using buddy_upper [of k a] by (auto simp: buddy_def)

text \<open>The buddy of a block that is not of the largest scale starts a block of at most its scale.\<close>

lemma dvd_less_add: "2 ^ k dvd (x :: nat) \<Longrightarrow> 2 ^ k dvd y \<Longrightarrow> x < y \<Longrightarrow> x + 2 ^ k \<le> y"
  by (auto elim!: dvdE simp flip: mult_Suc_right) (metis Suc_leI mult_le_mono2 mult_Suc_right add.commute)

lemma buddy_block:
  assumes L: "layout lim B" and a: "B a = Some k" and k: "k < 15"
  shows "\<exists>j. B (buddy a k) = Some j \<and> j \<le> k"
proof -
  note A = layoutD_block [OF L a]
  have base: "2 ^ Suc k dvd heap_base" "2 ^ Suc k dvd lim"
  proof -
    have "(2 :: nat) ^ Suc k dvd 2 ^ 15" using k by (intro le_imp_power_dvd) simp
    moreover have "(2 :: nat) ^ 15 dvd heap_base" by (simp add: heap_base_def)
    ultimately show "2 ^ Suc k dvd heap_base" "2 ^ Suc k dvd lim"
      using layoutD_brk(2) [OF L] by (metis dvd_trans)+
  qed
  let ?b = "buddy a k"
  have range: "heap_base \<le> ?b \<and> ?b < lim"
  proof (cases "2 ^ Suc k dvd a")
    case True
    have "a + 2 ^ Suc k \<le> lim"
      using A(5) by (intro dvd_less_add [OF True base(2)]) (meson add_le_imp_le_diff less_le_trans
          linorder_not_le nat_less_le trans_less_add1 zero_less_numeral zero_less_power less_add_same_cancel1)
    then have "a + 2 ^ k < lim" using zero_less_power [of "2 :: nat" k] unfolding power_Suc by linarith
    then show ?thesis using True A(3) by (simp add: buddy_def)
  next
    case False
    with buddy_upper [OF A(4)] have up: "2 ^ k \<le> a" "2 ^ Suc k dvd a - 2 ^ k" by auto
    have "heap_base \<noteq> a" using False base(1) by auto
    with A(3) have "heap_base + 2 ^ k \<le> a"
      using power_le_dvd [OF base(1), of k] by (intro dvd_less_add [OF _ A(4)]) simp_all
    then have "heap_base \<le> a - 2 ^ k" by simp
    moreover have "a - 2 ^ k < lim" using A(5) zero_less_power [of "2 :: nat" k] by linarith
    ultimately show ?thesis using False by (simp add: buddy_def)
  qed
  then obtain c j where c: "B c = Some j" "c \<le> ?b" "?b < c + 2 ^ j"
    using layoutD_cover [OF L] by blast
  note C = layoutD_block [OF L c(1)]
  have ne: "?b \<noteq> a" and bdv: "2 ^ k dvd ?b" using buddy_neq buddy_dvd A(4) by auto
  have "j \<le> k"
  proof (rule ccontr)
    assume "\<not> j \<le> k"
    then have kj: "2 ^ Suc k dvd (2 :: nat) ^ j" by (intro le_imp_power_dvd) simp
    then have cd: "2 ^ Suc k dvd c" using C(4) by (rule dvd_trans)
    have ca: "c \<noteq> a" using c(1) a \<open>\<not> j \<le> k\<close> by auto
    show False
    proof (cases "2 ^ Suc k dvd a")
      case True
      have "\<not> a < c"
        using dvd_less_add [OF True cd] c(2) True by (auto simp: buddy_def)
      with ca layoutD_apart [OF L c(1) a] c(3) True show False by (simp add: buddy_def)
    next
      case False
      with buddy_upper [OF A(4)] have up: "2 ^ k \<le> a" "2 ^ Suc k dvd ?b" "?b = a - 2 ^ k"
        by (auto simp: buddy_def)
      have "(0 :: nat) < 2 ^ k" by simp
      with up c(2) have "c < a" by linarith
      with layoutD_apart [OF L c(1) a] have "c + 2 ^ j \<le> a" by simp
      moreover have "?b + 2 ^ Suc k \<le> c + 2 ^ j"
        using cd kj by (intro dvd_less_add [OF up(2) _ c(3)]) simp
      ultimately show False
        using up(1,3) zero_less_power [of "2 :: nat" k] unfolding power_Suc by linarith
    qed
  qed
  then have "2 ^ j dvd ?b" using bdv power_le_dvd by blast
  then have "?b = c" using dvd_less_add [OF C(4), of ?b] c(2,3) by fastforce
  with c(1) \<open>j \<le> k\<close> show ?thesis by blast
qed

subsection \<open>Merging, growing, shrinking\<close>

lemma layout_merge:
  assumes L: "layout lim B" and l: "B l = Some k" "B (l + 2 ^ k) = Some k"
    and k: "k < 15" and dv: "2 ^ Suc k dvd l"
  shows "layout lim (B(l \<mapsto> Suc k, l + 2 ^ k := None))"
proof -
  define h :: nat where "h = 2 ^ k"
  have pos: "0 < h" by (simp add: h_def)
  have l': "B l = Some k" "B (l + h) = Some k" using l by (simp_all add: h_def)
  have ends: "l + 2 * h \<le> lim" "4 \<le> k" "heap_base \<le> l"
    using layoutD_block [OF L l(1)] layoutD_block [OF L l(2)] by (simp_all add: h_def)
  have other: "b + 2 ^ j \<le> l \<or> l + 2 * h \<le> b" if "B b = Some j" "b \<noteq> l" "b \<noteq> l + h" for b j
  proof (cases "b < l")
    case True
    with layoutD_apart [OF L that(1) l'(1)] show ?thesis by simp
  next
    case False
    with that(2) have "l + h \<le> b" using layoutD_apart [OF L l'(1) that(1)] by (simp add: h_def)
    with that(3) layoutD_apart [OF L l'(2) that(1)] show ?thesis by (simp add: h_def)
  qed
  show ?thesis unfolding h_def [symmetric]
  proof (rule layoutI)
    show "heap_base \<le> lim" "2 ^ 15 dvd lim" "lim + 2 ^ 15 \<le> 2 ^ 32" by (rule layoutD_brk [OF L])+
  next
    fix b j assume "(B(l \<mapsto> Suc k, l + h := None)) b = Some j"
    then have "b = l \<and> j = Suc k \<or> B b = Some j" by (simp split: if_splits)
    then consider "b = l" "j = Suc k" | "B b = Some j" by blast
    then show "4 \<le> j \<and> j \<le> 15 \<and> heap_base \<le> b \<and> 2 ^ j dvd b \<and> b + 2 ^ j \<le> lim"
    proof cases
      case 1
      with dv ends k show ?thesis by (simp add: h_def)
    next
      case 2
      with layoutD_block [OF L 2] show ?thesis by blast
    qed
  next
    fix b j c i
    assume b: "(B(l \<mapsto> Suc k, l + h := None)) b = Some j"
      and c: "(B(l \<mapsto> Suc k, l + h := None)) c = Some i" and bc: "b < c"
    have "b = l \<and> j = Suc k \<or> b \<noteq> l \<and> b \<noteq> l + h \<and> B b = Some j"
      "c = l \<and> i = Suc k \<or> c \<noteq> l \<and> c \<noteq> l + h \<and> B c = Some i"
      using b c by (simp_all split: if_splits)
    then show "b + 2 ^ j \<le> c"
    proof (elim disjE conjE)
      assume "B b = Some j" "B c = Some i"
      with bc show ?thesis using layoutD_apart [OF L, of b j c i] by simp
    next
      assume "b \<noteq> l" "b \<noteq> l + h" "B b = Some j" "c = l"
      with bc pos show ?thesis using other [of b j] by simp
    next
      assume "b = l" "j = Suc k" "c \<noteq> l" "c \<noteq> l + h" "B c = Some i"
      moreover have "(0 :: nat) < 2 ^ i" by simp
      ultimately show ?thesis using bc other [of c i] by (auto simp: h_def)
    qed (use bc in simp)
  next
    fix x assume x: "heap_base \<le> x" "x < lim"
    then obtain b j where b: "B b = Some j" "b \<le> x" "x < b + 2 ^ j" using layoutD_cover [OF L] by blast
    show "\<exists>b j. (B(l \<mapsto> Suc k, l + h := None)) b = Some j \<and> b \<le> x \<and> x < b + 2 ^ j"
    proof (cases "b = l \<or> b = l + h")
      case True
      then have "l \<le> x \<and> x < l + 2 ^ Suc k" using b l' by (auto simp: h_def)
      with pos show ?thesis by (intro exI [of _ l] exI [of _ "Suc k"]) simp
    next
      case False
      with b show ?thesis by (intro exI [of _ b] exI [of _ j]) simp
    qed
  qed
qed

lemma layout_grow:
  assumes L: "layout lim B" and room: "lim + 2 ^ 16 \<le> 2 ^ 32"
  shows "layout (lim + 2 ^ 15) (B(lim \<mapsto> 15))"
proof (rule layoutI)
  note br = layoutD_brk [OF L]
  show "heap_base \<le> lim + 2 ^ 15" "2 ^ 15 dvd lim + 2 ^ 15" "lim + 2 ^ 15 + 2 ^ 15 \<le> 2 ^ 32"
    using br room by (simp_all only: dvd_add_triv_right_iff) simp_all
  show "4 \<le> j \<and> j \<le> 15 \<and> heap_base \<le> b \<and> 2 ^ j dvd b \<and> b + 2 ^ j \<le> lim + 2 ^ 15"
    if b: "(B(lim \<mapsto> 15)) b = Some j" for b j
  proof (cases "b = lim")
    case True
    with b br show ?thesis by simp
  next
    case False
    with b have "B b = Some j" by simp
    from layoutD_block [OF L this] show ?thesis by simp
  qed
  show "b + 2 ^ j \<le> c"
    if "(B(lim \<mapsto> 15)) b = Some j" "(B(lim \<mapsto> 15)) c = Some i" "b < c" for b j c i
    using that layoutD_block(5) [OF L, of b j] layoutD_block(5) [OF L, of c i]
      layoutD_apart [OF L, of b j c i] by (simp split: if_splits)
  show "\<exists>b j. (B(lim \<mapsto> 15)) b = Some j \<and> b \<le> x \<and> x < b + 2 ^ j"
    if x: "heap_base \<le> x" "x < lim + 2 ^ 15" for x
  proof (cases "x < lim")
    case True
    then obtain b j where b: "B b = Some j" "b \<le> x" "x < b + 2 ^ j"
      using layoutD_cover [OF L x(1)] by blast
    with True show ?thesis by (intro exI [of _ b] exI [of _ j]) simp
  next
    case False
    with x show ?thesis by (intro exI [of _ lim] exI [of _ 15]) simp
  qed
qed

lemma layout_shrink:
  assumes L: "layout lim B" and b: "B (lim - 2 ^ 15) = Some 15"
  shows "layout (lim - 2 ^ 15) (B(lim - 2 ^ 15 := None))"
proof (rule layoutI)
  note br = layoutD_brk [OF L] and bl = layoutD_block [OF L b]
  have low: "(2 :: nat) ^ 15 \<le> lim" using br(1) by (simp add: heap_base_def)
  show "heap_base \<le> lim - 2 ^ 15" by (rule bl(3))
  show "2 ^ 15 dvd lim - 2 ^ 15" using br(2) by (intro dvd_diff_nat) simp_all
  show "lim - 2 ^ 15 + 2 ^ 15 \<le> 2 ^ 32" using br(3) low by simp
  have other: "c + 2 ^ j \<le> lim - 2 ^ 15" if "B c = Some j" "c \<noteq> lim - 2 ^ 15" for c j
  proof (cases "c < lim - 2 ^ 15")
    case True
    with layoutD_apart [OF L that(1) b] show ?thesis by blast
  next
    case False
    with that(2) have "lim - 2 ^ 15 + 2 ^ 15 \<le> c" using layoutD_apart [OF L b that(1)] by simp
    with layoutD_block(5) [OF L that(1)] low have "(2 :: nat) ^ j \<le> 0" by linarith
    then show ?thesis by simp
  qed
  show "4 \<le> j \<and> j \<le> 15 \<and> heap_base \<le> c \<and> 2 ^ j dvd c \<and> c + 2 ^ j \<le> lim - 2 ^ 15"
    if c: "(B(lim - 2 ^ 15 := None)) c = Some j" for c j
  proof -
    have "B c = Some j" "c \<noteq> lim - 2 ^ 15" using c by (simp_all split: if_splits)
    with layoutD_block [OF L this(1)] other show ?thesis by simp
  qed
  show "c + 2 ^ j \<le> d"
    if "(B(lim - 2 ^ 15 := None)) c = Some j" "(B(lim - 2 ^ 15 := None)) d = Some i" "c < d" for c j d i
    using that layoutD_apart [OF L, of c j d i] by (simp split: if_splits)
  show "\<exists>c j. (B(lim - 2 ^ 15 := None)) c = Some j \<and> c \<le> x \<and> x < c + 2 ^ j"
    if x: "heap_base \<le> x" "x < lim - 2 ^ 15" for x
  proof -
    from x obtain c j where c: "B c = Some j" "c \<le> x" "x < c + 2 ^ j"
      using layoutD_cover [OF L, of x] by (meson diff_le_self less_le_trans)
    with x(2) show ?thesis by (intro exI [of _ c] exI [of _ j]) simp
  qed
qed

subsection \<open>Headers of a layout do not overlap\<close>

definition heads :: "nat \<Rightarrow> nat set" where
  "heads fl = (\<lambda>i. fl + 8 * i) ` {4..15}"

lemma heads_entry: "4 \<le> k \<Longrightarrow> k \<le> 15 \<Longrightarrow> fl + 8 * k \<in> heads fl"
  by (simp add: heads_def)

lemma layout_nodes_ok:
  assumes L: "layout lim B" and fl: "fl + 128 \<le> heap_base"
  shows "nodes_ok (heads fl) (dom B)"
proof -
  have H: "h + 8 \<le> heap_base" if "h \<in> heads fl" for h
    using that fl by (auto simp: heads_def)
  have D: "heap_base \<le> a \<and> a + 16 \<le> 2 ^ 32" if "a \<in> dom B" for a
    using that layout_16 [OF L] layoutD_block(3) [OF L] layoutD_brk(3) [OF L] by fastforce
  have DD: "a + 16 \<le> b \<or> b + 16 \<le> a" if "a \<in> dom B" "b \<in> dom B" "a \<noteq> b" for a b
  proof -
    from that obtain k j where "B a = Some k" "B b = Some j" by blast
    with that(3) show ?thesis
      using layoutD_apart [OF L, of a k b j] layoutD_apart [OF L, of b j a k] layout_16 [OF L]
      by (meson le_trans nat_neq_iff)
  qed
  have HH: "a + 8 \<le> b \<or> b + 8 \<le> a" if "a \<in> heads fl" "b \<in> heads fl" "a \<noteq> b" for a b
    using that by (auto simp: heads_def)
  show ?thesis unfolding nodes_ok_def
  proof (intro conjI ballI impI)
    show "heads fl \<inter> dom B = {}" using H D by fastforce
    show "a + 8 \<le> 2 ^ 32" if "a \<in> heads fl" for a using H [OF that] by (simp add: heap_base_def)
    show "a + 9 \<le> 2 ^ 32" if "a \<in> dom B" for a using D [OF that] by simp
    show "a + 8 \<le> b \<or> b + 8 \<le> a" if "a \<in> heads fl \<union> dom B" "b \<in> heads fl \<union> dom B" "a \<noteq> b" for a b
      using that H [of a] H [of b] D [of a] D [of b] DD [of a b] HH [of a b] by fastforce
    show "a + 9 \<le> b \<or> b + 8 \<le> a" if "a \<in> dom B" "b \<in> heads fl \<union> dom B" "a \<noteq> b" for a b
      using that H [of b] D [of a] DD [of a b] by fastforce
  qed
qed

end
