(* ===== verification/HeapInv.thy ===== *)
theory HeapInv
  imports HeapLayout
begin

section \<open>HeapInv: the invariant of the heap and its internal operations\<close>

text \<open>
  \<open>heap_core m fl lim B F X\<close> relates the bytes of memory to the block map \<open>B\<close>
  and the free lists \<open>F\<close>: the layout, the scale bytes, the chains of the free
  lists, \<open>is_free\<close> exactly for the blocks on a list, and self-links in the others.
  \<open>X\<close> are blocks whose header is under construction: only their scale byte counts.
  Every internal operation of heap.c is shown to be one step on \<open>(B, F)\<close>.
\<close>

definition heap_core ::
  "memory \<Rightarrow> nat \<Rightarrow> nat \<Rightarrow> (nat \<rightharpoonup> nat) \<Rightarrow> (nat \<Rightarrow> nat list) \<Rightarrow> nat set \<Rightarrow> bool" where
  "heap_core m fl lim B F X \<longleftrightarrow> layout lim B \<and> fl + 128 \<le> heap_base \<and>
     (\<forall>a k. B a = Some k \<longrightarrow> scale m (W a) = of_nat k) \<and>
     (\<forall>k. 4 \<le> k \<longrightarrow> k \<le> 15 \<longrightarrow> chain m (fl + 8 * k) (F k) \<and> distinct (F k) \<and>
        (\<forall>a\<in>set (F k). B a = Some k \<and> a \<notin> X)) \<and>
     (\<forall>a k. B a = Some k \<longrightarrow> a \<notin> X \<longrightarrow> is_free m (W a) = (a \<in> set (F k)) \<and>
        (a \<notin> set (F k) \<longrightarrow> hnext m (W a) = W a \<and> hprev m (W a) = W a))"

lemma heap_coreD:
  assumes "heap_core m fl lim B F X"
  shows "layout lim B" "fl + 128 \<le> heap_base" "nodes_ok (heads fl) (dom B)"
    and "\<And>a k. B a = Some k \<Longrightarrow> scale m (W a) = of_nat k"
    and "\<And>k. 4 \<le> k \<Longrightarrow> k \<le> 15 \<Longrightarrow> chain m (fl + 8 * k) (F k)"
    and "\<And>k. 4 \<le> k \<Longrightarrow> k \<le> 15 \<Longrightarrow> distinct (F k)"
    and "\<And>k a. 4 \<le> k \<Longrightarrow> k \<le> 15 \<Longrightarrow> a \<in> set (F k) \<Longrightarrow> B a = Some k"
    and "\<And>k a. 4 \<le> k \<Longrightarrow> k \<le> 15 \<Longrightarrow> a \<in> set (F k) \<Longrightarrow> a \<notin> X"
    and "\<And>a k. B a = Some k \<Longrightarrow> a \<notin> X \<Longrightarrow> is_free m (W a) = (a \<in> set (F k))"
    and "\<And>a k. B a = Some k \<Longrightarrow> a \<notin> X \<Longrightarrow> a \<notin> set (F k) \<Longrightarrow>
      hnext m (W a) = W a \<and> hprev m (W a) = W a"
  using assms layout_nodes_ok unfolding heap_core_def by blast+

lemma heap_coreI:
  assumes "layout lim B" "fl + 128 \<le> heap_base"
    and "\<And>a k. B a = Some k \<Longrightarrow> scale m (W a) = of_nat k"
    and "\<And>k. 4 \<le> k \<Longrightarrow> k \<le> 15 \<Longrightarrow> chain m (fl + 8 * k) (F k) \<and> distinct (F k)"
    and "\<And>k a. 4 \<le> k \<Longrightarrow> k \<le> 15 \<Longrightarrow> a \<in> set (F k) \<Longrightarrow> B a = Some k \<and> a \<notin> X"
    and "\<And>a k. B a = Some k \<Longrightarrow> a \<notin> X \<Longrightarrow> is_free m (W a) = (a \<in> set (F k))"
    and "\<And>a k. B a = Some k \<Longrightarrow> a \<notin> X \<Longrightarrow> a \<notin> set (F k) \<Longrightarrow>
      hnext m (W a) = W a \<and> hprev m (W a) = W a"
  shows "heap_core m fl lim B F X"
  using assms unfolding heap_core_def by blast

lemma core_block_range: "heap_core m fl lim B F X \<Longrightarrow> B a = Some k \<Longrightarrow> 4 \<le> k \<and> k \<le> 15"
  by (meson heap_coreD(1) layoutD_block(1,2))

text \<open>Free lists of different scales share no block.\<close>

lemma free_lists_disjoint:
  "heap_core m fl lim B F X \<Longrightarrow> 4 \<le> i \<Longrightarrow> i \<le> 15 \<Longrightarrow> 4 \<le> j \<Longrightarrow> j \<le> 15 \<Longrightarrow> i \<noteq> j \<Longrightarrow>
     set (F i) \<inter> set (F j) = {}"
  using heap_coreD(7) by (metis disjoint_iff option.inject)

lemma scale_of_nat_u8: "i \<le> 15 \<Longrightarrow> j \<le> 15 \<Longrightarrow> (of_nat i :: u8) = of_nat j \<longleftrightarrow> i = j"
  by (simp add: word_of_nat_eq_iff take_bit_nat_eq_self)

lemma unat_scale_of_nat: "k \<le> 15 \<Longrightarrow> unat (of_nat k :: u8) = k"
  by (simp add: unat_of_nat take_bit_nat_eq_self)

lemma free_list_entry_of_nat:
  "k \<le> 15 \<Longrightarrow> free_list_entry (W fl) (of_nat k) = W (fl + 8 * k)"
proof -
  assume "k \<le> 15"
  then have "ucast (of_nat k :: u8) = W k"
    by (simp add: unsigned_of_nat take_bit_nat_eq_self)
  then show ?thesis by (simp add: free_list_entry_def)
qed

text \<open>A change confined to one list's nodes leaves the chains of the other lists.\<close>

lemma untouched_chain:
  assumes C: "heap_core m fl lim B F X" and k: "4 \<le> k" "k \<le> 15"
    and S: "\<And>c. c \<in> S \<Longrightarrow> B c = Some k"
    and untouched: "\<And>c. c \<in> heads fl \<union> dom B \<Longrightarrow> c \<notin> insert (fl + 8 * k) S \<Longrightarrow>
      hnext m' (W c) = hnext m (W c) \<and> hprev m' (W c) = hprev m (W c)"
    and j: "4 \<le> j" "j \<le> 15" "j \<noteq> k"
  shows "chain m' (fl + 8 * j) (F j)"
proof -
  note D = heap_coreD [OF C]
  have out: "c \<in> heads fl \<union> dom B" "c \<notin> insert (fl + 8 * k) S"
    if c: "c \<in> insert (fl + 8 * j) (set (F j))" for c
  proof -
    have Fj: "B c = Some j" if "c \<in> set (F j)" using D(7) [OF j(1,2) that] .
    have hj: "fl + 8 * j \<in> heads fl" and hk: "fl + 8 * k \<in> heads fl"
      using heads_entry j(1,2) k by auto
    then have "fl + 8 * j \<notin> dom B" "fl + 8 * k \<notin> dom B"
      using nodes_ok_disjoint [OF D(3)] by blast+
    then show "c \<in> heads fl \<union> dom B" "c \<notin> insert (fl + 8 * k) S"
      using c hj Fj S [of c] j(3) by auto
  qed
  have "chain m' (fl + 8 * j) (F j) = chain m (fl + 8 * j) (F j)"
    by (rule chain_cong; rule conjunct1 [OF untouched] conjunct2 [OF untouched]; rule out; simp)
  with D(5) [OF j(1,2)] show ?thesis by simp
qed

lemma core_add:
  assumes C: "heap_core m fl lim B F X" and b: "B b = Some k" "b \<notin> set (F k)"
    and m': "m' = blkmngr_add_to_free_list (W fl) (W b) m"
  shows "heap_core m' fl lim B (F(k := b # F k)) (X - {b})"
    and "same_on (- hdr_bytes (heads fl) (dom B)) m m'"
proof -
  note D = heap_coreD [OF C]
  have k: "4 \<le> k" "k \<le> 15" using core_block_range [OF C b(1)] by auto
  have h: "fl + 8 * k \<in> heads fl" by (rule heads_entry [OF k])
  have fe: "W (fl + 8 * k) = free_list_entry (W fl) (scale m (W b))"
    by (simp add: D(4) [OF b(1)] free_list_entry_of_nat k)
  have sub: "set (F k) \<subseteq> dom B" using D(7) [OF k] by blast
  have bd: "b \<in> dom B" using b(1) by blast
  note A = add_to_free_list [OF D(3) h fe bd b(2) sub D(6) [OF k] D(5) [OF k] m']
  show "same_on (- hdr_bytes (heads fl) (dom B)) m m'" by (rule A(5))
  have untouched: "hnext m' (W c) = hnext m (W c) \<and> hprev m' (W c) = hprev m (W c)"
    if "c \<in> heads fl \<union> dom B" "c \<notin> insert (fl + 8 * k) (insert b (set (F k)))" for c
    using A(4) that by blast
  show "heap_core m' fl lim B (F(k := b # F k)) (X - {b})"
  proof (rule heap_coreI)
    show "layout lim B" "fl + 128 \<le> heap_base" by (rule D)+
    show "scale m' (W a) = of_nat j" if "B a = Some j" for a j
      using A(3) [of a] D(4) [OF that] that by (simp add: domI)
    show "chain m' (fl + 8 * j) ((F(k := b # F k)) j) \<and> distinct ((F(k := b # F k)) j)"
      if j: "4 \<le> j" "j \<le> 15" for j
    proof (cases "j = k")
      case True
      with A(1) D(6) [OF k] b(2) show ?thesis by simp
    next
      case False
      have "chain m' (fl + 8 * j) (F j)"
        by (rule untouched_chain [OF C k _ untouched j False, of "insert b (set (F k))"])
           (use b(1) D(7) [OF k] in auto)
      with D(6) [OF j] False show ?thesis by simp
    qed
    show "B a = Some j \<and> a \<notin> X - {b}"
      if "4 \<le> j" "j \<le> 15" "a \<in> set ((F(k := b # F k)) j)" for j a
      using that D(7) [OF that(1,2), of a] D(8) [OF that(1,2), of a] b(1)
      by (auto split: if_splits)
    show "is_free m' (W a) = (a \<in> set ((F(k := b # F k)) j))"
      if a: "B a = Some j" "a \<notin> X - {b}" for a j
      using A(2) [of a] D(9) [OF a(1)] a b(1) by (cases "a = b") auto
    show "hnext m' (W a) = W a \<and> hprev m' (W a) = W a"
      if a: "B a = Some j" "a \<notin> X - {b}" "a \<notin> set ((F(k := b # F k)) j)" for a j
    proof -
      have ab: "a \<noteq> b" using a b(1) by (auto split: if_splits)
      then have ax: "a \<notin> X" "a \<notin> set (F j)" using a by (auto split: if_splits)
      have "a \<notin> set (F k)" using ax(2) D(7) [OF k, of a] a(1) by auto
      moreover have "a \<in> dom B" "a \<noteq> fl + 8 * k" using a(1) nodes_ok_disjoint [OF D(3) h, of a] by auto
      ultimately show ?thesis using untouched [of a] ab D(10) [OF a(1) ax] by simp
    qed
  qed
qed

lemma core_remove:
  assumes C: "heap_core m fl lim B F X" and k: "4 \<le> k" "k \<le> 15" and b: "b \<in> set (F k)"
    and m': "m' = blkmngr_remove_from_free_list (W b) m"
  shows "heap_core m' fl lim B (F(k := remove1 b (F k))) X"
    and "same_on (- hdr_bytes (heads fl) (dom B)) m m'"
proof -
  note D = heap_coreD [OF C]
  have Bb: "B b = Some k" "b \<notin> X" using D(7,8) [OF k b] by auto
  have h: "fl + 8 * k \<in> heads fl" by (rule heads_entry [OF k])
  obtain ys zs where F: "F k = ys @ b # zs" using b by (auto simp: in_set_conv_decomp)
  have sub: "set (ys @ b # zs) \<subseteq> dom B" using D(7) [OF k] F by auto
  have dist: "distinct (ys @ b # zs)" using D(6) [OF k] F by simp
  then have rem: "remove1 b (F k) = ys @ zs" by (simp add: F remove1_append)
  note A = remove_from_free_list [OF D(3) h sub dist D(5) [OF k, unfolded F] m']
  show "same_on (- hdr_bytes (heads fl) (dom B)) m m'" by (rule A(7))
  have untouched: "hnext m' (W c) = hnext m (W c) \<and> hprev m' (W c) = hprev m (W c)"
    if "c \<in> heads fl \<union> dom B" "c \<notin> insert (fl + 8 * k) (set (F k))" for c
    using A(6) [of c] that F by simp
  show "heap_core m' fl lim B (F(k := remove1 b (F k))) X"
  proof (rule heap_coreI)
    show "layout lim B" "fl + 128 \<le> heap_base" by (rule D)+
    show "scale m' (W a) = of_nat j" if "B a = Some j" for a j
      using A(5) [of a] D(4) [OF that] that by (simp add: domI)
    show "chain m' (fl + 8 * j) ((F(k := remove1 b (F k))) j) \<and>
        distinct ((F(k := remove1 b (F k))) j)" if j: "4 \<le> j" "j \<le> 15" for j
    proof (cases "j = k")
      case True
      with A(1) dist rem show ?thesis by simp
    next
      case False
      have "chain m' (fl + 8 * j) (F j)"
        by (rule untouched_chain [OF C k D(7) [OF k] untouched j False])
      with D(6) [OF j] False show ?thesis by simp
    qed
    show "B a = Some j \<and> a \<notin> X"
      if "4 \<le> j" "j \<le> 15" "a \<in> set ((F(k := remove1 b (F k))) j)" for j a
      using that D(7) [OF that(1,2), of a] D(8) [OF that(1,2), of a]
      by (auto split: if_splits dest: notin_set_remove1 set_remove1_subset [THEN subsetD])
    have mem: "a \<in> set ((F(k := remove1 b (F k))) j) \<longleftrightarrow> a \<noteq> b \<and> a \<in> set (F j)"
      if a: "B a = Some j" for a j
      using a Bb(1) dist rem F by auto
    show "is_free m' (W a) = (a \<in> set ((F(k := remove1 b (F k))) j))"
      if a: "B a = Some j" "a \<notin> X" for a j
      using A(4) [of a] D(9) [OF a] a(1) mem [OF a(1)] by (simp add: domI)
    show "hnext m' (W a) = W a \<and> hprev m' (W a) = W a"
      if a: "B a = Some j" "a \<notin> X" "a \<notin> set ((F(k := remove1 b (F k))) j)" for a j
    proof (cases "a = b")
      case True
      with A(2,3) show ?thesis by simp
    next
      case False
      with a mem [OF a(1)] have "a \<notin> set (F j)" by simp
      moreover from this have "a \<notin> set (F k)" using D(7) [OF k, of a] a(1) by auto
      moreover have "a \<in> dom B" "a \<noteq> fl + 8 * k"
        using a(1) nodes_ok_disjoint [OF D(3) h, of a] by auto
      ultimately show ?thesis using untouched [of a] D(10) [OF a(1,2)] by simp
    qed
  qed
qed

subsection \<open>Changing the block map\<close>

lemma core_rescale:
  assumes C: "heap_core m fl lim B F X" and L': "layout lim' B'"
    and links: "\<And>a. a \<in> heads fl \<union> dom B' \<Longrightarrow>
      hnext m' (W a) = hnext m (W a) \<and> hprev m' (W a) = hprev m (W a)"
    and flags: "\<And>a j. B' a = Some j \<Longrightarrow>
      is_free m' (W a) = is_free m (W a) \<and> scale m' (W a) = of_nat j"
    and free': "\<And>k a. 4 \<le> k \<Longrightarrow> k \<le> 15 \<Longrightarrow> a \<in> set (F k) \<Longrightarrow> B' a = Some k \<and> a \<notin> X'"
    and old: "\<And>a j. B' a = Some j \<Longrightarrow> a \<notin> X' \<Longrightarrow>
      a \<notin> X \<and> (\<exists>i. B a = Some i \<and> (i = j \<or> a \<notin> set (F i)))"
  shows "heap_core m' fl lim' B' F X'"
proof (rule heap_coreI)
  note D = heap_coreD [OF C]
  show "layout lim' B'" "fl + 128 \<le> heap_base" by (rule L' D)+
  show "scale m' (W a) = of_nat j" if "B' a = Some j" for a j using flags [OF that] by simp
  show "B' a = Some k \<and> a \<notin> X'" if "4 \<le> k" "k \<le> 15" "a \<in> set (F k)" for k a
    by (rule free' [OF that])
  show "chain m' (fl + 8 * k) (F k) \<and> distinct (F k)" if k: "4 \<le> k" "k \<le> 15" for k
  proof -
    have "c \<in> heads fl \<union> dom B'" if "c \<in> insert (fl + 8 * k) (set (F k))" for c
      using that heads_entry [OF k] free' [OF k, of c] by auto
    then have "chain m' (fl + 8 * k) (F k) = chain m (fl + 8 * k) (F k)"
      using links by (intro chain_cong) auto
    with D(5,6) [OF k] show ?thesis by simp
  qed
  have not_free: "a \<in> set (F j) \<longleftrightarrow> a \<in> set (F i)"
    if "B' a = Some j" "B a = Some i" "i = j \<or> a \<notin> set (F i)" for a i j
    using that D(7) [of j a] layoutD_block(1,2) [OF L' that(1)] by auto
  fix a j assume a: "B' a = Some j" "a \<notin> X'"
  from old [OF this] obtain i where i: "a \<notin> X" "B a = Some i" "i = j \<or> a \<notin> set (F i)" by blast
  note iff = not_free [OF a(1) i(2,3)]
  show "is_free m' (W a) = (a \<in> set (F j))"
    using flags [OF a(1)] D(9) [OF i(2,1)] iff by simp
  assume "a \<notin> set (F j)"
  with D(10) [OF i(2,1)] links [of a] a(1) iff
  show "hnext m' (W a) = W a \<and> hprev m' (W a) = W a" by (simp add: domI)
qed

lemma shl1_of_nat: "k \<le> 15 \<Longrightarrow> shl1 (of_nat k) = W (2 ^ k)"
  by (simp add: shl1_def unat_scale_of_nat push_bit_1_of_nat)

lemma core_split:
  assumes C: "heap_core m fl lim B F {}" and a: "B a = Some (Suc k)" "a \<notin> set (F (Suc k))"
    and k: "4 \<le> k" and m': "m' = blkmngr_split_block (W fl) (W a) m"
  defines "B' \<equiv> B(a \<mapsto> k, a + 2 ^ k \<mapsto> k)"
  shows "heap_core m' fl lim B' (F(k := (a + 2 ^ k) # F k)) {}"
    and "same_on (- hdr_bytes (heads fl) (dom B')) m m'"
proof -
  note D = heap_coreD [OF C]
  let ?n = "a + 2 ^ k" and ?s = "of_nat k :: u8"
  note A = layoutD_block [OF D(1) a(1)]
  have k15: "k \<le> 15" using A(2) by simp
  have L': "layout lim B'" unfolding B'_def by (rule layout_split [OF D(1) a(1) k])
  have ok: "nodes_ok (heads fl) (dom B')" by (rule layout_nodes_ok [OF L' D(2)])
  have an: "a \<in> dom B'" "?n \<in> dom B'" "?n \<noteq> a" by (auto simp: B'_def)
  have s128: "unat ?s < 128" using k15 by (simp add: unat_scale_of_nat)
  have fresh: "B ?n = None"
  proof (rule ccontr)
    assume "B ?n \<noteq> None"
    then obtain j where "B ?n = Some j" by blast
    from layoutD_apart [OF D(1) a(1) this] show False by simp
  qed
  let ?m1 = "set_scale m (W a) ?s"
  let ?m2 = "set_scale ?m1 (W ?n) ?s"
  have base: "(67108864 :: nat) \<le> a" "a < 2 ^ 32"
    using A(3,5) layoutD_brk(3) [OF D(1)] by (simp_all add: heap_base_def)
  have a0: "W a \<noteq> 0" using of_nat_u32_eq [of a 0] base by simp
  have "\<not> (of_nat (Suc k) :: u8) \<le> 4"
    using unat_scale_of_nat [of "Suc k"] A(2) k by (simp add: word_le_nat_alt del: of_nat_Suc)
  then have eq: "m' = blkmngr_add_to_free_list (W fl) (W ?n) ?m2"
    using a0 scale_set_scale [OF ok an(1,1) s128, of m] shl1_of_nat [OF k15] D(4) [OF a(1)]
    by (simp add: m' blkmngr_split_block_def Let_def)
  note simps = hdr_simps [OF ok] an s128
  have C2: "heap_core ?m2 fl lim B' F {?n}"
  proof (rule core_rescale [OF C L'])
    show "hnext ?m2 (W c) = hnext m (W c) \<and> hprev ?m2 (W c) = hprev m (W c)"
      if "c \<in> heads fl \<union> dom B'" for c
      using that by (simp only: simps)
    show "is_free ?m2 (W c) = is_free m (W c) \<and> scale ?m2 (W c) = of_nat j" if c: "B' c = Some j" for c j
    proof -
      have "c \<in> dom B'" using c by blast
      moreover have "c \<noteq> a \<Longrightarrow> c \<noteq> ?n \<Longrightarrow> scale m (W c) = of_nat j" "c = a \<or> c = ?n \<Longrightarrow> j = k"
        using c D(4) [of c j] by (auto simp: B'_def split: if_splits)
      ultimately show ?thesis by (auto simp: simps simp del: of_nat_add of_nat_power)
    qed
    show "B' c = Some j \<and> c \<notin> {?n}" if "4 \<le> j" "j \<le> 15" "c \<in> set (F j)" for j c
      using D(7) [OF that] a fresh that(3) by (auto simp: B'_def)
    show "c \<notin> {} \<and> (\<exists>i. B c = Some i \<and> (i = j \<or> c \<notin> set (F i)))"
      if "B' c = Some j" "c \<notin> {?n}" for c j
      using that a by (auto simp: B'_def split: if_splits)
  qed
  have nF: "?n \<notin> set (F k)" using D(7) [OF k k15, of ?n] fresh by auto
  have Bn: "B' ?n = Some k" by (simp add: B'_def)
  show "heap_core m' fl lim B' (F(k := ?n # F k)) {}"
    using core_add(1) [OF C2 Bn nF eq] by simp
  have "same_on (- hdr_bytes (heads fl) (dom B')) m ?m2"
    by (rule same_on_trans; rule same_on_steps(3) [OF ok]; rule an)
  with core_add(2) [OF C2 Bn nF eq] show "same_on (- hdr_bytes (heads fl) (dom B')) m m'"
    by (rule same_on_trans [rotated])
qed

lemma core_merge:
  assumes C: "heap_core m fl lim B F {}"
    and l: "B l = Some k" "l \<notin> set (F k)" and u: "B (l + 2 ^ k) = Some k" "l + 2 ^ k \<notin> set (F k)"
    and k: "k < 15" and dv: "2 ^ Suc k dvd l"
    and m': "m' = set_scale m (W l) (of_nat (Suc k))"
  defines "B' \<equiv> B(l \<mapsto> Suc k, l + 2 ^ k := None)"
  shows "heap_core m' fl lim B' F {}" and "same_on (- hdr_bytes (heads fl) (dom B')) m m'"
proof -
  note D = heap_coreD [OF C]
  have L': "layout lim B'" unfolding B'_def by (rule layout_merge [OF D(1) l(1) u(1) k dv])
  have ok: "nodes_ok (heads fl) (dom B')" by (rule layout_nodes_ok [OF L' D(2)])
  have ld: "l \<in> dom B'" by (auto simp: B'_def)
  have s128: "unat (of_nat (Suc k) :: u8) < 128" using k unat_scale_of_nat [of "Suc k"] by simp
  note simps = hdr_simps [OF ok] ld s128
  show "same_on (- hdr_bytes (heads fl) (dom B')) m m'"
    unfolding m' by (rule same_on_steps(3) [OF ok ld])
  show "heap_core m' fl lim B' F {}"
  proof (rule core_rescale [OF C L'])
    show "hnext m' (W c) = hnext m (W c) \<and> hprev m' (W c) = hprev m (W c)"
      if "c \<in> heads fl \<union> dom B'" for c
      using that unfolding m' by (simp only: simps)
    show "is_free m' (W c) = is_free m (W c) \<and> scale m' (W c) = of_nat j" if c: "B' c = Some j" for c j
    proof -
      have "c \<in> dom B'" using c by blast
      moreover have "c \<noteq> l \<Longrightarrow> scale m (W c) = of_nat j" "c = l \<Longrightarrow> j = Suc k"
        using c D(4) [of c j] by (auto simp: B'_def split: if_splits)
      ultimately show ?thesis by (auto simp: m' simps simp del: of_nat_Suc)
    qed
    show "B' c = Some j \<and> c \<notin> {}" if "4 \<le> j" "j \<le> 15" "c \<in> set (F j)" for j c
      using D(7) [OF that] l u that(3) by (auto simp: B'_def)
    show "c \<notin> {} \<and> (\<exists>i. B c = Some i \<and> (i = j \<or> c \<notin> set (F i)))"
      if "B' c = Some j" "c \<notin> {}" for c j
      using that l by (auto simp: B'_def split: if_splits)
  qed
qed

lemma core_grow:
  assumes C: "heap_core m fl lim B F {}" and room: "lim + 2 ^ 16 \<le> 2 ^ 32"
    and m': "m' = blkmngr_add_to_free_list (W fl) (W lim) (set_scale m (W lim) MAX_BLOCK_SCALE)"
  defines "B' \<equiv> B(lim \<mapsto> 15)"
  shows "heap_core m' fl (lim + 2 ^ 15) B' (F(15 := lim # F 15)) {}"
    and "same_on (- hdr_bytes (heads fl) (dom B')) m m'"
proof -
  note D = heap_coreD [OF C]
  have L': "layout (lim + 2 ^ 15) B'" unfolding B'_def by (rule layout_grow [OF D(1) room])
  have ok: "nodes_ok (heads fl) (dom B')" by (rule layout_nodes_ok [OF L' D(2)])
  have ld: "lim \<in> dom B'" by (auto simp: B'_def)
  have fresh: "B lim = None"
    using layoutD_block(5) [OF D(1), of lim] by (cases "B lim") auto
  let ?m = "set_scale m (W lim) MAX_BLOCK_SCALE"
  have s128: "unat MAX_BLOCK_SCALE < 128" by simp
  note simps = hdr_simps [OF ok] ld s128
  have C2: "heap_core ?m fl (lim + 2 ^ 15) B' F {lim}"
  proof (rule core_rescale [OF C L'])
    show "hnext ?m (W c) = hnext m (W c) \<and> hprev ?m (W c) = hprev m (W c)"
      if "c \<in> heads fl \<union> dom B'" for c
      using that by (simp only: simps)
    show "is_free ?m (W c) = is_free m (W c) \<and> scale ?m (W c) = of_nat j" if c: "B' c = Some j" for c j
    proof -
      have "c \<in> dom B'" using c by blast
      moreover have "c \<noteq> lim \<Longrightarrow> scale m (W c) = of_nat j" "c = lim \<Longrightarrow> j = 15"
        using c D(4) [of c j] by (auto simp: B'_def split: if_splits)
      ultimately show ?thesis by (auto simp: simps)
    qed
    show "B' c = Some j \<and> c \<notin> {lim}" if "4 \<le> j" "j \<le> 15" "c \<in> set (F j)" for j c
      using D(7) [OF that] fresh by (auto simp: B'_def)
    show "c \<notin> {} \<and> (\<exists>i. B c = Some i \<and> (i = j \<or> c \<notin> set (F i)))"
      if "B' c = Some j" "c \<notin> {lim}" for c j
      using that by (auto simp: B'_def split: if_splits)
  qed
  have nF: "lim \<notin> set (F 15)" using D(7) [of 15 lim] fresh by auto
  have Bn: "B' lim = Some 15" by (simp add: B'_def)
  show "heap_core m' fl (lim + 2 ^ 15) B' (F(15 := lim # F 15)) {}"
    using core_add(1) [OF C2 Bn nF m'] by simp
  have "same_on (- hdr_bytes (heads fl) (dom B')) m ?m"
    by (rule same_on_steps(3) [OF ok ld])
  with core_add(2) [OF C2 Bn nF m'] show "same_on (- hdr_bytes (heads fl) (dom B')) m m'"
    by (rule same_on_trans [rotated])
qed

lemma core_shrink:
  assumes C: "heap_core m fl lim B F {}" and b: "lim - 2 ^ 15 \<in> set (F 15)"
    and m': "m' = blkmngr_remove_from_free_list (W (lim - 2 ^ 15)) m"
  shows "heap_core m' fl (lim - 2 ^ 15) (B(lim - 2 ^ 15 := None)) (F(15 := remove1 (lim - 2 ^ 15) (F 15))) {}"
    and "same_on (- hdr_bytes (heads fl) (dom B)) m m'"
proof -
  have k: "(4 :: nat) \<le> 15" "(15 :: nat) \<le> 15" by simp_all
  show "same_on (- hdr_bytes (heads fl) (dom B)) m m'" by (rule core_remove(2) [OF C k b m'])
  let ?b = "lim - 2 ^ 15" and ?F = "F(15 := remove1 (lim - 2 ^ 15) (F 15))"
  have C1: "heap_core m' fl lim B ?F {}" by (rule core_remove(1) [OF C k b m'])
  note D = heap_coreD [OF C1]
  have Bb: "B ?b = Some 15" by (rule heap_coreD(7) [OF C k b])
  have nb: "?b \<notin> set (?F 15)" using heap_coreD(6) [OF C k] by simp
  show "heap_core m' fl ?b (B(?b := None)) ?F {}"
  proof (rule core_rescale [OF C1 layout_shrink [OF D(1) Bb]])
    show "is_free m' (W c) = is_free m' (W c) \<and> scale m' (W c) = of_nat j"
      if "(B(?b := None)) c = Some j" for c j
      using that D(4) [of c j] by (auto split: if_splits)
    show "(B(?b := None)) c = Some j \<and> c \<notin> {}" if "4 \<le> j" "j \<le> 15" "c \<in> set (?F j)" for j c
      using D(7) [OF that] nb that(3) Bb by (cases "c = ?b") auto
    show "c \<notin> {} \<and> (\<exists>i. B c = Some i \<and> (i = j \<or> c \<notin> set (?F i)))"
      if "(B(?b := None)) c = Some j" "c \<notin> {}" for c j
      using that by (auto split: if_splits)
  qed simp
qed

subsection \<open>Finding a fit\<close>

lemma find_fit_scan_spec:
  assumes C: "heap_core m fl lim B F {}" and k: "4 \<le> k" "k \<le> 15"
  shows "\<exists>j. find_fit_scan (W fl) m (of_nat k) = of_nat j \<and> k \<le> j \<and> j \<le> 15 \<and>
    (F j = [] \<longrightarrow> j = 15) \<and> (\<forall>i. k \<le> i \<longrightarrow> i < j \<longrightarrow> F i = [])"
  using k
proof (induction "15 - k" arbitrary: k)
  case (0 k)
  then show ?case
    by (intro exI [of _ 15]) (subst find_fit_scan.simps, simp)
next
  case (Suc d k)
  note D = heap_coreD [OF C]
  have sub: "set (F k) \<subseteq> dom B" using D(7) [OF Suc.prems] by blast
  have iff: "is_end_of_list m (free_list_entry (W fl) (of_nat k)) \<longleftrightarrow> F k = []"
    using chain_head(1) [OF D(3) heads_entry [OF Suc.prems] sub D(5) [OF Suc.prems]]
    by (simp add: free_list_entry_of_nat Suc.prems)
  have lt: "(of_nat k :: u8) < MAX_BLOCK_SCALE"
    using Suc by (simp add: word_less_nat_alt unat_scale_of_nat)
  show ?case
  proof (cases "F k = []")
    case False
    then show ?thesis
      using iff Suc.prems by (intro exI [of _ k]) (subst find_fit_scan.simps, simp)
  next
    case True
    have "(of_nat k :: u8) + 1 = of_nat (Suc k)" by simp
    then have "find_fit_scan (W fl) m (of_nat k) = find_fit_scan (W fl) m (of_nat (Suc k))"
      using iff lt True by (subst find_fit_scan.simps) (simp del: of_nat_Suc)
    moreover obtain j where j: "find_fit_scan (W fl) m (of_nat (Suc k)) = of_nat j" "Suc k \<le> j" "j \<le> 15"
      "F j = [] \<longrightarrow> j = 15" "\<forall>i. Suc k \<le> i \<longrightarrow> i < j \<longrightarrow> F i = []"
    proof -
      have "d = 15 - Suc k" "4 \<le> Suc k" "Suc k \<le> 15" using Suc.hyps(2) Suc.prems by simp_all
      from Suc.hyps(1) [OF this] that show thesis by blast
    qed
    moreover have "F i = []" if "k \<le> i" "i < j" for i
      using that True j(5) by (cases "i = k") auto
    ultimately show ?thesis using j(2,3,4) by (intro exI [of _ j]) simp
  qed
qed

text \<open>\<open>set_is_free\<close> to the value it has writes the byte that is there.\<close>

lemma set_is_free_same: "set_is_free m a (is_free m a) = m"
proof -
  have "push_bit 1 (drop_bit 1 x) OR of_bool (bit x 0) = x" for x :: u8
  proof (rule bit_word_eqI)
    fix n assume "n < LENGTH(8)"
    then show "bit (push_bit 1 (drop_bit 1 x) OR of_bool (bit x 0)) n = bit x n"
      unfolding bit_drop_bit_eq bit_or_iff bit_push_bit_iff o_def
      by (cases n) (auto simp: bit_1_iff)
  qed
  then show ?thesis by (simp add: set_is_free_def scale_def is_free_def)
qed

end
