(* ===== verification/HeapOps.thy ===== *)
theory HeapOps
  imports HeapInv
begin

section \<open>HeapOps: allocation and release refine the abstract heap\<close>

text \<open>
  The abstract heap is the map of live blocks (allocated, not yet freed).
  \<open>heap_rel s L\<close> says that the state \<open>s\<close> represents the live map \<open>L\<close> and that
  no two free buddies are left unmerged. \<open>allocate\<close> adds one block to \<open>L\<close>,
  \<open>free\<close> removes one, and both leave the bytes of the other live blocks alone.
\<close>

subsection \<open>The abstraction\<close>

definition live_map :: "(nat \<rightharpoonup> nat) \<Rightarrow> (nat \<Rightarrow> nat list) \<Rightarrow> (nat \<rightharpoonup> nat)" where
  "live_map B F = (\<lambda>a. case B a of None \<Rightarrow> None
     | Some k \<Rightarrow> if a \<in> set (F k) then None else Some k)"

definition coalesced :: "(nat \<Rightarrow> nat list) \<Rightarrow> bool" where
  "coalesced F \<longleftrightarrow>
     (\<forall>k a. 4 \<le> k \<longrightarrow> k < 15 \<longrightarrow> a \<in> set (F k) \<longrightarrow> buddy a k \<notin> set (F k))"

lemma live_map_Some: "live_map B F a = Some k \<longleftrightarrow> B a = Some k \<and> a \<notin> set (F k)"
  by (auto simp: live_map_def split: option.splits)

lemma coalescedD: "coalesced F \<Longrightarrow> 4 \<le> k \<Longrightarrow> k < 15 \<Longrightarrow> a \<in> set (F k) \<Longrightarrow> buddy a k \<notin> set (F k)"
  by (simp add: coalesced_def)

lemma coalesced_subset:
  "coalesced F \<Longrightarrow> (\<And>k. set (F' k) \<subseteq> set (F k)) \<Longrightarrow> coalesced F'"
  unfolding coalesced_def by blast

text \<open>Adding a block whose buddy is not on the list.\<close>

lemma coalesced_add:
  assumes F: "coalesced F" and b: "k < 15 \<Longrightarrow> buddy b k \<notin> set (F k)" "2 ^ k dvd b"
    and al: "\<And>a. a \<in> set (F k) \<Longrightarrow> 2 ^ k dvd a"
  shows "coalesced (F(k := b # F k))"
  unfolding coalesced_def
proof (intro allI impI)
  fix j a assume j: "4 \<le> j" "j < 15" and a: "a \<in> set ((F(k := b # F k)) j)"
  show "buddy a j \<notin> set ((F(k := b # F k)) j)"
  proof (cases "j = k")
    case False
    with coalescedD [OF F j] a show ?thesis by simp
  next
    case True
    show ?thesis
    proof (cases "a = b")
      case True
      with b \<open>j = k\<close> j buddy_neq [OF b(2)] show ?thesis by simp
    next
      case False
      with a True have ak: "a \<in> set (F k)" by simp
      then have "buddy a k \<noteq> b" using b(1) buddy_buddy [OF al [OF ak]] j(2) True by auto
      with coalescedD [OF F j] ak True show ?thesis by simp
    qed
  qed
qed

subsection \<open>Finding and splitting\<close>

lemma core_find_fit:
  assumes C: "heap_core m fl lim B F {}" and k: "4 \<le> k" "k \<le> 15"
  shows "(\<exists>j a m'. k \<le> j \<and> j \<le> 15 \<and> a \<in> set (F j) \<and>
      (\<forall>i. k \<le> i \<longrightarrow> i < j \<longrightarrow> F i = []) \<and> blkmngr_find_fit (W fl) (of_nat k) m = (W a, m') \<and>
      heap_core m' fl lim B (F(j := remove1 a (F j))) {} \<and>
      same_on (- hdr_bytes (heads fl) (dom B)) m m') \<or>
    (\<forall>i. k \<le> i \<longrightarrow> i \<le> 15 \<longrightarrow> F i = []) \<and> blkmngr_find_fit (W fl) (of_nat k) m = (0, m)"
proof -
  note D = heap_coreD [OF C]
  obtain j where j: "find_fit_scan (W fl) m (of_nat k) = of_nat j" "k \<le> j" "j \<le> 15"
    "F j = [] \<longrightarrow> j = 15" "\<forall>i. k \<le> i \<longrightarrow> i < j \<longrightarrow> F i = []"
    using find_fit_scan_spec [OF C k] by blast
  have j4: "4 \<le> j" using k j(2) by simp
  have sub: "set (F j) \<subseteq> dom B" using D(7) [OF j4 j(3)] by blast
  note ch = chain_head [OF D(3) heads_entry [OF j4 j(3)] sub D(5) [OF j4 j(3)]]
  have fe: "free_list_entry (W fl) (of_nat j) = W (fl + 8 * j)"
    by (rule free_list_entry_of_nat [OF j(3)])
  show ?thesis
  proof (cases "F j = []")
    case True
    with j have "\<forall>i. k \<le> i \<longrightarrow> i \<le> 15 \<longrightarrow> F i = []" by (metis le_neq_implies_less)
    moreover have "blkmngr_find_fit (W fl) (of_nat k) m = (0, m)"
      using ch(1) True unfolding blkmngr_find_fit_def Let_def j(1) fe by simp
    ultimately show ?thesis by blast
  next
    case False
    define a where "a = hd (F j)"
    have a: "a \<in> set (F j)" using False by (simp add: a_def)
    note Ba = D(7) [OF j4 j(3) a]
    note R = core_remove [OF C j4 j(3) a refl]
    note A = layoutD_block [OF D(1) Ba]
    have "a \<noteq> 0" "a < 2 ^ 32"
      using A(3,5) layoutD_brk(3) [OF D(1)] by (simp_all add: heap_base_def)
    then have "W a \<noteq> 0" using of_nat_u32_eq [of a 0] by simp
    moreover have "\<not> is_free (blkmngr_remove_from_free_list (W a) m) (W a)"
      using heap_coreD(9) [OF R(1) Ba] D(6) [OF j4 j(3)] by simp
    then have "set_is_free (blkmngr_remove_from_free_list (W a) m) (W a) False =
        blkmngr_remove_from_free_list (W a) m"
      using set_is_free_same [of "blkmngr_remove_from_free_list (W a) m" "W a"] by simp
    ultimately have "blkmngr_find_fit (W fl) (of_nat k) m = (W a, blkmngr_remove_from_free_list (W a) m)"
      using ch False unfolding blkmngr_find_fit_def Let_def j(1) fe by (simp add: a_def)
    with R a j show ?thesis by blast
  qed
qed

lemma hdr_bytes_mono: "D \<subseteq> D' \<Longrightarrow> hdr_bytes H D \<subseteq> hdr_bytes H D'"
  unfolding hdr_bytes_def by blast

lemma hdr_bytes_insert: "hdr_bytes H (insert d D) = {d..<d + 9} \<union> hdr_bytes H D"
  unfolding hdr_bytes_def by blast

lemma core_split_loop:
  assumes "heap_core m fl lim B F {}" "B a = Some j" "a \<notin> set (F j)" "4 \<le> r" "r \<le> j" "coalesced F"
  shows "\<exists>m' B' F'. split_loop (W fl) (W a) (W r) m = Some m' \<and> heap_core m' fl lim B' F' {} \<and>
    coalesced F' \<and> live_map B' F' = (live_map B F)(a \<mapsto> r) \<and>
    same_on (- (hdr_bytes (heads fl) (dom B) \<union> {a..<a + 2 ^ j})) m m'"
  using assms
proof (induction "j - r" arbitrary: j m B F)
  case (0 j)
  note D = heap_coreD [OF 0(2)]
  have "j \<le> 15" using layoutD_block(2) [OF D(1) 0(3)] .
  with 0 D(4) have "\<not> ucast (scale m (W a)) > W r"
    by (simp add: word_less_nat_alt unsigned_ucast_eq unat_of_nat take_bit_nat_eq_self)
  moreover have "live_map B F = (live_map B F)(a \<mapsto> r)" using 0 by (auto simp: live_map_Some)
  ultimately show ?case using 0
    by (intro exI [of _ m] exI [of _ B] exI [of _ F]) (subst split_loop.simps, simp)
next
  case (Suc d j0)
  then obtain j where j: "j0 = Suc j" "4 \<le> j" "r \<le> j" "d = j - r" by (cases j0) auto
  note C = Suc(3) and Ba = Suc(4) [unfolded j(1)] and aF = Suc(5) [unfolded j(1)]
  note D = heap_coreD [OF C]
  note A = layoutD_block [OF D(1) Ba]
  define n m1 B1 F1 where "n = a + 2 ^ j" and "m1 = blkmngr_split_block (W fl) (W a) m"
    and "B1 = B(a \<mapsto> j, n \<mapsto> j)" and "F1 = F(j := n # F j)"
  note S = core_split [OF C Ba aF j(2) m1_def, folded n_def, folded B1_def F1_def]
  have j15: "j \<le> 15" using A(2) by simp
  have Fj: "B c = Some j \<and> 2 ^ j dvd c" if "c \<in> set (F j)" for c
    using D(7) [OF j(2) j15 that] layoutD_block(4) [OF D(1)] by blast
  have naF: "a \<notin> set (F j)" using Fj [of a] Ba by auto
  have Bn: "B n = None"
    using layoutD_apart [OF D(1) Ba, of n] by (cases "B n") (auto simp: n_def)
  have an: "a \<noteq> n" by (simp add: n_def)
  have adv: "2 ^ j dvd a" using A(4) by (rule power_le_dvd) simp
  have "buddy a j = n" using A(4) by (simp add: buddy_def n_def)
  then have "buddy n j = a" using buddy_buddy [OF adv] by simp
  then have co: "coalesced F1"
    unfolding F1_def using naF adv Fj by (intro coalesced_add Suc(8)) (auto simp: n_def)
  have lm: "live_map B1 F1 = (live_map B F)(a \<mapsto> j)"
    using Bn an naF by (auto simp: live_map_def B1_def F1_def split: option.splits)
  have "\<exists>m' B' F'. split_loop (W fl) (W a) (W r) m1 = Some m' \<and> heap_core m' fl lim B' F' {} \<and>
    coalesced F' \<and> live_map B' F' = (live_map B1 F1)(a \<mapsto> r) \<and>
    same_on (- (hdr_bytes (heads fl) (dom B1) \<union> {a..<a + 2 ^ j})) m1 m'"
    using S(1) an naF j Suc.prems(4) co by (intro Suc(1)) (auto simp: B1_def F1_def)
  then obtain m' B' F' where R: "split_loop (W fl) (W a) (W r) m1 = Some m'"
    "heap_core m' fl lim B' F' {}" "coalesced F'" "live_map B' F' = (live_map B1 F1)(a \<mapsto> r)"
    "same_on (- (hdr_bytes (heads fl) (dom B1) \<union> {a..<a + 2 ^ j})) m1 m'" by blast
  have "ucast (scale m (W a)) > W r"
    using A(2) j D(4) [OF Ba]
    by (simp add: word_less_nat_alt unsigned_ucast_eq unat_of_nat take_bit_nat_eq_self del: of_nat_Suc)
  with R(1) have eq: "split_loop (W fl) (W a) (W r) m = Some m'"
    by (subst split_loop.simps) (simp add: m1_def)
  have p16: "(16 :: nat) \<le> 2 ^ j" using power_increasing [OF j(2), of "2 :: nat"] by simp
  have "dom B1 = insert n (dom B)" using Ba by (auto simp: B1_def)
  then have sub: "hdr_bytes (heads fl) (dom B1) \<subseteq> hdr_bytes (heads fl) (dom B) \<union> {a..<a + 2 ^ j0}"
    "{a..<a + 2 ^ j} \<subseteq> {a..<a + 2 ^ j0}"
    using p16 by (auto simp: hdr_bytes_insert n_def j(1))
  have "- (hdr_bytes (heads fl) (dom B) \<union> {a..<a + 2 ^ j0}) \<subseteq> - hdr_bytes (heads fl) (dom B1)"
    using sub(1) by blast
  note same_on_subset [OF S(2) this]
  also have "- (hdr_bytes (heads fl) (dom B) \<union> {a..<a + 2 ^ j0}) \<subseteq>
      - (hdr_bytes (heads fl) (dom B1) \<union> {a..<a + 2 ^ j})"
    using sub by blast
  note same_on_subset [OF R(5) this]
  finally show ?case using eq R(2-4) lm by (intro exI [of _ m'] exI [of _ B'] exI [of _ F']) simp
qed


subsection \<open>Coalescing\<close>

lemma sint_of_nat_u32: "sint (W n) = signed_take_bit 31 (int n)"
  by (simp add: signed_of_nat)

lemma signed_take_bit_31: "- (2 ^ 16) \<le> x \<Longrightarrow> x \<le> 2 ^ 16 \<Longrightarrow> signed_take_bit 31 x = (x :: int)"
  by (intro signed_take_bit_int_eq_self) simp_all

lemma pow_le_16: "k \<le> 16 \<Longrightarrow> - (2 ^ 16) \<le> (2 :: int) ^ k \<and> (2 :: int) ^ k \<le> 2 ^ 16"
  using power_increasing [of k 16 "2 :: int"] zero_less_power [of "2 :: int" k] by linarith

lemma sint_of_nat_pow: "k \<le> 16 \<Longrightarrow> sint (W (2 ^ k)) = 2 ^ k"
  using signed_take_bit_31 [of "2 ^ k"] pow_le_16 [of k] sint_of_nat_u32 [of "2 ^ k"] by simp

lemma sint_neg_pow: "k \<le> 16 \<Longrightarrow> sint (- W (2 ^ k)) < 0"
proof -
  assume k: "k \<le> 16"
  have "- (2 ^ 16) \<le> - ((2 :: int) ^ k)" "- ((2 :: int) ^ k) \<le> 2 ^ 16"
    using pow_le_16 [OF k] zero_less_power [of "2 :: int" k] by linarith+
  then have "signed_take_bit 31 (- ((2 :: int) ^ k)) = - (2 ^ k)" by (rule signed_take_bit_31)
  moreover have "- W (2 ^ k) = word_of_int (- (2 ^ k))" by simp
  ultimately show ?thesis using signed_of_int [of "- (2 ^ k)", where 'a = int and 'b = 32] by simp
qed

lemma sint_dvd: "k \<le> 16 \<Longrightarrow> sint (W x) smod 2 ^ k = 0 \<longleftrightarrow> 2 ^ k dvd x"
proof -
  assume k: "k \<le> 16"
  have "2 ^ k dvd sint (W x) \<longleftrightarrow> take_bit k (sint (W x)) = 0" by (simp add: take_bit_eq_0_iff)
  also have "take_bit k (sint (W x)) = take_bit k (int x)"
    using k by (simp add: signed_of_nat take_bit_signed_take_bit)
  also have "take_bit k (int x) = 0 \<longleftrightarrow> 2 ^ k dvd int x"
    by (simp add: take_bit_eq_0_iff)
  also have "\<dots> \<longleftrightarrow> 2 ^ k dvd x"
    using of_nat_dvd_iff [of "2 ^ k" x, where 'a = int] by simp
  finally have "2 ^ k dvd sint (W x) \<longleftrightarrow> 2 ^ k dvd x" .
  then show ?thesis
    by (simp add: smod_int_alt_def sgn_eq_0_iff mod_eq_0_iff_dvd) (metis dvd_0_right)
qed


text \<open>The sign and size of \<open>buddy_offset\<close>: the distance to the buddy, negative for an upper half.\<close>

lemma buddy_offset_of_nat:
  assumes a: "heap_base \<le> a" "2 ^ k dvd a" "a < 2 ^ 32" and k: "k \<le> 15"
    and sc: "scale m (W a) = of_nat k"
  shows "W a + buddy_offset m (W a) = W (buddy a k)"
    and "sint (buddy_offset m (W a)) < 0 \<longleftrightarrow> \<not> 2 ^ Suc k dvd a"
proof -
  have "HEAP_LOWER_BOUND = W heap_base" by (simp add: heap_base_def)
  then have off: "W a - HEAP_LOWER_BOUND = W (a - heap_base)" using a(1) by (simp only: of_nat_diff)
  have "(of_nat k :: u8) + 1 = of_nat (Suc k)" by simp
  moreover have "unat (of_nat (Suc k) :: u8) = Suc k"
    using k by (simp add: unat_of_nat take_bit_nat_eq_self del: of_nat_Suc)
  ultimately have s1: "shl1 (of_nat k + 1) = W (2 ^ Suc k)"
    by (simp add: shl1_def push_bit_1_of_nat del: of_nat_Suc)
  have "(2 :: nat) ^ Suc k dvd 2 ^ 26" using k by (intro le_imp_power_dvd) simp
  then have "2 ^ Suc k dvd heap_base" by (simp add: heap_base_def)
  then have "2 ^ Suc k dvd a - heap_base \<longleftrightarrow> 2 ^ Suc k dvd a"
    using a(1) by (metis dvd_diffD dvd_diff_nat)
  then have eq: "buddy_offset m (W a) = (if 2 ^ Suc k dvd a then W (2 ^ k) else - W (2 ^ k))"
    using sint_dvd [of "Suc k" "a - heap_base"] sint_of_nat_pow [of "Suc k"] k
    by (simp add: buddy_offset_def Let_def off s1 sc shl1_of_nat del: of_nat_power power_Suc)
  show "sint (buddy_offset m (W a)) < 0 \<longleftrightarrow> \<not> 2 ^ Suc k dvd a"
    using sint_neg_pow [of k] sint_of_nat_pow [of k] k unfolding eq by simp
  show "W a + buddy_offset m (W a) = W (buddy a k)"
    using buddy_upper [OF a(2)] unfolding eq buddy_def by (simp add: of_nat_diff)
qed

lemma core_coalesce_loop:
  assumes "heap_core m fl lim B F {}" "B a = Some k" "a \<notin> set (F k)" "coalesced F"
  shows "\<exists>m' B' F' c K.
    coalesce_loop (buddy_offset m (W a)) (W a + buddy_offset m (W a)) (W a) m = Some (W c, m') \<and>
    heap_core m' fl lim B' F' {} \<and> B' c = Some K \<and> c \<notin> set (F' K) \<and> coalesced F' \<and>
    (K < 15 \<longrightarrow> buddy c K \<notin> set (F' K)) \<and> (c = a \<or> live_map B F c = None) \<and>
    live_map B' F' = (live_map B F)(a := None, c \<mapsto> K) \<and> dom B' \<subseteq> dom B \<and>
    same_on (- hdr_bytes (heads fl) (dom B)) m m'"
  using assms
proof (induction "15 - k" arbitrary: a k m B F rule: less_induct)
  case less
  note C = less.prems(1) and Ba = less.prems(2) and aF = less.prems(3) and co = less.prems(4)
  note D = heap_coreD [OF C]
  note A = layoutD_block [OF D(1) Ba]
  let ?b = "buddy a k"
  have a32: "a < 2 ^ 32" using A(5) layoutD_brk(3) [OF D(1)] zero_less_power [of "2 :: nat" k] by linarith
  note O = buddy_offset_of_nat [OF A(3,4) a32 A(2) D(4) [OF Ba]]
  have sk: "unat (of_nat k :: u8) = k" using A(2) by (rule unat_scale_of_nat)
  show ?case
  proof (cases "k < 15 \<and> ?b \<in> set (F k)")
    case False
    have "\<not> (is_free m (W ?b) \<and> scale m (W ?b) = scale m (W a) \<and> scale m (W a) < MAX_BLOCK_SCALE)"
    proof
      assume *: "is_free m (W ?b) \<and> scale m (W ?b) = scale m (W a) \<and> scale m (W a) < MAX_BLOCK_SCALE"
      then have k: "k < 15" using D(4) [OF Ba] sk by (simp add: word_less_nat_alt)
      then obtain j where j: "B ?b = Some j" "j \<le> k" using buddy_block [OF D(1) Ba] by blast
      then have "j = k" using * D(4) [OF Ba] D(4) [OF j(1)] k scale_of_nat_u8 [of j k] by simp
      with * j(1) D(9) [OF j(1)] False k show False by simp
    qed
    then have "coalesce_loop (buddy_offset m (W a)) (W a + buddy_offset m (W a)) (W a) m = Some (W a, m)"
      unfolding O(1) by (subst coalesce_loop.simps) (rule if_not_P)
    moreover have "live_map B F = (live_map B F)(a := None, a \<mapsto> k)" using Ba aF by (auto simp: live_map_Some)
    ultimately show ?thesis using less.prems False
      by (intro exI [of _ m] exI [of _ B] exI [of _ F] exI [of _ a] exI [of _ k]) auto
  next
    case True
    then have k: "k < 15" and b: "?b \<in> set (F k)" by auto
    note Bb = D(7) [OF A(1,2) b]
    define m1 F1 where "m1 = blkmngr_remove_from_free_list (W ?b) m"
      and "F1 = F(k := remove1 ?b (F k))"
    note R = core_remove [OF C A(1,2) b m1_def, folded F1_def]
    have nF: "a \<notin> set (F1 k)" "?b \<notin> set (F1 k)"
      using aF D(6) [OF A(1,2)] by (auto simp: F1_def)
    define l where "l = (if 2 ^ Suc k dvd a then a else ?b)"
    have l: "l = a \<and> l + 2 ^ k = ?b \<or> l = ?b \<and> l + 2 ^ k = a" "2 ^ Suc k dvd l"
      using buddy_upper [OF A(4)] by (auto simp: l_def buddy_def)
    then have Bl: "B l = Some k" "B (l + 2 ^ k) = Some k" "l \<notin> set (F1 k)" "l + 2 ^ k \<notin> set (F1 k)"
      using Ba Bb nF by auto
    define m2 B2 where "m2 = set_scale m1 (W l) (of_nat (Suc k))"
      and "B2 = B(l \<mapsto> Suc k, l + 2 ^ k := None)"
    note M = core_merge [OF R(1) Bl(1,3,2,4) k l(2) m2_def, folded B2_def]
    have lF: "l \<notin> set (F1 (Suc k))"
      using heap_coreD(7) [OF R(1), of "Suc k" l] Bl(1) A(1) k by auto
    have co1: "coalesced F1" by (rule coalesced_subset [OF co]) (auto simp: F1_def dest: set_remove1_subset [THEN subsetD])
    have lb: "live_map B F ?b = None" using Bb b by (simp add: live_map_def)
    have lm: "live_map B2 F1 = (live_map B F)(a := None, l \<mapsto> Suc k)"
    proof
      fix x
      have ne: "l \<noteq> l + 2 ^ k" by simp
      have other: "live_map B F1 x = live_map B F x" if "x \<noteq> ?b"
        using that by (simp add: live_map_def F1_def split: option.splits)
      consider "x = l" | "x = l + 2 ^ k" "x \<noteq> l" | "x \<noteq> l" "x \<noteq> l + 2 ^ k" "x \<noteq> a" "x \<noteq> ?b"
        using l(1) by metis
      then show "live_map B2 F1 x = ((live_map B F)(a := None, l \<mapsto> Suc k)) x"
      proof cases
        case 1
        with lF show ?thesis by (simp add: live_map_def B2_def)
      next
        case 2
        then have "x = a \<or> x = ?b" using l(1) by auto
        moreover have "live_map B2 F1 x = None" using 2 by (simp add: live_map_def B2_def)
        ultimately show ?thesis using 2 lb by auto
      next
        case 3
        then have "live_map B2 F1 x = live_map B F1 x" by (simp add: live_map_def B2_def)
        with 3 other show ?thesis by simp
      qed
    qed
    have "15 - Suc k < 15 - k" "B2 l = Some (Suc k)" using k by (simp_all add: B2_def)
    from less.hyps [OF this(1) M(1) this(2) lF co1]
    obtain m' B' F' c K where I:
      "coalesce_loop (buddy_offset m2 (W l)) (W l + buddy_offset m2 (W l)) (W l) m2 = Some (W c, m')"
      "heap_core m' fl lim B' F' {}" "B' c = Some K" "c \<notin> set (F' K)" "coalesced F'"
      "K < 15 \<longrightarrow> buddy c K \<notin> set (F' K)" "c = l \<or> live_map B2 F1 c = None"
      "live_map B' F' = (live_map B2 F1)(l := None, c \<mapsto> K)" "dom B' \<subseteq> dom B2"
      "same_on (- hdr_bytes (heads fl) (dom B2)) m2 m'" by blast
    have dB: "dom B2 \<subseteq> dom B" using Bl by (auto simp: B2_def)
    have s1: "scale m1 (W l) = of_nat k" by (rule heap_coreD(4) [OF R(1) Bl(1)])
    have "scale m (W a) < MAX_BLOCK_SCALE" using k D(4) [OF Ba] sk by (simp add: word_less_nat_alt)
    moreover have "is_free m (W ?b)" "scale m (W ?b) = scale m (W a)"
      using D(9) [OF Bb] b D(4) [OF Bb] D(4) [OF Ba] by simp_all
    moreover have "(if sint (buddy_offset m (W a)) < 0
        then W a + buddy_offset m (W a) else W a) = W l"
      using O by (simp add: l_def)
    ultimately have eq: "coalesce_loop (buddy_offset m (W a)) (W a + buddy_offset m (W a)) (W a) m =
        Some (W c, m')"
      using I(1) by (subst coalesce_loop.simps) (simp add: O(1) Let_def s1 m2_def add.commute split del: if_split flip: m1_def)
    have "c = a \<or> live_map B F c = None"
      using I(7) [unfolded lm] lb l(1) by (auto split: if_splits)
    moreover have "live_map B' F' = (live_map B F)(a := None, c \<mapsto> K)"
      unfolding I(8) lm using lb l(1) by (auto simp: fun_eq_iff)
    moreover have "dom B' \<subseteq> dom B" using I(9) dB by (rule subset_trans)
    moreover have "same_on (- hdr_bytes (heads fl) (dom B)) m m'"
      using R(2) same_on_subset [OF M(2)] same_on_subset [OF I(10)] hdr_bytes_mono [OF dB]
      by (meson compl_mono same_on_trans)
    ultimately show ?thesis
      by (intro exI [of _ m'] exI [of _ B'] exI [of _ F'] exI [of _ c] exI [of _ K] conjI)
         (fact | rule eq I)+
  qed
qed

end
