(* ===== verification/HeapAlloc.thy ===== *)
theory HeapAlloc
  imports HeapOps
begin

section \<open>HeapAlloc: allocate and free refine a map of live blocks\<close>

text \<open>
  The abstract heap is the map \<open>L\<close> of live blocks (allocated, not yet freed) to
  their scales. \<open>heap_rel s L\<close>: the state \<open>s\<close> represents \<open>L\<close> and no two free
  buddies are left unmerged. \<open>kept\<close> are the bytes no heap operation may change:
  everything below the heap but the list heads, and the payloads of live blocks.
\<close>

subsection \<open>The abstraction relation\<close>

definition heap_rel :: "'a heap_state_scheme \<Rightarrow> (nat \<rightharpoonup> nat) \<Rightarrow> bool" where
  "heap_rel s L \<longleftrightarrow> (\<exists>B F. heap_core (mem s) (unat (free_list s)) (unat (current_brk s)) B F {} \<and>
     coalesced F \<and> L = live_map B F)"

definition kept :: "u32 \<Rightarrow> (nat \<rightharpoonup> nat) \<Rightarrow> nat set" where
  "kept fl L = ({..<heap_base} - {unat fl..<unat fl + 128}) \<union>
     {x. \<exists>a k. L a = Some k \<and> a + 9 \<le> x \<and> x < a + 2 ^ k}"

lemma kept_mono: "(\<And>a k. L a = Some k \<Longrightarrow> L' a = Some k) \<Longrightarrow> kept fl L \<subseteq> kept fl L'"
  unfolding kept_def by blast

lemma heap_relI:
  "heap_core (mem s) (unat (free_list s)) (unat (current_brk s)) B F {} \<Longrightarrow> coalesced F \<Longrightarrow>
     L = live_map B F \<Longrightarrow> heap_rel s L"
  unfolding heap_rel_def by blast

lemma core_kept_apart:
  assumes C: "heap_core m fl lim B F {}" and L: "L = live_map B F"
  shows "kept (W fl) L \<subseteq> - hdr_bytes (heads fl) (dom B)"
proof
  note D = heap_coreD [OF C]
  have fl32: "unat (W fl) = fl" using D(2) by (intro unat_of_nat_u32) (simp add: heap_base_def)
  fix x assume "x \<in> kept (W fl) L"
  then consider (low) "x < heap_base" "x \<notin> {fl..<fl + 128}"
    | (pay) a k where "B a = Some k" "a + 9 \<le> x" "x < a + 2 ^ k"
    unfolding kept_def fl32 L by (auto simp: live_map_Some)
  then show "x \<in> - hdr_bytes (heads fl) (dom B)"
  proof cases
    case low
    have "x \<notin> {d..<d + 9}" if "d \<in> dom B" for d
      using that low layoutD_block(3) [OF D(1)] by fastforce
    with low show ?thesis by (auto simp: hdr_bytes_def heads_def)
  next
    case pay
    note A = layoutD_block [OF D(1) pay(1)]
    have "x \<notin> {d..<d + 9}" if d: "d \<in> dom B" for d
    proof -
      from d obtain j where j: "B d = Some j" by blast
      consider "d = a" | "d < a" | "a < d" by linarith
      then show ?thesis
      proof cases
        case 2
        have "d + 2 ^ j \<le> a" by (rule layoutD_apart [OF D(1) j pay(1) 2])
        with layout_16 [OF D(1) j] pay(2) show ?thesis by simp
      next
        case 3
        have "a + 2 ^ k \<le> d" by (rule layoutD_apart [OF D(1) pay(1) j 3])
        with pay(3) show ?thesis by simp
      qed (use pay in simp)
    qed
    moreover have "x \<notin> {h..<h + 8}" if "h \<in> heads fl" for h
      using that A(3) pay(2) D(2) by (auto simp: heads_def)
    ultimately show ?thesis by (auto simp: hdr_bytes_def)
  qed
qed

text \<open>A block on a free list meets no kept byte.\<close>

lemma core_kept_free:
  assumes C: "heap_core m fl lim B F {}" and L: "L = live_map B F"
    and a: "B a = Some j" "a \<in> set (F j)"
  shows "kept (W fl) L \<subseteq> - {a..<a + 2 ^ j}"
proof
  note D = heap_coreD [OF C]
  have fl32: "unat (W fl) = fl" using D(2) by (intro unat_of_nat_u32) (simp add: heap_base_def)
  fix x assume "x \<in> kept (W fl) L"
  then consider (low) "x < heap_base" | (pay) b k where "B b = Some k" "b \<noteq> a" "b \<le> x" "x < b + 2 ^ k"
    using a unfolding kept_def fl32 L by (fastforce simp: live_map_Some)
  then show "x \<in> - {a..<a + 2 ^ j}"
  proof cases
    case low
    with layoutD_block(3) [OF D(1) a(1)] show ?thesis by simp
  next
    case pay
    with layoutD_apart [OF D(1) pay(1) a(1)] layoutD_apart [OF D(1) a(1) pay(1)]
    show ?thesis by (cases "b < a") simp_all
  qed
qed

text \<open>Two live blocks do not overlap, and every live block is an aligned part of the heap.\<close>

lemma heap_rel_block:
  assumes "heap_rel s L" "L a = Some k"
  shows "4 \<le> k" "k \<le> 15" "heap_base \<le> a" "2 ^ k dvd a" "a + 2 ^ k \<le> unat (current_brk s)"
proof -
  obtain B F where C: "heap_core (mem s) (unat (free_list s)) (unat (current_brk s)) B F {}"
    and L: "L = live_map B F" using assms(1) unfolding heap_rel_def by blast
  have "B a = Some k" using assms(2) L by (simp add: live_map_Some)
  from layoutD_block [OF heap_coreD(1) [OF C] this]
  show "4 \<le> k" "k \<le> 15" "heap_base \<le> a" "2 ^ k dvd a" "a + 2 ^ k \<le> unat (current_brk s)" by blast+
qed

lemma heap_rel_brk:
  assumes "heap_rel s L"
  shows "heap_base \<le> unat (current_brk s)" "2 ^ 15 dvd unat (current_brk s)"
    "unat (current_brk s) + 2 ^ 15 \<le> 2 ^ 32" "unat (free_list s) + 128 \<le> heap_base"
  using assms heap_coreD(1,2) layoutD_brk unfolding heap_rel_def by blast+

lemma heap_rel_disjoint:
  assumes R: "heap_rel s L" and "L a = Some k" "L b = Some j" "a \<noteq> b"
  shows "{a..<a + 2 ^ k} \<inter> {b..<b + 2 ^ j} = {}"
proof -
  obtain B F where C: "heap_core (mem s) (unat (free_list s)) (unat (current_brk s)) B F {}"
    and L: "L = live_map B F" using R unfolding heap_rel_def by blast
  have "B a = Some k" "B b = Some j" using assms(2,3) L by (simp_all add: live_map_Some)
  then have "a + 2 ^ k \<le> b \<or> b + 2 ^ j \<le> a"
    using layoutD_apart [OF heap_coreD(1) [OF C]] assms(4) by (meson nat_neq_iff)
  then show ?thesis by auto
qed

subsection \<open>Growing and shrinking by one largest block\<close>

lemma shl1_15: "shl1 MAX_BLOCK_SCALE = W (2 ^ 15)"
  using shl1_of_nat [of 15] by simp

lemma sbrk_1:
  assumes b: "unat (current_brk s) = lim" and room: "lim + 2 ^ 15 < 2 ^ 32"
  shows "sbrk 1 s = Some (0, s\<lparr>mem := blkmngr_add_to_free_list (free_list s) (current_brk s)
    (set_scale (mem s) (current_brk s) MAX_BLOCK_SCALE), current_brk := W (lim + 2 ^ 15)\<rparr>)"
proof -
  have c: "current_brk s = W lim" using b by (metis of_nat_unat_u32)
  have add: "W lim + 32768 = W (lim + 32768)" by simp
  have lt: "W lim < W (lim + 2 ^ 15)"
    using room by (subst of_nat_u32_less) simp_all
  have inc: "current_brk s + push_bit (unat MAX_BLOCK_SCALE) 1 = W (lim + 2 ^ 15)"
    using c push_bit_1_of_nat [of 15] by simp
  have "brk_grow (W (lim + 2 ^ 15)) s = Some (s\<lparr>mem := blkmngr_add_to_free_list (free_list s) (current_brk s)
    (set_scale (mem s) (current_brk s) MAX_BLOCK_SCALE), current_brk := W (lim + 2 ^ 15)\<rparr>)"
    using lt by (subst brk_grow.simps, subst brk_grow.simps)
      (simp add: c shl1_15 Let_def add del: of_nat_add of_nat_power)
  then show ?thesis using lt unfolding sbrk_def brk_def inc by (simp add: c)
qed

lemma last_block:
  assumes L: "layout lim B" and lim: "heap_base < lim"
  shows "\<exists>j. B (lim - 2 ^ 15) = Some j"
proof -
  note br = layoutD_brk [OF L]
  have "(2 :: nat) ^ 15 dvd heap_base" by (simp add: heap_base_def)
  then have "heap_base + 2 ^ 15 \<le> lim" by (rule dvd_less_add [OF _ br(2) lim])
  then have "heap_base \<le> lim - 2 ^ 15" "lim - 2 ^ 15 < lim" by simp_all
  then obtain c j where c: "B c = Some j" "c \<le> lim - 2 ^ 15" "lim - 2 ^ 15 < c + 2 ^ j"
    using layoutD_cover [OF L] by blast
  have "2 ^ 15 dvd lim - 2 ^ 15" using br(2) by (intro dvd_diff_nat) simp_all
  then have "2 ^ j dvd lim - 2 ^ 15" using layoutD_block(2) [OF L c(1)] by (rule power_le_dvd)
  then have "\<not> c < lim - 2 ^ 15" using dvd_less_add [OF layoutD_block(4) [OF L c(1)]] c(3) by fastforce
  with c show ?thesis by auto
qed

text \<open>At the end of the address space \<open>sbrk 1\<close> wraps to a request for address 0, which fails.\<close>

lemma sbrk_1_full:
  assumes C: "heap_core (mem s) fl lim B F {}" and b: "unat (current_brk s) = lim"
    and full: "lim + 2 ^ 15 = 2 ^ 32" and F: "F 15 = []"
  shows "sbrk 1 s = Some (- 1, s)"
proof -
  note D = heap_coreD [OF C]
  have c: "current_brk s = W lim" using b by (metis of_nat_unat_u32)
  have lim: "lim = 0xFFFF8000" using full by simp
  obtain j where j: "B (lim - 2 ^ 15) = Some j"
    using last_block [OF D(1)] by (auto simp: lim heap_base_def)
  have "scale (mem s) (W (lim - 2 ^ 15)) \<noteq> MAX_BLOCK_SCALE \<or> \<not> is_free (mem s) (W (lim - 2 ^ 15))"
    using D(4,9) [OF j] F layoutD_block(2) [OF D(1) j] scale_of_nat_u8 [of j 15] by auto
  then have "brk_shrink 0 s = Some (- 1, s)"
    by (subst brk_shrink.simps) (simp add: c lim shl1_15 Let_def)
  moreover have "current_brk s + push_bit (unat MAX_BLOCK_SCALE) 1 = 0" by (simp add: c lim)
  ultimately show ?thesis unfolding sbrk_def brk_def by simp
qed

lemma sbrk_minus_1:
  assumes C: "heap_core (mem s) fl lim B F {}" and b: "unat (current_brk s) = lim"
    and a: "lim - 2 ^ 15 \<in> set (F 15)"
  shows "sbrk (- 1) s = Some (0, s\<lparr>mem := blkmngr_remove_from_free_list (W (lim - 2 ^ 15)) (mem s),
    current_brk := W (lim - 2 ^ 15)\<rparr>)"
proof -
  note D = heap_coreD [OF C]
  have Ba: "B (lim - 2 ^ 15) = Some 15" by (rule D(7) [OF _ _ a]) simp_all
  have low: "(2 :: nat) ^ 15 \<le> lim" "lim < 2 ^ 32"
    using layoutD_brk(1,3) [OF D(1)] by (simp_all add: heap_base_def)
  have c: "current_brk s = W lim" using b by (metis of_nat_unat_u32)
  have sub: "W lim - W (2 ^ 15) = W (lim - 2 ^ 15)" using low(1) by (simp only: of_nat_diff)
  have sub': "W lim - 32768 = W (lim - 32768)" using sub by simp
  have lt: "W (lim - 2 ^ 15) < W lim" using low by (subst of_nat_u32_less) simp_all
  have "push_bit (unat MAX_BLOCK_SCALE) (- 1) = - W (2 ^ 15)"
    by (simp add: push_bit_eq_mult del: push_bit_minus_one_eq_not_mask)
  then have inc: "current_brk s + push_bit (unat MAX_BLOCK_SCALE) (- 1) = W (lim - 2 ^ 15)"
    using sub c by (metis ab_group_add_class.ab_diff_conv_add_uminus)
  have h: "scale (mem s) (W (lim - 2 ^ 15)) = MAX_BLOCK_SCALE" "is_free (mem s) (W (lim - 2 ^ 15))"
    using D(4,9) [OF Ba] a by simp_all
  have "brk_shrink (W (lim - 2 ^ 15)) s =
    Some (0, s\<lparr>mem := blkmngr_remove_from_free_list (W (lim - 2 ^ 15)) (mem s),
      current_brk := W (lim - 2 ^ 15)\<rparr>)"
    using lt h by (subst brk_shrink.simps, subst brk_shrink.simps)
      (simp add: c shl1_15 Let_def sub' del: of_nat_diff of_nat_power)
  then show ?thesis using lt less_not_sym [OF lt] unfolding sbrk_def brk_def inc by (simp add: c)
qed

subsection \<open>Initialisation\<close>

text \<open>The code's call in \<open>kernel_main\<close>: every list head is linked to itself, then one block is added.\<close>

definition empty_lists :: "u32 \<Rightarrow> memory \<Rightarrow> memory" where
  "empty_lists fl m = fold (\<lambda>i m. let e = free_list_entry fl (of_nat i)
     in set_next (set_prev m e e) e e) [4..<16] m"

lemma empty_lists_chain:
  assumes fl: "fl + 128 \<le> heap_base" and k: "4 \<le> k" "k \<le> 15"
  shows "hnext (empty_lists (W fl) m) (W (fl + 8 * k)) = W (fl + 8 * k)"
proof -
  have L: "layout heap_base Map.empty" by (simp add: layout_def heap_base_def)
  have ok: "nodes_ok (heads fl) {}" using layout_nodes_ok [OF L fl] by simp
  let ?f = "\<lambda>i m. let e = free_list_entry (W fl) (of_nat i) in set_next (set_prev m e e) e e"
  have step: "?f i m = set_next (set_prev m (W (fl + 8 * i)) (W (fl + 8 * i))) (W (fl + 8 * i)) (W (fl + 8 * i))"
    if "i \<le> 15" for i m
    using that by (simp add: free_list_entry_of_nat Let_def)
  have "hnext (fold ?f [4..<j] m) (W (fl + 8 * k)) = W (fl + 8 * k)" if "k < j" "j \<le> 16" for j
    using that
  proof (induction j)
    case (Suc j)
    have j4: "4 \<le> j" "j \<le> 15" using Suc.prems k by simp_all
    note h = heads_entry [OF j4, of fl] heads_entry [OF k, of fl]
    let ?m = "fold ?f [4..<j] m"
    have "hnext (fold ?f [4..<Suc j] m) (W (fl + 8 * k)) =
        (if k = j then W (fl + 8 * j) else hnext ?m (W (fl + 8 * k)))"
      using j4 step [OF j4(2), of ?m] h hnext_set_next [OF ok, of "fl + 8 * j" "fl + 8 * k"]
        hnext_set_prev [OF ok, of "fl + 8 * j" "fl + 8 * k"]
      by (simp del: of_nat_add of_nat_mult)
    with Suc show ?case by (cases "k = j") simp_all
  qed simp
  from this [of 16] k show ?thesis by (simp add: empty_lists_def)
qed

lemma empty_lists_frame:
  assumes fl: "fl + 128 \<le> heap_base"
  shows "same_on (- {fl..<fl + 128}) m (empty_lists (W fl) m)"
proof -
  have "same_on (- {fl..<fl + 128}) m (fold (\<lambda>i m. let e = free_list_entry (W fl) (of_nat i)
     in set_next (set_prev m e e) e e) xs m)" if "set xs \<subseteq> {4..<16}" for xs
    using that
  proof (induction xs arbitrary: m)
    case (Cons i xs)
    let ?e = "fl + 8 * i"
    have i: "4 \<le> i" "i \<le> 15" using Cons.prems by auto
    have "same_on (- {fl..<fl + 128}) m (set_prev m (W ?e) v)" for v
      unfolding set_prev_def W_plus by (rule same_on_wr32) (use fl i in \<open>auto simp: heap_base_def\<close>)
    moreover have "same_on (- {fl..<fl + 128}) m' (set_next m' (W ?e) v)" for m' v
      unfolding set_next_def by (rule same_on_wr32) (use fl i in \<open>auto simp: heap_base_def\<close>)
    ultimately have "same_on (- {fl..<fl + 128}) m (set_next (set_prev m (W ?e) (W ?e)) (W ?e) (W ?e))"
      by (rule same_on_trans)
    with Cons show ?case
      by (auto simp: free_list_entry_of_nat i Let_def intro: same_on_trans)
  qed simp
  from this [of "[4..<16]"] show ?thesis unfolding empty_lists_def by auto
qed

lemma init_heap_eq:
  "init_heap addr s = do { (_, s) \<leftarrow> sbrk 1 (s\<lparr>current_brk := addr,
     mem := empty_lists (free_list s) (mem s)\<rparr>); Some s }"
  unfolding init_heap_def empty_lists_def Let_def by (simp del: upt_rec_numeral fold_simps)

lemma init_heap_core:
  assumes fl: "unat (free_list s) + 128 \<le> heap_base"
  shows "\<exists>s'. init_heap HEAP_LOWER_BOUND s = Some s' \<and> heap_rel s' Map.empty \<and>
    same_on (kept (free_list s) Map.empty) (mem s) (mem s') \<and>
    unat (current_brk s') = heap_base + 2 ^ 15 \<and>
    s' = s\<lparr>mem := mem s', current_brk := W (heap_base + 2 ^ 15)\<rparr>"
proof -
  define fl where "fl = unat (free_list s)"
  have f: "free_list s = W fl" "fl + 128 \<le> heap_base" using assms by (simp_all add: fl_def)
  let ?m = "empty_lists (W fl) (mem s)"
  let ?s = "s\<lparr>current_brk := HEAP_LOWER_BOUND, mem := ?m\<rparr>"
  have L: "layout heap_base Map.empty" by (simp add: layout_def heap_base_def)
  have C: "heap_core ?m fl heap_base Map.empty (\<lambda>_. []) {}"
    by (rule heap_coreI) (use L f empty_lists_chain [OF f(2)] in simp_all)
  have hb: "unat (current_brk ?s) = heap_base" "W heap_base = HEAP_LOWER_BOUND"
    "heap_base + 2 ^ 15 < 2 ^ 32" "heap_base + 2 ^ 16 \<le> 2 ^ 32" by (simp_all add: heap_base_def)
  define m' where "m' = blkmngr_add_to_free_list (W fl) (W heap_base) (set_scale ?m (W heap_base) MAX_BLOCK_SCALE)"
  note G = core_grow [OF C hb(4) m'_def]
  have run: "init_heap HEAP_LOWER_BOUND s = Some (s\<lparr>mem := m', current_brk := W (heap_base + 2 ^ 15)\<rparr>)"
    using sbrk_1 [OF hb(1,3)]
    by (simp add: init_heap_eq f m'_def hb(2))
  have u: "unat (W (heap_base + 2 ^ 15)) = heap_base + 2 ^ 15" by (simp add: heap_base_def)
  have co: "coalesced ((\<lambda>_. [])(15 := [heap_base]))" by (auto simp: coalesced_def)
  have lm: "live_map [heap_base \<mapsto> 15] ((\<lambda>_. [])(15 := [heap_base])) = Map.empty"
    by (auto simp: live_map_def)
  have "heap_rel (s\<lparr>mem := m', current_brk := W (heap_base + 2 ^ 15)\<rparr>) Map.empty"
    by (rule heap_relI [OF _ co lm [symmetric]]) (use G(1) u in \<open>simp flip: fl_def\<close>)
  moreover have "same_on (kept (free_list s) Map.empty) (mem s) ?m"
    by (rule same_on_subset [OF empty_lists_frame [OF f(2)]]) (auto simp: kept_def fl_def)
  moreover have "same_on (kept (free_list s) Map.empty) ?m m'"
    using core_kept_apart [OF G(1) lm [symmetric]] unfolding f(1) by (rule same_on_subset [OF G(2)])
  ultimately show ?thesis using run u by (auto intro: same_on_trans)
qed

end
