(* ===== verification/HeapSpec.thy ===== *)
theory HeapSpec
  imports HeapAlloc
begin

section \<open>HeapSpec: the specifications of allocate and free\<close>

text \<open>
  The scale computed for a request is the least power of two that holds the
  request and its header; \<open>allocate\<close> returns a fresh block of at least that
  scale, or NULL when the address space is exhausted; \<open>free\<close> takes a live block
  back and merges it; freeing an object whose header is not self-linked fails.
\<close>

subsection \<open>The scale of a request\<close>

lemma takeWhile_zero_bits:
  fixes v :: nat
  assumes "v < 2 ^ n" "0 < v"
  shows "\<exists>r. 0 < r \<and> r \<le> n \<and> length (takeWhile (\<lambda>i. \<not> bit v i) (rev [0..<n])) = n - r \<and>
    2 ^ (r - 1) \<le> v \<and> v < 2 ^ r"
  using assms
proof (induction n)
  case (Suc n)
  show ?case
  proof (cases "bit v n")
    case True
    then have "2 ^ n \<le> v" by (metis bit_take_bit_iff less_irrefl linorder_not_le take_bit_nat_eq_self)
    with True Suc.prems show ?thesis by (intro exI [of _ "Suc n"]) simp
  next
    case False
    have "take_bit (Suc n) v = v" using Suc.prems(1) by (simp add: take_bit_nat_eq_self)
    with False have "take_bit n v = v" by (simp add: take_bit_Suc_from_most)
    then have "v < 2 ^ n" by (simp add: take_bit_nat_eq_self_iff)
    from Suc.IH [OF this Suc.prems(2)] obtain r where r: "0 < r" "r \<le> n"
      "length (takeWhile (\<lambda>i. \<not> bit v i) (rev [0..<n])) = n - r" "2 ^ (r - 1) \<le> v" "v < 2 ^ r" by blast
    with False show ?thesis by (intro exI [of _ r]) (simp add: Suc_diff_le)
  qed
qed simp

lemma size_to_scale_of_nat:
  assumes "0 < n" "n + 9 \<le> 2 ^ 15"
  obtains r where "size_to_scale (W n) = of_nat r" "r \<le> 15" "n + 9 \<le> 2 ^ r" "2 ^ (r - 1) < n + 9"
proof -
  have x: "W n + HEADER_SIZE - 1 = W (n + 8)" by simp
  have bits: "bit (W (n + 8)) i \<longleftrightarrow> bit (n + 8) i" if "i < 32" for i
    using that by (simp only: bit_of_nat_iff) simp
  then have tw: "takeWhile (\<lambda>i. \<not> bit (W (n + 8)) i) (rev [0..<32]) =
      takeWhile (\<lambda>i. \<not> bit (n + 8) i) (rev [0..<32])"
    by (intro takeWhile_cong refl) (simp del: of_nat_add)
  obtain r where r: "0 < r" "length (takeWhile (\<lambda>i. \<not> bit (n + 8) i) (rev [0..<32])) = 32 - r"
    "r \<le> 32" "2 ^ (r - 1) \<le> n + 8" "n + 8 < 2 ^ r"
    using takeWhile_zero_bits [of "n + 8" 32] assms by auto
  have "n + 8 < 2 ^ 15" using assms(2) by simp
  with r(4) have "(2 :: nat) ^ (r - 1) < 2 ^ 15" by (rule le_less_trans)
  then have "r - 1 < 15" by (rule power_less_imp_less_exp [rotated]) simp
  then have "r \<le> 15" by simp
  moreover have "size_to_scale (W n) = of_nat r"
    using r(2,3) x by (simp add: size_to_scale_def Let_def clz_def tw del: upt_rec_numeral of_nat_add)
  ultimately show thesis using that r(4,5) by simp
qed

subsection \<open>Allocation\<close>

lemma allocate_body:
  assumes n: "0 < n" "n + 9 \<le> 2 ^ 15"
  obtains r where "4 \<le> r" "r \<le> 15" "n + 9 \<le> 2 ^ r" "r = 4 \<or> 2 ^ (r - 1) < n + 9"
    and "\<And>s :: 'a heap_state_scheme. allocate (W n) s =
      (let (block, m) = blkmngr_find_fit (free_list s) (of_nat r) (mem s)
       in if block \<noteq> 0
          then do {
            m \<leftarrow> split_loop (free_list s) block (W r) m;
            Some (block + HEADER_SIZE, s\<lparr>mem := m\<rparr>) }
          else do {
            (ret, s) \<leftarrow> sbrk 1 (s\<lparr>mem := m\<rparr>);
            if ret = - 1 then Some (0, s)
            else let (block, m) = blkmngr_find_fit (free_list s) (of_nat r) (mem s)
                 in Some (block + HEADER_SIZE, s\<lparr>mem := m\<rparr>) })"
proof -
  obtain q where q: "size_to_scale (W n) = of_nat q" "q \<le> 15" "n + 9 \<le> 2 ^ q" "2 ^ (q - 1) < n + 9"
    using size_to_scale_of_nat [OF n] by blast
  define r where "r = max q 4"
  have r: "4 \<le> r" "r \<le> 15" "r = 4 \<or> 2 ^ (r - 1) < n + 9" using q by (auto simp: r_def max_def)
  have "n + 9 \<le> 2 ^ r" 
    by (rule order_trans [OF q(3)]) (simp add: r_def)
  moreover have "uint (size_to_scale (W n)) = int q" using q(1,2) by (simp add: uint_nat unat_scale_of_nat)
  then have rs: "of_int (max_c (uint (size_to_scale (W n))) (uint MIN_BLOCK_SCALE)) = W r"
    by (simp add: max_c_def r_def max_def)
  moreover have "\<not> (W n > shl1 MAX_BLOCK_SCALE - HEADER_SIZE \<or> W n = 0)"
  proof -
    have "shl1 MAX_BLOCK_SCALE - HEADER_SIZE = W 32759" by (simp add: shl1_15)
    moreover have "\<not> W 32759 < W n" using n by (subst of_nat_u32_less) simp_all
    moreover have "W n \<noteq> 0" using n of_nat_u32_eq [of n 0] by simp
    ultimately show ?thesis by simp
  qed
  moreover have uc: "ucast (W r) = (of_nat r :: u8)"
    using r by (simp add: unsigned_of_nat take_bit_nat_eq_self)
  ultimately show thesis
    using that [OF r(1,2) _ r(3)] unfolding allocate_def rs uc if_not_P Let_def by simp
qed

text \<open>Taking a block off its free list, in terms of the live map.\<close>

lemma live_map_take:
  assumes C: "heap_core m fl lim B F X" and j: "4 \<le> j" "j \<le> 15" and a: "a \<in> set (F j)"
  shows "live_map B (F(j := remove1 a (F j))) = (live_map B F)(a \<mapsto> j)" "live_map B F a = None"
proof -
  note D = heap_coreD [OF C]
  have Ba: "B a = Some j" by (rule D(7) [OF j a])
  show "live_map B F a = None" using a Ba by (simp add: live_map_def)
  show "live_map B (F(j := remove1 a (F j))) = (live_map B F)(a \<mapsto> j)"
  proof
    fix b
    show "live_map B (F(j := remove1 a (F j))) b = ((live_map B F)(a \<mapsto> j)) b"
      using Ba D(6) [OF j] by (cases "b = a") (simp_all add: live_map_def split: option.splits)
  qed
qed

lemma coalesced_remove: "coalesced F \<Longrightarrow> coalesced (F(j := remove1 a (F j)))"
  by (erule coalesced_subset) (auto dest: set_remove1_subset [THEN subsetD])

lemma allocate_spec:
  fixes s :: "'a heap_state_scheme"
  assumes R: "heap_rel s L" and n: "0 < n" "n + 9 \<le> 2 ^ 15"
  shows "(\<exists>s' a k. allocate (W n) s = Some (W (a + 9), s') \<and> L a = None \<and> n + 9 \<le> 2 ^ k \<and>
      heap_rel s' (L(a \<mapsto> k)) \<and> same_on (kept (free_list s) L) (mem s) (mem s') \<and>
      s' = s\<lparr>mem := mem s', current_brk := current_brk s'\<rparr> \<and>
      (if current_brk s' = current_brk s then k = 4 \<or> 2 ^ (k - 1) < n + 9
       else k = 15 \<and> unat (current_brk s') = unat (current_brk s) + 2 ^ 15)) \<or>
    allocate (W n) s = Some (0, s) \<and> unat (current_brk s) + 2 ^ 15 = 2 ^ 32"
proof -
  obtain r where r: "4 \<le> r" "r \<le> 15" "n + 9 \<le> 2 ^ r" "r = 4 \<or> 2 ^ (r - 1) < n + 9"
    and eq: "\<And>s :: 'a heap_state_scheme. allocate (W n) s =
      (let (block, m) = blkmngr_find_fit (free_list s) (of_nat r) (mem s)
       in if block \<noteq> 0
          then do {
            m \<leftarrow> split_loop (free_list s) block (W r) m;
            Some (block + HEADER_SIZE, s\<lparr>mem := m\<rparr>) }
          else do {
            (ret, s) \<leftarrow> sbrk 1 (s\<lparr>mem := m\<rparr>);
            if ret = - 1 then Some (0, s)
            else let (block, m) = blkmngr_find_fit (free_list s) (of_nat r) (mem s)
                 in Some (block + HEADER_SIZE, s\<lparr>mem := m\<rparr>) })"
    using allocate_body [OF n] by blast
  define fl lim where "fl = unat (free_list s)" and "lim = unat (current_brk s)"
  have W: "free_list s = W fl" "current_brk s = W lim" by (simp_all add: fl_def lim_def)
  obtain B F where C: "heap_core (mem s) fl lim B F {}" and co: "coalesced F" and L: "L = live_map B F"
    using R unfolding heap_rel_def fl_def lim_def by blast
  note D = heap_coreD [OF C]
  have nz: "W a \<noteq> 0" if "layout lim' B'" "B' a = Some j" for a lim' B' j
    using layoutD_block(3,5) [OF that] layoutD_brk(3) [OF that(1)] of_nat_u32_eq [of a 0]
      zero_less_power [of "2 :: nat" j] by (simp add: heap_base_def)
  from core_find_fit [OF C r(1,2)]
  consider (fit) j a m' where "r \<le> j" "j \<le> 15" "a \<in> set (F j)"
      "blkmngr_find_fit (W fl) (of_nat r) (mem s) = (W a, m')"
      "heap_core m' fl lim B (F(j := remove1 a (F j))) {}"
      "same_on (- hdr_bytes (heads fl) (dom B)) (mem s) m'"
    | (none) "\<forall>i. r \<le> i \<longrightarrow> i \<le> 15 \<longrightarrow> F i = []"
      "blkmngr_find_fit (W fl) (of_nat r) (mem s) = (0, mem s)" by blast
  then show ?thesis
  proof cases
    case fit
    have j4: "4 \<le> j" using fit(1) r(1) by simp
    have Ba: "B a = Some j" by (rule D(7) [OF j4 fit(2,3)])
    have aF: "a \<notin> set ((F(j := remove1 a (F j))) j)" using D(6) [OF j4 fit(2)] by simp
    note lm = live_map_take [OF C j4 fit(2,3)]
    from core_split_loop [OF fit(5) Ba aF r(1) fit(1) coalesced_remove [OF co]]
    obtain m2 B2 F2 where S: "split_loop (W fl) (W a) (W r) m' = Some m2" "heap_core m2 fl lim B2 F2 {}"
      "coalesced F2" "live_map B2 F2 = L(a \<mapsto> r)"
      "same_on (- (hdr_bytes (heads fl) (dom B) \<union> {a..<a + 2 ^ j})) m' m2"
      unfolding lm(1) L by auto
    have run: "allocate (W n) s = Some (W (a + 9), s\<lparr>mem := m2\<rparr>)"
      unfolding eq W(1) fit(4) using nz [OF D(1) Ba] S(1) by simp
    have rel: "heap_rel (s\<lparr>mem := m2\<rparr>) (L(a \<mapsto> r))"
      by (rule heap_relI [OF _ S(3) S(4) [symmetric]]) (use S(2) in \<open>simp add: fl_def lim_def\<close>)
    have "same_on (kept (W fl) L) (mem s) m'"
      using fit(6) core_kept_apart [OF C L] by (rule same_on_subset)
    moreover have "same_on (kept (W fl) L) m' m2"
      using core_kept_apart [OF C L] core_kept_free [OF C L Ba fit(3)]
      by (intro same_on_subset [OF S(5)]) blast
    ultimately have "same_on (kept (W fl) L) (mem s) m2" by (rule same_on_trans)
    then show ?thesis using run rel r(3,4) lm(2) unfolding L W(1)
      by (intro disjI1 exI [of _ "s\<lparr>mem := m2\<rparr>"] exI [of _ a] exI [of _ r]) simp
  next
    case none
    have br: "2 ^ 15 dvd lim" "lim + 2 ^ 15 \<le> 2 ^ 32" by (rule layoutD_brk [OF D(1)])+
    show ?thesis
    proof (cases "lim + 2 ^ 15 = 2 ^ 32")
      case True
      have "sbrk 1 s = Some (- 1, s)"
        using none(1) r(2) by (intro sbrk_1_full [OF C lim_def [symmetric] True]) simp
      then have "allocate (W n) s = Some (0, s)" unfolding eq W(1) none(2) by simp
      with True show ?thesis by (simp add: lim_def)
    next
      case False
      have "(2 :: nat) ^ 15 dvd 2 ^ 32" "2 ^ 15 dvd lim + 2 ^ 15"
        using br(1) by (simp_all add: le_imp_power_dvd del: power_numeral)
      then have room: "lim + 2 ^ 15 < 2 ^ 32" "lim + 2 ^ 16 \<le> 2 ^ 32"
        using False br(2) dvd_less_add [of 15 "lim + 2 ^ 15" "2 ^ 32"] by simp_all
      define m1 where "m1 = blkmngr_add_to_free_list (W fl) (W lim) (set_scale (mem s) (W lim) MAX_BLOCK_SCALE)"
      note G = core_grow [OF C room(2) m1_def]
      let ?B = "B(lim \<mapsto> 15)" and ?F = "F(15 := lim # F 15)" and ?s = "s\<lparr>mem := m1, current_brk := W (lim + 2 ^ 15)\<rparr>"
      have grow: "sbrk 1 s = Some (0, ?s)"
        using sbrk_1 [OF lim_def [symmetric] room(1)] by (simp add: m1_def W)
      have lB: "B lim = None" using layoutD_block(5) [OF D(1), of lim] by (cases "B lim") auto
      have co1: "coalesced ?F"
        using co unfolding coalesced_def by auto
      have lm: "L = live_map ?B ?F"
        using lB unfolding L by (auto simp: live_map_def fun_eq_iff split: option.splits)
      have only: "i = 15" "a = lim" if "r \<le> i" "i \<le> 15" "a \<in> set (?F i)" for i a
        using that none(1) r(2) by (auto split: if_splits)
      have "lim \<in> set (?F 15)" by simp
      with core_find_fit [OF G(1) r(1,2)] only r(2)
      obtain m2 where f2: "blkmngr_find_fit (W fl) (of_nat r) m1 = (W lim, m2)"
        "heap_core m2 fl (lim + 2 ^ 15) ?B (?F(15 := remove1 lim (?F 15))) {}"
        "same_on (- hdr_bytes (heads fl) (dom ?B)) m1 m2"
        by (metis empty_iff empty_set order_refl)
      let ?t = "?s\<lparr>mem := m2\<rparr>"
      have k15: "(4 :: nat) \<le> 15" "(15 :: nat) \<le> 15" by simp_all
      have l2: "live_map ?B (?F(15 := remove1 lim (?F 15))) = L(lim \<mapsto> 15)" "L lim = None"
        unfolding lm by (rule live_map_take [OF G(1) k15 \<open>lim \<in> set (?F 15)\<close>])+
      have run: "allocate (W n) s = Some (W (lim + 9), ?t)"
        unfolding eq W(1) none(2) using grow f2(1) by (simp add: W)
      have u: "unat (W (lim + 2 ^ 15)) = lim + 2 ^ 15" using room(1) by (rule unat_of_nat_u32)
      have rel: "heap_rel ?t (L(lim \<mapsto> 15))"
        using f2(2) u by (intro heap_relI [OF _ coalesced_remove [OF co1] l2(1) [symmetric]])
          (simp add: fl_def)
      have k: "kept (W fl) L \<subseteq> - hdr_bytes (heads fl) (dom ?B)" by (rule core_kept_apart [OF G(1) lm])
      have "same_on (kept (W fl) L) (mem s) m2"
        using same_on_trans [OF same_on_subset [OF G(2) k] same_on_subset [OF f2(3) k]] .
      moreover have "W (lim + 2 ^ 15) \<noteq> W lim" using room(1) by (subst of_nat_u32_eq) simp_all
      moreover have "n + 9 \<le> 2 ^ 15" by (rule n)
      moreover have "unat (W lim) = lim" by (simp add: lim_def)
      ultimately show ?thesis using run rel l2(2) u unfolding W
        by (intro disjI1 exI [of _ ?t] exI [of _ lim] exI [of _ 15]) simp
    qed
  qed
qed

subsection \<open>Release\<close>

lemma live_map_put:
  assumes "B c = Some K" "c \<notin> set (F K)"
  shows "live_map B (F(K := c # F K)) = (live_map B F)(c := None)"
  using assms by (auto simp: live_map_def fun_eq_iff split: option.splits)

lemma free_spec:
  fixes s :: "'a heap_state_scheme"
  assumes R: "heap_rel s L" and a: "L a = Some k"
  shows "\<exists>s'. free (W (a + 9)) s = Some (0, s') \<and> heap_rel s' (L(a := None)) \<and>
    same_on (kept (free_list s) (L(a := None))) (mem s) (mem s') \<and>
    s' = s\<lparr>mem := mem s', current_brk := current_brk s'\<rparr> \<and> unat (current_brk s') \<le> unat (current_brk s)"
proof -
  define fl lim where "fl = unat (free_list s)" and "lim = unat (current_brk s)"
  have W: "free_list s = W fl" "current_brk s = W lim" by (simp_all add: fl_def lim_def)
  obtain B F where C: "heap_core (mem s) fl lim B F {}" and co: "coalesced F" and L: "L = live_map B F"
    using R unfolding heap_rel_def fl_def lim_def by blast
  note D = heap_coreD [OF C]
  have Ba: "B a = Some k" "a \<notin> set (F k)" using a unfolding L by (simp_all add: live_map_Some)
  have range: "heap_base \<le> a" "a + 2 ^ k \<le> lim" "lim < 2 ^ 32"
    using layoutD_block(3,5) [OF D(1) Ba(1)] layoutD_brk(3) [OF D(1)] by simp_all
  then have nz: "W (a + 9) \<noteq> 0"
    using of_nat_u32_eq [of "a + 9" 0] layout_16 [OF D(1) Ba(1)] by (simp add: heap_base_def del: of_nat_add)
  have links: "hnext (mem s) (W a) = W a" "hprev (mem s) (W a) = W a" using D(10) [OF Ba(1) _ Ba(2)] by simp_all
  from core_coalesce_loop [OF C Ba co] obtain m1 B1 F1 c K where M:
    "coalesce_loop (buddy_offset (mem s) (W a)) (W a + buddy_offset (mem s) (W a)) (W a) (mem s) = Some (W c, m1)"
    "heap_core m1 fl lim B1 F1 {}" "B1 c = Some K" "c \<notin> set (F1 K)" "coalesced F1"
    "K < 15 \<longrightarrow> buddy c K \<notin> set (F1 K)" "c = a \<or> live_map B F c = None"
    "live_map B1 F1 = (live_map B F)(a := None, c \<mapsto> K)" "dom B1 \<subseteq> dom B"
    "same_on (- hdr_bytes (heads fl) (dom B)) (mem s) m1" by blast
  define m2 where "m2 = blkmngr_add_to_free_list (W fl) (W c) m1"
  define F2 where "F2 = F1(K := c # F1 K)"
  let ?s2 = "s\<lparr>mem := m2\<rparr>" and ?L = "L(a := None)"
  note A = core_add [OF M(2-4) m2_def]
  have C2: "heap_core m2 fl lim B1 F2 {}" using A(1) by (simp add: F2_def)
  note D1 = heap_coreD [OF M(2)] and D2 = heap_coreD [OF C2]
  note Lc = layoutD_block [OF D1(1) M(3)]
  have co2: "coalesced F2"
    using D1(7) [OF Lc(1,2)] layoutD_block(4) [OF D1(1)] M(6) Lc(4)
    unfolding F2_def by (intro coalesced_add M(5)) auto
  have lm: "live_map B1 F2 = ?L"
    using live_map_put [of B1 c K F1] M(3,4,7) unfolding M(8) L F2_def by auto
  have kp: "kept (W fl) ?L \<subseteq> - hdr_bytes (heads fl) (dom B)"
    by (rule subset_trans [OF kept_mono core_kept_apart [OF C L]]) (simp split: if_splits)
  have kp1: "kept (W fl) ?L \<subseteq> - hdr_bytes (heads fl) (dom B1)"
    using kp hdr_bytes_mono [OF M(9), of "heads fl"] by blast
  have fr: "same_on (kept (W fl) ?L) (mem s) m2"
    using same_on_trans [OF same_on_subset [OF M(10) kp] same_on_subset [OF A(2) kp1]] .
  have run: "free (W (a + 9)) s =
    (if scale m2 (W c) = MAX_BLOCK_SCALE \<and> W lim = W c + shl1 MAX_BLOCK_SCALE
     then do { (_, s) \<leftarrow> sbrk (- 1) ?s2; Some (0, s) } else Some (0, ?s2))"
    using nz links M(1) by (simp add: free_def blkmngr_coalesce_block_def Let_def W m2_def)
  show ?thesis
  proof (cases "scale m2 (W c) = MAX_BLOCK_SCALE \<and> W lim = W c + shl1 MAX_BLOCK_SCALE")
    case False
    have "heap_rel ?s2 ?L" using C2 by (intro heap_relI [OF _ co2 lm [symmetric]]) (simp add: fl_def lim_def)
    then show ?thesis using run False fr by (intro exI [of _ ?s2]) (simp add: W)
  next
    case True
    then have K: "K = 15" using D2(4) [OF M(3)] scale_of_nat_u8 [OF Lc(2), of 15] by simp
    have "W lim = W (c + 2 ^ 15)" using True by (simp add: shl1_15)
    then have lim: "lim = c + 2 ^ 15" using Lc(5) range(3) K by (subst (asm) of_nat_u32_eq) simp_all
    then have c: "lim - 2 ^ 15 = c" by simp
    then have cF: "lim - 2 ^ 15 \<in> set (F2 15)" by (simp add: K F2_def)
    have u: "unat (current_brk ?s2) = lim" by (simp add: lim_def)
    have C2': "heap_core (mem ?s2) fl lim B1 F2 {}" using C2 by simp
    define m3 where "m3 = blkmngr_remove_from_free_list (W (lim - 2 ^ 15)) m2"
    let ?s3 = "s\<lparr>mem := m3, current_brk := W (lim - 2 ^ 15)\<rparr>"
    have shrink: "sbrk (- 1) ?s2 = Some (0, ?s3)"
      using sbrk_minus_1 [OF C2' u cF] by (simp add: m3_def)
    note S = core_shrink [OF C2 cF m3_def]
    have u3: "unat (W (lim - 2 ^ 15)) = lim - 2 ^ 15" using range(3) by (intro unat_of_nat_u32) simp
    have lm3: "?L = live_map (B1(lim - 2 ^ 15 := None)) (F2(15 := remove1 (lim - 2 ^ 15) (F2 15)))"
      using M(3,4) unfolding lm [symmetric] c K F2_def by (auto simp: live_map_def fun_eq_iff split: option.splits)
    have rel: "heap_rel ?s3 ?L"
      using S(1) u3 by (intro heap_relI [OF _ coalesced_remove [OF co2] lm3]) (simp add: fl_def)
    have "same_on (kept (W fl) ?L) m2 m3" by (rule same_on_subset [OF S(2) kp1])
    with fr have "same_on (kept (W fl) ?L) (mem s) m3" by (rule same_on_trans)
    moreover have "unat (W (lim - 2 ^ 15)) \<le> unat (current_brk s)" using u3 by (simp add: lim_def)
    ultimately show ?thesis using run True shrink rel unfolding W by (intro exI [of _ ?s3]) simp
  qed
qed

text \<open>
  A pointer into a block on a free list: its header is not self-linked, so
  \<open>free\<close> prints its message and changes nothing else.
\<close>

lemma free_list_not_self:
  assumes C: "heap_core m fl lim B F {}" and k: "4 \<le> k" "k \<le> 15" and a: "a \<in> set (F k)"
  shows "hprev m (W a) \<noteq> W a"
proof -
  note D = heap_coreD [OF C]
  obtain ys zs where F: "F k = ys @ a # zs" using a by (auto simp: in_set_conv_decomp)
  have "chain m (fl + 8 * k) (ys @ a # zs)" using D(5) [OF k] F by simp
  then have "hprev m (W a) = W (last ((fl + 8 * k) # ys))" by (simp add: chain_append)
  moreover have "last ((fl + 8 * k) # ys) \<noteq> a" "last ((fl + 8 * k) # ys) \<in> heads fl \<union> dom B"
  proof -
    have h: "fl + 8 * k \<in> heads fl" by (rule heads_entry [OF k])
    have "B b = Some k" if "b \<in> set ys" for b using D(7) [OF k, of b] F that by simp
    then show "last ((fl + 8 * k) # ys) \<in> heads fl \<union> dom B" using h by (cases ys rule: rev_cases) auto
    have "B a = Some k" by (rule D(7) [OF k a])
    then have "fl + 8 * k \<noteq> a" using nodes_ok_disjoint [OF D(3) h, of a] by auto
    moreover have "a \<notin> set ys" using D(6) [OF k] F by simp
    ultimately show "last ((fl + 8 * k) # ys) \<noteq> a" by (cases ys rule: rev_cases) auto
  qed
  moreover have "a \<in> dom B" using D(7) [OF k a] by blast
  ultimately show ?thesis using nodes_ok_eq [OF D(3)] by simp
qed

lemma writestring_lit:
  assumes "0 \<notin> set (bytes_of t)" "length t < 2 ^ 32"
  shows "\<exists>s'. terminal_writestring (lit t) s = Some s' \<and> term_frame s s'"
  using terminal_writestring_cstr [OF cstr_lit [OF assms(1)], of s] assms(2) term_frame_write_loop
  by auto

lemma free_not_self_linked:
  assumes "data \<noteq> 0" "hnext (mem s) (data - HEADER_SIZE) \<noteq> data - HEADER_SIZE \<or>
    hprev (mem s) (data - HEADER_SIZE) \<noteq> data - HEADER_SIZE"
  shows "\<exists>s'. free data s = Some (1, s') \<and> term_frame s s'"
proof -
  have "0 \<notin> set (bytes_of (CHR 0x0A # ''BLOCK DATA CORRUPTED. failed to free''))"
    by (simp add: bytes_of_def)
  from writestring_lit [OF this, of s] obtain s' where
    "terminal_writestring (lit (CHR 0x0A # ''BLOCK DATA CORRUPTED. failed to free'')) s = Some s'"
    "term_frame s s'" by auto
  moreover have "free data s = do {
      s \<leftarrow> terminal_writestring (lit (CHR 0x0A # ''BLOCK DATA CORRUPTED. failed to free'')) s;
      Some (1, s) }"
    using assms unfolding free_def Let_def by (simp only: if_True if_False)
  ultimately show ?thesis by simp
qed

subsection \<open>Client writes\<close>

lemma fields_same_on:
  assumes "same_on A m m'" "{a..<a + 8} \<subseteq> A" "a + 8 \<le> 2 ^ 32"
  shows "hnext m' (W a) = hnext m (W a)" "hprev m' (W a) = hprev m (W a)"
  using rd32_same_on [OF assms(1), of a] rd32_same_on [OF assms(1), of "a + 4"] assms(2,3)
  unfolding hnext_def hprev_def W_plus by (auto simp: subset_eq simp del: of_nat_add)

lemma flags_same_on:
  assumes "same_on A m m'" "a + 8 \<in> A" "a + 9 \<le> 2 ^ 32"
  shows "is_free m' (W a) = is_free m (W a)" "scale m' (W a) = scale m (W a)"
  using same_onD [OF assms(1,2)] assms(3) unfolding is_free_def scale_def W_plus by simp_all

lemma core_same_on:
  assumes C: "heap_core m fl lim B F X" and S: "same_on (hdr_bytes (heads fl) (dom B)) m m'"
  shows "heap_core m' fl lim B F X"
proof (rule core_rescale [OF C])
  note D = heap_coreD [OF C]
  show "layout lim B" by (rule D)
  show "hnext m' (W a) = hnext m (W a) \<and> hprev m' (W a) = hprev m (W a)"
    if "a \<in> heads fl \<union> dom B" for a
    using fields_same_on [OF S hdr_bytes_links [OF that] nodes_ok_8 [OF D(3) that]] by blast
  show "is_free m' (W a) = is_free m (W a) \<and> scale m' (W a) = of_nat j" if "B a = Some j" for a j
  proof -
    have "a \<in> dom B" using that by blast
    then have "a + 8 \<in> hdr_bytes (heads fl) (dom B)" unfolding hdr_bytes_def by (intro UnI2 UN_I [of a]) simp_all
    from flags_same_on [OF S this nodes_ok_9 [OF D(3) \<open>a \<in> dom B\<close>]] D(4) [OF that]
    show ?thesis by simp
  qed
qed (use heap_coreD(7,8) [OF C] in blast)+

lemma heap_rel_cong:
  assumes R: "heap_rel s L" and S: "same_on (- kept (free_list s) L) (mem s) (mem s')"
    and eq: "free_list s' = free_list s" "current_brk s' = current_brk s"
  shows "heap_rel s' L"
proof -
  from R obtain B F where C: "heap_core (mem s) (unat (free_list s)) (unat (current_brk s)) B F {}"
    and co: "coalesced F" and L: "L = live_map B F" unfolding heap_rel_def by blast
  have "hdr_bytes (heads (unat (free_list s))) (dom B) \<subseteq> - kept (free_list s) L"
    using core_kept_apart [OF C L] by auto
  from core_same_on [OF C same_on_subset [OF S this]] show ?thesis
    by (intro heap_relI [OF _ co L]) (simp add: eq)
qed

subsection \<open>Fragmentation\<close>

text \<open>
  When everything has been freed, no block is smaller than the largest scale:
  the smallest block would have a free buddy of its own scale.
\<close>

lemma coalesced_empty:
  assumes C: "heap_core m fl lim B F {}" and co: "coalesced F" and all: "live_map B F = Map.empty"
    and a: "B a = Some k"
  shows "k = 15"
proof (rule ccontr)
  assume k: "k \<noteq> 15"
  note D = heap_coreD [OF C]
  define K where "K = (LEAST j. \<exists>a. B a = Some j)"
  obtain c where c: "B c = Some K" using LeastI [of "\<lambda>j. \<exists>a. B a = Some j"] a unfolding K_def by blast
  have min: "K \<le> j" if "B b = Some j" for b j unfolding K_def by (rule Least_le) (use that in blast)
  have K: "4 \<le> K" "K \<le> 15" "K < 15"
    using layoutD_block(1,2) [OF D(1) c] min [OF a] layoutD_block(2) [OF D(1) a] k by simp_all
  have free: "b \<in> set (F j)" if "B b = Some j" for b j
    using fun_cong [OF all, of b] that by (simp add: live_map_def split: if_splits)
  obtain j where j: "B (buddy c K) = Some j" "j \<le> K" using buddy_block [OF D(1) c K(3)] by blast
  with min [OF j(1)] have "j = K" by simp
  with free [OF c] free [OF j(1)] coalescedD [OF co K(1,3)] show False by blast
qed

subsection \<open>What the allocator leaves alone\<close>

definition heap_frame :: "'a heap_state_scheme \<Rightarrow> 'a heap_state_scheme \<Rightarrow> bool" where
  "heap_frame s s' \<longleftrightarrow> free_list s' = free_list s \<and> heap_state.more s' = heap_state.more s"

lemma heap_frame_refl [simp, intro]: "heap_frame s s"
  by (simp add: heap_frame_def)

lemma heap_frame_trans [trans]: "heap_frame s t \<Longrightarrow> heap_frame t u \<Longrightarrow> heap_frame s u"
  by (simp add: heap_frame_def)

lemma heap_frame_upd [frame_simps]:
  "heap_frame s (t\<lparr>mem := m\<rparr>) \<longleftrightarrow> heap_frame s t" "heap_frame (s\<lparr>mem := m\<rparr>) t \<longleftrightarrow> heap_frame s t"
  "heap_frame s (t\<lparr>current_brk := b\<rparr>) \<longleftrightarrow> heap_frame s t"
  "heap_frame (s\<lparr>current_brk := b\<rparr>) t \<longleftrightarrow> heap_frame s t"
  by (simp_all add: heap_frame_def)

lemma heap_frame_term: "term_frame s s' \<Longrightarrow> heap_frame s s'"
  by (cases s; cases s') (simp add: term_frame_def heap_frame_def)

lemma brk_grow_frame: "brk_grow addr s = Some s' \<Longrightarrow> heap_frame s s'"
proof (erule brk_grow.raw_induct [where P = "\<lambda>addr s s'. heap_frame s s'", rotated])
  fix rec :: "u32 \<Rightarrow> 'a heap_state_scheme \<Rightarrow> 'a heap_state_scheme option" and addr s s'
  assume IH: "\<And>addr s s'. rec addr s = Some s' \<Longrightarrow> heap_frame s s'"
    and eq: "(if addr > current_brk s
      then
        let big_block = current_brk s;
            m = set_scale (mem s) big_block MAX_BLOCK_SCALE;
            m = blkmngr_add_to_free_list (free_list s) big_block m
        in rec addr (s\<lparr>mem := m, current_brk := current_brk s + shl1 MAX_BLOCK_SCALE\<rparr>)
      else Some s) = Some s'"
  then show "heap_frame s s'"
    by (auto simp: Let_def heap_frame_def split: if_splits dest!: IH)
qed

lemma brk_shrink_frame: "brk_shrink addr s = Some y \<Longrightarrow> heap_frame s (snd y)"
proof (erule brk_shrink.raw_induct [where P = "\<lambda>addr s y. heap_frame s (snd y)", rotated])
  fix rec :: "u32 \<Rightarrow> 'a heap_state_scheme \<Rightarrow> (8 word \<times> 'a heap_state_scheme) option" and addr s y
  assume IH: "\<And>addr s y. rec addr s = Some y \<Longrightarrow> heap_frame s (snd y)"
    and eq: "(if addr < current_brk s
      then
        let block = current_brk s - shl1 MAX_BLOCK_SCALE
        in if scale (mem s) block \<noteq> MAX_BLOCK_SCALE \<or> \<not> is_free (mem s) block
           then Some (- 1, s)
           else rec addr (s\<lparr>mem := blkmngr_remove_from_free_list block (mem s),
                             current_brk := current_brk s - shl1 MAX_BLOCK_SCALE\<rparr>)
      else Some (0, s)) = Some y"
  then show "heap_frame s (snd y)"
    by (auto simp: Let_def heap_frame_def split: if_splits dest!: IH)
qed

lemma sbrk_frame: "sbrk inc s = Some (r, s') \<Longrightarrow> heap_frame s s'"
  by (auto simp: sbrk_def brk_def bind_eq_Some_conv split: if_splits dest: brk_grow_frame brk_shrink_frame)

lemma allocate_heap_frame: "allocate n s = Some (p, s') \<Longrightarrow> heap_frame s s'"
  unfolding allocate_def Let_def
  by (auto simp: bind_eq_Some_conv frame_simps split: if_splits prod.splits dest!: sbrk_frame)

lemma free_heap_frame: "free d s = Some (r, s') \<Longrightarrow> heap_frame s s'"
  unfolding free_def Let_def
  by (auto simp: bind_eq_Some_conv frame_simps split: if_splits prod.splits
      dest!: sbrk_frame term_frame_writestring heap_frame_term)


end
