(* ===== verification/Allocator.thy ===== *)
theory Allocator
  imports HeapSpec
begin

section \<open>Allocator: the interface of the heap to its clients\<close>

text \<open>
  What the rest of the kernel relies on when it calls \<open>allocate\<close> and \<open>free\<close>,
  as a locale: \<open>rel s P\<close> says that the live objects of the state are those of the
  map \<open>P\<close> from payload addresses to capacities; \<open>stable s P\<close> are the bytes the
  allocator leaves alone. The buddy allocator of heap.c is an instance.
\<close>

locale allocator =
  fixes rel :: "'s \<Rightarrow> (nat \<rightharpoonup> nat) \<Rightarrow> bool"
    and alloc :: "u32 \<Rightarrow> 's \<Rightarrow> (u32 \<times> 's) option"
    and dealloc :: "u32 \<Rightarrow> 's \<Rightarrow> (u8 \<times> 's) option"
    and bytes :: "'s \<Rightarrow> memory"
    and put :: "memory \<Rightarrow> 's \<Rightarrow> 's"
    and stable :: "'s \<Rightarrow> (nat \<rightharpoonup> nat) \<Rightarrow> nat set"
    and limit :: nat
  assumes bytes_put: "bytes (put m s) = m"
    and range: "rel s P \<Longrightarrow> P p = Some c \<Longrightarrow> 0 < p \<and> p + c \<le> 2 ^ 32"
    and payload: "rel s P \<Longrightarrow> P p = Some c \<Longrightarrow> {p..<p + c} \<subseteq> stable s P"
    and apart: "rel s P \<Longrightarrow> P p = Some c \<Longrightarrow> {p..<p + c} \<inter> stable s (P(p := None)) = {}"
    and rel_put: "rel s P \<Longrightarrow> same_on (- stable s P) (bytes s) m \<Longrightarrow> rel (put m s) P"
    and stable_put: "stable (put m s) = stable s"
    and alloc_ok: "rel s P \<Longrightarrow> 0 < n \<Longrightarrow> n \<le> limit \<Longrightarrow>
      (\<exists>p c s'. alloc (of_nat n) s = Some (of_nat p, s') \<and> P p = None \<and> n \<le> c \<and>
         rel s' (P(p \<mapsto> c)) \<and> same_on (stable s P) (bytes s) (bytes s') \<and> stable s' = stable s) \<or>
      alloc (of_nat n) s = Some (0, s)"
    and dealloc_ok: "rel s P \<Longrightarrow> P p = Some c \<Longrightarrow>
      \<exists>s'. dealloc (of_nat p) s = Some (0, s') \<and> rel s' (P(p := None)) \<and>
        same_on (stable s (P(p := None))) (bytes s) (bytes s') \<and> stable s' = stable s"
begin

lemma objects_apart:
  assumes "rel s P" "P p = Some c" "P q = Some d" "p \<noteq> q"
  shows "{p..<p + c} \<inter> {q..<q + d} = {}"
proof -
  obtain s' where "rel s' (P(p := None))" "stable s' = stable s"
    using dealloc_ok [OF assms(1,2)] by blast
  then have "{q..<q + d} \<subseteq> stable s (P(p := None))"
    using payload [of s' "P(p := None)" q d] assms(3,4) by simp
  with apart [OF assms(1,2)] show ?thesis by blast
qed

text \<open>An object handed out can be filled: the new bytes are read back and no stable byte changes.\<close>

lemma fill_object:
  assumes R: "rel s (P(p \<mapsto> c))" "P p = None" and bs: "length bs \<le> c"
  defines "s' \<equiv> put (wr_bytes (bytes s) (of_nat p) bs) s"
  shows "rel s' (P(p \<mapsto> c))" "rd_bytes (bytes s') (of_nat p) (length bs) = bs"
    and "same_on (stable s P) (bytes s) (bytes s')"
proof -
  have Pp: "(P(p \<mapsto> c)) p = Some c" "(P(p \<mapsto> c))(p := None) = P" using R(2) by auto
  have r: "p + length bs \<le> 2 ^ 32" using range [OF R(1) Pp(1)] bs by simp
  have "{p..<p + length bs} \<subseteq> {p..<p + c}" using bs by auto
  then have out: "- stable s (P(p \<mapsto> c)) \<inter> {p..<p + length bs} = {}"
    "stable s P \<inter> {p..<p + length bs} = {}"
    using payload [OF R(1) Pp(1)] apart [OF R(1) Pp(1)] unfolding Pp(2) by blast+
  show "rel s' (P(p \<mapsto> c))"
    unfolding s'_def by (rule rel_put [OF R(1)]) (rule same_on_wr_bytes [OF r out(1)])
  show "same_on (stable s P) (bytes s) (bytes s')"
    unfolding s'_def bytes_put by (rule same_on_wr_bytes [OF r out(2)])
  show "rd_bytes (bytes s') (of_nat p) (length bs) = bs"
    unfolding s'_def bytes_put using r by (intro rd_bytes_wr_bytes) simp_all
qed

text \<open>Giving an object back right after taking it restores the map and keeps every stable byte.\<close>

lemma alloc_dealloc:
  assumes R: "rel s P" and n: "0 < n" "n \<le> limit" and a: "alloc (of_nat n) s = Some (p, s1)" "p \<noteq> 0"
  shows "\<exists>s2. dealloc p s1 = Some (0, s2) \<and> rel s2 P \<and> same_on (stable s P) (bytes s) (bytes s2)"
proof -
  obtain q c where q: "p = of_nat q" "P q = None" "rel s1 (P(q \<mapsto> c))"
    "same_on (stable s P) (bytes s) (bytes s1)" "stable s1 = stable s"
    using alloc_ok [OF R n] a by auto
  have P: "(P(q \<mapsto> c)) q = Some c" "(P(q \<mapsto> c))(q := None) = P" using q(2) by auto
  from dealloc_ok [OF q(3) P(1)] show ?thesis
    unfolding P(2) q(1,5) using q(4) by (auto intro: same_on_trans)
qed

end

subsection \<open>The buddy allocator is one\<close>

definition payloads :: "(nat \<rightharpoonup> nat) \<Rightarrow> (nat \<rightharpoonup> nat)" where
  "payloads L = (\<lambda>p. if 9 \<le> p then map_option (\<lambda>k. 2 ^ k - 9) (L (p - 9)) else None)"

definition heap_objects :: "'a heap_state_scheme \<Rightarrow> (nat \<rightharpoonup> nat) \<Rightarrow> bool" where
  "heap_objects s P \<longleftrightarrow> (\<exists>L. heap_rel s L \<and> P = payloads L)"

definition heap_stable :: "'a heap_state_scheme \<Rightarrow> (nat \<rightharpoonup> nat) \<Rightarrow> nat set" where
  "heap_stable s P = ({..<heap_base} - {unat (free_list s)..<unat (free_list s) + 128}) \<union>
     {x. \<exists>p c. P p = Some c \<and> p \<le> x \<and> x < p + c}"

lemma payloads_Some:
  "payloads L p = Some c \<longleftrightarrow> (\<exists>a k. p = a + 9 \<and> L a = Some k \<and> c = 2 ^ k - 9)"
  by (auto simp: payloads_def le_iff_add)

lemma payloads_upd: "payloads (L(a \<mapsto> k)) = (payloads L)(a + 9 \<mapsto> 2 ^ k - 9)"
  "payloads (L(a := None)) = (payloads L)(a + 9 := None)"
  by (auto simp: payloads_def fun_eq_iff)

lemma heap_stable_payloads: "heap_rel s L \<Longrightarrow> heap_stable s (payloads L) = kept (free_list s) L"
proof -
  assume R: "heap_rel s L"
  have "(\<exists>p c. payloads L p = Some c \<and> p \<le> x \<and> x < p + c) \<longleftrightarrow>
      (\<exists>a k. L a = Some k \<and> a + 9 \<le> x \<and> x < a + 2 ^ k)" for x
  proof -
    have "9 \<le> (2 :: nat) ^ k" if "L a = Some k" for a k
      using heap_rel_block(1) [OF R that] power_increasing [of 4 k "2 :: nat"] by simp
    then show ?thesis by (auto simp: payloads_Some) (metis add.assoc le_add_diff_inverse)+
  qed
  then show ?thesis by (simp add: heap_stable_def kept_def)
qed

lemma payload_range:
  assumes R: "heap_rel s L" and a: "L a = Some k"
  shows "9 < (2 :: nat) ^ k" "a + 9 + (2 ^ k - 9) = a + 2 ^ k" "0 < a" "a + 2 ^ k \<le> 2 ^ 32"
proof -
  show p: "9 < (2 :: nat) ^ k"
    using heap_rel_block(1) [OF R a] power_increasing [of 4 k "2 :: nat"] by simp
  then show "a + 9 + (2 ^ k - 9) = a + 2 ^ k" by simp
  show "0 < a" using heap_rel_block(3) [OF R a] by (simp add: heap_base_def)
  show "a + 2 ^ k \<le> 2 ^ 32" using heap_rel_block(5) [OF R a] heap_rel_brk(3) [OF R] by simp
qed

interpretation heap: allocator heap_objects allocate free mem "\<lambda>m s. s\<lparr>mem := m\<rparr>" heap_stable 32759
proof
  fix s :: "'a heap_state_scheme" and P m p c and n :: nat
  show "mem (s\<lparr>mem := m\<rparr>) = m" by simp
  show "heap_stable (s\<lparr>mem := m\<rparr>) = heap_stable s" by (simp add: heap_stable_def fun_eq_iff)
  assume "heap_objects s P"
  then obtain L where R: "heap_rel s L" and P: "P = payloads L" unfolding heap_objects_def by blast
  show "{p..<p + c} \<subseteq> heap_stable s P" if "P p = Some c"
    using that unfolding heap_stable_def by auto
  show "heap_objects (s\<lparr>mem := m\<rparr>) P" if "same_on (- heap_stable s P) (mem s) m"
    using heap_rel_cong [OF R, of "s\<lparr>mem := m\<rparr>"] that heap_stable_payloads [OF R]
    unfolding heap_objects_def P by (intro exI [of _ L]) simp
  show "\<exists>s'. free (W p) s = Some (0, s') \<and> heap_objects s' (P(p := None)) \<and>
      same_on (heap_stable s (P(p := None))) (mem s) (mem s') \<and> heap_stable s' = heap_stable s"
    if pc: "P p = Some c"
  proof -
    obtain a k where a: "p = a + 9" "L a = Some k" using pc unfolding P payloads_Some by blast
    obtain s' where f: "free (W (a + 9)) s = Some (0, s')" "heap_rel s' (L(a := None))"
      "same_on (kept (free_list s) (L(a := None))) (mem s) (mem s')"
      "s' = s\<lparr>mem := mem s', current_brk := current_brk s'\<rparr>"
      using free_spec [OF R a(2)] by blast
    from f(4) have fl: "free_list s' = free_list s" by (metis heap_state.select_convs(1) heap_state.surjective
          heap_state.update_convs(2) term_state.update_convs(1))
    have "heap_stable s' = heap_stable s" unfolding heap_stable_def fl ..
    moreover have "heap_stable s' (payloads (L(a := None))) = kept (free_list s') (L(a := None))"
      by (rule heap_stable_payloads [OF f(2)])
    ultimately show ?thesis using f(1,2,3) unfolding heap_objects_def P payloads_upd [symmetric] a(1) fl
      by (intro exI [of _ s']) auto
  qed
  assume n: "0 < n" "n \<le> 32759"
  show "(\<exists>p c s'. allocate (W n) s = Some (W p, s') \<and> P p = None \<and> n \<le> c \<and>
      heap_objects s' (P(p \<mapsto> c)) \<and> same_on (heap_stable s P) (mem s) (mem s') \<and>
      heap_stable s' = heap_stable s) \<or> allocate (W n) s = Some (0, s)"
    (is "?fresh \<or> ?null")
  proof (cases ?null)
    case False
    have "n + 9 \<le> 2 ^ 15" using n(2) by simp
    from allocate_spec [OF R n(1) this] False obtain s' a k where
      f: "allocate (W n) s = Some (W (a + 9), s')" "L a = None" "n + 9 \<le> 2 ^ k" "heap_rel s' (L(a \<mapsto> k))"
        "same_on (kept (free_list s) L) (mem s) (mem s')"
        "s' = s\<lparr>mem := mem s', current_brk := current_brk s'\<rparr>" by blast
    from f(6) have fl: "free_list s' = free_list s" by (metis heap_state.select_convs(1) heap_state.surjective
          heap_state.update_convs(2) term_state.update_convs(1))
    have "heap_stable s' = heap_stable s" unfolding heap_stable_def fl ..
    moreover have "P (a + 9) = None" using f(2) by (simp add: P payloads_def)
    moreover have "heap_objects s' (P(a + 9 \<mapsto> 2 ^ k - 9))"
      using f(4) unfolding heap_objects_def P payloads_upd(1) [symmetric] by blast
    moreover have "same_on (heap_stable s P) (mem s) (mem s')"
      using f(5) heap_stable_payloads [OF R] by (simp add: P)
    moreover have "n \<le> 2 ^ k - 9" using f(3) by simp
    ultimately have ?fresh using f(1) by blast
    then show ?thesis ..
  qed simp
next
  fix s :: "'a heap_state_scheme" and P p c
  assume O: "heap_objects s P" and p: "P p = Some c"
  then obtain L a k where R: "heap_rel s L" and P: "P = payloads L" and a: "p = a + 9" "L a = Some k" "c = 2 ^ k - 9"
    unfolding heap_objects_def by (auto simp: payloads_Some)
  note r = payload_range [OF R a(2)]
  show "0 < p \<and> p + c \<le> 2 ^ 32" using r a by simp
  show "{p..<p + c} \<inter> heap_stable s (P(p := None)) = {}"
  proof -
    have out: "x < a + 9 \<or> a + 2 ^ k \<le> x" if qd: "(P(p := None)) q = Some d" and x: "q \<le> x" "x < q + d" for q d x
    proof -
      obtain b j where b: "q = b + 9" "L b = Some j" "d = 2 ^ j - 9" "b \<noteq> a"
        using qd unfolding P a(1) by (auto simp: payloads_Some split: if_splits)
      have "{a..<a + 2 ^ k} \<inter> {b..<b + 2 ^ j} = {}"
        using heap_rel_disjoint [OF R a(2) b(2)] b(4) by simp
      moreover have "x \<in> {b..<b + 2 ^ j}" using x b payload_range(2) [OF R b(2)] by simp
      ultimately show ?thesis by (auto simp: disjoint_iff)
    qed
    have "heap_base \<le> a" by (rule heap_rel_block(3) [OF R a(2)])
    then have "x < p \<or> p + c \<le> x" if "x \<in> heap_stable s (P(p := None))" for x
      using that out r(2) unfolding heap_stable_def a(1,3) by auto
    then show ?thesis by (auto simp: disjoint_iff) (metis linorder_not_le)
  qed
qed

end
