(* ===== verification/StrAlloc.thy ===== *)
theory StrAlloc
  imports Allocator
begin

section \<open>StrAlloc: strdup and strtok (fake_libc/string.c)\<close>

text \<open>
  The two string functions with effects beyond their arguments: \<open>strdup\<close> calls
  the allocator, and \<open>strtok\<close> keeps its position in the static variable \<open>last\<close>,
  called \<open>pos\<close> here, which is passed and returned here, and cuts the string up in place.
\<close>

subsection \<open>Operations\<close>

fun strdup_copy :: "memory \<Rightarrow> u32 \<Rightarrow> cptr \<Rightarrow> nat \<Rightarrow> nat \<Rightarrow> memory" where
  "strdup_copy m copy s i 0 = m"
| "strdup_copy m copy s i (Suc n) =
     strdup_copy (m(copy + of_nat i := ld m (padd s i))) copy s (Suc i) n"

definition strdup :: "cptr \<Rightarrow> 'a heap_state_scheme \<Rightarrow> (u32 \<times> 'a heap_state_scheme) option" where
  "strdup str s =
     do {
       len \<leftarrow> strlen_loop (mem s) str 0;
       (copy, s) \<leftarrow> allocate (len + 1) s;
       if copy = 0 then Some (0, s)
       else
         let m = strdup_copy (mem s) copy str 0 (unat len);
             m = m(copy + len := 0)
         in Some (copy, s\<lparr>mem := m\<rparr>) }"

partial_function (option) strtok_skip :: "memory \<Rightarrow> cptr \<Rightarrow> u32 \<Rightarrow> u32 option" where
  "strtok_skip m delim pos =
     (if m pos \<noteq> 0
      then do {
        p \<leftarrow> strchr m delim (m pos);
        if p \<noteq> Mem 0 then strtok_skip m delim (pos + 1) else Some pos }
      else Some pos)"

partial_function (option) strtok_end :: "memory \<Rightarrow> cptr \<Rightarrow> u32 \<Rightarrow> u32 option" where
  "strtok_end m delim pos =
     (if m pos \<noteq> 0
      then do {
        p \<leftarrow> strchr m delim (m pos);
        if p = Mem 0 then strtok_end m delim (pos + 1) else Some pos }
      else Some pos)"

text \<open>The result is the token, the new \<open>last\<close> and the memory; null pointers are 0.\<close>

definition strtok ::
  "u32 \<Rightarrow> cptr \<Rightarrow> u32 \<Rightarrow> memory \<Rightarrow> (u32 \<times> u32 \<times> memory) option" where
  "strtok str delim pos m =
     (let pos = (if str \<noteq> 0 then str else pos)
      in if pos = 0 then Some (0, pos, m)
         else do {
           pos \<leftarrow> strtok_skip m delim pos;
           if m pos = 0 then Some (0, 0, m)
           else do {
             let token = pos;
             pos \<leftarrow> strtok_end m delim pos;
             if m pos \<noteq> 0 then Some (token, pos + 1, m(pos := 0))
             else Some (token, 0, m) } })"

subsection \<open>Strings in stable bytes\<close>

text \<open>The \<open>n\<close> bytes at \<open>p\<close> are a literal's or lie in the address set \<open>A\<close>.\<close>

fun readable :: "nat set \<Rightarrow> cptr \<Rightarrow> nat \<Rightarrow> bool" where
  "readable A (Lit bs i) n \<longleftrightarrow> True"
| "readable A (Mem a) n \<longleftrightarrow> unat a + n \<le> 2 ^ 32 \<and> {unat a..<unat a + n} \<subseteq> A"

lemma readable_less: "readable A p n \<Longrightarrow> k \<le> n \<Longrightarrow> readable A p k"
  by (cases p) auto

lemma readable_step: "readable A p (Suc n) \<Longrightarrow> readable A (padd p 1) n"
proof (cases p)
  case (Mem a)
  assume "readable A p (Suc n)"
  then have r: "unat a + Suc n \<le> 2 ^ 32" "{unat a..<unat a + Suc n} \<subseteq> A" by (simp_all add: Mem)
  show ?thesis
  proof (cases n)
    case (Suc k)
    then have "unat (a + 1) = Suc (unat a)" using r(1) by (simp add: unat_word_ariths)
    moreover have "{Suc (unat a)..<Suc (unat a) + n} \<subseteq> A" using r(2) by auto
    ultimately show ?thesis using r(1) by (simp add: Mem)
  qed (use unat_u32_lt [of "a + 1"] in \<open>simp add: Mem order_less_imp_le\<close>)
qed simp

lemma ld_same_on:
  assumes "same_on A m m'" "readable A p n" "i < n"
  shows "ld m' (padd p i) = ld m (padd p i)"
proof (cases p)
  case (Mem a)
  with assms have "m' (of_nat (unat a + i)) = m (of_nat (unat a + i))"
    by (intro same_onD [OF assms(1)]) (auto simp: subset_eq)
  with Mem show ?thesis by simp
qed simp

lemma cstr_same_on:
  assumes "same_on A m m'" "readable A p (Suc (length bs))" "cstr m p bs"
  shows "cstr m' p bs"
  using assms ld_same_on [OF assms(1,2)] unfolding cstr_def by simp

lemma cstr_readable_strlen:
  "cstr m p bs \<Longrightarrow> length bs < 2 ^ 32 \<Longrightarrow> strlen_loop m p 0 = Some (of_nat (length bs))"
  by (simp add: strlen_loop_cstr)

subsection \<open>strdup makes an independent copy\<close>

lemma strdup_copy_memcpy:
  "strdup_copy m copy s i n = memcpy_loop m (copy + of_nat i) (padd s i) n"
  by (induction n arbitrary: m i) (simp_all add: algebra_simps)

lemma wr_bytes_snoc_c:
  "length bs < 2 ^ 32 \<Longrightarrow> (wr_bytes m a bs)(a + of_nat (length bs) := b) = wr_bytes m a (bs @ [b])"
proof
  fix x :: u32 assume l: "length bs < 2 ^ 32"
  show "((wr_bytes m a bs)(a + of_nat (length bs) := b)) x = wr_bytes m a (bs @ [b]) x"
  proof (cases "x = a + of_nat (length bs)")
    case True
    with l show ?thesis by (simp add: wr_bytes_def unat_of_nat_u32)
  next
    case False
    then have "x - a \<noteq> of_nat (length bs)" by (auto simp: algebra_simps)
    then have "unat (x - a) \<noteq> length bs" by (metis of_nat_unat_u32)
    with False show ?thesis by (auto simp: wr_bytes_def nth_append)
  qed
qed

lemma cstr_rd_bytes:
  assumes "0 \<notin> set bs" "rd_bytes m a (Suc (length bs)) = bs @ [0]"
  shows "cstr m (Mem a) bs"
proof -
  have "m (a + of_nat i) = (bs @ [0]) ! i" if "i < Suc (length bs)" for i
    using nth_rd_bytes [OF that, of m a] assms(2) by simp
  then show ?thesis using assms(1) by (auto simp: cstr_def nth_append less_Suc_eq)
qed

lemma rd_chars_cstr: "cstr m p bs \<Longrightarrow> rd_chars m p (length bs) = bs"
  by (rule nth_equalityI) (simp_all add: rd_chars_def cstr_def)

lemma allocate_frame:
  assumes O: "heap_objects s P" and n: "0 < n" "n \<le> 32759" and a: "allocate (W n) s = Some (q, s')"
  shows "s' = s\<lparr>mem := mem s', current_brk := current_brk s'\<rparr>"
proof -
  obtain L where R: "heap_rel s L" using O unfolding heap_objects_def by blast
  have "n + 9 \<le> 2 ^ 15" using n(2) by simp
  from allocate_spec [OF R n(1) this] a show ?thesis by auto
qed

lemma strdup_spec:
  assumes O: "heap_objects s P" and str: "cstr (mem s) p bs"
    and rd: "readable (heap_stable s P) p (Suc (length bs))" and len: "length bs < 32759"
  shows "(\<exists>q c s'. strdup p s = Some (W q, s') \<and> W q \<noteq> 0 \<and> P q = None \<and> length bs < c \<and>
      heap_objects s' (P(q \<mapsto> c)) \<and> cstr (mem s') (Mem (W q)) bs \<and>
      same_on (heap_stable s P) (mem s) (mem s') \<and> heap_stable s' = heap_stable s \<and>
      s' = s\<lparr>mem := mem s', current_brk := current_brk s'\<rparr>) \<or>
    strdup p s = Some (0, s)"
proof -
  let ?n = "Suc (length bs)"
  have n: "0 < ?n" "?n \<le> 32759" "length bs < 2 ^ 32" using len by simp_all
  have sl: "strlen_loop (mem s) p 0 = Some (W (length bs))" by (rule cstr_readable_strlen [OF str n(3)])
  have n1: "W (length bs) + 1 = W ?n" by simp
  from heap.alloc_ok [OF O n(1,2)]
  consider (fresh) q c s1 where "allocate (W ?n) s = Some (W q, s1)" "P q = None" "?n \<le> c"
      "heap_objects s1 (P(q \<mapsto> c))" "same_on (heap_stable s P) (mem s) (mem s1)" "heap_stable s1 = heap_stable s"
    | (null) "allocate (W ?n) s = Some (0, s)" by blast
  then show ?thesis
  proof cases
    case null
    then show ?thesis using sl by (simp add: strdup_def n1 del: of_nat_Suc)
  next
    case fresh
    let ?P = "P(q \<mapsto> c)"
    have Pq: "?P q = Some c" "?P(q := None) = P" using fresh(2) by auto
    note r = heap.range [OF fresh(4) Pq(1)]
    have q0: "W q \<noteq> 0" using r fresh(3) of_nat_u32_eq [of q 0] by simp
    have apart: "{q..<q + c} \<inter> heap_stable s P = {}"
      using heap.apart [OF fresh(4) Pq(1)] unfolding Pq(2) fresh(6) .
    have ne: "padd p i \<noteq> Mem (W q + of_nat j)" if ij: "j < i" "i < length bs" for i j
    proof (cases p)
      case (Mem a)
      with rd ij(2) have i: "unat a + i \<in> heap_stable s P" "unat a + i < 2 ^ 32" by auto
      have j: "q + j \<in> {q..<q + c}" "q + j < 2 ^ 32" using ij fresh(3) r by auto
      have "unat a + i \<noteq> q + j" using i(1) j(1) apart by (metis IntI empty_iff)
      then have "W (unat a + i) \<noteq> W (q + j)" using of_nat_u32_eq [OF i(2) j(2)] by simp
      then show ?thesis using Mem by simp
    qed simp
    have str1: "cstr (mem s1) p bs" by (rule cstr_same_on [OF fresh(5) rd str])
    have "strdup_copy (mem s1) (W q) p 0 (length bs) = wr_bytes (mem s1) (W q) bs"
      using memcpy_loop_wr_bytes [of "length bs" p "W q"] ne len
      by (simp add: strdup_copy_memcpy rd_chars_cstr [OF str1])
    then have eq: "(strdup_copy (mem s1) (W q) p 0 (length bs))(W q + W (length bs) := 0) =
        wr_bytes (mem s1) (W q) (bs @ [0])"
      using wr_bytes_snoc_c [OF n(3)] by simp
    let ?s = "s1\<lparr>mem := wr_bytes (mem s1) (W q) (bs @ [0])\<rparr>"
    have "length (bs @ [0]) \<le> c" using fresh(3) by simp
    note F = heap.fill_object [OF fresh(4,2) this]
    have run: "strdup p s = Some (W q, ?s)"
      using sl fresh(1) q0 unat_of_nat_u32 [OF n(3)]
      by (simp add: strdup_def n1 Let_def eq del: of_nat_Suc)
    have "cstr (mem ?s) (Mem (W q)) bs"
      using F(2) cstr_nonzero [OF str] by (intro cstr_rd_bytes) simp_all
    moreover have "heap_stable ?s = heap_stable s" using heap.stable_put fresh(6) by metis
    moreover have "?s = s\<lparr>mem := mem ?s, current_brk := current_brk ?s\<rparr>"
      using allocate_frame [OF O n(1,2) fresh(1)] by (metis (mono_tags) heap_state.surjective
          heap_state.update_convs(2) term_state.update_convs(1) term_state.select_convs(1) heap_state.select_convs)
    moreover have "same_on (heap_stable s P) (mem s) (mem ?s)"
      using fresh(5) F(3) unfolding fresh(6) heap.bytes_put by (rule same_on_trans)
    ultimately show ?thesis using run q0 fresh(2,3) F(1)
      by (intro disjI1 exI [of _ q] exI [of _ c] exI [of _ ?s]) simp
  qed
qed

subsection \<open>strtok cuts off one token\<close>

text \<open>The delimiters of the callers are string literals.\<close>

lemma strchr_lit:
  assumes "0 \<notin> set (bytes_of t)" "c \<noteq> 0"
  shows "\<exists>q. strchr m (lit t) c = Some q \<and> (q = Mem 0 \<longleftrightarrow> c \<notin> set (bytes_of t))"
  using strchr_cstr [OF cstr_lit [OF assms(1)] assms(2), of m] by (auto simp: lit_def)

lemma strtok_skip_cstr:
  assumes "0 \<notin> set (bytes_of t)" "cstr m (Mem a) bs"
  shows "strtok_skip m (lit t) a = Some (a + of_nat (length (takeWhile (\<lambda>c. c \<in> set (bytes_of t)) bs)))"
  using assms(2)
proof (induction bs arbitrary: a)
  case Nil
  then show ?case by (subst strtok_skip.simps) (simp add: cstr_Nil)
next
  case (Cons c bs)
  then have c: "c \<noteq> 0" "m a = c" "cstr m (Mem (a + 1)) bs" by (simp_all add: cstr_Cons)
  from strchr_lit [OF assms(1) c(1), of m] Cons.IH [OF c(3)] c show ?case
    by (subst strtok_skip.simps) (auto simp: algebra_simps)
qed

lemma strtok_end_cstr:
  assumes "0 \<notin> set (bytes_of t)" "cstr m (Mem a) bs"
  shows "strtok_end m (lit t) a = Some (a + of_nat (length (takeWhile (\<lambda>c. c \<notin> set (bytes_of t)) bs)))"
  using assms(2)
proof (induction bs arbitrary: a)
  case Nil
  then show ?case by (subst strtok_end.simps) (simp add: cstr_Nil)
next
  case (Cons c bs)
  then have c: "c \<noteq> 0" "m a = c" "cstr m (Mem (a + 1)) bs" by (simp_all add: cstr_Cons)
  from strchr_lit [OF assms(1) c(1), of m] Cons.IH [OF c(3)] c show ?case
    by (subst strtok_end.simps) (auto simp: algebra_simps)
qed

lemma cstr_Mem: "cstr m (Mem a) bs \<longleftrightarrow>
    0 \<notin> set bs \<and> (\<forall>i<Suc (length bs). m (a + of_nat i) = (bs @ [0]) ! i)"
  unfolding All_less_Suc cstr_def by (auto simp only: padd.simps ld.simps nth_append nth_Cons_0 if_True if_False less_irrefl diff_self_eq_0)
lemma cstr_append: "cstr m p (u @ v) \<Longrightarrow> cstr m (padd p (length u)) v"
proof (induction u arbitrary: p)
  case (Cons x u)
  from Cons.IH [of "padd p 1"] Cons.prems show ?case by (simp add: cstr_Cons)
qed simp

lemma cstr_cut:
  assumes s: "cstr m (Mem a) (t @ d # r)" and a: "unat a + length (t @ d # r) < 2 ^ 32"
  defines "m' \<equiv> m(a + of_nat (length t) := 0)"
  shows "cstr m' (Mem a) t" "cstr m' (Mem (a + of_nat (length t) + 1)) r"
proof -
  let ?bs = "t @ d # r"
  have keep: "m' (a + of_nat i) = m (a + of_nat i)" if "i < Suc (length ?bs)" "i \<noteq> length t" for i
  proof -
    have "(of_nat i :: u32) \<noteq> of_nat (length t)" using that a by (subst of_nat_u32_eq) simp_all
    then show ?thesis by (simp add: m'_def)
  qed
  have m: "m (a + of_nat i) = (?bs @ [0]) ! i" if "i < Suc (length ?bs)" for i
    using s that unfolding cstr_Mem by blast
  have nz: "0 \<notin> set t" "0 \<notin> set r" using cstr_nonzero [OF s] by auto
  have "m' (a + of_nat i) = t ! i" if "i < length t" for i
    using that keep [of i] m [of i] by (simp add: nth_append)
  then show "cstr m' (Mem a) t" using nz(1) by (simp add: cstr_def m'_def)
  have "m' (a + of_nat (length t) + 1 + of_nat i) = (r @ [0]) ! i" if "i < Suc (length r)" for i
    using that keep [of "Suc (length t + i)"] m [of "Suc (length t + i)"]
    by (simp add: nth_append algebra_simps nth_Cons' split: if_splits)
  then show "cstr m' (Mem (a + of_nat (length t) + 1)) r"
    using nz(2) unfolding cstr_Mem by blast
qed

lemma strtok_spec:
  fixes pos :: u32
  assumes t: "0 \<notin> set (bytes_of t)" and s: "cstr m (Mem a) bs" and a: "unat a + length bs < 2 ^ 32"
    and p: "(if str \<noteq> 0 then str else pos) = a" "a \<noteq> 0"
  defines "u \<equiv> takeWhile (\<lambda>c. c \<in> set (bytes_of t)) bs" and "v \<equiv> dropWhile (\<lambda>c. c \<in> set (bytes_of t)) bs"
  defines "w \<equiv> takeWhile (\<lambda>c. c \<notin> set (bytes_of t)) v" and "r \<equiv> dropWhile (\<lambda>c. c \<notin> set (bytes_of t)) v"
  defines "tok \<equiv> a + of_nat (length u)"
  defines "stop \<equiv> tok + of_nat (length w)"
  shows "v = [] \<Longrightarrow> strtok str (lit t) pos m = Some (0, 0, m)"
    and "v \<noteq> [] \<Longrightarrow> r = [] \<Longrightarrow> strtok str (lit t) pos m = Some (tok, 0, m) \<and> cstr m (Mem tok) w"
    and "v \<noteq> [] \<Longrightarrow> r \<noteq> [] \<Longrightarrow>
      strtok str (lit t) pos m = Some (tok, stop + 1, m(stop := 0)) \<and>
      cstr (m(stop := 0)) (Mem tok) w \<and> cstr (m(stop := 0)) (Mem (stop + 1)) (tl r)"
proof -
  have bs: "bs = u @ v" "v = w @ r" by (simp_all add: u_def v_def w_def r_def)
  have sv: "cstr m (Mem tok) v" using cstr_append [of m "Mem a" u v] s bs(1) by (simp add: tok_def)
  have sr: "cstr m (Mem stop) r" using cstr_append [of m "Mem tok" w r] sv bs(2) by (simp add: stop_def)
  have m: "m tok = 0 \<longleftrightarrow> v = []" "m stop = 0 \<longleftrightarrow> r = []"
    using sv sr by (cases v, auto simp: cstr_Nil cstr_Cons)[] (use sr in \<open>cases r; auto simp: cstr_Nil cstr_Cons\<close>)
  have run: "strtok str (lit t) pos m = (if m tok = 0 then Some (0, 0, m)
      else if m stop \<noteq> 0 then Some (tok, stop + 1, m(stop := 0)) else Some (tok, 0, m))"
    using p strtok_skip_cstr [OF t s] strtok_end_cstr [OF t sv]
    unfolding strtok_def Let_def p(1) by (simp add: u_def [symmetric] tok_def [symmetric] w_def [symmetric] stop_def [symmetric])
  show "v = [] \<Longrightarrow> strtok str (lit t) pos m = Some (0, 0, m)" using run m by simp
  show "strtok str (lit t) pos m = Some (tok, 0, m) \<and> cstr m (Mem tok) w" if "v \<noteq> []" "r = []"
    using run m that sv bs(2) by simp
  show "strtok str (lit t) pos m = Some (tok, stop + 1, m(stop := 0)) \<and>
      cstr (m(stop := 0)) (Mem tok) w \<and> cstr (m(stop := 0)) (Mem (stop + 1)) (tl r)"
    if ne: "v \<noteq> []" "r \<noteq> []"
  proof -
    obtain d r' where r: "r = d # r'" using ne(2) by (cases r) auto
    have "unat tok + length (w @ d # r') < 2 ^ 32"
    proof -
      have "unat a + length u < 2 ^ 32" using a bs by simp
      then have "unat tok = unat a + length u"
        unfolding tok_def by (metis of_nat_add of_nat_unat_u32 unat_of_nat_u32)
      then show ?thesis using a bs r by simp
    qed
    from cstr_cut [OF _ this] sv bs(2) r run m ne show ?thesis by (simp add: stop_def)
  qed
qed

end
