(* ===== verification/HeapProps.thy ===== *)
theory HeapProps
  imports Allocator
begin

section \<open>HeapProps: the properties of the heap\<close>

text \<open>
  The claims about memory/heap.c, each with a witness that applies it to the
  heap the kernel has right after \<open>init_heap\<close> at boot, or to a block allocated there.
\<close>

text \<open>The state before \<open>init_heap\<close>: zeroed memory and the list heads at 1 MiB, where the kernel is linked.\<close>

definition boot :: heap_state where
  "boot = \<lparr>mem = (\<lambda>_. 0), terminal_row = 0, terminal_column = 0, terminal_color = 7,
     terminal_buffer = (\<lambda>_. 0), free_list = 0x100000, current_brk = 0\<rparr>"

lemma boot_free_list: "unat (free_list boot) + 128 \<le> heap_base"
  by (simp add: boot_def heap_base_def)

lemma boot_heap: "\<exists>s. init_heap HEAP_LOWER_BOUND boot = Some s \<and> heap_rel s Map.empty"
  using init_heap_core [OF boot_free_list] by blast

lemma allocate_room:
  assumes R: "heap_rel s L" and n: "0 < n" "n \<le> 32759" and room: "unat (current_brk s) + 2 ^ 15 < 2 ^ 32"
  obtains s' a k where "allocate (of_nat n) s = Some (of_nat (a + 9), s')" "L a = None"
    "heap_rel s' (L(a \<mapsto> k))" "unat (current_brk s') \<le> unat (current_brk s) + 2 ^ 15"
proof -
  have n9: "n + 9 \<le> 2 ^ 15" using n(2) by simp
  from allocate_spec [OF R n(1) n9] room obtain s' a k where
    "allocate (of_nat n) s = Some (of_nat (a + 9), s')" "L a = None" "heap_rel s' (L(a \<mapsto> k))"
    "if current_brk s' = current_brk s then k = 4 \<or> 2 ^ (k - 1) < n + 9
       else k = 15 \<and> unat (current_brk s') = unat (current_brk s) + 2 ^ 15" by auto
  then show thesis by (intro that [of a s' k]) (auto split: if_splits)
qed

lemma boot_two_live:
  "\<exists>s a b k j. heap_rel (s :: heap_state) [a \<mapsto> k, b \<mapsto> j] \<and> b \<noteq> a"
proof -
  obtain s where s: "heap_rel (s :: heap_state) Map.empty" "unat (current_brk s) = heap_base + 2 ^ 15"
    using init_heap_core [OF boot_free_list] by blast
  have n: "0 < (500 :: nat)" "(500 :: nat) \<le> 32759" by simp_all
  have "unat (current_brk s) + 2 ^ 15 < 2 ^ 32" using s(2) by (simp add: heap_base_def)
  then obtain s1 a k where s1: "allocate (of_nat 500) s = Some (of_nat (a + 9), s1)" "Map.empty a = (None :: nat option)"
    "heap_rel s1 [a \<mapsto> k]" "unat (current_brk s1) \<le> unat (current_brk s) + 2 ^ 15"
    by (rule allocate_room [OF s(1) n])
  have "unat (current_brk s1) + 2 ^ 15 < 2 ^ 32" using s(2) s1(4) by (simp add: heap_base_def)
  then obtain s2 b j where s2: "allocate (of_nat 500) s1 = Some (of_nat (b + 9), s2)" "[a \<mapsto> k] b = None"
    "heap_rel s2 ([a \<mapsto> k](b \<mapsto> j))" "unat (current_brk s2) \<le> unat (current_brk s1) + 2 ^ 15"
    by (rule allocate_room [OF s1(3) n])
  from s2(2) have "b \<noteq> a" by auto
  with s2(3) show ?thesis by blast
qed

text \<open>A heap with one live block.\<close>

lemma free_live: "heap_rel s L \<Longrightarrow> L a = Some k \<Longrightarrow> L(a := None) = L' \<Longrightarrow>
    \<exists>s'. free (of_nat (a + 9)) s = Some (0, s') \<and> heap_rel s' L'"
  using free_spec [of s L a k] by blast

lemma boot_live: "\<exists>s a k. heap_rel (s :: heap_state) [a \<mapsto> k]"
proof -
  obtain s a b k j where R: "heap_rel (s :: heap_state) [a \<mapsto> k, b \<mapsto> j]" "b \<noteq> a"
    using boot_two_live by blast
  have "[a \<mapsto> k, b \<mapsto> j] b = Some j" "[a \<mapsto> k, b \<mapsto> j](b := None) = [a \<mapsto> k]" using R(2) by auto
  from free_live [OF R(1) this] show ?thesis by blast
qed

text \<open>
  C14: \<open>init_heap\<close> at the heap's lower bound returns and leaves a well-formed heap: one free
  block of the largest scale up to the new break, no live block.
\<close>

theorem init_heap_well_formed:
  assumes "unat (free_list s) + 128 \<le> heap_base"
  shows "\<exists>s'. init_heap HEAP_LOWER_BOUND s = Some s' \<and> heap_rel s' Map.empty \<and>
    current_brk s' = 0x4008000 \<and> free_list s' = free_list s"
proof -
  obtain s' where s': "init_heap HEAP_LOWER_BOUND s = Some s'" "heap_rel s' Map.empty"
    "s' = s\<lparr>mem := mem s', current_brk := W (heap_base + 2 ^ 15)\<rparr>"
    using init_heap_core [OF assms] by blast
  have "current_brk s' = 0x4008000" "free_list s' = free_list s"
    by (subst s'(3), simp add: heap_base_def)+
  with s'(1,2) show ?thesis by blast
qed

lemma init_heap_well_formed_witness:
  "\<exists>s'. init_heap HEAP_LOWER_BOUND boot = Some s' \<and> heap_rel s' Map.empty \<and> current_brk s' = 0x4008000"
  using init_heap_well_formed [OF boot_free_list] by blast

text \<open>
  C1: \<open>allocate\<close> refines adding a block to the map of live blocks. For every request it
  accepts it returns (its loops end); the block is new, holds the request and its header
  with no smaller scale sufficing (unless the heap had to grow, which always hands out a
  whole block of the largest scale), and no byte of a live block and none below the heap
  but the list heads changes. NULL is returned only when the break has reached the end of
  the address space, and then nothing changes.
\<close>

theorem allocate_refines:
  assumes "heap_rel s L" "0 < n" "n \<le> 32759"
  shows "(\<exists>s' a k. allocate (of_nat n) s = Some (of_nat (a + 9), s') \<and> L a = None \<and> n + 9 \<le> 2 ^ k \<and>
      heap_rel s' (L(a \<mapsto> k)) \<and> same_on (kept (free_list s) L) (mem s) (mem s') \<and>
      (if current_brk s' = current_brk s then k = 4 \<or> 2 ^ (k - 1) < n + 9 else k = 15)) \<or>
    allocate (of_nat n) s = Some (0, s) \<and> unat (current_brk s) + 2 ^ 15 = 2 ^ 32"
proof -
  have "n + 9 \<le> 2 ^ 15" using assms(3) by simp
  from allocate_spec [OF assms(1,2) this] show ?thesis by (elim disjE exE conjE) (auto split: if_splits)
qed

lemma allocate_refines_witness:
  "\<exists>s. heap_rel (s :: heap_state) Map.empty \<and>
     ((\<exists>s' a k. allocate (of_nat 500) s = Some (of_nat (a + 9), s') \<and> heap_rel s' [a \<mapsto> k]) \<or>
      allocate (of_nat 500) s = Some (0, s))"
  using boot_heap allocate_refines [of _ Map.empty 500] by fastforce

text \<open>
  C2: \<open>free\<close> of a live block returns 0 (its merge loop ends), removes exactly that block from
  the map of live blocks, and changes no byte of the other live blocks and none below the
  heap but the list heads. The heap stays well-formed: in particular no two free buddies
  are left unmerged.
\<close>

theorem free_refines:
  assumes "heap_rel s L" "L a = Some k"
  shows "\<exists>s'. free (of_nat (a + 9)) s = Some (0, s') \<and> heap_rel s' (L(a := None)) \<and>
    same_on (kept (free_list s) (L(a := None))) (mem s) (mem s')"
  using free_spec [OF assms] by blast

lemma free_refines_witness:
  "\<exists>s s' a. free (of_nat (a + 9)) (s :: heap_state) = Some (0, s') \<and> heap_rel s' Map.empty"
proof -
  obtain s a k where R: "heap_rel (s :: heap_state) [a \<mapsto> k]" using boot_live by blast
  have "[a \<mapsto> k] a = Some k" "[a \<mapsto> k](a := None) = Map.empty" by auto
  with free_refines [OF R this(1)] show ?thesis by (metis (no_types))
qed

text \<open>
  A block given back right after it was taken leaves the map of live blocks as it was,
  and every byte outside the free blocks.
\<close>

lemma allocate_free_roundtrip:
  assumes "heap_rel s L" "0 < n" "n \<le> 32759" "allocate (of_nat n) s = Some (p, s1)" "p \<noteq> 0"
  shows "\<exists>s2. free p s1 = Some (0, s2) \<and> heap_rel s2 L \<and> same_on (kept (free_list s) L) (mem s) (mem s2)"
proof -
  have n9: "n + 9 \<le> 2 ^ 15" using assms(3) by simp
  from allocate_spec [OF assms(1,2) n9] assms(4,5) obtain a k where
    a: "p = of_nat (a + 9)" "L a = None" "heap_rel s1 (L(a \<mapsto> k))"
      "same_on (kept (free_list s) L) (mem s) (mem s1)" "s1 = s\<lparr>mem := mem s1, current_brk := current_brk s1\<rparr>"
    by auto
  have fl: "free_list s1 = free_list s" by (subst a(5)) simp
  have L: "(L(a \<mapsto> k)) a = Some k" "(L(a \<mapsto> k))(a := None) = L" using a(2) by auto
  from free_spec [OF a(3) L(1)] show ?thesis unfolding L(2) a(1) fl
    using a(4) by (auto intro: same_on_trans)
qed

lemma allocate_free_roundtrip_witness:
  "\<exists>s p s1 s2. allocate (of_nat 500) (s :: heap_state) = Some (p, s1) \<and> p \<noteq> 0 \<and> free p s1 = Some (0, s2) \<and>
     heap_rel s2 Map.empty"
proof -
  obtain s where s: "heap_rel (s :: heap_state) Map.empty" "unat (current_brk s) = heap_base + 2 ^ 15"
    using init_heap_core [OF boot_free_list] by blast
  have n: "0 < (500 :: nat)" "(500 :: nat) \<le> 32759" by simp_all
  have "unat (current_brk s) + 2 ^ 15 < 2 ^ 32" using s(2) by (simp add: heap_base_def)
  then obtain s1 a k where s1: "allocate (of_nat 500) s = Some (of_nat (a + 9), s1)" "Map.empty a = (None :: nat option)"
    "heap_rel s1 [a \<mapsto> k]" "unat (current_brk s1) \<le> unat (current_brk s) + 2 ^ 15"
    by (rule allocate_room [OF s(1) n])
  have "[a \<mapsto> k] a = Some k" by simp
  from payload_range [OF s1(3) this] have "a + 9 < 2 ^ 32" "a + 9 \<noteq> 0" by linarith+
  then have "W (a + 9) \<noteq> 0" using of_nat_u32_eq [of "a + 9" 0] by simp
  from allocate_free_roundtrip [OF s(1) n s1(1) this] s1(1) this show ?thesis by blast
qed

text \<open>
  C17: freeing a block that is on a free list (a second \<open>free\<close> of a block that kept its own
  header) is refused: \<open>free\<close> returns 1 after printing its message and changes neither memory
  nor the heap.
\<close>

theorem free_of_free_block_refused:
  assumes "heap_core (mem s) (unat (free_list s)) (unat (current_brk s)) B F {}"
    and "4 \<le> k" "k \<le> 15" "a \<in> set (F k)"
  shows "\<exists>s'. free (of_nat (a + 9)) s = Some (1, s') \<and> mem s' = mem s \<and> heap_frame s s'"
proof -
  note D = heap_coreD [OF assms(1)]
  have Ba: "B a = Some k" by (rule D(7) [OF assms(2-4)])
  have "a + 16 \<le> unat (current_brk s)" "heap_base \<le> a"
    using layout_16 [OF D(1) Ba] layoutD_block(3) [OF D(1) Ba] by simp_all
  then have "W (a + 9) \<noteq> 0"
    using of_nat_u32_eq [of "a + 9" 0] unat_u32_lt [of "current_brk s"] by simp
  moreover have "hprev (mem s) (W (a + 9) - HEADER_SIZE) \<noteq> W (a + 9) - HEADER_SIZE"
    using free_list_not_self [OF assms] by simp
  ultimately obtain s' where "free (W (a + 9)) s = Some (1, s')" "term_frame s s'"
    using free_not_self_linked [of "W (a + 9)" s] by blast
  then show ?thesis using heap_frame_term [of s s'] by (auto simp: term_frame_def)
qed

lemma free_of_free_block_refused_witness:
  "\<exists>s a s'. free (of_nat (a + 9)) (s :: heap_state) = Some (1, s')"
proof -
  obtain s where s: "heap_rel (s :: heap_state) Map.empty" "unat (current_brk s) = heap_base + 2 ^ 15"
    using init_heap_core [OF boot_free_list] by blast
  then obtain B F where C: "heap_core (mem s) (unat (free_list s)) (unat (current_brk s)) B F {}"
    "Map.empty = live_map B F" unfolding heap_rel_def by blast
  note D = heap_coreD [OF C(1)]
  obtain a k where a: "B a = Some k" using layoutD_cover [OF D(1), of heap_base] s(2) by auto
  then have "a \<in> set (F k)" using fun_cong [OF C(2), of a] by (auto simp: live_map_def split: if_splits)
  with free_of_free_block_refused [OF C(1)] layoutD_block(1,2) [OF D(1) a] show ?thesis by blast
qed

text \<open>
  Requests of 0 bytes or of more than a largest block holds are refused without any effect.
\<close>

lemma allocate_rejects:
  assumes "n = 0 \<or> 32759 < n"
  shows "allocate n s = Some (0, s)"
proof -
  have "shl1 MAX_BLOCK_SCALE - HEADER_SIZE = 32759" by (simp add: shl1_15)
  then show ?thesis using assms by (auto simp: allocate_def)
qed

lemma allocate_rejects_witness: "allocate 32760 boot = Some (0, boot)"
  by (rule allocate_rejects) simp

end
