(* ===== verification/TextProps.thy ===== *)
theory TextProps
  imports StrAlloc HeapProps
begin

section \<open>TextProps: the properties of the string library and the terminal\<close>

text \<open>
  The claims about fake_libc/string.c and the terminal of kernel/kernel.c.
  String literals are strings at no address, so the witnesses need no memory set up.
\<close>

lemma abc_nonzero: "0 \<notin> set (bytes_of ''abc'')" "0 \<notin> set (bytes_of ''abd'')"
  by (simp_all add: bytes_of_def)

text \<open>
  On two terminated strings \<open>strcmp\<close> returns; the result is 0 exactly for equal strings
  and negative exactly when the first is smaller in the lexicographic order of bytes.
\<close>

lemma strcmp_orders:
  assumes "cstr m p s" "cstr m q t"
  shows "\<exists>r. strcmp m p q = Some r \<and> (r = 0 \<longleftrightarrow> s = t) \<and> (r < 0 \<longleftrightarrow> ord_class.lexordp s t)"
  using strcmp_cstr [OF assms] str_order_eq_0 [of s t] str_order_less_0 [of s t]
    cstr_nonzero [OF assms(1)] cstr_nonzero [OF assms(2)] by simp

lemma strcmp_orders_witness:
  "\<exists>r. strcmp (\<lambda>_. 0) (lit ''abc'') (lit ''abd'') = Some r \<and> r \<noteq> 0"
  using strcmp_orders [OF cstr_lit [OF abc_nonzero(1)] cstr_lit [OF abc_nonzero(2)], of "\<lambda>_. 0"]
  by (auto simp: bytes_of_def)

text \<open>
  C31: \<open>strncmp\<close> is wrong on strings that agree in their first \<open>n\<close> characters and go on: its
  counter has wrapped when the loop ends, so it returns 1 or -1 where 0 is meant.
\<close>

theorem strncmp_equal_prefix:
  assumes "cstr m p s" "cstr m q t" "0 < n" "n < 2 ^ 32" "n < length s" "n \<le> length t" "take n s = take n t"
  shows "strncmp m p q (of_nat n) = Some 1"
proof -
  have "(of_nat n :: u32) \<noteq> 0" using assms(3,4) of_nat_u32_eq [of n 0] by simp
  then show ?thesis using strncmp_loop_wrap [OF assms(1,2) _ assms(6,7,4)] assms(5)
    by (simp add: strncmp_def)
qed

lemma strncmp_equal_prefix_witness: "strncmp (\<lambda>_. 0) (lit ''abc'') (lit ''abd'') (of_nat 2) = Some 1"
  by (rule strncmp_equal_prefix [OF cstr_lit [OF abc_nonzero(1)] cstr_lit [OF abc_nonzero(2)]])
     (simp_all add: bytes_of_def)

text \<open>
  C29: \<open>memmove\<close> copies correctly whether or not the ranges overlap: the destination gets the
  bytes the source range held before, and nothing else changes.
\<close>

theorem memmove_any_overlap:
  assumes "unat src + unat n < 2 ^ 32" "unat dest + unat n \<le> 2 ^ 32"
  shows "memmove m dest src n = wr_bytes m dest (rd_bytes m src (unat n)) \<and>
    rd_bytes (memmove m dest src n) dest (unat n) = rd_bytes m src (unat n)"
  using memmove_wr_bytes [OF assms] rd_bytes_wr_bytes [of "rd_bytes m src (unat n)" "unat n" m dest]
    unat_u32_lt [of n] by simp

lemma memmove_any_overlap_witness:
  "rd_bytes (memmove ucast 0x1002 0x1000 4) 0x1002 4 = rd_bytes (ucast :: memory) 0x1000 4"
proof -
  have "unat (0x1000 :: u32) + unat (4 :: u32) < 2 ^ 32" "unat (0x1002 :: u32) + unat (4 :: u32) \<le> 2 ^ 32"
    by simp_all
  from conjunct2 [OF memmove_any_overlap [OF this]] show ?thesis by simp
qed

text \<open>
  \<open>memset\<close> fills the range with the low byte of its argument and changes nothing else.
\<close>

lemma memset_fills:
  "memset m dest c n = wr_bytes m dest (replicate (unat n) (ucast c))"
  by (rule memset_wr_bytes)

text \<open>
  \<open>strdup\<close> of a string whose bytes are stable (a literal, kernel data or a live object)
  returns a new live object that holds an equal string, leaving all stable bytes as they
  were, or NULL with no effect when the heap is exhausted.
\<close>

lemma strdup_copies:
  assumes "heap_objects s P" "cstr (mem s) p bs" "readable (heap_stable s P) p (Suc (length bs))"
    and "length bs < 32759"
  shows "(\<exists>q c s'. strdup p s = Some (of_nat q, s') \<and> P q = None \<and> length bs < c \<and>
      heap_objects s' (P(q \<mapsto> c)) \<and> cstr (mem s') (Mem (of_nat q)) bs \<and>
      same_on (heap_stable s P) (mem s) (mem s')) \<or>
    strdup p s = Some (0, s)"
  using strdup_spec [OF assms] by blast

lemma strdup_copies_witness:
  "\<exists>s s' q. strdup (lit ''abc'') (s :: heap_state) = Some (q, s') \<and>
     (q = 0 \<or> cstr (mem s') (Mem q) (bytes_of ''abc''))"
proof -
  obtain s where "heap_rel (s :: heap_state) Map.empty" using boot_heap by blast
  then have O: "heap_objects s (payloads Map.empty)" unfolding heap_objects_def by blast
  have "readable (heap_stable s (payloads Map.empty)) (lit ''abc'') (Suc (length (bytes_of ''abc'')))"
    by (simp add: lit_def)
  from strdup_copies [OF O cstr_lit [OF abc_nonzero(1)] this] show ?thesis by auto
qed

text \<open>
  C28: a call of \<open>strtok\<close> with a literal set of delimiters on a terminated string skips the
  leading delimiters, returns the maximal run of other characters as a terminated string
  (cutting it off in place) and remembers the rest after the delimiter; without such a run
  it returns NULL. The loops end.
\<close>

theorem strtok_cuts_token:
  fixes pos :: u32
  assumes "0 \<notin> set (bytes_of t)" "cstr m (Mem a) bs" "unat a + length bs < 2 ^ 32"
    and "(if str \<noteq> 0 then str else pos) = a" "a \<noteq> 0"
  shows "let D = set (bytes_of t); v = dropWhile (\<lambda>c. c \<in> D) bs;
      w = takeWhile (\<lambda>c. c \<notin> D) v; r = dropWhile (\<lambda>c. c \<notin> D) v
    in if v = [] then strtok str (lit t) pos m = Some (0, 0, m)
       else \<exists>tok pos' m'. strtok str (lit t) pos m = Some (tok, pos', m') \<and> cstr m' (Mem tok) w \<and>
         (if r = [] then pos' = 0 \<and> m' = m else cstr m' (Mem pos') (tl r))"
proof -
  define D v where "D = set (bytes_of t)" and "v = dropWhile (\<lambda>c. c \<in> D) bs"
  define w r where "w = takeWhile (\<lambda>c. c \<notin> D) v" and "r = dropWhile (\<lambda>c. c \<notin> D) v"
  note T = strtok_spec [OF assms, folded D_def, folded v_def, folded w_def r_def]
  have "v = [] \<Longrightarrow> strtok str (lit t) pos m = Some (0, 0, m)" by (rule T(1))
  moreover have "\<exists>tok pos' m'. strtok str (lit t) pos m = Some (tok, pos', m') \<and> cstr m' (Mem tok) w \<and>
      (if r = [] then pos' = 0 \<and> m' = m else cstr m' (Mem pos') (tl r))" if v: "v \<noteq> []"
    using T(2) [OF v] T(3) [OF v] by (cases "r = []") auto
  ultimately show ?thesis unfolding Let_def D_def [symmetric] v_def [symmetric] w_def [symmetric] r_def [symmetric]
    by simp
qed

lemma strtok_cuts_token_witness:
  "\<exists>tok pos' m'. strtok 0x1000 (lit ''/'') 0 ((\<lambda>_. 0)(0x1000 := 0x61)) = Some (tok, pos', m') \<and>
     cstr m' (Mem tok) [0x61]"
proof -
  have s: "cstr ((\<lambda>_. 0)(0x1000 := 0x61)) (Mem 0x1000) [0x61]" by (simp add: cstr_Cons cstr_Nil)
  have t: "0 \<notin> set (bytes_of ''/'')" by (simp add: bytes_of_def)
  show ?thesis using strtok_cuts_token [OF t s, where str = "0x1000" and pos = 0] by (auto simp: bytes_of_def Let_def)
qed

text \<open>
  Printing a terminated string keeps the cursor on the screen, writes no cell behind the
  visible 80 by 25, and changes nothing but the screen and the cursor.
\<close>

lemma writestring_stays_on_screen:
  assumes "terminal_writestring data s = Some s'" "on_screen s"
  shows "on_screen s' \<and> cells_kept s s' \<and> term_frame s s'"
  using writestring_screen [OF assms] term_frame_writestring [OF assms(1)] by blast

definition blank :: term_state where
  "blank = \<lparr>mem = (\<lambda>_. 0), terminal_row = 24, terminal_column = 78, terminal_color = 7,
     terminal_buffer = (\<lambda>_. 0)\<rparr>"

lemma writestring_stays_on_screen_witness:
  "\<exists>s'. terminal_writestring (lit ''abc'') blank = Some s' \<and> on_screen s'"
proof -
  obtain s' where s': "terminal_writestring (lit ''abc'') blank = Some s'"
    using writestring_lit [OF abc_nonzero(1), of blank] by auto
  have "on_screen blank" by (simp add: on_screen_def blank_def)
  from writestring_stays_on_screen [OF s' this] s' show ?thesis by blast
qed

text \<open>
  C30: text without newlines lands in the cells from the cursor on, in the current colour; the
  cursor advances by the length and wraps from the last cell to the first; no other cell
  changes.
\<close>

theorem writestring_lands:
  assumes "on_screen s" "cstr (mem s) p bs" "0x0A \<notin> set bs" "length bs \<le> 2000"
  shows "\<exists>s'. terminal_writestring p s = Some s' \<and> cursor s' = (cursor s + length bs) mod 2000 \<and>
    (\<forall>i<length bs. terminal_buffer s' (of_nat ((cursor s + i) mod 2000)) = vga_entry (bs ! i) (terminal_color s)) \<and>
    (\<forall>c. (\<forall>i<length bs. c \<noteq> of_nat ((cursor s + i) mod 2000)) \<longrightarrow> terminal_buffer s' c = terminal_buffer s c)"
proof -
  have "terminal_writestring p s = Some (terminal_write_loop p (length bs) s)"
    using terminal_writestring_cstr [OF assms(2)] assms(4) by simp
  moreover note write_loop_plain [OF assms(1) rd_chars_cstr [OF assms(2)] assms(3,4)]
  ultimately show ?thesis by blast
qed

lemma writestring_lands_witness:
  "\<exists>s'. terminal_writestring (lit ''abc'') blank = Some s' \<and> cursor s' = 1"
proof -
  have b: "on_screen blank" "0x0A \<notin> set (bytes_of ''abc'')" "length (bytes_of ''abc'') \<le> 2000"
    by (simp_all add: on_screen_def blank_def bytes_of_def)
  from writestring_lands [OF b(1) cstr_lit [OF abc_nonzero(1)] b(2,3)] show ?thesis
    by (auto simp: cursor_def blank_def)
qed

end
