(* ===== verification/HeapClient.thy ===== *)
theory HeapClient
  imports HeapProps
begin

section \<open>HeapClient: what any use of the heap may rely on\<close>

text \<open>
  A client of the heap holds blocks that \<open>allocate\<close> has given it, stores bytes in them and
  gives them back with \<open>free\<close>, in any order. Beside the state of the machine stands what the
  client believes: the blocks it holds, by their pointers, and the bytes it last stored there.
\<close>

type_synonym held = "u32 \<rightharpoonup> u8 list"

inductive client_step :: "'a heap_state_scheme \<times> held \<Rightarrow> 'a heap_state_scheme \<times> held \<Rightarrow> bool" where
  take: "allocate n s = Some (p, s') \<Longrightarrow> p \<noteq> 0 \<Longrightarrow> client_step (s, H) (s', H(p \<mapsto> rd_bytes (mem s') p (unat n)))"
| refused: "allocate n s = Some (0, s') \<Longrightarrow> client_step (s, H) (s', H)"
| store: "H p = Some bs \<Longrightarrow> i < length bs \<Longrightarrow> client_step (s, H) (s\<lparr>mem := (mem s)(p + of_nat i := b)\<rparr>, H(p \<mapsto> bs[i := b]))"
| give: "H p = Some bs \<Longrightarrow> free p s = Some (r, s') \<Longrightarrow> client_step (s, H) (s', H(p := None))"

text \<open>The live objects are those held, and hold what they should.\<close>

definition beliefs :: "(nat \<rightharpoonup> nat) \<Rightarrow> memory \<Rightarrow> held \<Rightarrow> bool" where
  "beliefs P m H \<longleftrightarrow> (\<forall>q. P q \<noteq> None \<longrightarrow> q < 2 ^ 32 \<and> H (W q) \<noteq> None) \<and>
     (\<forall>p bs. H p = Some bs \<longrightarrow> (\<exists>c. P (unat p) = Some c \<and> length bs \<le> c) \<and> rd_bytes m p (length bs) = bs)"

definition client_inv :: "'a heap_state_scheme \<times> held \<Rightarrow> bool" where
  "client_inv x \<longleftrightarrow> (\<exists>P. heap_objects (fst x) P \<and> beliefs P (mem (fst x)) (snd x))"

lemma held_kept:
  fixes s :: "'a heap_state_scheme"
  assumes R: "heap_objects s P" and p: "P (unat p) = Some c" "n \<le> c" and S: "same_on {unat p..<unat p + c} (mem s) m"
  shows "rd_bytes m p n = rd_bytes (mem s) p n"
proof -
  have "unat p + n \<le> 2 ^ 32" using heap.range [OF R p(1)] p(2) by simp
  then have "rd_bytes m (W (unat p)) n = rd_bytes (mem s) (W (unat p)) n"
    by (intro rd_bytes_same_on [OF S]) (use p(2) in auto)
  then show ?thesis by simp
qed

lemma client_take:
  fixes s :: "'a heap_state_scheme"
  assumes R: "heap_objects s P" and B: "beliefs P (mem s) H" and a: "allocate n s = Some (p, s')" "p \<noteq> 0"
  shows "client_inv (s', H(p \<mapsto> rd_bytes (mem s') p (unat n)))"
proof -
  have "n \<noteq> 0 \<and> \<not> 32759 < n" using allocate_rejects [of n s] a by auto
  then have n: "0 < unat n" "unat n \<le> 32759" by (simp_all add: word_less_nat_alt unat_gt_0 not_less)
  obtain q c where q: "p = W q" "P q = None" "unat n \<le> c" "heap_objects s' (P(q \<mapsto> c))"
    "same_on (heap_stable s P) (mem s) (mem s')" using heap.alloc_ok [OF R n] a by auto
  have "q < 2 ^ 32" using heap.range [OF q(4) fun_upd_same] q(3) n(1) by linarith
  then have u: "unat p = q" using q(1) unat_of_nat_u32 by simp
  have K: "rd_bytes (mem s') r (length bs) = bs" if r: "H r = Some bs" for r bs
  proof -
    obtain d where d: "P (unat r) = Some d" "length bs \<le> d" "rd_bytes (mem s) r (length bs) = bs"
      using B r unfolding beliefs_def by blast
    from held_kept [OF R d(1,2) same_on_subset [OF q(5) heap.payload [OF R d(1)]]] d(3) show ?thesis by simp
  qed
  have "beliefs (P(q \<mapsto> c)) (mem s') (H(p \<mapsto> rd_bytes (mem s') p (unat n)))"
    unfolding beliefs_def
  proof (intro conjI allI impI)
    fix x assume "(P(q \<mapsto> c)) x \<noteq> None"
    then show "x < 2 ^ 32" "(H(p \<mapsto> rd_bytes (mem s') p (unat n))) (W x) \<noteq> None"
      using B \<open>q < 2 ^ 32\<close> q(1) unfolding beliefs_def by (auto split: if_splits)
  next
    fix r bs assume r: "(H(p \<mapsto> rd_bytes (mem s') p (unat n))) r = Some bs"
    show "\<exists>d. (P(q \<mapsto> c)) (unat r) = Some d \<and> length bs \<le> d"
    proof (cases "r = p")
      case False
      then have "H r = Some bs" using r by simp
      moreover from this obtain d where d: "P (unat r) = Some d" "length bs \<le> d" using B unfolding beliefs_def by blast
      moreover have "unat r \<noteq> q" using d(1) q(2) by auto
      ultimately show ?thesis by simp
    qed (use r q(3) u in auto)
    show "rd_bytes (mem s') r (length bs) = bs" using r K by (cases "r = p") auto
  qed
  with q(4) show ?thesis unfolding client_inv_def by auto
qed

lemma client_refused:
  fixes s :: "'a heap_state_scheme"
  assumes R: "heap_objects s P" and a: "allocate n s = Some (0, s')"
  shows "s' = s"
proof (cases "n = 0 \<or> 32759 < n")
  case False
  obtain L where L: "heap_rel s L" using R unfolding heap_objects_def by blast
  have n: "0 < unat n" "unat n + 9 \<le> 2 ^ 15" using False by (simp_all add: word_less_nat_alt unat_gt_0 not_less)
  have "W (b + 9) \<noteq> 0" if "heap_rel t (L(b \<mapsto> k))" for t :: "'a heap_state_scheme" and b k
    using payload_range(1,4) [OF that fun_upd_same] of_nat_u32_eq [of "b + 9" 0] by simp
  with allocate_spec [OF L n] a show ?thesis by auto
qed (use allocate_rejects [of n s] a in auto)

lemma client_store:
  fixes s :: "'a heap_state_scheme"
  assumes R: "heap_objects s P" and B: "beliefs P (mem s) H" and p: "H p = Some bs" "i < length bs"
  shows "client_inv (s\<lparr>mem := (mem s)(p + of_nat i := b)\<rparr>, H(p \<mapsto> bs[i := b]))"
proof -
  obtain c where c: "P (unat p) = Some c" "length bs \<le> c" and rd: "rd_bytes (mem s) p (length bs) = bs"
    using B p(1) unfolding beliefs_def by blast
  let ?m = "(mem s)(p + of_nat i := b)"
  have r: "unat p + c \<le> 2 ^ 32" using heap.range [OF R c(1)] by simp
  have a: "p + of_nat i = W (unat p + i)" "unat p + i < 2 ^ 32" using r c(2) p(2) by simp_all
  have S: "same_on A (mem s) ?m" if "unat p + i \<notin> A" for A unfolding a(1) by (rule same_on_upd [OF a(2) that])
  have "unat p + i \<in> heap_stable s P" using heap.payload [OF R c(1)] c(2) p(2) by auto
  then have R': "heap_objects (s\<lparr>mem := ?m\<rparr>) P" by (intro heap.rel_put [OF R] S) simp
  have own: "rd_bytes ?m p (length bs) = bs[i := b]"
  proof (rule nth_equalityI)
    fix j assume "j < length (rd_bytes ?m p (length bs))"
    then have j: "j < length bs" by simp
    have "p + of_nat j = p + of_nat i \<longleftrightarrow> j = i" using r c(2) p(2) j by (simp add: of_nat_u32_eq)
    then show "rd_bytes ?m p (length bs) ! j = bs[i := b] ! j"
      using j arg_cong [OF rd, of "\<lambda>xs. xs ! j"] by (auto simp: nth_list_update)
  qed simp
  have other: "rd_bytes ?m q (length cs) = cs" if q: "H q = Some cs" "q \<noteq> p" for q cs
  proof -
    obtain d where d: "P (unat q) = Some d" "length cs \<le> d" "rd_bytes (mem s) q (length cs) = cs"
      using B q(1) unfolding beliefs_def by blast
    have "{unat q..<unat q + d} \<inter> {unat p..<unat p + c} = {}"
      by (rule heap.objects_apart [OF R d(1) c(1)]) (use q(2) in \<open>simp add: word_unat_eq_iff\<close>)
    moreover have "unat p + i \<in> {unat p..<unat p + c}" using c(2) p(2) by simp
    ultimately have "same_on {unat q..<unat q + d} (mem s) ?m" by (intro S) blast
    from held_kept [OF R d(1,2) this] d(3) show ?thesis by simp
  qed
  have "beliefs P ?m (H(p \<mapsto> bs[i := b]))"
    using B c own other unfolding beliefs_def by (auto split: if_splits)
  with R' show ?thesis unfolding client_inv_def by auto
qed

lemma client_give:
  fixes s :: "'a heap_state_scheme"
  assumes R: "heap_objects s P" and B: "beliefs P (mem s) H" and p: "H p = Some bs"
  obtains s' where "free p s = Some (0, s')" "client_inv (s', H(p := None))"
proof -
  obtain c where c: "P (unat p) = Some c" using B p unfolding beliefs_def by blast
  obtain s' where f: "free (W (unat p)) s = Some (0, s')" "heap_objects s' (P(unat p := None))"
    "same_on (heap_stable s (P(unat p := None))) (mem s) (mem s')" using heap.dealloc_ok [OF R c] by blast
  have K: "(\<exists>d. P (unat q) = Some d \<and> length cs \<le> d) \<and> unat q \<noteq> unat p \<and> rd_bytes (mem s') q (length cs) = cs"
    if q: "H q = Some cs" "q \<noteq> p" for q cs
  proof -
    obtain d where d: "P (unat q) = Some d" "length cs \<le> d" "rd_bytes (mem s) q (length cs) = cs"
      using B q(1) unfolding beliefs_def by blast
    have ne: "unat q \<noteq> unat p" using q(2) by (simp add: word_unat_eq_iff)
    then have "{unat q..<unat q + d} \<subseteq> heap_stable s (P(unat p := None))" using d(1) by (auto simp: heap_stable_def)
    from held_kept [OF R d(1,2) same_on_subset [OF f(3) this]] d ne show ?thesis by simp
  qed
  have "x < 2 ^ 32 \<and> (H(p := None)) (W x) \<noteq> None" if "(P(unat p := None)) x \<noteq> None" for x
  proof -
    have x: "x < 2 ^ 32" "H (W x) \<noteq> None" "x \<noteq> unat p" using B that unfolding beliefs_def by (auto split: if_splits)
    then have "W x \<noteq> p" using unat_of_nat_u32 [OF x(1)] by auto
    with x show ?thesis by simp
  qed
  then have "beliefs (P(unat p := None)) (mem s') (H(p := None))"
    using K unfolding beliefs_def by (auto split: if_splits)
  with f(1,2) show thesis by (intro that [of s']) (auto simp: client_inv_def)
qed

interpretation client: invariant_steps client_step client_inv
proof
  fix x y :: "'a heap_state_scheme \<times> held" assume st: "client_step x y" and "client_inv x"
  then obtain P where P: "heap_objects (fst x) P" "beliefs P (mem (fst x)) (snd x)" by (auto simp: client_inv_def)
  from st show "client_inv y"
  proof cases
    case (take n s p s' H)
    then show ?thesis using client_take P by auto
  next
    case (refused n s s' H)
    then show ?thesis using client_refused [of s P n s'] P by (auto simp: client_inv_def)
  next
    case (store H p bs i s b)
    then show ?thesis using client_store P by auto
  next
    case (give H p bs s r s')
    have h: "heap_objects s P" "beliefs P (mem s) H" using give(1) P by simp_all
    show ?thesis by (rule client_give [OF h give(3)]) (use give in simp)
  qed
qed

subsection \<open>A heap without live blocks\<close>

lemma allocate_in_place:
  fixes s :: "'a heap_state_scheme"
  assumes C: "heap_core (mem s) (unat (free_list s)) (unat (current_brk s)) B F {}" and a: "a \<in> set (F 15)"
    and n: "0 < n" "n + 9 \<le> 2 ^ 15" and r: "allocate (W n) s = Some (p, s')"
  shows "p \<noteq> 0" "current_brk s' = current_brk s"
proof -
  note D = heap_coreD [OF C]
  obtain k where k: "4 \<le> k" "k \<le> 15" and eq: "\<And>s :: 'a heap_state_scheme. allocate (W n) s =
      (let (block, m) = blkmngr_find_fit (free_list s) (of_nat k) (mem s)
       in if block \<noteq> 0
          then do {
            m \<leftarrow> split_loop (free_list s) block (W k) m;
            Some (block + HEADER_SIZE, s\<lparr>mem := m\<rparr>) }
          else do {
            (ret, s) \<leftarrow> sbrk 1 (s\<lparr>mem := m\<rparr>);
            if ret = - 1 then Some (0, s)
            else let (block, m) = blkmngr_find_fit (free_list s) (of_nat k) (mem s)
                 in Some (block + HEADER_SIZE, s\<lparr>mem := m\<rparr>) })"
    using allocate_body [OF n] by blast
  have "F 15 \<noteq> []" using a by auto
  with core_find_fit [OF C k] k obtain j b m where f: "k \<le> j" "j \<le> 15" "b \<in> set (F j)"
    "blkmngr_find_fit (free_list s) (of_nat k) (mem s) = (W b, m)" by fastforce
  have "B b = Some j" using D(7) [OF _ f(2,3)] f(1) k(1) by simp
  note blk = layoutD_block [OF D(1) this] and brk = layoutD_brk(3) [OF D(1)]
  have b: "0 < b" "b + 16 \<le> unat (current_brk s)"
    using blk(3,5) power_increasing [of 4 j "2 :: nat"] blk(1) by (simp_all add: heap_base_def)
  then have b0: "(W b :: u32) \<noteq> 0" "(W b :: u32) + HEADER_SIZE \<noteq> 0"
    using brk of_nat_u32_eq [of b 0] of_nat_u32_eq [of "b + 9" 0] by simp_all
  obtain m' where "p = W b + HEADER_SIZE" "s' = s\<lparr>mem := m'\<rparr>"
    using r unfolding eq f(4) by (auto simp: b0(1) split: Option.bind_splits)
  then show "p \<noteq> 0" "current_brk s' = current_brk s" using b0(2) by simp_all
qed

lemma all_free:
  assumes R: "heap_rel s Map.empty"
  shows "\<exists>B F. heap_core (mem s) (unat (free_list s)) (unat (current_brk s)) B F {} \<and>
    (\<forall>b k. B b = Some k \<longrightarrow> k = 15 \<and> b \<in> set (F 15)) \<and>
    (\<forall>b. heap_base \<le> b \<and> b + 2 ^ 15 \<le> unat (current_brk s) \<and> 2 ^ 15 dvd b \<longrightarrow> b \<in> set (F 15))"
proof -
  obtain B F where C: "heap_core (mem s) (unat (free_list s)) (unat (current_brk s)) B F {}" "coalesced F"
    "live_map B F = Map.empty" using R unfolding heap_rel_def by metis
  have k: "k = 15 \<and> b \<in> set (F 15)" if "B b = Some k" for b k
    using coalesced_empty [OF C that] fun_cong [OF C(3), of b] that by (simp add: live_map_def split: if_splits)
  have "B b = Some 15" if b: "heap_base \<le> b" "b + 2 ^ 15 \<le> unat (current_brk s)" "2 ^ 15 dvd b" for b
  proof -
    note D = heap_coreD(1) [OF C(1)]
    obtain a j where a: "B a = Some j" "a \<le> b" "b < a + 2 ^ j" using layoutD_cover [OF D b(1)] b(2) by auto
    have "j = 15" "2 ^ 15 dvd a" using k [OF a(1)] layoutD_block(4) [OF D a(1)] by simp_all
    then have "a = b" using a(2,3) b(3) dvd_less_add [of 15 a b] by (cases "a = b") auto
    with a(1) \<open>j = 15\<close> show ?thesis by simp
  qed
  with k C(1) show ?thesis by blast
qed

subsection \<open>The properties\<close>

lemma client_start:
  fixes s0 :: "'a heap_state_scheme"
  assumes "unat (free_list s0) + 128 \<le> heap_base" "init_heap HEAP_LOWER_BOUND s0 = Some s1"
  shows "client_inv (s1, Map.empty)"
proof -
  have "heap_rel s1 Map.empty" using init_heap_core [OF assms(1)] assms(2) by auto
  moreover have "payloads Map.empty = Map.empty" by (simp add: payloads_def fun_eq_iff)
  ultimately have "heap_objects s1 Map.empty" unfolding heap_objects_def by metis
  then show ?thesis unfolding client_inv_def by (intro exI [of _ Map.empty]) (simp add: beliefs_def)
qed

lemma object_in_heap:
  assumes "heap_objects s P" "P p = Some c"
  shows "heap_base \<le> p" "p + c \<le> unat (current_brk s)"
proof -
  obtain L a k where L: "heap_rel s L" "p = a + 9" "L a = Some k" "c = 2 ^ k - 9"
    using assms unfolding heap_objects_def by (auto simp: payloads_Some)
  show "heap_base \<le> p" "p + c \<le> unat (current_brk s)"
    using heap_rel_block(3,5) [OF L(1,3)] payload_range(2) [OF L(1,3)] L(2,4) by simp_all
qed

text \<open>
  C15: The contract of the heap with any client. From the initialised heap, whatever blocks a
  client takes, fills and gives back, in any order: each block that it holds still has the bytes
  stored there last, lies between the lower bound and the break, overlaps no other block that
  it holds, and can be given back, with result 0.
\<close>

theorem held_blocks_intact:
  fixes s0 s1 s :: "'a heap_state_scheme"
  assumes "unat (free_list s0) + 128 \<le> heap_base" "init_heap HEAP_LOWER_BOUND s0 = Some s1"
    and "client_step\<^sup>*\<^sup>* (s1, Map.empty) (s, H)" "H p = Some bs"
  shows "rd_bytes (mem s) p (length bs) = bs \<and> heap_base \<le> unat p \<and> unat p + length bs \<le> unat (current_brk s) \<and>
    (\<forall>q cs. H q = Some cs \<longrightarrow> q \<noteq> p \<longrightarrow> {unat p..<unat p + length bs} \<inter> {unat q..<unat q + length cs} = {}) \<and>
    (\<exists>s'. free p s = Some (0, s'))"
proof -
  have "client_inv (s, H)" by (rule client.reaches [OF assms(3) client_start [OF assms(1,2)]])
  then obtain P where P: "heap_objects s P" and B: "beliefs P (mem s) H" by (auto simp: client_inv_def)
  have h: "\<exists>d. P (unat q) = Some d \<and> length cs \<le> d" if "H q = Some cs" for q cs using B that unfolding beliefs_def by blast
  obtain c where c: "P (unat p) = Some c" "length bs \<le> c" using h [OF assms(4)] by blast
  have "{unat p..<unat p + length bs} \<inter> {unat q..<unat q + length cs} = {}" if q: "H q = Some cs" "q \<noteq> p" for q cs
  proof -
    obtain d where d: "P (unat q) = Some d" "length cs \<le> d" using h [OF q(1)] by blast
    have "{unat p..<unat p + c} \<inter> {unat q..<unat q + d} = {}"
      by (rule heap.objects_apart [OF P c(1) d(1)]) (use q(2) in \<open>simp add: word_unat_eq_iff\<close>)
    then show ?thesis using c(2) d(2) by auto
  qed
  moreover obtain s' where "free p s = Some (0, s')" by (rule client_give [OF P B assms(4)])
  moreover have "rd_bytes (mem s) p (length bs) = bs" using B assms(4) unfolding beliefs_def by blast
  ultimately show ?thesis using object_in_heap [OF P c(1)] c(2) by auto
qed

text \<open>Two blocks are taken and a byte is stored in the first.\<close>

lemma held_blocks_intact_witness:
  "\<exists>(s1 :: heap_state) p s2 q s3. init_heap HEAP_LOWER_BOUND boot = Some s1 \<and> allocate 3 s1 = Some (p, s2) \<and>
     allocate 500 s2 = Some (q, s3) \<and> p \<noteq> 0 \<and> q \<noteq> 0 \<and> p \<noteq> q \<and> (mem (s3\<lparr>mem := (mem s3)(p := 7)\<rparr>)) p = 7 \<and>
     (\<exists>s4. free p (s3\<lparr>mem := (mem s3)(p := 7)\<rparr>) = Some (0, s4))"
proof -
  obtain s1 where i: "init_heap HEAP_LOWER_BOUND boot = Some s1" "heap_rel (s1 :: heap_state) Map.empty"
    "unat (current_brk s1) = heap_base + 2 ^ 15" using init_heap_core [OF boot_free_list] by blast
  have n: "0 < (3 :: nat)" "(3 :: nat) \<le> 32759" "0 < (500 :: nat)" "(500 :: nat) \<le> 32759" by simp_all
  have "unat (current_brk s1) + 2 ^ 15 < 2 ^ 32" using i(3) by (simp add: heap_base_def)
  then obtain s2 a k where a: "allocate (of_nat 3) s1 = Some (of_nat (a + 9), s2)"
    "heap_rel s2 [a \<mapsto> k]" "unat (current_brk s2) \<le> unat (current_brk s1) + 2 ^ 15" by (rule allocate_room [OF i(2) n(1,2)])
  have "unat (current_brk s2) + 2 ^ 15 < 2 ^ 32" using i(3) a(3) by (simp add: heap_base_def)
  then obtain s3 b j where b: "allocate (of_nat 500) s2 = Some (of_nat (b + 9), s3)" "[a \<mapsto> k] b = None"
    "heap_rel s3 ([a \<mapsto> k](b \<mapsto> j))" by (rule allocate_room [OF a(2) n(3,4)])
  let ?p = "W (a + 9) :: u32" and ?q = "W (b + 9) :: u32"
  have ab: "b \<noteq> a" using b(2) by auto
  have r: "a + 9 < 2 ^ 32" "0 < a" "b + 9 < 2 ^ 32" "0 < b"
    using payload_range [OF b(3), of a k] payload_range [OF b(3), of b j] ab by auto
  then have ne: "?p \<noteq> 0" "?q \<noteq> 0" "?p \<noteq> ?q"
    using of_nat_u32_eq [of "a + 9" 0] of_nat_u32_eq [of "b + 9" 0] of_nat_u32_eq [of "a + 9" "b + 9"] ab by simp_all
  let ?H1 = "[?p \<mapsto> rd_bytes (mem s2) ?p (unat (W 3 :: u32))]"
  let ?H2 = "?H1(?q \<mapsto> rd_bytes (mem s3) ?q (unat (W 500 :: u32)))"
  let ?xs = "rd_bytes (mem s2) ?p 3"
  have H: "?H2 ?p = Some ?xs" using ne(3) by simp
  have "client_step (s1, Map.empty) (s2, ?H1)" by (rule client_step.take [OF a(1) ne(1)])
  moreover have "client_step (s2, ?H1) (s3, ?H2)" by (rule client_step.take [OF b(1) ne(2)])
  moreover have "client_step (s3, ?H2) (s3\<lparr>mem := (mem s3)(?p + of_nat 0 := 7)\<rparr>, ?H2(?p \<mapsto> ?xs[0 := 7]))"
    by (rule client_step.store [where H = ?H2, OF H]) simp
  ultimately have "client_step\<^sup>*\<^sup>* (s1, Map.empty) (s3\<lparr>mem := (mem s3)(?p + of_nat 0 := 7)\<rparr>, ?H2(?p \<mapsto> ?xs[0 := 7]))"
    by (meson r_into_rtranclp rtranclp_trans)
  from held_blocks_intact [OF boot_free_list i(1) this fun_upd_same]
  have "\<exists>s4. free ?p (s3\<lparr>mem := (mem s3)(?p := 7)\<rparr>) = Some (0, s4)" by simp
  with i(1) a(1) b(1) ne show ?thesis
    by (intro exI [of _ s1] exI [of _ ?p] exI [of _ s2] exI [of _ ?q] exI [of _ s3]) simp
qed

text \<open>
  C16: Nothing is lost by fragmentation. From the initialised heap, once a client has given back
  every block it took, whatever it took and in whatever order it gave the blocks back, the heap
  from the lower bound to the break consists of free blocks of the largest scale; the next
  request, of any size that can be served at all, is served, and the break moves only if it
  is back at the lower bound.
\<close>

theorem no_fragmentation:
  fixes s0 s1 s :: "'a heap_state_scheme"
  assumes "unat (free_list s0) + 128 \<le> heap_base" "init_heap HEAP_LOWER_BOUND s0 = Some s1"
    and "client_step\<^sup>*\<^sup>* (s1, Map.empty) (s, Map.empty)"
  shows "(\<exists>B F. heap_core (mem s) (unat (free_list s)) (unat (current_brk s)) B F {} \<and>
      (\<forall>b k. B b = Some k \<longrightarrow> k = 15 \<and> b \<in> set (F 15)) \<and>
      (\<forall>b. heap_base \<le> b \<and> b + 2 ^ 15 \<le> unat (current_brk s) \<and> 2 ^ 15 dvd b \<longrightarrow> b \<in> set (F 15))) \<and>
    (\<forall>n. 0 < n \<and> n \<le> 32759 \<longrightarrow> (\<exists>p s'. allocate (of_nat n) s = Some (p, s') \<and> p \<noteq> 0 \<and>
      (current_brk s = HEAP_LOWER_BOUND \<or> current_brk s' = current_brk s)))"
proof -
  have "client_inv (s, Map.empty)" by (rule client.reaches [OF assms(3) client_start [OF assms(1,2)]])
  then obtain P where P: "heap_objects s P" "\<forall>q. P q = None" by (auto simp: client_inv_def beliefs_def)
  obtain L where L: "heap_rel s L" "P = payloads L" using P(1) unfolding heap_objects_def by blast
  have "L a = None" for a using P(2) [rule_format, of "a + 9"] by (simp add: L(2) payloads_def)
  then have R: "heap_rel s Map.empty" using L(1) by (metis ext)
  obtain B F where C: "heap_core (mem s) (unat (free_list s)) (unat (current_brk s)) B F {}"
    "\<forall>b k. B b = Some k \<longrightarrow> k = 15 \<and> b \<in> set (F 15)"
    "\<forall>b. heap_base \<le> b \<and> b + 2 ^ 15 \<le> unat (current_brk s) \<and> 2 ^ 15 dvd b \<longrightarrow> b \<in> set (F 15)"
    using all_free [OF R] by blast
  note brk = heap_rel_brk(1,2) [OF R]
  have serve: "\<exists>p s'. allocate (W n) s = Some (p, s') \<and> p \<noteq> 0 \<and> (current_brk s = HEAP_LOWER_BOUND \<or> current_brk s' = current_brk s)"
    if n: "0 < n" "n \<le> 32759" for n
  proof (cases "current_brk s = HEAP_LOWER_BOUND")
    case True
    then have "unat (current_brk s) + 2 ^ 15 < 2 ^ 32" by simp
    from allocate_room [OF R n this] obtain s' a k where a: "allocate (W n) s = Some (W (a + 9), s')" "heap_rel s' [a \<mapsto> k]" by metis
    have "W (a + 9) \<noteq> (0 :: u32)"
      using payload_range(1,3,4) [OF a(2), of a k] of_nat_u32_eq [of "a + 9" 0] by simp
    with a(1) True show ?thesis by blast
  next
    case False
    then have "unat (current_brk s) \<noteq> heap_base" by (simp add: heap_base_def word_unat_eq_iff)
    moreover have d: "2 ^ 15 dvd heap_base" by (simp add: heap_base_def)
    ultimately have "heap_base + 2 ^ 15 \<le> unat (current_brk s)" using brk dvd_less_add [of 15 heap_base "unat (current_brk s)"] by simp
    with C(3) d have f: "heap_base \<in> set (F 15)" by blast
    have n9: "n + 9 \<le> 2 ^ 15" using n(2) by simp
    from allocate_spec [OF R n(1) n9] obtain p s' where a: "allocate (W n) s = Some (p, s')" by blast
    from allocate_in_place [OF C(1) f n(1) n9 this] a show ?thesis by blast
  qed
  show ?thesis using C serve by blast
qed

text \<open>A block is taken and given back.\<close>

lemma no_fragmentation_witness:
  "\<exists>(s1 :: heap_state) p s2 s3 q s4. init_heap HEAP_LOWER_BOUND boot = Some s1 \<and> allocate 500 s1 = Some (p, s2) \<and> p \<noteq> 0 \<and>
     free p s2 = Some (0, s3) \<and> allocate 32759 s3 = Some (q, s4) \<and> q \<noteq> 0"
proof -
  obtain s1 where i: "init_heap HEAP_LOWER_BOUND boot = Some s1" "heap_rel (s1 :: heap_state) Map.empty"
    "unat (current_brk s1) = heap_base + 2 ^ 15" using init_heap_core [OF boot_free_list] by blast
  have n: "0 < (500 :: nat)" "(500 :: nat) \<le> 32759" by simp_all
  have "unat (current_brk s1) + 2 ^ 15 < 2 ^ 32" using i(3) by (simp add: heap_base_def)
  then obtain s2 a k where a: "allocate (of_nat 500) s1 = Some (of_nat (a + 9), s2)" "heap_rel s2 [a \<mapsto> k]"
    by (rule allocate_room [OF i(2) n])
  let ?p = "W (a + 9) :: u32"
  have p: "?p \<noteq> 0" using payload_range(1,3,4) [OF a(2), of a k] of_nat_u32_eq [of "a + 9" 0] by simp
  have up: "[a \<mapsto> k] a = Some k" by simp
  obtain s3 where f: "free ?p s2 = Some (0, s3)" using free_spec [OF a(2) up] by blast
  let ?H = "[?p \<mapsto> rd_bytes (mem s2) ?p (unat (W 500 :: u32))]"
  have st: "client_step (s1, Map.empty) (s2, ?H)" by (rule client_step.take [OF a(1) p])
  have "client_step (s2, ?H) (s3, ?H(?p := None))" by (rule client_step.give [OF _ f]) simp
  moreover have "?H(?p := None) = Map.empty" by simp
  ultimately have "client_step (s2, ?H) (s3, Map.empty)" by (simp only:)
  then have "client_step\<^sup>*\<^sup>* (s1, Map.empty) (s3, Map.empty)"
    by (rule rtranclp.rtrancl_into_rtrancl [OF r_into_rtranclp [of client_step, OF st]])
  note served = conjunct2 [OF no_fragmentation [OF boot_free_list i(1) this]]
  have "0 < (32759 :: nat) \<and> (32759 :: nat) \<le> 32759" by simp
  with served obtain q s4 where q: "allocate (of_nat 32759) s3 = Some (q, s4)" "q \<noteq> 0" by blast
  from q(1) have "allocate 32759 s3 = Some (q, s4)" by (simp only: of_nat_numeral)
  moreover have "allocate 500 s1 = Some (?p, s2)" using a(1) by (simp only: of_nat_numeral)
  ultimately show ?thesis using i(1) p f q(2) by blast
qed

end
