(* ===== verification/Process.thy ===== *)
theory Process
  imports StrAlloc
begin

section \<open>Process: the process table and the scheduler (process/process.c, context_switch.S)\<close>

text \<open>
  The process table is a static array of eight \<open>process_struct\<close>s; a pointer to
  one is its index, and the null pointer is \<open>None\<close>: accesses through it go to the
  field's offset in low memory, as on this machine, which has no page protection.
  \<open>context_switch\<close> is assembly: it works on the CPU's registers, which the state
  holds as they are at its entry (the stack pointer at the return address).
\<close>

subsection \<open>Data\<close>

datatype process_status = STOPPED | ACTIVE | WAITING | SPAWNED

fun status_code :: "process_status \<Rightarrow> u32" where
  "status_code STOPPED = 0"
| "status_code ACTIVE = 1"
| "status_code WAITING = 2"
| "status_code SPAWNED = 3"

record context_struct =
  ctx_ESP :: u32
  stack_top :: u32
  stack_bottom :: u32

record process_struct =
  proc_context :: context_struct
  proc_PID :: u32
  status :: process_status
  entry_point :: u32
  wait_time :: u32

record cpu =
  eax :: u32
  ecx :: u32
  edx :: u32
  ebx :: u32
  esp :: u32
  ebp :: u32
  esi :: u32
  edi :: u32
  eflags :: u32
  eip :: u32

abbreviation "MAX_PROCESS \<equiv> 8 :: nat"
abbreviation "MAX_PID \<equiv> 0xB10B :: u32"

text \<open>The last two fields are the link-time addresses that \<open>init_process\<close> stores.\<close>

record proc_state = heap_state +
  proc_table :: "process_struct list"
  active_pid :: u32
  next_pid :: u32
  regs :: cpu
  kill_process_addr :: u32
  switch_from_queue_addr :: u32

subsection \<open>Fields through a pointer that may be null\<close>

definition upd_slot ::
  "nat \<Rightarrow> (process_struct \<Rightarrow> process_struct) \<Rightarrow> 'a proc_state_scheme \<Rightarrow> 'a proc_state_scheme" where
  "upd_slot i f s = s\<lparr>proc_table := (proc_table s)[i := f (proc_table s ! i)]\<rparr>"

definition get_pid :: "nat option \<Rightarrow> 'a proc_state_scheme \<Rightarrow> u32" where
  "get_pid p s = (case p of None \<Rightarrow> rd32 (mem s) 12 | Some i \<Rightarrow> proc_PID (proc_table s ! i))"

definition get_wait :: "nat option \<Rightarrow> 'a proc_state_scheme \<Rightarrow> u32" where
  "get_wait p s = (case p of None \<Rightarrow> rd32 (mem s) 24 | Some i \<Rightarrow> wait_time (proc_table s ! i))"

definition set_wait :: "nat option \<Rightarrow> u32 \<Rightarrow> 'a proc_state_scheme \<Rightarrow> 'a proc_state_scheme" where
  "set_wait p w s = (case p of None \<Rightarrow> s\<lparr>mem := wr32 (mem s) 24 w\<rparr>
     | Some i \<Rightarrow> upd_slot i (\<lambda>pr. pr\<lparr>wait_time := w\<rparr>) s)"

definition is_active :: "nat option \<Rightarrow> 'a proc_state_scheme \<Rightarrow> bool" where
  "is_active p s = (case p of None \<Rightarrow> rd32 (mem s) 16 = status_code ACTIVE
     | Some i \<Rightarrow> status (proc_table s ! i) = ACTIVE)"

definition set_status ::
  "nat option \<Rightarrow> process_status \<Rightarrow> 'a proc_state_scheme \<Rightarrow> 'a proc_state_scheme" where
  "set_status p st s = (case p of None \<Rightarrow> s\<lparr>mem := wr32 (mem s) 16 (status_code st)\<rparr>
     | Some i \<Rightarrow> upd_slot i (\<lambda>pr. pr\<lparr>status := st\<rparr>) s)"

definition get_ESP :: "nat option \<Rightarrow> 'a proc_state_scheme \<Rightarrow> u32" where
  "get_ESP p s = (case p of None \<Rightarrow> rd32 (mem s) 0 | Some i \<Rightarrow> ctx_ESP (proc_context (proc_table s ! i)))"

definition set_ESP :: "nat option \<Rightarrow> u32 \<Rightarrow> 'a proc_state_scheme \<Rightarrow> 'a proc_state_scheme" where
  "set_ESP p v s = (case p of None \<Rightarrow> s\<lparr>mem := wr32 (mem s) 0 v\<rparr>
     | Some i \<Rightarrow> upd_slot i (\<lambda>pr. pr\<lparr>proc_context := (proc_context pr)\<lparr>ctx_ESP := v\<rparr>\<rparr>) s)"

text \<open>All fields of a slot at once, in the order \<open>init_process\<close> sets them up.\<close>

definition set_process ::
  "nat option \<Rightarrow> process_struct \<Rightarrow> 'a proc_state_scheme \<Rightarrow> 'a proc_state_scheme" where
  "set_process p pr s = (case p of
       None \<Rightarrow>
         (let c = proc_context pr;
              m = wr32 (wr32 (wr32 (mem s) 0 (ctx_ESP c)) 4 (stack_top c)) 8 (stack_bottom c);
              m = wr32 (wr32 m 12 (proc_PID pr)) 16 (status_code (status pr));
              m = wr32 (wr32 m 20 (entry_point pr)) 24 (wait_time pr)
          in s\<lparr>mem := m\<rparr>)
     | Some i \<Rightarrow> upd_slot i (\<lambda>_. pr) s)"

subsection \<open>The process table\<close>

definition reserve_proc_table_slot :: "'a proc_state_scheme \<Rightarrow> nat option" where
  "reserve_proc_table_slot s = find (\<lambda>i. status (proc_table s ! i) = STOPPED) [0..<MAX_PROCESS]"

definition get_process :: "u32 \<Rightarrow> 'a proc_state_scheme \<Rightarrow> nat option" where
  "get_process PID s = find (\<lambda>i. proc_PID (proc_table s ! i) = PID \<and>
     status (proc_table s ! i) \<noteq> STOPPED) [0..<MAX_PROCESS]"

partial_function (option) get_next_PID ::
  "'a proc_state_scheme \<Rightarrow> (u32 \<times> 'a proc_state_scheme) option" where
  "get_next_PID s =
     (let s = s\<lparr>next_pid := next_pid s + 1\<rparr>;
          s = (if next_pid s > MAX_PID then s\<lparr>next_pid := 1\<rparr> else s)
      in if get_process (next_pid s) s \<noteq> None then get_next_PID s
         else Some (next_pid s, s))"

definition kill_process :: "u32 \<Rightarrow> 'a proc_state_scheme \<Rightarrow> 'a proc_state_scheme option" where
  "kill_process PID s =
     (case get_process PID s of
        None \<Rightarrow> Some s
      | Some i \<Rightarrow> do {
          let s = set_status (Some i) STOPPED s;
          let stack = stack_bottom (proc_context (proc_table s ! i));
          (_, s) \<leftarrow> free stack s;
          Some s })"

text \<open>The words that \<open>init_process\<close> stores from \<open>stack_top\<close> downwards.\<close>

fun write_down :: "memory \<Rightarrow> u32 \<Rightarrow> u32 list \<Rightarrow> memory" where
  "write_down m a [] = m"
| "write_down m a (w # ws) = write_down (wr32 m a w) (a - 4) ws"

definition init_stack_words :: "u32 \<Rightarrow> u32 \<Rightarrow> u32 \<Rightarrow> u32 \<Rightarrow> u32 \<Rightarrow> u32 list" where
  "init_stack_words PID sfq kill entry tos =
     [PID, sfq, kill, entry, tos - 0xC, 0xAAAA, 0xCCCC, 0xDDDD, 0xBBBB,
      tos - 0x10, tos - 0x10, 0x0E51, 0x0ED1, 0x0202]"

definition init_process ::
  "u32 \<Rightarrow> u32 \<Rightarrow> 'a proc_state_scheme \<Rightarrow> (u32 \<times> 'a proc_state_scheme) option" where
  "init_process entry bottom s =
     do {
       (PID, s) \<leftarrow> get_next_PID s;
       let proc = reserve_proc_table_slot s;
       s \<leftarrow> (if proc = None then terminal_writestring (lit ''CANNOT RESERVE PROCESS'') s else Some s);
       let blk = bottom - HEADER_SIZE;
       let tos = blk + shl1 (scale (mem s) blk) - 4;
       let m = write_down (mem s) tos
         (init_stack_words PID (switch_from_queue_addr s) (kill_process_addr s) entry tos);
       let s = s\<lparr>mem := m\<rparr>;
       let cntx = \<lparr>ctx_ESP = tos - 4 * 0xD, stack_top = tos, stack_bottom = bottom\<rparr>;
       let s = set_process proc \<lparr>proc_context = cntx, proc_PID = PID, status = SPAWNED,
         entry_point = entry, wait_time = 0\<rparr> s;
       Some (PID, s) }"

subsection \<open>The context switch\<close>

definition push :: "u32 \<Rightarrow> cpu \<times> memory \<Rightarrow> cpu \<times> memory" where
  "push v = (\<lambda>(c, m). (c\<lparr>esp := esp c - 4\<rparr>, wr32 m (esp c - 4) v))"

definition pop :: "(u32 \<Rightarrow> cpu \<Rightarrow> cpu) \<Rightarrow> memory \<Rightarrow> cpu \<Rightarrow> cpu" where
  "pop load m c = load (rd32 m (esp c)) (c\<lparr>esp := esp c + 4\<rparr>)"

definition pushal :: "cpu \<times> memory \<Rightarrow> cpu \<times> memory" where
  "pushal = (\<lambda>(c, m). fold push [eax c, ecx c, edx c, ebx c, esp c, ebp c, esi c, edi c] (c, m))"

text \<open>\<open>popal\<close> discards the saved stack pointer.\<close>

definition popal :: "memory \<Rightarrow> cpu \<Rightarrow> cpu" where
  "popal m c =
     pop (\<lambda>v c. c\<lparr>eax := v\<rparr>) m (pop (\<lambda>v c. c\<lparr>ecx := v\<rparr>) m (pop (\<lambda>v c. c\<lparr>edx := v\<rparr>) m
     (pop (\<lambda>v c. c\<lparr>ebx := v\<rparr>) m (pop (\<lambda>v c. c) m (pop (\<lambda>v c. c\<lparr>ebp := v\<rparr>) m
     (pop (\<lambda>v c. c\<lparr>esi := v\<rparr>) m (pop (\<lambda>v c. c\<lparr>edi := v\<rparr>) m c)))))))"

definition save_context :: "cpu \<times> memory \<Rightarrow> cpu \<times> memory" where
  "save_context cm =
     (let (c, m) = push (ebp (fst cm)) cm;
          c = c\<lparr>ebp := esp c\<rparr>;
          (c, m) = pushal (c, m)
      in push (eflags c) (c, m))"

definition restore_context :: "u32 \<Rightarrow> memory \<Rightarrow> cpu \<Rightarrow> cpu" where
  "restore_context sp m c =
     (let c = c\<lparr>esp := sp\<rparr>;
          c = pop (\<lambda>v c. c\<lparr>eflags := v\<rparr>) m c;
          c = popal m c;
          c = pop (\<lambda>v c. c\<lparr>ebp := v\<rparr>) m (c\<lparr>esp := ebp c\<rparr>)
      in pop (\<lambda>v c. c\<lparr>eip := v\<rparr>) m c)"

definition context_switch ::
  "nat option \<Rightarrow> nat option \<Rightarrow> 'a proc_state_scheme \<Rightarrow> 'a proc_state_scheme" where
  "context_switch current nxt s =
     (let (c, m) = save_context (regs s, mem s);
          s = set_ESP current (esp c) (s\<lparr>mem := m\<rparr>)
      in s\<lparr>regs := restore_context (get_ESP nxt s) (mem s) c\<rparr>)"

subsection \<open>The scheduler\<close>

definition switch_process :: "u32 \<Rightarrow> 'a proc_state_scheme \<Rightarrow> 'a proc_state_scheme" where
  "switch_process PID s =
     (let old_proc = get_process (active_pid s) s;
          new_proc = get_process PID s
      in if new_proc \<noteq> old_proc
         then
           let s = (if is_active old_proc s then set_status old_proc WAITING s else s);
               s = set_status new_proc ACTIVE s;
               s = s\<lparr>active_pid := PID\<rparr>
           in context_switch old_proc new_proc s
         else s)"

text \<open>One round of the loop of \<open>switch_process_from_queue\<close>.\<close>

definition queue_round ::
  "nat \<Rightarrow> nat option \<times> 'a proc_state_scheme \<Rightarrow> nat option \<times> 'a proc_state_scheme" where
  "queue_round i = (\<lambda>(proc, s).
     if status (proc_table s ! i) \<noteq> STOPPED \<and> proc_PID (proc_table s ! i) \<noteq> 0
     then let s = set_wait (Some i) (wait_time (proc_table s ! i) + 1) s
          in if get_wait (Some i) s > get_wait proc s then (Some i, s) else (proc, s)
     else (proc, s))"

definition switch_process_from_queue :: "'a proc_state_scheme \<Rightarrow> 'a proc_state_scheme" where
  "switch_process_from_queue s =
     (let proc = get_process 0 s;
          (proc, s) = fold queue_round [0..<MAX_PROCESS] (proc, s);
          s = set_wait proc 0 s
      in if get_pid proc s \<noteq> active_pid s then switch_process (get_pid proc s) s else s)"

end
