(* ===== verification/Ramfs.thy ===== *)
theory Ramfs
  imports Process
begin

section \<open>Ramfs: the in-memory file system (fs/ramfs.c, fs/ramfs.h)\<close>

text \<open>
  Files, directories and open-file entries are heap objects: structures of 32-bit
  fields in memory, and arrays of pointers. A pointer is its address and the null
  pointer is 0. The descriptor table is a list of pointers. \<open>ramfs_read\<close>,
  which may call the keyboard handler, is in theory Keyboard.
\<close>

subsection \<open>Structures and state\<close>

definition file_name :: "memory \<Rightarrow> u32 \<Rightarrow> u32" where "file_name m f = rd32 m f"
definition file_data :: "memory \<Rightarrow> u32 \<Rightarrow> u32" where "file_data m f = rd32 m (f + 4)"
definition file_size :: "memory \<Rightarrow> u32 \<Rightarrow> u32" where "file_size m f = rd32 m (f + 8)"

definition dir_name :: "memory \<Rightarrow> u32 \<Rightarrow> u32" where "dir_name m d = rd32 m d"
definition dir_parent :: "memory \<Rightarrow> u32 \<Rightarrow> u32" where "dir_parent m d = rd32 m (d + 4)"
definition dir_files :: "memory \<Rightarrow> u32 \<Rightarrow> u32" where "dir_files m d = rd32 m (d + 8)"
definition file_count :: "memory \<Rightarrow> u32 \<Rightarrow> u32" where "file_count m d = rd32 m (d + 12)"
definition dir_subdirs :: "memory \<Rightarrow> u32 \<Rightarrow> u32" where "dir_subdirs m d = rd32 m (d + 16)"
definition subdir_count :: "memory \<Rightarrow> u32 \<Rightarrow> u32" where "subdir_count m d = rd32 m (d + 20)"

definition fd_file :: "memory \<Rightarrow> u32 \<Rightarrow> u32" where "fd_file m e = rd32 m (e + 4)"
definition fd_position :: "memory \<Rightarrow> u32 \<Rightarrow> u32" where "fd_position m e = rd32 m (e + 8)"
definition fd_flags :: "memory \<Rightarrow> u32 \<Rightarrow> u32" where "fd_flags m e = rd32 m (e + 12)"

text \<open>The structure sizes, and the store of consecutive fields from an address on.\<close>

abbreviation (input) "SIZEOF_FILE \<equiv> 12 :: u32"
abbreviation (input) "SIZEOF_DIR \<equiv> 24 :: u32"
abbreviation (input) "SIZEOF_FD \<equiv> 16 :: u32"
abbreviation (input) "SIZEOF_PTR \<equiv> 4 :: u32"

fun wr_words :: "memory \<Rightarrow> u32 \<Rightarrow> u32 list \<Rightarrow> memory" where
  "wr_words m a [] = m"
| "wr_words m a (w # ws) = wr_words (wr32 m a w) (a + 4) ws"

abbreviation (input) "MAX_FDS \<equiv> 64 :: nat"
abbreviation (input) "STDIN_FILENO \<equiv> 0 :: i32"
abbreviation (input) "STDOUT_FILENO \<equiv> 1 :: i32"
abbreviation (input) "STDERR_FILENO \<equiv> 2 :: i32"
abbreviation (input) "O_RDONLY \<equiv> 1 :: i32"
abbreviation (input) "O_WRONLY \<equiv> 2 :: i32"
abbreviation (input) "O_RDWR \<equiv> 3 :: i32"
abbreviation (input) "O_APPEND \<equiv> 4 :: i32"

text \<open>The last field is the static variable of \<open>strtok\<close>.\<close>

record fs_state = proc_state +
  fd_table :: "u32 list"
  fd_count :: i32
  strtok_last :: u32

subsection \<open>Directories and files\<close>

definition ramfs_create_root :: "'a fs_state_scheme \<Rightarrow> (u32 \<times> 'a fs_state_scheme) option" where
  "ramfs_create_root s = do {
     (root, s) \<leftarrow> allocate SIZEOF_DIR s;
     if root = 0 then Some (0, s) else do {
       (name, s) \<leftarrow> strdup (lit ''/'') s;
       Some (root, s\<lparr>mem := wr_words (mem s) root [name, 0, 0, 0, 0, 0]\<rparr>) } }"

text \<open>
  The end of \<open>ramfs_create_dir\<close> and of \<open>ramfs_create_file\<close>: the directory's array of pointers
  at offset \<open>off\<close>, with its count behind it, is replaced by the larger array \<open>new_arr\<close>,
  and the new entry is stored at the end. The code is the same in both, up to the offset
  (8 for files, 16 for subdirectories).
\<close>

definition add_entry :: "u32 \<Rightarrow> u32 \<Rightarrow> u32 \<Rightarrow> u32 \<Rightarrow> 'a fs_state_scheme \<Rightarrow> 'a fs_state_scheme option" where
  "add_entry off dir new_arr entry s = do {
     s \<leftarrow> (if rd32 (mem s) (dir + off) \<noteq> 0 then do {
            let m = memcpy (mem s) new_arr (Mem (rd32 (mem s) (dir + off)))
              (rd32 (mem s) (dir + off + 4) * SIZEOF_PTR);
            let old_arr = rd32 m (dir + off);
            (_, s) \<leftarrow> free old_arr (s\<lparr>mem := m\<rparr>);
            Some s }
          else Some s);
     let m = wr32 (mem s) (dir + off) new_arr;
     let n = rd32 m (dir + off + 4);
     let m = wr32 m (dir + off + 4) (n + 1);
     let m = wr32 m (rd32 m (dir + off) + n * SIZEOF_PTR) entry;
     Some (s\<lparr>mem := m\<rparr>) }"

definition ramfs_create_dir ::
  "u32 \<Rightarrow> cptr \<Rightarrow> 'a fs_state_scheme \<Rightarrow> (u32 \<times> 'a fs_state_scheme) option" where
  "ramfs_create_dir parent name s =
     (if parent = 0 \<or> name = Mem 0 then Some (0, s) else do {
        (new_dir, s) \<leftarrow> allocate SIZEOF_DIR s;
        if new_dir = 0 then Some (0, s) else do {
          (copy, s) \<leftarrow> strdup name s;
          let s = s\<lparr>mem := wr_words (mem s) new_dir [copy, parent, 0, 0, 0, 0]\<rparr>;
          (new_subdirs, s) \<leftarrow> allocate ((subdir_count (mem s) parent + 1) * SIZEOF_PTR) s;
          if new_subdirs = 0 then do { (_, s) \<leftarrow> free new_dir s; Some (0, s) }
          else do { s \<leftarrow> add_entry 16 parent new_subdirs new_dir s; Some (new_dir, s) } } })"

text \<open>\<open>ramfs_create_file\<close> from the array of files on, and from the data on.\<close>

definition create_file_link ::
  "u32 \<Rightarrow> u32 \<Rightarrow> 'a fs_state_scheme \<Rightarrow> (u32 \<times> 'a fs_state_scheme) option" where
  "create_file_link dir new_file s = do {
     (new_files, s) \<leftarrow> allocate ((file_count (mem s) dir + 1) * SIZEOF_PTR) s;
     if new_files = 0 then do {
       (_, s) \<leftarrow> free (file_data (mem s) new_file) s;
       (_, s) \<leftarrow> free (file_name (mem s) new_file) s;
       (_, s) \<leftarrow> free new_file s;
       Some (0, s) }
     else do { s \<leftarrow> add_entry 8 dir new_files new_file s; Some (new_file, s) } }"

definition create_file_data ::
  "u32 \<Rightarrow> u32 \<Rightarrow> cptr \<Rightarrow> u32 \<Rightarrow> 'a fs_state_scheme \<Rightarrow> (u32 \<times> 'a fs_state_scheme) option" where
  "create_file_data dir new_file data sz s = do {
     (buf, s) \<leftarrow> (if sz = 0 then allocate 1 s else allocate sz s);
     let s = s\<lparr>mem := wr32 (mem s) (new_file + 4) buf\<rparr>;
     if file_data (mem s) new_file = 0 then do {
       (_, s) \<leftarrow> free (file_name (mem s) new_file) s;
       (_, s) \<leftarrow> free new_file s;
       Some (0, s) }
     else do {
       let m = memcpy (mem s) (file_data (mem s) new_file) data sz;
       create_file_link dir new_file (s\<lparr>mem := wr32 m (new_file + 8) sz\<rparr>) } }"

definition ramfs_create_file ::
  "u32 \<Rightarrow> cptr \<Rightarrow> cptr \<Rightarrow> u32 \<Rightarrow> 'a fs_state_scheme \<Rightarrow> (u32 \<times> 'a fs_state_scheme) option" where
  "ramfs_create_file dir name data sz s =
     (if dir = 0 \<or> name = Mem 0 \<or> data = Mem 0 then Some (0, s) else do {
        (new_file, s) \<leftarrow> allocate SIZEOF_FILE s;
        if new_file = 0 then Some (0, s) else do {
          (copy, s) \<leftarrow> strdup name s;
          let s = s\<lparr>mem := wr32 (mem s) new_file copy\<rparr>;
          if file_name (mem s) new_file = 0 then do { (_, s) \<leftarrow> free new_file s; Some (0, s) }
          else create_file_data dir new_file data sz s } })"

text \<open>
  The loop that looks for a file or directory by name in an array of \<open>n\<close> pointers, from
  index \<open>i\<close> on: the name is the first field of both structures.
\<close>

fun find_named :: "memory \<Rightarrow> u32 \<Rightarrow> cptr \<Rightarrow> nat \<Rightarrow> nat \<Rightarrow> nat option option" where
  "find_named m arr name i 0 = Some None"
| "find_named m arr name i (Suc n) = do {
     r \<leftarrow> strcmp m (Mem (rd32 m (rd32 m (arr + of_nat i * SIZEOF_PTR)))) name;
     if r = 0 then Some (Some i) else find_named m arr name (Suc i) n }"

text \<open>\<open>ramfs_delete_file\<close> from the shift of the array on, and from the shrinking on; the shrinking itself.\<close>

definition shrink_files :: "u32 \<Rightarrow> 'a fs_state_scheme \<Rightarrow> 'a fs_state_scheme option" where
  "shrink_files dir s =
     (if file_count (mem s) dir > 1 then do {
        (new_files, s) \<leftarrow> allocate ((file_count (mem s) dir - 1) * SIZEOF_PTR) s;
        if new_files \<noteq> 0 then do {
          let m = memcpy (mem s) new_files (Mem (dir_files (mem s) dir))
            ((file_count (mem s) dir - 1) * SIZEOF_PTR);
          let old_files = dir_files m dir;
          (_, s) \<leftarrow> free old_files (s\<lparr>mem := m\<rparr>);
          Some (s\<lparr>mem := wr32 (mem s) (dir + 8) new_files\<rparr>) }
        else Some s }
      else do {
        let files_ptr = dir_files (mem s) dir;
        (_, s) \<leftarrow> free files_ptr s;
        Some (s\<lparr>mem := wr32 (mem s) (dir + 8) 0\<rparr>) })"

definition delete_file_shrink :: "u32 \<Rightarrow> 'a fs_state_scheme \<Rightarrow> 'a fs_state_scheme option" where
  "delete_file_shrink dir s = do {
     s \<leftarrow> shrink_files dir s;
     Some (s\<lparr>mem := wr32 (mem s) (dir + 12) (file_count (mem s) dir - 1)\<rparr>) }"

definition delete_file_unlink :: "u32 \<Rightarrow> u32 \<Rightarrow> 'a fs_state_scheme \<Rightarrow> 'a fs_state_scheme option" where
  "delete_file_unlink dir file_idx s =
     (let s = (if file_idx < file_count (mem s) dir - 1
        then let e = dir_files (mem s) dir + file_idx * SIZEOF_PTR
          in s\<lparr>mem := memmove (mem s) e (dir_files (mem s) dir + (file_idx + 1) * SIZEOF_PTR)
               ((file_count (mem s) dir - file_idx - 1) * SIZEOF_PTR)\<rparr>
        else s)
      in delete_file_shrink dir s)"

definition ramfs_delete_file ::
  "u32 \<Rightarrow> cptr \<Rightarrow> 'a fs_state_scheme \<Rightarrow> 'a fs_state_scheme option" where
  "ramfs_delete_file dir name s =
     (if dir = 0 \<or> name = Mem 0 \<or> dir_files (mem s) dir = 0 \<or> file_count (mem s) dir = 0 then Some s
      else do {
        found \<leftarrow> find_named (mem s) (dir_files (mem s) dir) name 0 (unat (file_count (mem s) dir));
        case found of None \<Rightarrow> Some s
        | Some i \<Rightarrow> do {
            let file_idx = of_nat i;
            let file_ptr = rd32 (mem s) (dir_files (mem s) dir + file_idx * SIZEOF_PTR);
            let name_ptr = file_name (mem s) file_ptr;
            let data_ptr = file_data (mem s) file_ptr;
            (_, s) \<leftarrow> free name_ptr s;
            (_, s) \<leftarrow> free data_ptr s;
            (_, s) \<leftarrow> free file_ptr s;
            delete_file_unlink dir file_idx s } })"

definition fs_strtok ::
  "u32 \<Rightarrow> cptr \<Rightarrow> 'a fs_state_scheme \<Rightarrow> (u32 \<times> 'a fs_state_scheme) option" where
  "fs_strtok str delim s = do {
     (token, last', m) \<leftarrow> strtok str delim (strtok_last s) (mem s);
     Some (token, s\<lparr>strtok_last := last', mem := m\<rparr>) }"

text \<open>The traversal of \<open>ramfs_find_dir\<close>, from directory \<open>current\<close> with the next \<open>token\<close>.\<close>

partial_function (option) find_dir_loop ::
  "u32 \<Rightarrow> u32 \<Rightarrow> u32 \<Rightarrow> 'a fs_state_scheme \<Rightarrow> (u32 \<times> 'a fs_state_scheme) option" where
  "find_dir_loop path_copy current token s =
     (if token = 0 then do { (_, s) \<leftarrow> free path_copy s; Some (current, s) }
      else do {
        found \<leftarrow> find_named (mem s) (dir_subdirs (mem s) current) (Mem token) 0
          (unat (subdir_count (mem s) current));
        case found of None \<Rightarrow> do { (_, s) \<leftarrow> free path_copy s; Some (0, s) }
        | Some i \<Rightarrow> do {
            let current = rd32 (mem s) (dir_subdirs (mem s) current + of_nat i * SIZEOF_PTR);
            (token, s) \<leftarrow> fs_strtok 0 (lit ''/'') s;
            find_dir_loop path_copy current token s } })"

definition ramfs_find_dir ::
  "u32 \<Rightarrow> cptr \<Rightarrow> 'a fs_state_scheme \<Rightarrow> (u32 \<times> 'a fs_state_scheme) option" where
  "ramfs_find_dir root path s =
     (if root = 0 \<or> path = Mem 0 then Some (0, s) else do {
        r \<leftarrow> strcmp (mem s) path (lit ''/'');
        if r = 0 then Some (root, s) else do {
          (path_copy, s) \<leftarrow> strdup path s;
          if path_copy = 0 then Some (0, s) else do {
            (token, s) \<leftarrow> fs_strtok path_copy (lit ''/'') s;
            find_dir_loop path_copy root token s } } })"

text \<open>\<open>init_mnt\<close> is generated by the build from the directory tree to mount; it is a parameter.\<close>

definition init_fs ::
  "(u32 \<Rightarrow> 'a fs_state_scheme \<Rightarrow> (i32 \<times> 'a fs_state_scheme) option) \<Rightarrow>
   'a fs_state_scheme \<Rightarrow> (u32 \<times> 'a fs_state_scheme) option" where
  "init_fs init_mnt s = do {
     (root, s) \<leftarrow> ramfs_create_root s;
     if root = 0 then Some (0, s) else do {
       (r, s) \<leftarrow> init_mnt root s;
       if r \<noteq> 0 then Some (0, s) else Some (root, s) } }"

subsection \<open>File descriptors\<close>

definition ramfs_init_fd_system :: "'a fs_state_scheme \<Rightarrow> i32 \<times> 'a fs_state_scheme" where
  "ramfs_init_fd_system s = (0, s\<lparr>fd_table := replicate MAX_FDS 0, fd_count := 0\<rparr>)"

definition fd_invalid :: "i32 \<Rightarrow> 'a fs_state_scheme \<Rightarrow> bool" where
  "fd_invalid fd s \<longleftrightarrow> sint fd < 0 \<or> sint fd \<ge> 64 \<or> fd_table s ! unat fd = 0"

text \<open>
  \<open>ramfs_open\<close> in two parts: the copy of the path is cut at its first slash into the
  directory and the file name; then the file is looked up and entered in the table.
\<close>

definition open_path ::
  "u32 \<Rightarrow> u32 \<Rightarrow> 'a fs_state_scheme \<Rightarrow> (u32 \<times> u32 \<times> 'a fs_state_scheme) option" where
  "open_path root path_copy s = do {
     last_slash \<leftarrow> strchr (mem s) (Mem path_copy) 0x2F;
     (case last_slash of Mem sl \<Rightarrow> if sl \<noteq> 0 then do {
        let s = s\<lparr>mem := (mem s)(sl := 0)\<rparr>;
        n \<leftarrow> strlen (mem s) (Mem path_copy);
        if n > 0 then do {
          (dir, s) \<leftarrow> ramfs_find_dir root (Mem path_copy) s;
          Some (dir, sl + 1, s) }
        else Some (root, sl + 1, s) }
        else Some (root, path_copy, s)
      | Lit _ _ \<Rightarrow> Some (root, path_copy, s)) }"

definition open_entry ::
  "u32 \<Rightarrow> u32 \<Rightarrow> u32 \<Rightarrow> i32 \<Rightarrow> 'a fs_state_scheme \<Rightarrow> (i32 \<times> 'a fs_state_scheme) option" where
  "open_entry path_copy dir filename flags s =
     (if dir = 0 then do { (_, s) \<leftarrow> free path_copy s; Some (- 1, s) } else do {
      found \<leftarrow> find_named (mem s) (dir_files (mem s) dir) (Mem filename) 0 (unat (file_count (mem s) dir));
      case found of None \<Rightarrow> do { (_, s) \<leftarrow> free path_copy s; Some (- 1, s) }
      | Some i \<Rightarrow> do {
          let file = rd32 (mem s) (dir_files (mem s) dir + of_nat i * SIZEOF_PTR);
          if file = 0 then do { (_, s) \<leftarrow> free path_copy s; Some (- 1, s) } else
          case find (\<lambda>i. fd_table s ! i = 0) [0..<MAX_FDS] of
            None \<Rightarrow> do { (_, s) \<leftarrow> free path_copy s; Some (- 1, s) }
          | Some fd \<Rightarrow> do {
              (fd_entry, s) \<leftarrow> allocate SIZEOF_FD s;
              if fd_entry = 0 then do { (_, s) \<leftarrow> free path_copy s; Some (- 1, s) } else do {
              let s = s\<lparr>mem := wr_words (mem s) fd_entry [of_nat fd, file, 0, flags],
                fd_table := (fd_table s)[fd := fd_entry], fd_count := fd_count s + 1\<rparr>;
              (_, s) \<leftarrow> free path_copy s;
              Some (of_nat fd, s) } } } })"

definition ramfs_open ::
  "u32 \<Rightarrow> cptr \<Rightarrow> i32 \<Rightarrow> 'a fs_state_scheme \<Rightarrow> (i32 \<times> 'a fs_state_scheme) option" where
  "ramfs_open root path flags s =
     (if root = 0 \<or> path = Mem 0 \<or> ld (mem s) path = 0 then Some (- 1, s) else do {
        r \<leftarrow> strcmp (mem s) path (lit ''/dev/stdin'');
        if r = 0 then Some (0, s) else do {
        r \<leftarrow> strcmp (mem s) path (lit ''/dev/stdout'');
        if r = 0 then Some (1, s) else do {
        r \<leftarrow> strcmp (mem s) path (lit ''/dev/stderr'');
        if r = 0 then Some (2, s) else do {
        (path_copy, s) \<leftarrow> strdup path s;
        if path_copy = 0 then Some (- 1, s) else do {
        (dir, filename, s) \<leftarrow> open_path root path_copy s;
        open_entry path_copy dir filename flags s } } } } })"

text \<open>The part of \<open>ramfs_write\<close> that makes the file larger; \<open>False\<close> when there is no room.\<close>

definition write_grow ::
  "u32 \<Rightarrow> u32 \<Rightarrow> 'a fs_state_scheme \<Rightarrow> (bool \<times> 'a fs_state_scheme) option" where
  "write_grow file new_size s =
     (if new_size > file_size (mem s) file then do {
        (new_data, s) \<leftarrow> allocate new_size s;
        if new_data = 0 then Some (False, s) else do {
          s \<leftarrow> (if file_data (mem s) file \<noteq> 0 then do {
                 let m = memcpy (mem s) new_data (Mem (file_data (mem s) file)) (file_size (mem s) file);
                 let old_data = file_data m file;
                 (_, s) \<leftarrow> free old_data (s\<lparr>mem := m\<rparr>);
                 Some s }
               else Some s);
          Some (True, s\<lparr>mem := wr32 (wr32 (mem s) (file + 4) new_data) (file + 8) new_size\<rparr>) } }
      else Some (True, s))"

definition ramfs_write ::
  "i32 \<Rightarrow> cptr \<Rightarrow> u32 \<Rightarrow> 'a fs_state_scheme \<Rightarrow> (i32 \<times> 'a fs_state_scheme) option" where
  "ramfs_write fd buf count s =
     (if fd_invalid fd s then Some (- 1, s)
      else if fd = STDOUT_FILENO \<or> fd = STDERR_FILENO
      then do { s \<leftarrow> terminal_writestring buf s; Some (count, s) }
      else
        let e = fd_table s ! unat fd;
            file = fd_file (mem s) e
        in if fd_flags (mem s) e AND (O_WRONLY OR O_RDWR) = 0 then Some (- 1, s)
           else if file = 0 then Some (- 1, s)
           else do {
             let s = (if fd_flags (mem s) e AND O_APPEND \<noteq> 0
               then s\<lparr>mem := wr32 (mem s) (e + 8) (file_size (mem s) file)\<rparr> else s);
             let new_size = fd_position (mem s) e + count;
             (ok, s) \<leftarrow> write_grow file new_size s;
             if \<not> ok then Some (- 1, s) else do {
               let m = memcpy (mem s) (file_data (mem s) file + fd_position (mem s) e) buf count;
               let m = wr32 m (e + 8) (fd_position m e + count);
               Some (count, s\<lparr>mem := m\<rparr>) } })"

definition ramfs_seek :: "i32 \<Rightarrow> i32 \<Rightarrow> i32 \<Rightarrow> 'a fs_state_scheme \<Rightarrow> i32 \<times> 'a fs_state_scheme" where
  "ramfs_seek fd offset origin s =
     (if fd_invalid fd s then (- 1, s)
      else
        let e = fd_table s ! unat fd;
            file = fd_file (mem s) e;
            new_position = (if origin = 0 then Some offset
              else if origin = 1 then Some (fd_position (mem s) e + offset)
              else if origin = 2 then Some (file_size (mem s) file + offset)
              else None)
        in case new_position of None \<Rightarrow> (- 1, s)
           | Some p \<Rightarrow> if sint p < 0 then (- 1, s) else (p, s\<lparr>mem := wr32 (mem s) (e + 8) p\<rparr>))"

text \<open>
  The part of \<open>ramfs_read\<close> that reads from a file. (The code tests the flags and the file
  in this order and then copies.)
\<close>

definition ramfs_read_file ::
  "i32 \<Rightarrow> u32 \<Rightarrow> u32 \<Rightarrow> 'a fs_state_scheme \<Rightarrow> i32 \<times> 'a fs_state_scheme" where
  "ramfs_read_file fd buf count s =
     (let e = fd_table s ! unat fd;
          file = fd_file (mem s) e
      in if fd_flags (mem s) e AND O_RDONLY = 0 \<and> fd_flags (mem s) e AND O_RDWR = 0 then (- 1, s)
         else if file = 0 then (- 1, s)
         else
           let available = file_size (mem s) file - fd_position (mem s) e;
               bytes_to_read = (if count > available then available else count);
               m = memcpy (mem s) buf (Mem (file_data (mem s) file + fd_position (mem s) e)) bytes_to_read;
               m = wr32 m (e + 8) (fd_position m e + bytes_to_read)
           in (bytes_to_read, s\<lparr>mem := m\<rparr>))"

text \<open>
  \<open>ramfs_close\<close> hands \<open>free\<close> the address of its local variable \<open>fd_ptr\<close>, which is on the
  stack, at address \<open>loc\<close>.
\<close>

definition ramfs_close :: "u32 \<Rightarrow> i32 \<Rightarrow> 'a fs_state_scheme \<Rightarrow> (i32 \<times> 'a fs_state_scheme) option" where
  "ramfs_close loc fd s =
     (if fd_invalid fd s then Some (- 1, s)
      else do {
        let s = s\<lparr>mem := wr32 (mem s) loc (fd_table s ! unat fd)\<rparr>;
        (_, s) \<leftarrow> free loc s;
        Some (0, s\<lparr>fd_table := (fd_table s)[unat fd := 0], fd_count := fd_count s - 1\<rparr>) })"

end
