(* ===== verification/Owned.thy ===== *)
theory Owned
  imports Allocator
begin

section \<open>Owned: data structures made of heap objects\<close>

text \<open>
  A data structure is a map \<open>N\<close> of nodes by address. Each node is represented in memory by
  the heap objects of its footprint, and footprints are disjoint. The locale extends the
  allocator's interface by what a representation must satisfy, and gives its clients the
  steps their operations are made of: take an object, give one back that no node
  owns, fill it, and add, change or remove a node.
\<close>

definition extent :: "(nat \<rightharpoonup> nat) \<Rightarrow> nat set \<Rightarrow> nat set" where
  "extent P A = {x. \<exists>p\<in>A. \<exists>c. P p = Some c \<and> p \<le> x \<and> x < p + c}"

definition owned :: "(nat \<Rightarrow> 'n \<Rightarrow> nat set) \<Rightarrow> (nat \<rightharpoonup> 'n) \<Rightarrow> nat set" where
  "owned foot N = {p. \<exists>a n. N a = Some n \<and> p \<in> foot a n}"

definition owns :: "('s \<Rightarrow> (nat \<rightharpoonup> nat) \<Rightarrow> bool) \<Rightarrow> ('s \<Rightarrow> memory) \<Rightarrow>
    (memory \<Rightarrow> (nat \<rightharpoonup> nat) \<Rightarrow> nat \<Rightarrow> 'n \<Rightarrow> bool) \<Rightarrow> (nat \<Rightarrow> 'n \<Rightarrow> nat set) \<Rightarrow>
    's \<Rightarrow> (nat \<rightharpoonup> nat) \<Rightarrow> (nat \<rightharpoonup> 'n) \<Rightarrow> bool" where
  "owns rel bytes rep foot s P N \<longleftrightarrow> rel s P \<and>
     (\<forall>a n. N a = Some n \<longrightarrow> rep (bytes s) P a n) \<and>
     (\<forall>a b n k. N a = Some n \<longrightarrow> N b = Some k \<longrightarrow> a \<noteq> b \<longrightarrow> foot a n \<inter> foot b k = {})"

lemma extent_mono: "A \<subseteq> B \<Longrightarrow> extent P A \<subseteq> extent P B"
  by (auto simp: extent_def)

lemma extent_upd [simp]: "p \<notin> A \<Longrightarrow> extent (P(p := v)) A = extent P A"
  by (auto simp: extent_def)

lemma in_extent: "p \<in> A \<Longrightarrow> P p = Some c \<Longrightarrow> {p..<p + c} \<subseteq> extent P A"
  unfolding extent_def by force

lemma owned_upd: "owned foot (N(a \<mapsto> n)) = foot a n \<union> owned foot (N(a := None))"
  by (auto simp: owned_def)

lemma owned_del: "owned foot (N(a := None)) \<subseteq> owned foot N"
  by (auto simp: owned_def split: if_splits)

lemma in_owned: "N a = Some n \<Longrightarrow> foot a n \<subseteq> owned foot N"
  by (auto simp: owned_def)

locale owned_objects = allocator rel alloc dealloc bytes put stable limit
  for rel :: "'s \<Rightarrow> (nat \<rightharpoonup> nat) \<Rightarrow> bool"
    and alloc :: "u32 \<Rightarrow> 's \<Rightarrow> (u32 \<times> 's) option"
    and dealloc :: "u32 \<Rightarrow> 's \<Rightarrow> (u8 \<times> 's) option"
    and bytes :: "'s \<Rightarrow> memory"
    and put :: "memory \<Rightarrow> 's \<Rightarrow> 's"
    and stable :: "'s \<Rightarrow> (nat \<rightharpoonup> nat) \<Rightarrow> nat set"
    and limit :: nat +
  fixes rep :: "memory \<Rightarrow> (nat \<rightharpoonup> nat) \<Rightarrow> nat \<Rightarrow> 'n \<Rightarrow> bool"
    and foot :: "nat \<Rightarrow> 'n \<Rightarrow> nat set"
  assumes rep_cong: "rep m P a n \<Longrightarrow> (\<And>p. p \<in> foot a n \<Longrightarrow> P' p = P p) \<Longrightarrow>
      same_on (extent P (foot a n)) m m' \<Longrightarrow> rep m' P' a n"
    and rep_foot: "rep m P a n \<Longrightarrow> a \<in> foot a n \<and> foot a n \<subseteq> dom P"
    and stable_mono: "P \<subseteq>\<^sub>m P' \<Longrightarrow> stable s P \<subseteq> stable s P'"
begin

lemma ownsD:
  assumes "owns rel bytes rep foot s P N"
  shows "rel s P" "\<And>a n. N a = Some n \<Longrightarrow> rep (bytes s) P a n"
    and "\<And>a b n k. N a = Some n \<Longrightarrow> N b = Some k \<Longrightarrow> a \<noteq> b \<Longrightarrow> foot a n \<inter> foot b k = {}"
  using assms unfolding owns_def by blast+

lemma owned_dom: "owns rel bytes rep foot s P N \<Longrightarrow> owned foot N \<subseteq> dom P"
  using ownsD(2) rep_foot unfolding owned_def by blast

lemma fresh_not_owned: "owns rel bytes rep foot s P N \<Longrightarrow> P p = None \<Longrightarrow> p \<notin> owned foot N"
  using owned_dom by blast

lemma fresh_not_node: "owns rel bytes rep foot s P N \<Longrightarrow> p \<notin> owned foot N \<Longrightarrow> N p = None"
proof (rule ccontr)
  assume O: "owns rel bytes rep foot s P N" and p: "p \<notin> owned foot N" and "N p \<noteq> None"
  then obtain n where n: "N p = Some n" by blast
  then have "p \<in> foot p n" using rep_foot [OF ownsD(2) [OF O n]] by blast
  with n p show False unfolding owned_def by blast
qed

lemma owns_cong:
  assumes O: "owns rel bytes rep foot s P N" and R: "rel s' P'"
    and P: "\<And>p. p \<in> owned foot N \<Longrightarrow> P' p = P p"
    and S: "same_on (extent P (owned foot N)) (bytes s) (bytes s')"
  shows "owns rel bytes rep foot s' P' N"
proof -
  have "rep (bytes s') P' a n" if n: "N a = Some n" for a n
  proof (rule rep_cong [OF ownsD(2) [OF O n]])
    have f: "foot a n \<subseteq> owned foot N" using n by (rule in_owned)
    then show "\<And>p. p \<in> foot a n \<Longrightarrow> P' p = P p" using P by blast
    show "same_on (extent P (foot a n)) (bytes s) (bytes s')"
      by (rule same_on_subset [OF S extent_mono [OF f]])
  qed
  with R ownsD(3) [OF O] show ?thesis unfolding owns_def by blast
qed

text \<open>Live objects are stable, and an object that is not owned is outside what the nodes own.\<close>

lemma extent_stable: "rel s P \<Longrightarrow> extent P A \<subseteq> stable s P"
  using payload unfolding extent_def by fastforce

lemma extent_apart:
  assumes R: "rel s P" and p: "P p = Some c" "p \<notin> A"
  shows "extent P A \<inter> {p..<p + c} = {}"
proof -
  have "{p..<p + c} \<inter> {q..<q + d} = {}" if "q \<in> A" "P q = Some d" for q d
    using objects_apart [OF R p(1) that(2)] p(2) that(1) by blast
  then show ?thesis unfolding extent_def by (fastforce simp: disjoint_iff)
qed

subsection \<open>The steps\<close>

lemma own_alloc:
  assumes O: "owns rel bytes rep foot s P N" and n: "0 < n" "n \<le> limit"
  shows "(\<exists>p c s'. alloc (of_nat n) s = Some (of_nat p, s') \<and> (of_nat p :: u32) \<noteq> 0 \<and> P p = None \<and> p \<notin> owned foot N \<and>
      n \<le> c \<and> owns rel bytes rep foot s' (P(p \<mapsto> c)) N \<and> same_on (stable s P) (bytes s) (bytes s') \<and>
      stable s' = stable s) \<or> alloc (of_nat n) s = Some (0, s)"
proof -
  note R = ownsD(1) [OF O]
  from alloc_ok [OF R n] show ?thesis
  proof (elim disjE exE conjE)
    fix p c s'
    assume a: "alloc (of_nat n) s = Some (of_nat p, s')" "P p = None" "n \<le> c" "rel s' (P(p \<mapsto> c))"
      "same_on (stable s P) (bytes s) (bytes s')" "stable s' = stable s"
    have p: "p \<notin> owned foot N" by (rule fresh_not_owned [OF O a(2)])
    have "owns rel bytes rep foot s' (P(p \<mapsto> c)) N"
      by (rule owns_cong [OF O a(4)])
        (use p same_on_subset [OF a(5) extent_stable [OF R]] in auto)
    moreover have "(of_nat p :: u32) \<noteq> 0"
    proof -
      have "0 < p \<and> p + c \<le> 2 ^ 32" using range [OF a(4), of p c] by simp
      then have "p < 2 ^ 32 \<and> 0 < p" using n(1) a(3) by simp
      then show ?thesis using of_nat_u32_eq [of p 0] by simp
    qed
    ultimately show ?thesis using a p by blast
  qed blast
qed

lemma own_free:
  assumes O: "owns rel bytes rep foot s P N" and p: "P p = Some c" "p \<notin> owned foot N"
  shows "\<exists>s'. dealloc (of_nat p) s = Some (0, s') \<and> owns rel bytes rep foot s' (P(p := None)) N \<and>
    same_on (stable s (P(p := None))) (bytes s) (bytes s') \<and> stable s' = stable s"
proof -
  note R = ownsD(1) [OF O]
  obtain s' where s': "dealloc (of_nat p) s = Some (0, s')" "rel s' (P(p := None))"
    "same_on (stable s (P(p := None))) (bytes s) (bytes s')" "stable s' = stable s"
    using dealloc_ok [OF R p(1)] by blast
  have "extent P (owned foot N) = extent (P(p := None)) (owned foot N)" using p(2) by simp
  then have "extent P (owned foot N) \<subseteq> stable s (P(p := None))"
    using extent_stable [OF s'(2)] s'(4) by simp
  then have "owns rel bytes rep foot s' (P(p := None)) N"
    by (intro owns_cong [OF O s'(2)]) (use p(2) same_on_subset [OF s'(3)] in auto)
  with s' show ?thesis by blast
qed

lemma own_put:
  assumes O: "owns rel bytes rep foot s P N" and p: "P p = Some c" "p \<notin> owned foot N"
    and S: "same_on (- {p..<p + c}) (bytes s) m"
  shows "owns rel bytes rep foot (put m s) P N"
proof (rule owns_cong [OF O])
  note R = ownsD(1) [OF O]
  show "rel (put m s) P"
    by (rule rel_put [OF R], rule same_on_subset [OF S]) (use payload [OF R p(1)] in blast)
  show "same_on (extent P (owned foot N)) (bytes s) (bytes (put m s))"
    unfolding bytes_put by (rule same_on_subset [OF S]) (use extent_apart [OF R p] in blast)
qed simp

lemma own_add:
  assumes O: "owns rel bytes rep foot s P N" and n: "rep (bytes s) P a n" "foot a n \<inter> owned foot N = {}"
  shows "owns rel bytes rep foot s P (N(a \<mapsto> n))"
proof -
  have "foot a n \<inter> foot b k = {}" if "N b = Some k" for b k
    using n(2) in_owned [of N b k foot] that by blast
  then show ?thesis using ownsD [OF O] n(1) unfolding owns_def by (auto split: if_splits)
qed

lemma own_del: "owns rel bytes rep foot s P N \<Longrightarrow> owns rel bytes rep foot s P (N(a := None))"
  unfolding owns_def by (auto split: if_splits)

lemma own_apart: "owns rel bytes rep foot s P N \<Longrightarrow> N a = Some n \<Longrightarrow> foot a n \<inter> owned foot (N(a := None)) = {}"
  using ownsD(3) unfolding owned_def by (fastforce split: if_splits)

text \<open>A node may be changed by writing into its own objects only.\<close>

lemma own_change:
  assumes O: "owns rel bytes rep foot s P N" and a: "N a = Some n"
    and S: "same_on (- extent P (foot a n)) (bytes s) m"
    and n': "rep m P a n'" "foot a n' \<subseteq> foot a n"
  shows "owns rel bytes rep foot (put m s) P (N(a \<mapsto> n'))"
proof -
  note R = ownsD(1) [OF O]
  have ap: "foot a n \<inter> owned foot (N(a := None)) = {}" by (rule own_apart [OF O a])
  have D: "owns rel bytes rep foot (put m s) P (N(a := None))"
  proof (rule owns_cong [OF own_del [OF O]])
    show "rel (put m s) P"
      by (rule rel_put [OF R], rule same_on_subset [OF S]) (use extent_stable [OF R, of "foot a n"] in blast)
    have "extent P (foot a n) \<inter> extent P (owned foot (N(a := None))) = {}"
    proof -
      have "extent P (owned foot (N(a := None))) \<inter> {p..<p + c} = {}" if "p \<in> foot a n" "P p = Some c" for p c
        using extent_apart [OF R that(2)] that(1) ap by blast
      then show ?thesis unfolding extent_def [of P "foot a n"] by fastforce
    qed
    then show "same_on (extent P (owned foot (N(a := None)))) (bytes s) (bytes (put m s))"
      unfolding bytes_put by (intro same_on_subset [OF S]) blast
  qed simp
  have "owns rel bytes rep foot (put m s) P ((N(a := None))(a \<mapsto> n'))"
    by (rule own_add [OF D]) (use n' ap in \<open>auto simp: bytes_put\<close>)
  then show ?thesis by simp
qed

end

end
