(* ===== verification/RamfsRep.thy ===== *)
theory RamfsRep
  imports Ramfs Owned
begin

section \<open>RamfsRep: the file system as a map of nodes\<close>

text \<open>
  What the objects of the file system stand for: a file is a name and a byte list,
  a directory a name, a parent and lists of files and subdirectories, an open-file entry a
  file and a position. \<open>node_ok\<close> says how each is laid out in memory; with it, the
  file system is a data structure of heap objects in the sense of theory Owned.
\<close>

subsection \<open>Words in memory\<close>

definition words_at :: "memory \<Rightarrow> nat \<Rightarrow> u32 list \<Rightarrow> bool" where
  "words_at m a ws \<longleftrightarrow> (\<forall>i<length ws. rd32 m (W (a + 4 * i)) = ws ! i)"

lemma words_atD: "words_at m a ws \<Longrightarrow> i < length ws \<Longrightarrow> rd32 m (W (a + 4 * i)) = ws ! i"
  by (simp add: words_at_def)

lemma words_at_Nil [simp]: "words_at m a []"
  by (simp add: words_at_def)

lemma words_at_Cons: "words_at m a (w # ws) \<longleftrightarrow> rd32 m (W a) = w \<and> words_at m (a + 4) ws"
proof
  assume L: "words_at m a (w # ws)"
  have "rd32 m (W (a + 4 + 4 * i)) = ws ! i" if "i < length ws" for i
    using words_atD [OF L, of "Suc i"] that by (simp add: algebra_simps)
  with words_atD [OF L, of 0] show "rd32 m (W a) = w \<and> words_at m (a + 4) ws"
    by (simp add: words_at_def)
next
  assume R: "rd32 m (W a) = w \<and> words_at m (a + 4) ws"
  show "words_at m a (w # ws)" unfolding words_at_def
  proof (intro allI impI)
    fix i assume "i < length (w # ws)"
    then show "rd32 m (W (a + 4 * i)) = (w # ws) ! i"
    proof (cases i)
      case (Suc j)
      have "rd32 m (W (a + 4 + 4 * j)) = ws ! j"
        by (rule words_atD [OF conjunct2 [OF R]]) (use Suc \<open>i < length (w # ws)\<close> in simp)
      moreover have "a + 4 + 4 * j = a + 4 * i" using Suc by simp
      ultimately show ?thesis using Suc by (simp only: nth_Cons_Suc)
    qed (use R in simp)
  qed
qed

lemma words_at_same_on:
  assumes "words_at m a ws" "same_on A m m'" "{a..<a + 4 * length ws} \<subseteq> A" "a + 4 * length ws \<le> 2 ^ 32"
  shows "words_at m' a ws"
  unfolding words_at_def
proof (intro allI impI)
  fix i assume i: "i < length ws"
  have "{a + 4 * i..<a + 4 * i + 4} \<subseteq> A" using i assms(3) by auto
  then have "rd32 m' (W (a + 4 * i)) = rd32 m (W (a + 4 * i))"
    by (rule rd32_same_on [OF assms(2)]) (use i assms(4) in linarith)
  then show "rd32 m' (W (a + 4 * i)) = ws ! i" using words_atD [OF assms(1) i] by simp
qed

lemma W_plus_4: "W a + 4 = W (a + 4)"
  by simp

lemma same_on_wr_words:
  assumes "a + 4 * length ws \<le> 2 ^ 32" "A \<inter> {a..<a + 4 * length ws} = {}"
  shows "same_on A m (wr_words m (W a) ws)"
  using assms
proof (induction ws arbitrary: m a)
  case (Cons w ws)
  have "same_on A m (wr32 m (W a) w)" by (rule same_on_wr32) (use Cons.prems in auto)
  also have "same_on A (wr32 m (W a) w) (wr_words (wr32 m (W a) w) (W (a + 4)) ws)"
    by (rule Cons.IH) (use Cons.prems in auto)
  finally show ?case by simp
qed simp

lemma words_at_wr_words:
  "a + 4 * length ws \<le> 2 ^ 32 \<Longrightarrow> words_at (wr_words m (W a) ws) a ws"
proof (induction ws arbitrary: m a)
  case (Cons w ws)
  have "words_at (wr_words (wr32 m (W a) w) (W (a + 4)) ws) (a + 4) ws"
    by (rule Cons.IH) (use Cons.prems in simp)
  moreover have "same_on {a..<a + 4} (wr32 m (W a) w) (wr_words (wr32 m (W a) w) (W (a + 4)) ws)"
    by (rule same_on_wr_words) (use Cons.prems in auto)
  then have "rd32 (wr_words (wr32 m (W a) w) (W (a + 4)) ws) (W a) = rd32 (wr32 m (W a) w) (W a)"
    by (rule rd32_same_on) (use Cons.prems in auto)
  ultimately show ?case by (simp add: words_at_Cons mem_simps)
qed simp

text \<open>Writing one of the words.\<close>

lemma words_at_wr32:
  assumes "words_at m a ws" "i < length ws" "a + 4 * length ws \<le> 2 ^ 32"
  shows "words_at (wr32 m (W (a + 4 * i)) v) a (ws[i := v])"
  unfolding words_at_def
proof (intro allI impI)
  fix j assume "j < length (ws[i := v])"
  then have j: "j < length ws" by simp
  show "rd32 (wr32 m (W (a + 4 * i)) v) (W (a + 4 * j)) = ws[i := v] ! j"
  proof (cases "j = i")
    case True
    with assms(2) show ?thesis by (simp only: rd32_wr32_same nth_list_update_eq)
  next
    case False
    have "rd32 (wr32 m (W (a + 4 * i)) v) (W (a + 4 * j)) = rd32 m (W (a + 4 * j))"
      by (rule rd32_wr32_disj) (use False assms(2,3) j in \<open>auto simp: disj_def\<close>)
    with words_atD [OF assms(1) j] False show ?thesis by simp
  qed
qed

text \<open>Words move with the bytes they are made of.\<close>

lemma rd32_rd_bytes:
  assumes "rd_bytes m' b n = rd_bytes m a n" "i + 4 \<le> n"
  shows "rd32 m' (b + of_nat i) = rd32 m (a + of_nat i)"
proof -
  have "m' (b + of_nat j) = m (a + of_nat j)" if "j < n" for j
    using arg_cong [OF assms(1), of "\<lambda>bs. bs ! j"] that by simp
  from this [of i] this [of "i + 1"] this [of "i + 2"] this [of "i + 3"] assms(2)
  show ?thesis by (simp add: rd32_def add_ac)
qed

lemma words_at_rd_bytes:
  assumes w: "words_at m a ws" and e: "rd_bytes m' (W b) (4 * n) = rd_bytes m (W a) (4 * n)" and n: "length ws \<le> n"
  shows "words_at m' b ws"
  unfolding words_at_def
proof (intro allI impI)
  fix i assume i: "i < length ws"
  have "rd32 m' (W b + of_nat (4 * i)) = rd32 m (W a + of_nat (4 * i))"
    by (rule rd32_rd_bytes [OF e]) (use i n in linarith)
  then show "rd32 m' (W (b + 4 * i)) = ws ! i" using words_atD [OF w i] by (simp only: of_nat_add)
qed

lemma words_at_append:
  "words_at m a (xs @ ys) \<longleftrightarrow> words_at m a xs \<and> words_at m (a + 4 * length xs) ys"
  by (induction xs arbitrary: a) (auto simp: words_at_Cons algebra_simps)

subsection \<open>Nodes\<close>

datatype node =
    File (file_name_ptr: nat) (node_name: "u8 list") (file_data_ptr: nat) (file_bytes: "u8 list")
  | Dir nat "u8 list" (parent_of: nat) nat (files_of: "nat list") nat (subdirs_of: "nat list")
  | Fd (fd_no: nat) (fd_of: nat) (pos_of: nat) (flags_of: u32)

text \<open>An array pointer is null exactly when the array is empty.\<close>

fun foot :: "nat \<Rightarrow> node \<Rightarrow> nat set" where
  "foot a (File np nm dp bs) = {a, np, dp}"
| "foot a (Dir np nm par fa fs da ds) = {a, np} \<union> ({fa, da} - {0})"
| "foot a (Fd n f pos fl) = {a}"

definition obj :: "(nat \<rightharpoonup> nat) \<Rightarrow> nat \<Rightarrow> nat \<Rightarrow> bool" where
  "obj P p n \<longleftrightarrow> (\<exists>c. P p = Some c \<and> n \<le> c \<and> 0 < p \<and> p + c \<le> 2 ^ 32)"

definition str_obj :: "memory \<Rightarrow> (nat \<rightharpoonup> nat) \<Rightarrow> nat \<Rightarrow> u8 list \<Rightarrow> bool" where
  "str_obj m P p nm \<longleftrightarrow> obj P p (length nm + 1) \<and> cstr m (Mem (W p)) nm"

definition array_obj :: "memory \<Rightarrow> (nat \<rightharpoonup> nat) \<Rightarrow> nat \<Rightarrow> nat list \<Rightarrow> bool" where
  "array_obj m P p xs \<longleftrightarrow> (if p = 0 then xs = [] else xs \<noteq> [] \<and> obj P p (4 * length xs) \<and> words_at m p (map W xs))"

fun node_ok :: "memory \<Rightarrow> (nat \<rightharpoonup> nat) \<Rightarrow> nat \<Rightarrow> node \<Rightarrow> bool" where
  "node_ok m P a (File np nm dp bs) \<longleftrightarrow> a \<noteq> np \<and> a \<noteq> dp \<and> np \<noteq> dp \<and> obj P a 12 \<and>
     words_at m a [W np, W dp, W (length bs)] \<and> str_obj m P np nm \<and>
     obj P dp (length bs) \<and> rd_bytes m (W dp) (length bs) = bs"
| "node_ok m P a (Dir np nm par fa fs da ds) \<longleftrightarrow> distinct [a, np, fa] \<and> distinct [a, np, da] \<and> (fa = da \<longrightarrow> fa = 0) \<and>
     obj P a 24 \<and> words_at m a [W np, W par, W fa, W (length fs), W da, W (length ds)] \<and>
     str_obj m P np nm \<and> array_obj m P fa fs \<and> array_obj m P da ds"
| "node_ok m P a (Fd n f pos fl) \<longleftrightarrow> obj P a 16 \<and> words_at m a [W n, W f, W pos, fl]"

lemma objD: "obj P p n \<Longrightarrow> p \<in> dom P \<and> 0 < p \<and> p + n \<le> 2 ^ 32"
  by (auto simp: obj_def)

lemma obj_range: "obj P p n \<Longrightarrow> p \<in> A \<Longrightarrow> {p..<p + n} \<subseteq> extent P A"
  by (auto simp: obj_def extent_def) (metis add_le_cancel_left order_less_le_trans)

lemma obj_cong: "P' p = P p \<Longrightarrow> obj P' p n = obj P p n"
  by (simp add: obj_def)

lemma str_obj_cong:
  assumes "str_obj m P p nm" "P' p = P p" "same_on (extent P A) m m'" "p \<in> A"
  shows "str_obj m' P' p nm"
proof -
  have o: "obj P p (length nm + 1)" and c: "cstr m (Mem (W p)) nm" using assms(1) by (simp_all add: str_obj_def)
  have "cstr m' (Mem (W p)) nm"
  proof (rule cstr_same_on [OF assms(3) _ c])
    show "readable (extent P A) (Mem (W p)) (Suc (length nm))"
      using obj_range [OF o assms(4)] objD [OF o] by (simp add: unat_of_nat_u32)
  qed
  with o show ?thesis by (simp add: str_obj_def obj_cong [of P' p P] assms(2))
qed

lemma array_obj_cong:
  assumes "array_obj m P p xs" "p \<noteq> 0 \<Longrightarrow> P' p = P p" "same_on (extent P A) m m'" "p \<noteq> 0 \<Longrightarrow> p \<in> A"
  shows "array_obj m' P' p xs"
proof (cases "p = 0")
  case False
  then have o: "xs \<noteq> []" "obj P p (4 * length xs)" "words_at m p (map W xs)" using assms(1) by (simp_all add: array_obj_def)
  have "words_at m' p (map W xs)"
    by (rule words_at_same_on [OF o(3) assms(3)]) (use obj_range [OF o(2) assms(4)] objD [OF o(2)] False in auto)
  with o(1,2) False show ?thesis by (simp add: array_obj_def obj_cong [of P' p P] assms(2))
qed (use assms(1) in \<open>simp add: array_obj_def\<close>)

lemma fields_cong:
  assumes "words_at m a ws" "obj P a (4 * length ws)" "same_on (extent P A) m m'" "a \<in> A"
  shows "words_at m' a ws"
  by (rule words_at_same_on [OF assms(1,3)]) (use obj_range [OF assms(2,4)] objD [OF assms(2)] in auto)

lemma node_ok_cong:
  assumes n: "node_ok m P a n" and P: "\<And>p. p \<in> foot a n \<Longrightarrow> P' p = P p" and S: "same_on (extent P (foot a n)) m m'"
  shows "node_ok m' P' a n"
proof (cases n)
  case (File np nm dp bs)
  note h = n[unfolded File node_ok.simps] and P = P[unfolded File foot.simps] and S = S[unfolded File foot.simps]
  have "words_at m' a [W np, W dp, W (length bs)]"
    by (rule fields_cong [OF _ _ S]) (use h in simp_all)
  moreover have "str_obj m' P' np nm" by (rule str_obj_cong [OF _ P S]) (use h in simp_all)
  moreover have "rd_bytes m' (W dp) (length bs) = rd_bytes m (W dp) (length bs)"
    by (rule rd_bytes_same_on [OF S]) (use obj_range [of P dp "length bs" "{a, np, dp}"] objD [of P dp] h in auto)
  ultimately show ?thesis using h P by (simp add: File obj_cong [of P' _ P])
next
  case (Dir np nm par fa fs da ds)
  note h = n[unfolded Dir node_ok.simps] and P = P[unfolded Dir foot.simps] and S = S[unfolded Dir foot.simps]
  have "words_at m' a [W np, W par, W fa, W (length fs), W da, W (length ds)]"
    by (rule fields_cong [OF _ _ S]) (use h in simp_all)
  moreover have "str_obj m' P' np nm" by (rule str_obj_cong [OF _ P S]) (use h in simp_all)
  moreover have "array_obj m' P' fa fs" by (rule array_obj_cong [OF _ P S]) (use h in simp_all)
  moreover have "array_obj m' P' da ds" by (rule array_obj_cong [OF _ P S]) (use h in simp_all)
  ultimately show ?thesis using h P by (simp add: Dir obj_cong [of P' _ P])
next
  case (Fd k f pos fl)
  note h = n[unfolded Fd node_ok.simps] and P = P[unfolded Fd foot.simps] and S = S[unfolded Fd foot.simps]
  have "words_at m' a [W k, W f, W pos, fl]" by (rule fields_cong [OF _ _ S]) (use h in simp_all)
  then show ?thesis using h P by (simp add: Fd obj_cong [of P' _ P])
qed

lemma node_ok_foot: "node_ok m P a n \<Longrightarrow> a \<in> foot a n \<and> foot a n \<subseteq> dom P"
  by (cases n) (auto simp: str_obj_def array_obj_def dest!: objD split: if_splits)

lemma heap_stable_mono: "P \<subseteq>\<^sub>m P' \<Longrightarrow> heap_stable s P \<subseteq> heap_stable s P'"
  unfolding heap_stable_def map_le_def dom_def by (force simp: subset_eq)

interpretation fs: owned_objects heap_objects allocate free mem "\<lambda>m s. s\<lparr>mem := m\<rparr>" heap_stable 32759 node_ok foot
proof
  show "node_ok m' P' a n" if "node_ok m P a n" "\<And>p. p \<in> foot a n \<Longrightarrow> P' p = P p"
    "same_on (extent P (foot a n)) m m'" for m P a n P' m'
    by (rule node_ok_cong [OF that])
qed (rule node_ok_foot heap_stable_mono; assumption)+

definition fs_rel :: "'a heap_state_scheme \<Rightarrow> (nat \<rightharpoonup> nat) \<Rightarrow> (nat \<rightharpoonup> node) \<Rightarrow> bool" where
  "fs_rel = owns heap_objects mem node_ok foot"

end
