(* ===== verification/FsSteps.thy ===== *)
theory FsSteps
  imports RamfsRep
begin

section \<open>FsSteps: allocation steps of the file system's operations\<close>

text \<open>
  The steps of theory Owned on the file system, with what they leave alone: \<open>quiet A s s'\<close> says
  that the bytes of \<open>A\<close> and all state but the heap's and the screen's are unchanged. The
  pointer array of a directory grows by \<open>add_entry\<close>.
\<close>

definition quiet :: "nat set \<Rightarrow> 'a heap_state_scheme \<Rightarrow> 'a heap_state_scheme \<Rightarrow> bool" where
  "quiet A s s' \<longleftrightarrow> same_on A (mem s) (mem s') \<and> heap_frame s s'"

lemma quiet_refl [simp, intro]: "quiet A s s"
  by (simp add: quiet_def)

lemma quiet_trans [trans]: "quiet A s t \<Longrightarrow> quiet A t u \<Longrightarrow> quiet A s u"
  unfolding quiet_def by (auto intro: same_on_trans heap_frame_trans)

lemma quiet_subset: "quiet B s t \<Longrightarrow> A \<subseteq> B \<Longrightarrow> quiet A s t"
  unfolding quiet_def by (auto intro: same_on_subset)

lemma quiet_stable: "quiet A s s' \<Longrightarrow> heap_stable s' = heap_stable s"
  by (simp add: quiet_def heap_frame_def heap_stable_def fun_eq_iff)

lemma quiet_put: "same_on A (mem s) m \<Longrightarrow> quiet A s (s\<lparr>mem := m\<rparr>)"
  by (simp add: quiet_def heap_frame_def)

lemma quiet_more: "quiet A s s' \<Longrightarrow> heap_state.more s' = heap_state.more s"
  by (simp add: quiet_def heap_frame_def)

lemma extent_heap_stable: "extent P A \<subseteq> heap_stable s P"
  by (auto simp: extent_def heap_stable_def)

lemma obj_stable: "obj P p n \<Longrightarrow> {p..<p + n} \<subseteq> heap_stable s P"
  using obj_range [of P p n "{p}"] extent_heap_stable [of P "{p}" s] by blast

lemma fs_relD:
  assumes "fs_rel s P N"
  shows "heap_objects s P" "\<And>a n. N a = Some n \<Longrightarrow> node_ok (mem s) P a n"
    and "\<And>a b n k. N a = Some n \<Longrightarrow> N b = Some k \<Longrightarrow> a \<noteq> b \<Longrightarrow> foot a n \<inter> foot b k = {}"
  using fs.ownsD [OF assms [unfolded fs_rel_def]] by blast+

lemma fs_range: "fs_rel s P N \<Longrightarrow> P p = Some c \<Longrightarrow> 0 < p \<and> p + c \<le> 2 ^ 32"
  using fs_relD(1) heap.range by blast

lemma fs_obj: "fs_rel s P N \<Longrightarrow> P p = Some c \<Longrightarrow> n \<le> c \<Longrightarrow> obj P p n"
  using fs_range [of s P N p c] by (auto simp: obj_def)

lemma fs_zero: "fs_rel s P N \<Longrightarrow> P 0 = None"
  using fs_range [of s P N 0] by (cases "P 0") auto

lemma fs_owned_dom: "fs_rel s P N \<Longrightarrow> owned foot N \<subseteq> dom P"
  unfolding fs_rel_def by (rule fs.owned_dom)

subsection \<open>Room\<close>

text \<open>
  An allocation grows the heap by at most one block of the largest scale; it fails only when
  the heap has reached the end of the address space. \<open>room n s\<close> is enough for \<open>n\<close> allocations.
\<close>

definition spends :: "nat \<Rightarrow> 'a heap_state_scheme \<Rightarrow> 'a heap_state_scheme \<Rightarrow> bool" where
  "spends n s s' \<longleftrightarrow> unat (current_brk s') \<le> unat (current_brk s) + n * 2 ^ 15"

definition room :: "nat \<Rightarrow> 'a heap_state_scheme \<Rightarrow> bool" where
  "room n s \<longleftrightarrow> unat (current_brk s) + n * 2 ^ 15 < 2 ^ 32"

lemma no_room: "\<not> room n s' \<Longrightarrow> spends k s s' \<Longrightarrow> k + n \<le> j \<Longrightarrow> \<not> room j s"
  using mult_le_mono1 [of "k + n" j "2 ^ 15"] by (simp add: spends_def room_def add_mult_distrib)

lemma room_spends: "spends k s s' \<Longrightarrow> room j s \<Longrightarrow> k + n \<le> j \<Longrightarrow> room n s'"
  using no_room by blast

lemma room_mono: "room n s \<Longrightarrow> k \<le> n \<Longrightarrow> room k s"
  unfolding room_def by (rule order_le_less_trans [rotated], assumption) simp

lemma spends_refl [simp]: "spends n s s"
  by (simp add: spends_def)

lemma spends_trans: "spends j s t \<Longrightarrow> spends k t u \<Longrightarrow> j + k = n \<Longrightarrow> spends n s u"
  by (auto simp: spends_def add_mult_distrib)

lemma spends_put [simp]: "spends n s (t\<lparr>mem := m\<rparr>) = spends n s t" "spends n (s\<lparr>mem := m\<rparr>) t = spends n s t"
  by (simp_all add: spends_def)

lemma room_put [simp]: "room n (s\<lparr>mem := m\<rparr>) = room n s"
  by (simp add: room_def)

lemma allocate_room_cases:
  fixes s :: "'a heap_state_scheme"
  assumes O: "heap_objects s P" and n: "0 < n" "n \<le> 32759" and a: "allocate (W n) s = Some (p, s')"
  shows "spends 1 s s'" "p = 0 \<Longrightarrow> \<not> room 1 s"
proof -
  obtain L where R: "heap_rel s L" using O unfolding heap_objects_def by blast
  have "n + 9 \<le> 2 ^ 15" using n(2) by simp
  note S = allocate_spec [OF R n(1) this]
  from S a show "spends 1 s s'" by (auto simp: spends_def split: if_splits)
  assume p: "p = 0"
  from S show "\<not> room 1 s"
  proof (elim disjE exE conjE)
    fix t b k assume t: "allocate (W n) s = Some (W (b + 9), t)" "heap_rel t (L(b \<mapsto> k))"
    have "(L(b \<mapsto> k)) b = Some k" by simp
    note r = payload_range [OF t(2) this]
    have "W (b + 9) = 0" using a t(1) p by simp
    then show ?thesis using r of_nat_u32_eq [of "b + 9" 0] by simp
  qed (simp add: room_def)
qed

lemma free_spends:
  fixes s :: "'a heap_state_scheme"
  assumes O: "heap_objects s P" and p: "P p = Some c" and f: "free (W p) s = Some (r, s')"
  shows "spends 0 s s'"
proof -
  obtain L a k where "heap_rel s L" "p = a + 9" "L a = Some k"
    using O p unfolding heap_objects_def by (auto simp: payloads_Some)
  from free_spec [OF this(1,3)] f show ?thesis by (auto simp: spends_def \<open>p = a + 9\<close>)
qed

subsection \<open>Steps\<close>

lemma fs_alloc:
  fixes s :: "'a heap_state_scheme"
  assumes R: "fs_rel s P N" and n: "0 < n" "n \<le> 32759"
  obtains (fresh) p c s' where "allocate (W n) s = Some (W p, s')" "W p \<noteq> 0" "0 < p" "P p = None" "p \<notin> owned foot N"
      "n \<le> c" "fs_rel s' (P(p \<mapsto> c)) N" "quiet (heap_stable s P) s s'" "spends 1 s s'"
    | (null) "allocate (W n) s = Some (0, s)" "\<not> room 1 s"
proof -
  note B = allocate_room_cases [OF fs_relD(1) [OF R] n]
  from fs.own_alloc [OF R [unfolded fs_rel_def] n] show thesis
  proof (elim disjE exE conjE)
    fix p c s' assume a: "allocate (W n) s = Some (W p, s')" "W p \<noteq> 0" "P p = None" "p \<notin> owned foot N" "n \<le> c"
      "owns heap_objects mem node_ok foot s' (P(p \<mapsto> c)) N" "same_on (heap_stable s P) (mem s) (mem s')"
    have "0 < p" using a(2) by (cases p) auto
    then show thesis
      using a allocate_heap_frame [OF a(1)] B(1) [OF a(1)]
      by (intro fresh [of p s' c]) (simp_all add: fs_rel_def quiet_def)
  next
    assume a: "allocate (W n) s = Some (0, s)"
    show thesis by (rule null [OF a B(2) [OF a refl]])
  qed
qed

lemma fs_free:
  fixes s :: "'a heap_state_scheme"
  assumes R: "fs_rel s P N" and p: "P p = Some c" "p \<notin> owned foot N"
  obtains s' where "free (W p) s = Some (0, s')" "fs_rel s' (P(p := None)) N" "quiet (heap_stable s (P(p := None))) s s'"
proof -
  from fs.own_free [OF R [unfolded fs_rel_def] p] obtain s' where
    s': "free (W p) s = Some (0, s')" "owns heap_objects mem node_ok foot s' (P(p := None)) N"
      "same_on (heap_stable s (P(p := None))) (mem s) (mem s')" by blast
  then show thesis using free_heap_frame [OF s'(1)] by (intro that [of s']) (simp_all add: fs_rel_def quiet_def)
qed

lemma fs_put:
  assumes "fs_rel s P N" "P p = Some c" "p \<notin> owned foot N" "same_on (- {p..<p + c}) (mem s) m"
  shows "fs_rel (s\<lparr>mem := m\<rparr>) P N"
  using fs.own_put [OF assms(1) [unfolded fs_rel_def] assms(2-4)] by (simp add: fs_rel_def)

lemma fs_add:
  assumes "fs_rel s P N" "node_ok (mem s) P a n" "foot a n \<inter> owned foot N = {}"
  shows "fs_rel s P (N(a \<mapsto> n))"
  using fs.own_add [OF assms(1) [unfolded fs_rel_def] assms(2,3)] by (simp add: fs_rel_def)

lemma fs_del: "fs_rel s P N \<Longrightarrow> fs_rel s P (N(a := None))"
  using fs.own_del unfolding fs_rel_def .

lemma fs_apart: "fs_rel s P N \<Longrightarrow> N a = Some n \<Longrightarrow> foot a n \<inter> owned foot (N(a := None)) = {}"
  unfolding fs_rel_def by (rule fs.own_apart)

lemma fs_objects_apart: "fs_rel s P N \<Longrightarrow> P p = Some c \<Longrightarrow> P q = Some d \<Longrightarrow> p \<noteq> q \<Longrightarrow> {p..<p + c} \<inter> {q..<q + d} = {}"
  using heap.objects_apart fs_relD(1) by blast

text \<open>Writes that stay inside one object keep the stable bytes of all others.\<close>

lemma fs_write_quiet:
  assumes R: "fs_rel s P N" and p: "P p = Some c" and S: "same_on (- {p..<p + c}) (mem s) m"
  shows "quiet (heap_stable s (P(p := None))) s (s\<lparr>mem := m\<rparr>)"
  by (rule quiet_put, rule same_on_subset [OF S]) (use heap.apart [OF fs_relD(1) [OF R] p] in blast)

lemma fs_strdup:
  fixes s :: "'a heap_state_scheme"
  assumes R: "fs_rel s P N" and c: "cstr (mem s) p nm" and rd: "readable (heap_stable s P) p (Suc (length nm))"
    and len: "length nm < 32759"
  obtains (fresh) q s' c where "strdup p s = Some (W q, s')" "W q \<noteq> 0" "0 < q" "P q = None" "q \<notin> owned foot N"
      "length nm < c" "fs_rel s' (P(q \<mapsto> c)) N" "str_obj (mem s') (P(q \<mapsto> c)) q nm" "quiet (heap_stable s P) s s'" "spends 1 s s'"
    | (null) "strdup p s = Some (0, s)" "\<not> room 1 s"
proof -
  have sl: "strlen_loop (mem s) p 0 = Some (W (length nm))" by (rule cstr_readable_strlen [OF c]) (use len in simp)
  have n1: "W (length nm) + 1 = W (Suc (length nm))" by simp
  have n: "0 < Suc (length nm)" "Suc (length nm) \<le> 32759" using len by simp_all
  have B: "spends 1 s t" "q = 0 \<Longrightarrow> \<not> room 1 s" if st: "strdup p s = Some (q, t)" for q t
  proof -
    obtain t' where t': "allocate (W (Suc (length nm))) s = Some (q, t')" "current_brk t = current_brk t'"
      using st by (auto simp: strdup_def sl n1 bind_eq_Some_conv Let_def split: if_splits simp del: of_nat_Suc)
    show "spends 1 s t" using allocate_room_cases(1) [OF fs_relD(1) [OF R] n t'(1)] t'(2) by (simp add: spends_def)
    show "\<not> room 1 s" if "q = 0" by (rule allocate_room_cases(2) [OF fs_relD(1) [OF R] n t'(1) that])
  qed
  from strdup_spec [OF fs_relD(1) [OF R] c rd len] show thesis
  proof (elim disjE exE conjE)
    fix q c s' assume a: "strdup p s = Some (W q, s')" "W q \<noteq> 0" "P q = None" "length nm < c"
      "heap_objects s' (P(q \<mapsto> c))" "cstr (mem s') (Mem (W q)) nm" "same_on (heap_stable s P) (mem s) (mem s')"
      "s' = s\<lparr>mem := mem s', current_brk := current_brk s'\<rparr>"
    have q: "q \<notin> owned foot N" "0 < q" using fs_owned_dom [OF R] a(2,3) by (auto intro: gr0I)
    have "owns heap_objects mem node_ok foot s' (P(q \<mapsto> c)) N"
      by (rule fs.owns_cong [OF R [unfolded fs_rel_def] a(5)])
        (use q same_on_subset [OF a(7) extent_heap_stable] in auto)
    then have R': "fs_rel s' (P(q \<mapsto> c)) N" by (simp add: fs_rel_def)
    have "heap_frame s s'" by (subst a(8)) (simp add: frame_simps)
    then have Q: "quiet (heap_stable s P) s s'" using a(7) by (simp add: quiet_def)
    have "obj (P(q \<mapsto> c)) q (length nm + 1)" by (rule fs_obj [OF R']) (use a(4) in auto)
    then show thesis using a q R' Q B(1) [OF a(1)] by (intro fresh [of q s' c]) (simp_all add: str_obj_def)
  next
    assume a: "strdup p s = Some (0, s)"
    show thesis by (rule null [OF a B(2) [OF a refl]])
  qed
qed

subsection \<open>The array of a directory\<close>

lemma array_copy:
  assumes R: "fs_rel s P N" and x: "obj P x (4 * n)" and y: "P y = Some c" "4 * n \<le> c" "x \<noteq> y" and n: "4 * n < 2 ^ 32"
  shows "memcpy (mem s) (W y) (Mem (W x)) (W n * SIZEOF_PTR) = wr_bytes (mem s) (W y) (rd_bytes (mem s) (W x) (4 * n))"
proof -
  obtain d where d: "P x = Some d" "4 * n \<le> d" "x + d \<le> 2 ^ 32" using x by (auto simp: obj_def)
  have "disj x (4 * n) y (4 * n) \<or> n = 0"
  proof (cases "n = 0")
    case False
    have "{x..<x + d} \<inter> {y..<y + c} = {}" by (rule fs_objects_apart [OF R d(1) y(1,3)])
    then have "x + d \<le> y \<or> y + c \<le> x \<or> d = 0 \<or> c = 0" by auto
    then show ?thesis using d y False by (auto simp: disj_def)
  qed simp
  moreover have "W n * SIZEOF_PTR = W (4 * n)" by simp
  moreover have "y + 4 * n \<le> 2 ^ 32" "x + 4 * n \<le> 2 ^ 32" using fs_range [OF R y(1)] y(2) d by simp_all
  ultimately show ?thesis using memcpy_disj [of y "4 * n" x "mem s"] n
    by (cases "n = 0") (simp add: memcpy_def rd_bytes_def, simp del: of_nat_mult)
qed

lemma same_on_wr_obj: "i + 4 \<le> c \<Longrightarrow> p + c \<le> 2 ^ 32 \<Longrightarrow>
    same_on (- {p..<p + c}) m (wr32 m (W (p + i)) v)"
  by (rule same_on_wr32) auto

text \<open>The copy of the old array, which is given back.\<close>

lemma copy_array:
  fixes s :: "'a fs_state_scheme"
  assumes R: "fs_rel s P N" and x: "array_obj (mem s) P x xs" "x \<noteq> 0" "x \<notin> owned foot N"
    and y: "P y = Some c" "4 * length xs \<le> c" "y \<notin> owned foot N" "y \<noteq> x" and len: "length xs < 2 ^ 29"
  obtains m s' where "memcpy (mem s) (W y) (Mem (W x)) (W (length xs) * SIZEOF_PTR) = m"
    "same_on (- {y..<y + c}) (mem s) m" "free (W x) (s\<lparr>mem := m\<rparr>) = Some (0, s')" "fs_rel s' (P(x := None)) N"
    "words_at (mem s') y (map W xs)" "quiet (heap_stable s (P(x := None, y := None))) s s'" "spends 0 s s'"
proof -
  have xo: "obj P x (4 * length xs)" "words_at (mem s) x (map W xs)" using x(1,2) by (simp_all add: array_obj_def)
  define m where "m = wr_bytes (mem s) (W y) (rd_bytes (mem s) (W x) (4 * length xs))"
  have m: "memcpy (mem s) (W y) (Mem (W x)) (W (length xs) * SIZEOF_PTR) = m"
    unfolding m_def by (rule array_copy [OF R xo(1) y(1,2) y(4) [symmetric]]) (use len in simp)
  have yr: "y + c \<le> 2 ^ 32" using fs_range [OF R y(1)] by simp
  have S: "same_on (- {y..<y + c}) (mem s) m"
    unfolding m_def by (rule same_on_wr_bytes) (use y(2) yr in auto)
  have "rd_bytes m (W y) (4 * length xs) = rd_bytes (mem s) (W x) (4 * length xs)"
    unfolding m_def by (rule rd_bytes_wr_bytes) (use len in simp_all)
  then have w: "words_at m y (map W xs)" by (rule words_at_rd_bytes [OF xo(2)]) simp
  have R1: "fs_rel (s\<lparr>mem := m\<rparr>) P N" by (rule fs_put [OF R y(1,3) S])
  obtain d where d: "P x = Some d" using xo(1) by (auto simp: obj_def)
  obtain s' where s': "free (W x) (s\<lparr>mem := m\<rparr>) = Some (0, s')" "fs_rel s' (P(x := None)) N"
    "quiet (heap_stable (s\<lparr>mem := m\<rparr>) (P(x := None))) (s\<lparr>mem := m\<rparr>) s'"
    by (rule fs_free [OF R1 d x(3)])
  have hs: "heap_stable (s\<lparr>mem := m\<rparr>) = heap_stable s" by (rule heap.stable_put)
  have "obj (P(x := None)) y (4 * length xs)" using fs_obj [OF s'(2), of y c] y by simp
  from obj_stable [OF this, of s] have "{y..<y + 4 * length xs} \<subseteq> heap_stable s (P(x := None))" .
  then have "words_at (mem s') y (map W xs)"
    by (intro words_at_same_on [OF w, of "heap_stable s (P(x := None))"])
      (use s'(3) y(2) yr in \<open>simp_all add: quiet_def hs\<close>)
  moreover have "quiet (heap_stable s (P(x := None, y := None))) s s'"
  proof (rule quiet_trans)
    show "quiet (heap_stable s (P(x := None, y := None))) s (s\<lparr>mem := m\<rparr>)"
      by (rule quiet_subset [OF fs_write_quiet [OF R y(1) S]], rule heap_stable_mono) (auto simp: map_le_def)
    show "quiet (heap_stable s (P(x := None, y := None))) (s\<lparr>mem := m\<rparr>) s'"
      by (rule quiet_subset [OF s'(3) [unfolded hs]], rule heap_stable_mono) (auto simp: map_le_def)
  qed
  moreover have "spends 0 s s'" using free_spends [OF fs_relD(1) [OF R1] d s'(1)] by simp
  ultimately show thesis using that m S s' by blast
qed

text \<open>The stores of \<open>add_entry\<close>.\<close>

lemma store_entry:
  fixes s :: "'a fs_state_scheme" and e :: nat
  assumes R: "fs_rel s P N" and d: "obj P d 24" "d \<notin> owned foot N" and ws: "words_at (mem s) d ws" "length ws = 6"
    and i: "i + 1 < 6" "ws ! (i + 1) = W n"
    and y: "P y = Some c" "4 * Suc n \<le> c" "y \<notin> owned foot N" "y \<noteq> d" and w: "words_at (mem s) y (map W xs)" "length xs = n"
  defines "m \<equiv> wr32 (wr32 (wr32 (mem s) (W (d + 4 * i)) (W y)) (W (d + 4 * (i + 1))) (W n + 1)) (W y + W n * SIZEOF_PTR) (W e)"
  shows "fs_rel (s\<lparr>mem := m\<rparr>) P N" "words_at m d (ws[i := W y, i + 1 := W (Suc n)])" "words_at m y (map W (xs @ [e]))"
    "quiet (heap_stable s (P(d := None, y := None))) s (s\<lparr>mem := m\<rparr>)"
proof -
  obtain cd where cd: "P d = Some cd" "24 \<le> cd" "d + cd \<le> 2 ^ 32" using d(1) by (auto simp: obj_def)
  have yr: "y + c \<le> 2 ^ 32" using fs_range [OF R y(1)] by simp
  define m1 where "m1 = wr32 (mem s) (W (d + 4 * i)) (W y)"
  define m2 where "m2 = wr32 m1 (W (d + 4 * (i + 1))) (W (Suc n))"
  have e: "W n + 1 = W (Suc n)" "W y + W n * SIZEOF_PTR = W (y + 4 * n)" by simp_all
  have m: "m = wr32 m2 (W (y + 4 * n)) (W e)" unfolding m_def m2_def m1_def e ..
  have S2: "same_on (- {d..<d + cd}) (mem s) m2"
  proof (rule same_on_trans)
    show "same_on (- {d..<d + cd}) (mem s) m1" unfolding m1_def
      by (rule same_on_wr_obj [OF _ cd(3)]) (use i(1) cd(2) in simp)
    show "same_on (- {d..<d + cd}) m1 m2" unfolding m2_def
      by (rule same_on_wr_obj [OF _ cd(3)]) (use i(1) cd(2) in simp)
  qed
  have S: "same_on (- {y..<y + c}) m2 m" unfolding m
    by (rule same_on_wr_obj [OF _ yr]) (use y(2) in simp)
  have R2: "fs_rel (s\<lparr>mem := m2\<rparr>) P N" by (rule fs_put [OF R cd(1) d(2) S2])
  have "fs_rel ((s\<lparr>mem := m2\<rparr>)\<lparr>mem := m\<rparr>) P N" by (rule fs_put [OF R2 y(1,3)]) (simp add: S)
  then show "fs_rel (s\<lparr>mem := m\<rparr>) P N" by simp
  have ap: "{d..<d + cd} \<inter> {y..<y + c} = {}" by (rule fs_objects_apart [OF R cd(1) y(1) y(4) [symmetric]])
  have "words_at m1 d (ws[i := W y])" unfolding m1_def by (rule words_at_wr32 [OF ws(1)]) (use ws(2) i(1) cd in simp_all)
  then have "words_at m2 d (ws[i := W y, i + 1 := W (Suc n)])" unfolding m2_def
    by (rule words_at_wr32) (use ws(2) i(1) cd in simp_all)
  then show "words_at m d (ws[i := W y, i + 1 := W (Suc n)])"
    by (rule words_at_same_on [OF _ S]) (use ap cd ws(2) in \<open>auto simp: disjoint_iff\<close>)
  have "words_at m2 y (map W xs)"
    by (rule words_at_same_on [OF w(1) S2]) (use ap y(2) yr w(2) in \<open>auto simp: disjoint_iff\<close>)
  then have "words_at m y (map W xs)"
    unfolding m by (rule words_at_same_on [OF _ same_on_wr32 [of _ "{y..<y + 4 * n}"]]) (use y(2) yr w(2) in auto)
  moreover have "rd32 m (W (y + 4 * n)) = W e" unfolding m by (rule rd32_wr32_same)
  ultimately show "words_at m y (map W (xs @ [e]))"
    using w(2) by (simp add: words_at_append words_at_Cons)
  have "same_on (heap_stable s (P(d := None, y := None))) (mem s) m"
  proof (rule same_on_trans)
    show "same_on (heap_stable s (P(d := None, y := None))) (mem s) m2"
      by (rule same_on_subset [OF S2]) (use heap.apart [OF fs_relD(1) [OF R] cd(1)]
        heap_stable_mono [of "P(d := None, y := None)" "P(d := None)" s] in \<open>auto simp: map_le_def\<close>)
    show "same_on (heap_stable s (P(d := None, y := None))) m2 m"
      by (rule same_on_subset [OF S]) (use heap.apart [OF fs_relD(1) [OF R] y(1)]
        heap_stable_mono [of "P(d := None, y := None)" "P(y := None)" s] in \<open>auto simp: map_le_def\<close>)
  qed
  then show "quiet (heap_stable s (P(d := None, y := None))) s (s\<lparr>mem := m\<rparr>)" by (rule quiet_put)
qed

lemma add_entry_spec:
  fixes s :: "'a fs_state_scheme"
  assumes R: "fs_rel s P N" and d: "obj P d 24" "d \<notin> owned foot N" and ws: "words_at (mem s) d ws" "length ws = 6"
    and i: "i + 1 < 6" "ws ! i = W x" "ws ! (i + 1) = W (length xs)"
    and x: "array_obj (mem s) P x xs" "x \<noteq> d" "x \<notin> owned foot N"
    and y: "P y = Some c" "4 * Suc (length xs) \<le> c" "y \<notin> owned foot N" "y \<noteq> d" "y \<noteq> x"
    and len: "length xs < 2 ^ 29"
  obtains s' where "add_entry (W (4 * i)) (W d) (W y) (W e) s = Some s'" "fs_rel s' (P(x := None)) N"
    "words_at (mem s') d (ws[i := W y, i + 1 := W (Suc (length xs))])" "array_obj (mem s') (P(x := None)) y (xs @ [e])"
    "quiet (heap_stable s (P(d := None, x := None, y := None))) s s'" "spends 0 s s'"
proof -
  obtain cd where cd: "P d = Some cd" "24 \<le> cd" "d + cd \<le> 2 ^ 32" using d(1) by (auto simp: obj_def)
  have A: "W d + W (4 * i) = W (d + 4 * i)" "W (d + 4 * i) + 4 = W (d + 4 * (i + 1))" by simp_all
  have F: "rd32 (mem s) (W (d + 4 * i)) = W x" "rd32 (mem s) (W (d + 4 * (i + 1))) = W (length xs)"
    using words_atD [OF ws(1), of i] words_atD [OF ws(1), of "i + 1"] i ws(2) by simp_all
  have copied: "\<exists>s1. (if W x \<noteq> 0 then do {
        let m = memcpy (mem s) (W y) (Mem (W x)) (W (length xs) * SIZEOF_PTR);
        let old_arr = rd32 m (W (d + 4 * i));
        (_, s) \<leftarrow> free old_arr (s\<lparr>mem := m\<rparr>);
        Some s } else Some s) = Some s1 \<and> fs_rel s1 (P(x := None)) N \<and> words_at (mem s1) y (map W xs) \<and>
      quiet (heap_stable s (P(x := None, y := None))) s s1 \<and> spends 0 s s1"
  proof (cases "x = 0")
    case True
    then have "xs = []" using x(1) by (simp add: array_obj_def)
    moreover have "P(x := None) = P" using True fs_zero [OF R] by (simp add: fun_upd_idem)
    ultimately show ?thesis using True R by simp
  next
    case False
    obtain m s1 where m: "memcpy (mem s) (W y) (Mem (W x)) (W (length xs) * SIZEOF_PTR) = m"
      "same_on (- {y..<y + c}) (mem s) m" "free (W x) (s\<lparr>mem := m\<rparr>) = Some (0, s1)" "fs_rel s1 (P(x := None)) N"
      "words_at (mem s1) y (map W xs)" "quiet (heap_stable s (P(x := None, y := None))) s s1" "spends 0 s s1"
      by (rule copy_array [OF R x(1) False x(3) y(1) _ y(3,5) len]) (use y(2) in simp)
    have "{d..<d + cd} \<inter> {y..<y + c} = {}" by (rule fs_objects_apart [OF R cd(1) y(1) y(4) [symmetric]])
    then have "words_at m d ws"
      by (intro words_at_same_on [OF ws(1) m(2)]) (use ws(2) cd in \<open>auto simp: disjoint_iff\<close>)
    then have "rd32 m (W (d + 4 * i)) = W x" using words_atD [of m d ws i] i ws(2) by simp
    moreover have "W x \<noteq> 0"
    proof -
      have "xs \<noteq> []" "x + 4 * length xs \<le> 2 ^ 32" using False x(1) objD [of P x "4 * length xs"] by (simp_all add: array_obj_def)
      then have "x < 2 ^ 32" by (cases xs) simp_all
      then show ?thesis using False of_nat_u32_eq [of x 0] by simp
    qed
    ultimately show ?thesis using m by simp
  qed
  then obtain s1 where s1: "fs_rel s1 (P(x := None)) N" "words_at (mem s1) y (map W xs)"
    "quiet (heap_stable s (P(x := None, y := None))) s s1" "spends 0 s s1" and run1: "(if W x \<noteq> 0 then do {
        let m = memcpy (mem s) (W y) (Mem (W x)) (W (length xs) * SIZEOF_PTR);
        let old_arr = rd32 m (W (d + 4 * i));
        (_, s) \<leftarrow> free old_arr (s\<lparr>mem := m\<rparr>);
        Some s } else Some s) = Some s1" by blast
  let ?P = "P(x := None)"
  have d': "obj ?P d 24" using d(1) x(2) by (simp add: obj_def)
  have y': "?P y = Some c" using y(1,5) by simp
  have "obj (P(x := None, y := None)) d 24" using d' y(4) by (simp add: obj_def)
  from obj_stable [OF this, of s] have "words_at (mem s1) d ws"
    by (intro words_at_same_on [OF ws(1), of "heap_stable s (P(x := None, y := None))"])
      (use s1(3) ws(2) cd in \<open>simp_all add: quiet_def\<close>)
  note T = store_entry [where P = "P(x := None)", OF s1(1) d' d(2) this ws(2) i(1,3) y' y(2,3,4) s1(2) refl, of e]
  let ?s = "s1\<lparr>mem := wr32 (wr32 (wr32 (mem s1) (W (d + 4 * i)) (W y)) (W (d + 4 * (i + 1))) (W (length xs) + 1))
      (W y + W (length xs) * SIZEOF_PTR) (W e)\<rparr>"
  have G: "rd32 (wr32 (mem s1) (W (d + 4 * i)) (W y)) (W (d + 4 * (i + 1))) = W (length xs)"
    "rd32 (wr32 (wr32 (mem s1) (W (d + 4 * i)) (W y)) (W (d + 4 * (i + 1))) (W (length xs) + 1)) (W (d + 4 * i)) = W y"
  proof -
    have w: "words_at (mem s1) d ws" by fact
    have "rd32 (mem s1) (W (d + 4 * (i + 1))) = W (length xs)"
      using words_atD [OF w, of "i + 1"] i(1,3) ws(2) by simp
    then show "rd32 (wr32 (mem s1) (W (d + 4 * i)) (W y)) (W (d + 4 * (i + 1))) = W (length xs)"
      using i(1) cd rd32_wr32_disj [of "d + 4 * i" "d + 4 * (i + 1)" "mem s1" "W y"] by (simp add: disj_def)
    show "rd32 (wr32 (wr32 (mem s1) (W (d + 4 * i)) (W y)) (W (d + 4 * (i + 1))) (W (length xs) + 1)) (W (d + 4 * i)) = W y"
      using i(1) cd rd32_wr32_disj [of "d + 4 * (i + 1)" "d + 4 * i" "wr32 (mem s1) (W (d + 4 * i)) (W y)" "W (length xs) + 1"]
      by (simp add: disj_def rd32_wr32_same)
  qed
  have "add_entry (W (4 * i)) (W d) (W y) (W e) s = Some ?s"
    unfolding add_entry_def A F run1 using G by (simp add: Let_def del: of_nat_add of_nat_mult)
  moreover have "quiet (heap_stable s (P(d := None, x := None, y := None))) s ?s"
  proof (rule quiet_trans)
    show "quiet (heap_stable s (P(d := None, x := None, y := None))) s s1"
      by (rule quiet_subset [OF s1(3)], rule heap_stable_mono) (auto simp: map_le_def)
    show "quiet (heap_stable s (P(d := None, x := None, y := None))) s1 ?s"
      by (rule quiet_subset [OF T(4)], unfold quiet_stable [OF s1(3)], rule heap_stable_mono) (auto simp: map_le_def)
  qed
  moreover have "array_obj (mem ?s) ?P y (xs @ [e])"
  proof -
    have "0 < y" using fs_range [OF R y(1)] by simp
    moreover have "obj ?P y (4 * length (xs @ [e]))" by (rule fs_obj [OF s1(1) y']) (use y(2) in simp)
    ultimately show ?thesis using T(3) by (simp add: array_obj_def)
  qed
  moreover have "mem ?s = wr32 (wr32 (wr32 (mem s1) (W (d + 4 * i)) (W y)) (W (d + 4 * (i + 1))) (W (length xs) + 1))
      (W y + W (length xs) * SIZEOF_PTR) (W e)" by simp
  moreover have "spends 0 s ?s" using s1(4) by simp
  ultimately show thesis using T(1,2) by (intro that [of ?s]) simp_all
qed

end
