(* ===== verification/FsDir.thy ===== *)
theory FsDir
  imports FsSteps
begin

section \<open>FsDir: creating files and directories\<close>

subsection \<open>Adding to a directory\<close>

text \<open>
  The objects that no node owns, as a process's stack, stay where they are when the nodes
  change: only objects of the old nodes and free ones may become part of the new nodes.
\<close>

definition apart_kept :: "(nat \<rightharpoonup> nat) \<Rightarrow> (nat \<rightharpoonup> node) \<Rightarrow> (nat \<rightharpoonup> nat) \<Rightarrow> (nat \<rightharpoonup> node) \<Rightarrow> bool" where
  "apart_kept P N P' N' \<longleftrightarrow> (\<forall>p. P p \<noteq> None \<longrightarrow> p \<notin> owned foot N \<longrightarrow> P' p = P p \<and> p \<notin> owned foot N')"

lemma apart_kept_refl [simp]: "apart_kept P N P N"
  by (simp add: apart_kept_def)

lemma apart_keptI:
  "(\<And>p. P p \<noteq> None \<Longrightarrow> p \<notin> owned foot N \<Longrightarrow> P' p = P p) \<Longrightarrow> owned foot N' \<subseteq> owned foot N \<union> {p. P p = None} \<Longrightarrow>
     apart_kept P N P' N'"
  by (auto simp: apart_kept_def)

lemma owned_one: "foot a n \<subseteq> A \<Longrightarrow> owned foot (N(a \<mapsto> n)) \<subseteq> owned foot N \<union> A"
  using owned_del [of foot N a] unfolding owned_upd by blast

lemma owned_two:
  "foot a n \<subseteq> A \<Longrightarrow> foot b k \<subseteq> owned foot N \<union> A \<Longrightarrow> owned foot (N(a \<mapsto> n, b \<mapsto> k)) \<subseteq> owned foot N \<union> A"
  using owned_one [of a n A N] owned_one [of b k "owned foot N \<union> A" "N(a \<mapsto> n)"] by blast

lemma dir_owned:
  assumes "N d = Some (Dir np nm par fa fs da ds)"
  shows "fa \<noteq> 0 \<Longrightarrow> fa \<in> owned foot N" "da \<noteq> 0 \<Longrightarrow> da \<in> owned foot N"
  using in_owned [where foot = foot and N = N and a = d, OF assms] by auto

text \<open>A node and an entry of its directory are added, or removed; the arrays are old or new.\<close>

lemma apart_dir:
  assumes D: "N d = Some (Dir np nm par fa fs da ds)"
    and P: "\<And>p. P p \<noteq> None \<Longrightarrow> p \<notin> owned foot N \<Longrightarrow> P' p = P p"
    and yz: "\<And>p. p \<in> {y, z} \<Longrightarrow> p = 0 \<or> p \<in> owned foot N \<or> P p = None"
  shows "(\<And>p. p \<in> foot f n \<Longrightarrow> P p = None) \<Longrightarrow> apart_kept P N P' (N(f \<mapsto> n, d \<mapsto> Dir np nm par y xs z zs))"
    and "apart_kept P N P' (N(f := None, d \<mapsto> Dir np nm par y xs z zs))"
proof -
  have "foot d (Dir np nm par y xs z zs) \<subseteq> foot d (Dir np nm par fa fs da ds) \<union> ({y, z} - {0})" by auto
  also have "\<dots> \<subseteq> owned foot N \<union> {p. P p = None}"
    using in_owned [where foot = foot and N = N and a = d, OF D] yz [of y] yz [of z] by auto
  finally have d: "foot d (Dir np nm par y xs z zs) \<subseteq> owned foot N \<union> {p. P p = None}" .
  show "apart_kept P N P' (N(f \<mapsto> n, d \<mapsto> Dir np nm par y xs z zs))" if n: "\<And>p. p \<in> foot f n \<Longrightarrow> P p = None"
  proof (rule apart_keptI [OF P])
    have "foot f n \<subseteq> {p. P p = None}" using n by blast
    then show "owned foot (N(f \<mapsto> n, d \<mapsto> Dir np nm par y xs z zs)) \<subseteq> owned foot N \<union> {p. P p = None}"
      using d by (rule owned_two)
  qed
  show "apart_kept P N P' (N(f := None, d \<mapsto> Dir np nm par y xs z zs))"
  proof (rule apart_keptI [OF P])
    show "owned foot (N(f := None, d \<mapsto> Dir np nm par y xs z zs)) \<subseteq> owned foot N \<union> {p. P p = None}"
      using owned_del [of foot N f] owned_one [OF d, of "N(f := None)"] by blast
  qed
qed

lemma dir_node:
  assumes R: "fs_rel s P N" and D: "N d = Some (Dir np nm par fa fs da ds)"
  shows "obj P d 24" "words_at (mem s) d [W np, W par, W fa, W (length fs), W da, W (length ds)]"
    "str_obj (mem s) P np nm" "array_obj (mem s) P fa fs" "array_obj (mem s) P da ds"
    "distinct [d, np, fa]" "distinct [d, np, da]" "fa = da \<longrightarrow> fa = 0"
    "d \<notin> owned foot (N(d := None))" "np \<notin> owned foot (N(d := None))"
    "fa \<noteq> 0 \<Longrightarrow> fa \<notin> owned foot (N(d := None))" "da \<noteq> 0 \<Longrightarrow> da \<notin> owned foot (N(d := None))"
proof -
  show "obj P d 24" "words_at (mem s) d [W np, W par, W fa, W (length fs), W da, W (length ds)]"
    "str_obj (mem s) P np nm" "array_obj (mem s) P fa fs" "array_obj (mem s) P da ds"
    "distinct [d, np, fa]" "distinct [d, np, da]" "fa = da \<longrightarrow> fa = 0"
    using fs_relD(2) [OF R D] by auto
  show "d \<notin> owned foot (N(d := None))" "np \<notin> owned foot (N(d := None))"
    "fa \<noteq> 0 \<Longrightarrow> fa \<notin> owned foot (N(d := None))" "da \<noteq> 0 \<Longrightarrow> da \<notin> owned foot (N(d := None))"
    using fs_apart [OF R D] by auto
qed

lemma not_owned_0: "fs_rel s P N \<Longrightarrow> 0 \<notin> owned foot N"
  using fs_owned_dom [of s P N] fs_zero [of s P N] by blast

text \<open>What the operation leaves of the directory's other objects.\<close>

lemma str_obj_quiet:
  assumes "str_obj m P p nm" "same_on (heap_stable s P') m m'" "P' p = P p"
  shows "str_obj m' P' p nm"
proof (rule str_obj_cong [where A = "{p}" and P = P and P' = P', OF assms(1,3)])
  have "extent P {p} = extent P' {p}" using assms(3) by (simp add: extent_def)
  then show "same_on (extent P {p}) m m'" using same_on_subset [OF assms(2) extent_heap_stable [of P' "{p}"]] by simp
qed simp

lemma array_obj_quiet:
  assumes "array_obj m P p xs" "same_on (heap_stable s P') m m'" "p \<noteq> 0 \<Longrightarrow> P' p = P p"
  shows "array_obj m' P' p xs"
proof (cases "p = 0")
  case False
  show ?thesis
  proof (rule array_obj_cong [where A = "{p}" and P = P and P' = P', OF assms(1,3)])
    have "extent P {p} = extent P' {p}" using assms(3) False by (simp add: extent_def)
    then show "same_on (extent P {p}) m m'" using same_on_subset [OF assms(2) extent_heap_stable [of P' "{p}"]] by simp
  qed simp_all
qed (use assms(1) in \<open>simp add: array_obj_def\<close>)

lemma str_obj_cong_P: "str_obj m P p nm \<Longrightarrow> P' p = P p \<Longrightarrow> str_obj m P' p nm"
  by (simp add: str_obj_def obj_def)

lemma array_obj_cong_P: "array_obj m P p xs \<Longrightarrow> (p \<noteq> 0 \<Longrightarrow> P' p = P p) \<Longrightarrow> array_obj m P' p xs"
  by (cases "p = 0") (simp_all add: array_obj_def obj_def)

lemma add_file:
  fixes s :: "'a fs_state_scheme"
  assumes R: "fs_rel s P N" and D: "N d = Some (Dir np nm par fa fs da ds)"
    and y: "P y = Some c" "4 * Suc (length fs) \<le> c" "y \<notin> owned foot N" and len: "length fs < 2 ^ 29"
  obtains s' where "add_entry 8 (W d) (W y) (W e) s = Some s'"
    "fs_rel s' (P(fa := None)) (N(d \<mapsto> Dir np nm par y (fs @ [e]) da ds))"
    "quiet (heap_stable s (P(d := None, fa := None, y := None))) s s'" "spends 0 s s'"
proof -
  note h = dir_node [OF R D]
  have R': "fs_rel s P (N(d := None))" by (rule fs_del [OF R])
  have own: "foot d (Dir np nm par fa fs da ds) \<subseteq> owned foot N" by (rule in_owned, rule D)
  then have ne: "y \<noteq> d" "y \<noteq> np" "y \<noteq> fa \<or> fa = 0" "y \<noteq> da \<or> da = 0" "y \<notin> owned foot (N(d := None))"
    using y(3) owned_del [of foot N d] by auto
  have y0: "y \<noteq> 0" using fs_range [OF R y(1)] by simp
  have fa: "fa \<notin> owned foot (N(d := None))" using h(11) not_owned_0 [OF R'] by (cases "fa = 0") auto
  obtain s' where s': "add_entry (W (4 * 2)) (W d) (W y) (W e) s = Some s'" "fs_rel s' (P(fa := None)) (N(d := None))"
    "words_at (mem s') d ([W np, W par, W fa, W (length fs), W da, W (length ds)][2 := W y, 2 + 1 := W (Suc (length fs))])"
    "array_obj (mem s') (P(fa := None)) y (fs @ [e])" "quiet (heap_stable s (P(d := None, fa := None, y := None))) s s'"
    "spends 0 s s'"
    by (rule add_entry_spec [where i = 2 and e = e, OF R' h(1,9,2) _ _ _ _ h(4) _ fa y(1,2) ne(5,1) _ len])
      (use h(6) ne(3) y0 in auto)
  let ?P = "P(d := None, fa := None, y := None)"
  have S: "same_on (heap_stable s ?P) (mem s) (mem s')" using s'(5) by (simp add: quiet_def)
  have "str_obj (mem s') ?P np nm" by (rule str_obj_quiet [OF h(3) S]) (use h(6) ne in auto)
  then have n: "str_obj (mem s') (P(fa := None)) np nm" by (rule str_obj_cong_P) (use h(6) ne in auto)
  have "array_obj (mem s') ?P da ds" by (rule array_obj_quiet [OF h(5) S]) (use h(7,8) ne in auto)
  then have a: "array_obj (mem s') (P(fa := None)) da ds" by (rule array_obj_cong_P) (use h(7) ne in auto)
  have "obj (P(fa := None)) d 24" using h(1,6) by (simp add: obj_def)
  then have "node_ok (mem s') (P(fa := None)) d (Dir np nm par y (fs @ [e]) da ds)"
    using s'(3,4) n a h(6,7) ne y0 by (auto simp: numeral_2_eq_2)
  from fs_add [OF s'(2) this] have "fs_rel s' (P(fa := None)) ((N(d := None))(d \<mapsto> Dir np nm par y (fs @ [e]) da ds))"
    using h(9,10,12) ne(5) by auto
  with s'(1,5,6) that show thesis by simp
qed

lemma add_subdir:
  fixes s :: "'a fs_state_scheme"
  assumes R: "fs_rel s P N" and D: "N d = Some (Dir np nm par fa fs da ds)"
    and y: "P y = Some c" "4 * Suc (length ds) \<le> c" "y \<notin> owned foot N" and len: "length ds < 2 ^ 29"
  obtains s' where "add_entry 16 (W d) (W y) (W e) s = Some s'"
    "fs_rel s' (P(da := None)) (N(d \<mapsto> Dir np nm par fa fs y (ds @ [e])))"
    "quiet (heap_stable s (P(d := None, da := None, y := None))) s s'" "spends 0 s s'"
proof -
  note h = dir_node [OF R D]
  have R': "fs_rel s P (N(d := None))" by (rule fs_del [OF R])
  have own: "foot d (Dir np nm par fa fs da ds) \<subseteq> owned foot N" by (rule in_owned, rule D)
  then have ne: "y \<noteq> d" "y \<noteq> np" "y \<noteq> fa \<or> fa = 0" "y \<noteq> da \<or> da = 0" "y \<notin> owned foot (N(d := None))"
    using y(3) owned_del [of foot N d] by auto
  have y0: "y \<noteq> 0" using fs_range [OF R y(1)] by simp
  have da: "da \<notin> owned foot (N(d := None))" using h(12) not_owned_0 [OF R'] by (cases "da = 0") auto
  obtain s' where s': "add_entry (W (4 * 4)) (W d) (W y) (W e) s = Some s'" "fs_rel s' (P(da := None)) (N(d := None))"
    "words_at (mem s') d ([W np, W par, W fa, W (length fs), W da, W (length ds)][4 := W y, 4 + 1 := W (Suc (length ds))])"
    "array_obj (mem s') (P(da := None)) y (ds @ [e])" "quiet (heap_stable s (P(d := None, da := None, y := None))) s s'"
    "spends 0 s s'"
    by (rule add_entry_spec [where i = 4 and e = e, OF R' h(1,9,2) _ _ _ _ h(5) _ da y(1,2) ne(5,1) _ len])
      (use h(7) ne(4) y0 in auto)
  let ?P = "P(d := None, da := None, y := None)"
  have S: "same_on (heap_stable s ?P) (mem s) (mem s')" using s'(5) by (simp add: quiet_def)
  have "str_obj (mem s') ?P np nm" by (rule str_obj_quiet [OF h(3) S]) (use h(7) ne in auto)
  then have n: "str_obj (mem s') (P(da := None)) np nm" by (rule str_obj_cong_P) (use h(7) ne in auto)
  have "array_obj (mem s') ?P fa fs" by (rule array_obj_quiet [OF h(4) S]) (use h(6,8) ne in auto)
  then have a: "array_obj (mem s') (P(da := None)) fa fs" by (rule array_obj_cong_P) (use h(6,8) ne in auto)
  have "obj (P(da := None)) d 24" using h(1,7) by (simp add: obj_def)
  then have "node_ok (mem s') (P(da := None)) d (Dir np nm par fa fs y (ds @ [e]))"
    using s'(3,4) n a h(6,7) ne y0 by (auto simp: eval_nat_numeral)
  from fs_add [OF s'(2) this] have "fs_rel s' (P(da := None)) ((N(d := None))(d \<mapsto> Dir np nm par fa fs y (ds @ [e])))"
    using h(9,10,11) ne(5) by auto
  with s'(1,5,6) that show thesis by simp
qed

subsection \<open>Fields\<close>

lemma words_6: "words_at m a [w0, w1, w2, w3, w4, w5] \<Longrightarrow> rd32 m (W a) = w0 \<and> rd32 m (W a + 4) = w1 \<and>
    rd32 m (W a + 8) = w2 \<and> rd32 m (W a + 12) = w3 \<and> rd32 m (W a + 16) = w4 \<and> rd32 m (W a + 20) = w5"
  by (simp add: words_at_Cons add.assoc)

lemma words_3: "words_at m a [w0, w1, w2] \<Longrightarrow> rd32 m (W a) = w0 \<and> rd32 m (W a + 4) = w1 \<and> rd32 m (W a + 8) = w2"
  by (simp add: words_at_Cons add.assoc)

lemma words_4: "words_at m a [w0, w1, w2, w3] \<Longrightarrow> rd32 m (W a) = w0 \<and> rd32 m (W a + 4) = w1 \<and>
    rd32 m (W a + 8) = w2 \<and> rd32 m (W a + 12) = w3"
  by (simp add: words_at_Cons add.assoc)

lemma dir_fields:
  assumes "node_ok m P d (Dir np nm par fa fs da ds)"
  shows "dir_name m (W d) = W np" "dir_parent m (W d) = W par" "dir_files m (W d) = W fa"
    "file_count m (W d) = W (length fs)" "dir_subdirs m (W d) = W da" "subdir_count m (W d) = W (length ds)"
  using words_6 [of m d "W np" "W par" "W fa" "W (length fs)" "W da" "W (length ds)"] assms
  by (simp_all add: dir_name_def dir_parent_def dir_files_def file_count_def dir_subdirs_def subdir_count_def)

lemma file_fields:
  assumes "node_ok m P f (File np nm dp bs)"
  shows "file_name m (W f) = W np" "file_data m (W f) = W dp" "file_size m (W f) = W (length bs)"
  using words_3 [of m f "W np" "W dp" "W (length bs)"] assms
  by (simp_all add: file_name_def file_data_def file_size_def)

lemma fd_fields:
  assumes "node_ok m P e (Fd n f p fl)"
  shows "fd_file m (W e) = W f" "fd_position m (W e) = W p" "fd_flags m (W e) = fl"
  using words_4 [of m e "W n" "W f" "W p" fl] assms
  by (simp_all add: fd_file_def fd_position_def fd_flags_def)

subsection \<open>Creating a file\<close>

text \<open>Giving back the three objects of a file that no node owns.\<close>

lemma free_file:
  fixes s :: "'a fs_state_scheme"
  assumes R: "fs_rel s P N" and n: "node_ok (mem s) P f (File np nm dp bs)" "foot f (File np nm dp bs) \<inter> owned foot N = {}"
  obtains s1 s2 s3 where "free (W dp) s = Some (0, s1)" "free (W np) s1 = Some (0, s2)" "free (W f) s2 = Some (0, s3)"
    "file_name (mem s1) (W f) = W np" "fs_rel s3 (P(dp := None, np := None, f := None)) N"
    "quiet (heap_stable s (P(dp := None, np := None, f := None))) s s3"
proof -
  from n have o: "obj P f 12" "obj P np (length nm + 1)" "obj P dp (length bs)" "f \<noteq> np" "f \<noteq> dp" "np \<noteq> dp"
    and w: "words_at (mem s) f [W np, W dp, W (length bs)]"
    and own: "f \<notin> owned foot N" "np \<notin> owned foot N" "dp \<notin> owned foot N" by (auto simp: str_obj_def)
  obtain cf cn cd where c: "P f = Some cf" "P np = Some cn" "P dp = Some cd" using o by (auto simp: obj_def)
  obtain s1 where s1: "free (W dp) s = Some (0, s1)" "fs_rel s1 (P(dp := None)) N" "quiet (heap_stable s (P(dp := None))) s s1"
    by (rule fs_free [OF R c(3) own(3)])
  obtain s2 where s2: "free (W np) s1 = Some (0, s2)" "fs_rel s2 (P(dp := None, np := None)) N"
    "quiet (heap_stable s1 (P(dp := None, np := None))) s1 s2"
    by (rule fs_free [OF s1(2) _ own(2), of cn]) (use c o in auto)
  obtain s3 where s3: "free (W f) s2 = Some (0, s3)" "fs_rel s3 (P(dp := None, np := None, f := None)) N"
    "quiet (heap_stable s2 (P(dp := None, np := None, f := None))) s2 s3"
    by (rule fs_free [OF s2(2) _ own(1), of cf]) (use c o in auto)
  have "obj (P(dp := None)) f 12" using o by (simp add: obj_def)
  then have "words_at (mem s1) f [W np, W dp, W (length bs)]"
    using s1(3) objD [OF o(1)] obj_stable [of "P(dp := None)" f 12 s]
    by (intro words_at_same_on [OF w, of "heap_stable s (P(dp := None))"]) (simp_all add: quiet_def)
  from words_3 [OF this] have "file_name (mem s1) (W f) = W np" by (simp add: file_name_def)
  moreover have "quiet (heap_stable s (P(dp := None, np := None, f := None))) s s3"
  proof (rule quiet_trans [OF quiet_trans])
    show "quiet (heap_stable s (P(dp := None, np := None, f := None))) s s1"
      by (rule quiet_subset [OF s1(3) heap_stable_mono]) (auto simp: map_le_def)
    show "quiet (heap_stable s (P(dp := None, np := None, f := None))) s1 s2"
      by (rule quiet_subset [OF s2(3)], unfold quiet_stable [OF s1(3)], rule heap_stable_mono) (auto simp: map_le_def)
    show "quiet (heap_stable s (P(dp := None, np := None, f := None))) s2 s3"
      using s3(3) unfolding quiet_stable [OF s2(3)] quiet_stable [OF s1(3)] .
  qed
  ultimately show thesis using that s1(1) s2(1) s3(1,2) by blast
qed

lemma create_file_link_spec:
  fixes s :: "'a fs_state_scheme"
  assumes R: "fs_rel s P N" and D: "N d = Some (Dir np nm par fa fs da ds)"
    and n: "node_ok (mem s) P f (File fnp fnm dp bs)" "foot f (File fnp fnm dp bs) \<inter> owned foot N = {}"
    and len: "4 * Suc (length fs) \<le> 32759"
  obtains (created) y c s' where "create_file_link (W d) (W f) s = Some (W f, s')" "P y = None"
      "fs_rel s' (P(y \<mapsto> c, fa := None))
        (N(f \<mapsto> File fnp fnm dp bs, d \<mapsto> Dir np nm par y (fs @ [f]) da ds))"
      "quiet (heap_stable s (P(d := None, fa := None))) s s'" "spends 1 s s'"
    | (failed) s' where "create_file_link (W d) (W f) s = Some (0, s')"
      "fs_rel s' (P(dp := None, fnp := None, f := None)) N"
      "quiet (heap_stable s (P(dp := None, fnp := None, f := None))) s s'" "\<not> room 1 s"
proof -
  have n4: "(file_count (mem s) (W d) + 1) * SIZEOF_PTR = W (4 * Suc (length fs))"
    using dir_fields(4) [OF fs_relD(2) [OF R D]] by simp
  have "0 < 4 * Suc (length fs)" by simp
  then show thesis
  proof (rule fs_alloc [OF R _ len])
    assume a: "allocate (W (4 * Suc (length fs))) s = Some (0, s)" "\<not> room 1 s"
    obtain s1 s2 s3 where f: "free (W dp) s = Some (0, s1)" "free (W fnp) s1 = Some (0, s2)" "free (W f) s2 = Some (0, s3)"
      "file_name (mem s1) (W f) = W fnp" "fs_rel s3 (P(dp := None, fnp := None, f := None)) N"
      "quiet (heap_stable s (P(dp := None, fnp := None, f := None))) s s3"
      by (rule free_file [OF R n])
    have "create_file_link (W d) (W f) s = Some (0, s3)"
      unfolding create_file_link_def n4 using a(1) f(1-4) file_fields(2) [OF n(1)] by (simp del: of_nat_mult)
    then show thesis using failed f(5,6) a(2) by blast
  next
    fix y c s1
    assume a: "allocate (W (4 * Suc (length fs))) s = Some (W y, s1)" "W y \<noteq> 0" "0 < y" "P y = None" "y \<notin> owned foot N"
      "4 * Suc (length fs) \<le> c" "fs_rel s1 (P(y \<mapsto> c)) N" "quiet (heap_stable s P) s s1" "spends 1 s s1"
    let ?F = "File fnp fnm dp bs" and ?P = "P(y \<mapsto> c)"
    have yf: "y \<notin> foot f ?F" using node_ok_foot [OF n(1)] a(4) by blast
    have "node_ok (mem s1) ?P f ?F"
    proof (rule node_ok_cong [OF n(1)])
      show "same_on (extent P (foot f ?F)) (mem s) (mem s1)"
        using a(8) same_on_subset [OF _ extent_heap_stable] by (auto simp: quiet_def)
    qed (use yf in auto)
    from fs_add [OF a(7) this n(2)] have R1: "fs_rel s1 ?P (N(f \<mapsto> ?F))" .
    have df: "d \<noteq> f" using n(2) in_owned [of N d _ foot] D by force
    then have D1: "(N(f \<mapsto> ?F)) d = Some (Dir np nm par fa fs da ds)" using D by simp
    have yo: "y \<notin> owned foot (N(f \<mapsto> ?F))" using yf a(5) owned_del [of foot N f] unfolding owned_upd by blast
    obtain s' where s': "add_entry 8 (W d) (W y) (W f) s1 = Some s'"
      "fs_rel s' (?P(fa := None)) (N(f \<mapsto> ?F, d \<mapsto> Dir np nm par y (fs @ [f]) da ds))"
      "quiet (heap_stable s1 (?P(d := None, fa := None, y := None))) s1 s'" "spends 0 s1 s'"
      by (rule add_file [OF R1 D1 _ a(6) yo]) (use len in simp_all)
    have "create_file_link (W d) (W f) s = Some (W f, s')"
      unfolding create_file_link_def n4 using a(1,2) s'(1) by (simp del: of_nat_mult)
    moreover have "quiet (heap_stable s (P(d := None, fa := None))) s s'"
    proof (rule quiet_trans)
      show "quiet (heap_stable s (P(d := None, fa := None))) s s1"
        by (rule quiet_subset [OF a(8) heap_stable_mono]) (auto simp: map_le_def)
      show "quiet (heap_stable s (P(d := None, fa := None))) s1 s'"
        by (rule quiet_subset [OF s'(3)], unfold quiet_stable [OF a(8)], rule heap_stable_mono) (use a(4) in \<open>auto simp: map_le_def\<close>)
    qed
    moreover have "spends 1 s s'" by (rule spends_trans [OF a(9) s'(4)]) simp
    ultimately show thesis using created a(4) s'(2) by blast
  qed
qed

text \<open>Copying readable bytes into an object.\<close>

lemma rd_chars_same_on: "same_on A m m' \<Longrightarrow> readable A p n \<Longrightarrow> rd_chars m' p n = rd_chars m p n"
  by (rule rd_chars_cong) (rule ld_same_on)

lemma memcpy_readable:
  assumes rd: "readable A p n" and q: "A \<inter> {q..<q + c} = {}" "n \<le> c" "q + c \<le> 2 ^ 32" "n < 2 ^ 32"
  shows "memcpy m (W q) p (W n) = wr_bytes m (W q) (rd_chars m p n)"
proof -
  have "padd p i \<noteq> Mem (W q + W j)" if "j < i" "i < n" for i j
  proof (cases p)
    case (Mem a)
    have a: "unat a + i \<in> A" "unat a + i < 2 ^ 32" using rd that Mem by (auto simp: subset_eq)
    have "q + j \<notin> A" "q + j < 2 ^ 32" using q that by (auto simp: disjoint_iff)
    then have "W (unat a + i) \<noteq> W (q + j)" using a of_nat_u32_eq by metis
    then show ?thesis using Mem by simp
  qed simp
  then show ?thesis using q(4) memcpy_wr_bytes [of "W n" p "W q" m] by (simp add: unat_of_nat_u32)
qed

lemma readable_mono: "readable A p n \<Longrightarrow> A \<subseteq> B \<Longrightarrow> readable B p n"
  by (cases p) auto

lemma stable_upd: "P p = None \<Longrightarrow> heap_stable s P \<subseteq> heap_stable s (P(p \<mapsto> c))"
  by (rule heap_stable_mono) (auto simp: map_le_def)

text \<open>Filling in a file: its data pointer, its data and its size.\<close>

lemma fill_file:
  fixes s :: "'a fs_state_scheme"
  assumes R: "fs_rel s P N" and f: "P f = Some cf" "12 \<le> cf" "f \<notin> owned foot N"
    and dp: "P dp = Some cd" "length bs \<le> cd" "dp \<notin> owned foot N" "dp \<noteq> f"
    and fw: "rd32 (mem s) (W f) = W fnp" and fn: "str_obj (mem s) P fnp fnm" "fnp \<noteq> f" "fnp \<noteq> dp"
    and dat: "readable A data (length bs)" "rd_chars (mem s) data (length bs) = bs"
    and A: "A \<inter> {f..<f + cf} = {}" "A \<inter> {dp..<dp + cd} = {}" and len: "length bs < 2 ^ 32"
  defines "m1 \<equiv> wr32 (mem s) (W (f + 4)) (W dp)"
  defines "m2 \<equiv> wr_bytes m1 (W dp) bs"
  defines "m3 \<equiv> wr32 m2 (W (f + 8)) (W (length bs))"
  shows "memcpy m1 (W dp) data (W (length bs)) = m2" "rd32 m1 (W (f + 4)) = W dp"
    and "fs_rel (s\<lparr>mem := m3\<rparr>) P N" "node_ok m3 P f (File fnp fnm dp bs)"
    and "quiet (heap_stable s (P(f := None, dp := None))) s (s\<lparr>mem := m3\<rparr>)"
proof -
  have fr: "f + cf \<le> 2 ^ 32" and dr: "dp + cd \<le> 2 ^ 32" using fs_range [OF R f(1)] fs_range [OF R dp(1)] by simp_all
  have S1: "same_on (- {f..<f + cf}) (mem s) m1" unfolding m1_def
    by (rule same_on_wr_obj [OF _ fr]) (use f(2) in simp)
  have S2: "same_on (- {dp..<dp + cd}) m1 m2" unfolding m2_def
    by (rule same_on_wr_bytes) (use dr dp(2) in auto)
  have S3: "same_on (- {f..<f + cf}) m2 m3" unfolding m3_def
    by (rule same_on_wr_obj [OF _ fr]) (use f(2) in simp)
  have R1: "fs_rel (s\<lparr>mem := m1\<rparr>) P N" by (rule fs_put [OF R f(1,3) S1])
  have "fs_rel ((s\<lparr>mem := m1\<rparr>)\<lparr>mem := m2\<rparr>) P N" by (rule fs_put [OF R1 dp(1,3)]) (simp add: S2)
  then have R2: "fs_rel (s\<lparr>mem := m2\<rparr>) P N" by simp
  have "fs_rel ((s\<lparr>mem := m2\<rparr>)\<lparr>mem := m3\<rparr>) P N" by (rule fs_put [OF R2 f(1,3)]) (simp add: S3)
  then show "fs_rel (s\<lparr>mem := m3\<rparr>) P N" by simp
  have ap: "{f..<f + cf} \<inter> {dp..<dp + cd} = {}" by (rule fs_objects_apart [OF R f(1) dp(1) dp(4) [symmetric]])
  show d1: "rd32 m1 (W (f + 4)) = W dp" by (simp only: m1_def rd32_wr32_same)
  have "rd_chars m1 data (length bs) = rd_chars (mem s) data (length bs)"
    by (rule rd_chars_same_on [OF same_on_subset [OF S1] dat(1)]) (use A in blast)
  then show "memcpy m1 (W dp) data (W (length bs)) = m2"
    using memcpy_readable [OF dat(1) A(2) dp(2) dr len] dat(2) by (simp add: m2_def)
  have "words_at m1 f [W fnp, W dp]"
    using d1 fw rd32_wr32_disj [of "f + 4" f "mem s" "W dp"] f(2) fr by (simp add: words_at_Cons m1_def disj_def)
  then have "words_at m2 f [W fnp, W dp]"
    by (rule words_at_same_on [OF _ S2]) (use ap f(2) fr in \<open>auto simp: disjoint_iff\<close>)
  then have "words_at m3 f [W fnp, W dp]"
    unfolding m3_def by (rule words_at_same_on [OF _ same_on_wr32 [of _ "{f..<f + 8}"]]) (use f(2) fr in auto)
  moreover have "rd32 m3 (W (f + 8)) = W (length bs)" by (simp only: m3_def rd32_wr32_same)
  ultimately have w: "words_at m3 f [W fnp, W dp, W (length bs)]" by (simp add: words_at_Cons add.assoc)
  have "rd_bytes m2 (W dp) (length bs) = bs" unfolding m2_def by (rule rd_bytes_wr_bytes) (use len in simp_all)
  moreover have "{dp..<dp + length bs} \<subseteq> - {f..<f + cf}" using ap dp(2) by (auto simp: disjoint_iff)
  ultimately have b: "rd_bytes m3 (W dp) (length bs) = bs"
    using rd_bytes_same_on [OF S3, of dp "length bs"] dp(2) dr by simp
  show Q: "quiet (heap_stable s (P(f := None, dp := None))) s (s\<lparr>mem := m3\<rparr>)"
  proof (rule quiet_put, rule same_on_trans [OF same_on_trans])
    have a: "heap_stable s (P(f := None, dp := None)) \<subseteq> - {f..<f + cf}"
      "heap_stable s (P(f := None, dp := None)) \<subseteq> - {dp..<dp + cd}"
      using heap.apart [OF fs_relD(1) [OF R] f(1)] heap_stable_mono [of "P(f := None, dp := None)" "P(f := None)" s]
        heap.apart [OF fs_relD(1) [OF R] dp(1)] heap_stable_mono [of "P(f := None, dp := None)" "P(dp := None)" s]
      by (auto simp: map_le_def)
    show "same_on (heap_stable s (P(f := None, dp := None))) (mem s) m1" by (rule same_on_subset [OF S1 a(1)])
    show "same_on (heap_stable s (P(f := None, dp := None))) m1 m2" by (rule same_on_subset [OF S2 a(2)])
    show "same_on (heap_stable s (P(f := None, dp := None))) m2 m3" by (rule same_on_subset [OF S3 a(1)])
  qed
  have "str_obj m3 (P(f := None, dp := None)) fnp fnm"
    by (rule str_obj_quiet [OF fn(1)]) (use Q fn in \<open>auto simp: quiet_def\<close>)
  then have "str_obj m3 P fnp fnm" by (rule str_obj_cong_P) (use fn in simp)
  then show "node_ok m3 P f (File fnp fnm dp bs)"
    using w b fs_obj [OF R f(1,2)] fs_obj [OF R dp(1,2)] fn(2,3) dp(4) by auto
qed

text \<open>When there is no room for the data, the file and its name are given back.\<close>

lemma create_file_data_failed:
  fixes s :: "'a fs_state_scheme"
  assumes R: "fs_rel s P N" and f: "P f = Some cf" "12 \<le> cf" "f \<notin> owned foot N" and fw: "rd32 (mem s) (W f) = W fnp"
    and fn: "P fnp = Some cn" "fnp \<notin> owned foot N" "fnp \<noteq> f"
    and a: "(if sz = 0 then allocate 1 s else allocate sz s) = Some (0, s)"
  obtains s' where "create_file_data dir (W f) data sz s = Some (0, s')"
      "fs_rel s' (P(fnp := None, f := None)) N" "quiet (heap_stable s (P(fnp := None, f := None))) s s'"
proof -
  have fr: "f + cf \<le> 2 ^ 32" using fs_range [OF R f(1)] by simp
  have f4: "W f + 4 = W (f + 4)" by simp
  let ?s = "s\<lparr>mem := wr32 (mem s) (W (f + 4)) 0\<rparr>"
  have S: "same_on (- {f..<f + cf}) (mem s) (wr32 (mem s) (W (f + 4)) 0)"
    by (rule same_on_wr_obj [OF _ fr]) (use f(2) in simp)
  have R1: "fs_rel ?s P N" by (rule fs_put [OF R f(1,3) S])
  have Q1: "quiet (heap_stable s (P(f := None))) s ?s" by (rule fs_write_quiet [OF R f(1) S])
  obtain s2 where s2: "free (W fnp) ?s = Some (0, s2)" "fs_rel s2 (P(fnp := None)) N"
    "quiet (heap_stable ?s (P(fnp := None))) ?s s2" by (rule fs_free [OF R1 fn(1,2)])
  obtain s3 where s3: "free (W f) s2 = Some (0, s3)" "fs_rel s3 (P(fnp := None, f := None)) N"
    "quiet (heap_stable s2 (P(fnp := None, f := None))) s2 s3"
    by (rule fs_free [OF s2(2) _ f(3), of cf]) (use f fn in auto)
  have "rd32 (wr32 (mem s) (W (f + 4)) 0) (W f) = W fnp"
    using rd32_wr32_disj [of "f + 4" f "mem s" 0] f(2) fr fw by (simp add: disj_def)
  then have "create_file_data dir (W f) data sz s = Some (0, s3)"
    unfolding create_file_data_def a file_data_def file_name_def f4 using s2(1) s3(1)
    by (simp add: mem_simps Let_def del: of_nat_add)
  moreover have "quiet (heap_stable s (P(fnp := None, f := None))) s s3"
  proof (rule quiet_trans [OF quiet_trans])
    show "quiet (heap_stable s (P(fnp := None, f := None))) s ?s"
      by (rule quiet_subset [OF Q1 heap_stable_mono]) (auto simp: map_le_def)
    show "quiet (heap_stable s (P(fnp := None, f := None))) ?s s2"
      by (rule quiet_subset [OF s2(3)], unfold quiet_stable [OF Q1], rule heap_stable_mono) (auto simp: map_le_def)
    show "quiet (heap_stable s (P(fnp := None, f := None))) s2 s3"
      using s3(3) unfolding quiet_stable [OF s2(3)] quiet_stable [OF Q1] .
  qed
  ultimately show thesis using that s3(2) by blast
qed

lemma create_file_data_spec:
  fixes s :: "'a fs_state_scheme"
  assumes R: "fs_rel s P N" and D: "N d = Some (Dir np nm par fa fs da ds)"
    and f: "P f = Some cf" "12 \<le> cf" "f \<notin> owned foot N" and fw: "rd32 (mem s) (W f) = W fnp"
    and fn: "str_obj (mem s) P fnp fnm" "fnp \<notin> owned foot N" "fnp \<noteq> f"
    and dat: "readable (heap_stable s (P(f := None))) data (length bs)" "rd_chars (mem s) data (length bs) = bs"
    and len: "4 * Suc (length fs) \<le> 32759" "length bs \<le> 32759"
  obtains (created) dp cd y c s' where "create_file_data (W d) (W f) data (W (length bs)) s = Some (W f, s')"
      "P dp = None" "(P(dp \<mapsto> cd)) y = None" "fs_rel s' (P(dp \<mapsto> cd, y \<mapsto> c, fa := None))
        (N(f \<mapsto> File fnp fnm dp bs, d \<mapsto> Dir np nm par y (fs @ [f]) da ds))"
      "quiet (heap_stable s (P(f := None, d := None, fa := None))) s s'" "spends 2 s s'"
    | (failed) s' where "create_file_data (W d) (W f) data (W (length bs)) s = Some (0, s')"
      "fs_rel s' (P(fnp := None, f := None)) N" "quiet (heap_stable s (P(fnp := None, f := None))) s s'" "\<not> room 2 s"
proof -
  define k where "k = max 1 (length bs)"
  have k: "0 < k" "k \<le> 32759" "length bs \<le> k" using len by (simp_all add: k_def)
  have "W (length bs) = 0 \<longleftrightarrow> length bs = 0" using of_nat_u32_eq [of "length bs" 0] len(2) by simp
  then have k': "(if W (length bs) = 0 then allocate 1 s else allocate (W (length bs)) s) = allocate (W k) s"
    by (auto simp: k_def max_def not_le Suc_le_eq)
  obtain cn where cn: "P fnp = Some cn" using fn(1) by (auto simp: str_obj_def obj_def)
  from R k(1,2) show thesis
  proof (rule fs_alloc)
    assume a: "allocate (W k) s = Some (0, s)" "\<not> room 1 s"
    have "\<not> room 2 s" by (rule no_room [OF a(2) spends_refl [of 0]]) simp
    then show thesis using create_file_data_failed [OF R f fw cn fn(2,3), of "W (length bs)" "W d" data] a(1) k' failed
      by metis
  next
    fix dp cd s1
    assume a: "allocate (W k) s = Some (W dp, s1)" "W dp \<noteq> 0" "0 < dp" "P dp = None" "dp \<notin> owned foot N" "k \<le> cd"
      "fs_rel s1 (P(dp \<mapsto> cd)) N" "quiet (heap_stable s P) s s1" "spends 1 s s1"
    let ?P = "P(dp \<mapsto> cd)" and ?A = "heap_stable s (P(f := None))"
    have ne: "dp \<noteq> f" "dp \<noteq> fnp" using a(4) f(1) cn by auto
    have f1: "?P f = Some cf" "?P dp = Some cd" "length bs \<le> cd" using f(1) ne k(3) a(6) by simp_all
    have S: "same_on (heap_stable s P) (mem s) (mem s1)" using a(8) by (simp add: quiet_def)
    have fw1: "rd32 (mem s1) (W f) = W fnp"
      using rd32_same_on [OF S, of f] obj_stable [OF fs_obj [OF R f(1,2)], of s] fs_range [OF R f(1)] f(2) fw by (auto simp: subset_eq)
    have "str_obj (mem s1) P fnp fnm" by (rule str_obj_quiet [OF fn(1) S refl])
    then have fn1: "str_obj (mem s1) ?P fnp fnm" by (rule str_obj_cong_P) (use ne in simp)
    have mono: "?A \<subseteq> heap_stable s P" by (rule heap_stable_mono) (simp add: map_le_def)
    have dat1: "rd_chars (mem s1) data (length bs) = bs"
      using rd_chars_same_on [OF same_on_subset [OF S mono] dat(1)] dat(2) by simp
    have "(?P(f := None)) = P(f := None, dp \<mapsto> cd)" using ne by (simp add: fun_upd_twist)
    then have "heap_stable s1 (?P(f := None)) = heap_stable s (P(f := None, dp \<mapsto> cd))" by (simp add: quiet_stable [OF a(8)])
    moreover have "?A \<subseteq> heap_stable s (P(f := None, dp \<mapsto> cd))" by (rule stable_upd) (use a(4) in simp)
    ultimately have A1: "?A \<inter> {f..<f + cf} = {}" using heap.apart [OF fs_relD(1) [OF a(7)] f1(1)] by blast
    have "?A \<subseteq> heap_stable s1 (?P(dp := None))" using mono a(4) by (simp add: quiet_stable [OF a(8)] fun_upd_idem)
    then have A2: "?A \<inter> {dp..<dp + cd} = {}" using heap.apart [OF fs_relD(1) [OF a(7)] f1(2)] by blast
    note F = fill_file [OF a(7) f1(1) f(2,3) f1(2,3) a(5) ne(1) fw1 fn1 fn(3) ne(2) [symmetric] dat(1) dat1 A1 A2]
    let ?F = "File fnp fnm dp bs" and ?m1 = "wr32 (mem s1) (W (f + 4)) (W dp)"
    define s3 where "s3 = s1\<lparr>mem := wr32 (wr_bytes ?m1 (W dp) bs) (W (f + 8)) (W (length bs))\<rparr>"
    have len32: "length bs < 2 ^ 32" using len(2) by simp
    note F = F [OF len32]
    have "mem s3 = wr32 (wr_bytes ?m1 (W dp) bs) (W (f + 8)) (W (length bs))" by (simp add: s3_def)
    note F' = F(3-5) [folded s3_def this]
    have f48: "W f + 4 = W (f + 4)" "W f + 8 = W (f + 8)" by simp_all
    have run: "create_file_data (W d) (W f) data (W (length bs)) s = create_file_link (W d) (W f) s3"
      unfolding create_file_data_def k' file_data_def f48 using a(1,2) F(1,2) by (simp add: s3_def Let_def del: of_nat_add)
    have own: "foot f ?F \<inter> owned foot N = {}" using f(3) fn(2) a(5) by auto
    have Q: "quiet (heap_stable s (P(f := None))) s s3"
    proof (rule quiet_trans)
      show "quiet (heap_stable s (P(f := None))) s s1" by (rule quiet_subset [OF a(8) mono])
      show "quiet (heap_stable s (P(f := None))) s1 s3"
        by (rule quiet_subset [OF F'(3)], unfold quiet_stable [OF a(8)], rule heap_stable_mono)
          (use a(4) in \<open>auto simp: map_le_def\<close>)
    qed
    have sp: "spends 1 s s3" using a(9) by (simp add: s3_def)
    from F'(1) D F'(2) own len(1) show thesis
    proof (rule create_file_link_spec)
      fix y c s' assume c: "create_file_link (W d) (W f) s3 = Some (W f, s')" "?P y = None"
        "fs_rel s' (?P(y \<mapsto> c, fa := None)) (N(f \<mapsto> ?F, d \<mapsto> Dir np nm par y (fs @ [f]) da ds))"
        "quiet (heap_stable s3 (?P(d := None, fa := None))) s3 s'" "spends 1 s3 s'"
      have "quiet (heap_stable s (P(f := None, d := None, fa := None))) s s'"
      proof (rule quiet_trans)
        show "quiet (heap_stable s (P(f := None, d := None, fa := None))) s s3"
          by (rule quiet_subset [OF Q heap_stable_mono]) (auto simp: map_le_def)
        show "quiet (heap_stable s (P(f := None, d := None, fa := None))) s3 s'"
          by (rule quiet_subset [OF c(4)], unfold quiet_stable [OF Q], rule heap_stable_mono)
            (use a(4) in \<open>auto simp: map_le_def\<close>)
      qed
      moreover have "spends 2 s s'" by (rule spends_trans [OF sp c(5)]) simp
      ultimately show thesis using c a(4) run by (intro created) simp_all
    next
      fix s' assume c: "create_file_link (W d) (W f) s3 = Some (0, s')" "fs_rel s' (?P(dp := None, fnp := None, f := None)) N"
        "quiet (heap_stable s3 (?P(dp := None, fnp := None, f := None))) s3 s'" "\<not> room 1 s3"
      have P: "?P(dp := None) = P" using a(4) by (simp add: fun_upd_idem)
      have "quiet (heap_stable s (P(fnp := None, f := None))) s s'"
      proof (rule quiet_trans)
        show "quiet (heap_stable s (P(fnp := None, f := None))) s s3"
          by (rule quiet_subset [OF Q heap_stable_mono]) (auto simp: map_le_def)
        show "quiet (heap_stable s (P(fnp := None, f := None))) s3 s'" using c(3) unfolding P quiet_stable [OF Q] .
      qed
      moreover have "\<not> room 2 s" by (rule no_room [OF c(4) sp]) simp
      ultimately show thesis using failed [of s'] c(1,2) run unfolding P by simp
    qed
  qed
qed

lemma W_nonzero: "obj P p n \<Longrightarrow> 0 < n \<Longrightarrow> W p \<noteq> 0"
  using of_nat_u32_eq [of p 0] objD [of P p n] by simp

lemma cstr_readable_same:
  "cstr m p nm \<Longrightarrow> readable A p (Suc (length nm)) \<Longrightarrow> same_on A m m' \<Longrightarrow> cstr m' p nm"
  using cstr_same_on by blast

lemma ramfs_create_file_spec:
  fixes s :: "'a fs_state_scheme"
  assumes R: "fs_rel s P N" and D: "N d = Some (Dir np nm par fa fs da ds)"
    and name: "cstr (mem s) name fnm" "readable (heap_stable s P) name (Suc (length fnm))" "length fnm < 32759" "name \<noteq> Mem 0"
    and dat: "readable (heap_stable s P) data (length bs)" "rd_chars (mem s) data (length bs) = bs" "data \<noteq> Mem 0"
    and len: "4 * Suc (length fs) \<le> 32759" "length bs \<le> 32759"
  obtains (created) f fnp dp y P' s' where "ramfs_create_file (W d) name data (W (length bs)) s = Some (W f, s')"
      "N f = None" "fs_rel s' P' (N(f \<mapsto> File fnp fnm dp bs, d \<mapsto> Dir np nm par y (fs @ [f]) da ds))"
      "quiet (heap_stable s (P(d := None, fa := None))) s s'" "spends 4 s s'"
      "apart_kept P N P' (N(f \<mapsto> File fnp fnm dp bs, d \<mapsto> Dir np nm par y (fs @ [f]) da ds))"
    | (failed) s' where "ramfs_create_file (W d) name data (W (length bs)) s = Some (0, s')"
      "fs_rel s' P N" "quiet (heap_stable s P) s s'" "\<not> room 4 s"
proof -
  have d0: "W d \<noteq> 0" by (rule W_nonzero [OF dir_node(1) [OF R D]]) simp
  have "(0 :: nat) < 12" "(12 :: nat) \<le> 32759" by simp_all
  with R show thesis
  proof (rule fs_alloc)
    assume a: "allocate (W 12) s = Some (0, s)" "\<not> room 1 s"
    have "\<not> room 4 s" by (rule no_room [OF a(2) spends_refl [of 0]]) simp
    moreover have "ramfs_create_file (W d) name data (W (length bs)) s = Some (0, s)"
      using a(1) d0 name(4) dat(3) by (simp add: ramfs_create_file_def)
    ultimately show thesis using failed R by blast
  next
    fix f cf s1
    assume a: "allocate (W 12) s = Some (W f, s1)" "W f \<noteq> 0" "0 < f" "P f = None" "f \<notin> owned foot N" "12 \<le> cf"
      "fs_rel s1 (P(f \<mapsto> cf)) N" "quiet (heap_stable s P) s s1" "spends 1 s s1"
    have S1: "same_on (heap_stable s P) (mem s) (mem s1)" using a(8) by (simp add: quiet_def)
    have m1: "heap_stable s P \<subseteq> heap_stable s1 (P(f \<mapsto> cf))"
      unfolding quiet_stable [OF a(8)] using a(4) by (rule stable_upd [of P f s cf])
    have fr: "f + cf \<le> 2 ^ 32" using fs_range [OF a(7), of f cf] by simp
    have run: "ramfs_create_file (W d) name data (W (length bs)) s = (do {
          (copy, s) \<leftarrow> strdup name s1;
          let s = s\<lparr>mem := wr32 (mem s) (W f) copy\<rparr>;
          if file_name (mem s) (W f) = 0 then do { (_, s) \<leftarrow> free (W f) s; Some (0, s) }
          else create_file_data (W d) (W f) data (W (length bs)) s })"
      using a(1,2) d0 name(4) dat(3) by (simp add: ramfs_create_file_def)
    from a(7) cstr_readable_same [OF name(1,2) S1] readable_mono [OF name(2) m1] name(3) show thesis
    proof (rule fs_strdup)
      assume n: "strdup name s1 = Some (0, s1)" "\<not> room 1 s1"
      have nr: "\<not> room 4 s" by (rule no_room [OF n(2) a(9)]) simp
      let ?s = "s1\<lparr>mem := wr32 (mem s1) (W f) 0\<rparr>"
      have S: "same_on (- {f..<f + cf}) (mem s1) (wr32 (mem s1) (W f) 0)"
        using same_on_wr_obj [of 0 cf f "mem s1" 0] a(6) fr by simp
      have R2: "fs_rel ?s (P(f \<mapsto> cf)) N" by (rule fs_put [OF a(7) _ a(5) S]) simp
      have Q2: "quiet (heap_stable s1 ((P(f \<mapsto> cf))(f := None))) s1 ?s" by (rule fs_write_quiet [OF a(7) _ S]) simp
      have P: "(P(f \<mapsto> cf))(f := None) = P" using a(4) by auto
      obtain s3 where s3: "free (W f) ?s = Some (0, s3)" "fs_rel s3 P N" "quiet (heap_stable ?s P) ?s s3"
        using fs_free [OF R2 _ a(5), of cf] unfolding P by auto
      have "quiet (heap_stable s P) s s3"
        using quiet_trans [OF a(8) quiet_trans [OF Q2 [unfolded P quiet_stable [OF a(8)]]]] s3(3)
        unfolding quiet_stable [OF Q2] quiet_stable [OF a(8)] by blast
      moreover have "ramfs_create_file (W d) name data (W (length bs)) s = Some (0, s3)"
        unfolding run using n s3(1) by (simp add: file_name_def mem_simps Let_def)
      ultimately show thesis using failed s3(2) nr by blast
    next
      fix fnp s2 cn
      assume n: "strdup name s1 = Some (W fnp, s2)" "W fnp \<noteq> 0" "0 < fnp" "(P(f \<mapsto> cf)) fnp = None" "fnp \<notin> owned foot N"
        "length fnm < cn" "fs_rel s2 (P(f \<mapsto> cf, fnp \<mapsto> cn)) N" "str_obj (mem s2) (P(f \<mapsto> cf, fnp \<mapsto> cn)) fnp fnm"
        "quiet (heap_stable s1 (P(f \<mapsto> cf))) s1 s2" "spends 1 s1 s2"
      let ?P = "P(f \<mapsto> cf, fnp \<mapsto> cn)" and ?s = "s2\<lparr>mem := wr32 (mem s2) (W f) (W fnp)\<rparr>"
      have ne: "fnp \<noteq> f" "P fnp = None" using n(4) by (auto split: if_splits)
      have Pf: "?P f = Some cf" using ne by simp
      have S: "same_on (- {f..<f + cf}) (mem s2) (wr32 (mem s2) (W f) (W fnp))"
        using same_on_wr_obj [of 0 cf f "mem s2" "W fnp"] a(6) fr by simp
      have R3: "fs_rel ?s ?P N" by (rule fs_put [OF n(7) Pf a(5) S])
      have Q3: "quiet (heap_stable s2 (?P(f := None))) s2 ?s" by (rule fs_write_quiet [OF n(7) Pf S])
      have Pf': "?P(f := None) = P(fnp \<mapsto> cn)" using a(4) ne by auto
      have Q0: "quiet (heap_stable s P) s s2"
        by (rule quiet_trans [OF a(8) quiet_subset [OF n(9) m1]])
      have m2: "heap_stable s P \<subseteq> heap_stable s2 (?P(f := None))"
        unfolding Pf' quiet_stable [OF Q0] using ne(2) by (rule stable_upd [of P fnp s cn])
      have Q: "quiet (heap_stable s P) s ?s" by (rule quiet_trans [OF Q0 quiet_subset [OF Q3 m2]])
      have fn3: "str_obj (mem ?s) ?P fnp fnm"
      proof -
        have "str_obj (mem ?s) (?P(f := None)) fnp fnm"
          by (rule str_obj_quiet [OF n(8)]) (use Q3 ne in \<open>auto simp: quiet_def\<close>)
        then show ?thesis by (rule str_obj_cong_P) (use ne in simp)
      qed
      have fw: "rd32 (mem ?s) (W f) = W fnp" by (simp add: mem_simps)
      have dat3: "readable (heap_stable ?s (?P(f := None))) data (length bs)" "rd_chars (mem ?s) data (length bs) = bs"
        using readable_mono [OF dat(1) m2] rd_chars_same_on [of "heap_stable s P" "mem s" "mem ?s"] Q dat(1,2)
        unfolding quiet_stable [OF Q3] by (simp_all add: quiet_def)
      have run2: "ramfs_create_file (W d) name data (W (length bs)) s = create_file_data (W d) (W f) data (W (length bs)) ?s"
        unfolding run using n(1,2) fw by (simp add: file_name_def Let_def)
      have sp: "spends 2 s ?s" using spends_trans [OF a(9) n(10), of 2] by simp
      from R3 D Pf a(6,5) fw fn3 n(5) ne(1) dat3 len show thesis
      proof (rule create_file_data_spec)
        fix dp cd y c s' assume c: "create_file_data (W d) (W f) data (W (length bs)) ?s = Some (W f, s')"
          "?P dp = None" "(?P(dp \<mapsto> cd)) y = None" "fs_rel s' (?P(dp \<mapsto> cd, y \<mapsto> c, fa := None))
            (N(f \<mapsto> File fnp fnm dp bs, d \<mapsto> Dir np nm par y (fs @ [f]) da ds))"
          "quiet (heap_stable ?s (?P(f := None, d := None, fa := None))) ?s s'" "spends 2 ?s s'"
        have "quiet (heap_stable s (P(d := None, fa := None))) s s'"
        proof (rule quiet_trans)
          show "quiet (heap_stable s (P(d := None, fa := None))) s ?s"
            by (rule quiet_subset [OF Q heap_stable_mono]) (auto simp: map_le_def)
          show "quiet (heap_stable s (P(d := None, fa := None))) ?s s'"
            by (rule quiet_subset [OF c(5)], unfold quiet_stable [OF Q] Pf', rule heap_stable_mono)
              (use ne(2) in \<open>auto simp: map_le_def\<close>)
        qed
        moreover have "N f = None" by (rule fs.fresh_not_node [OF R [unfolded fs_rel_def] a(5)])
        moreover have "spends 4 s s'" by (rule spends_trans [OF sp c(6)]) simp
        moreover have "apart_kept P N (?P(dp \<mapsto> cd, y \<mapsto> c, fa := None)) (N(f \<mapsto> File fnp fnm dp bs, d \<mapsto> Dir np nm par y (fs @ [f]) da ds))"
        proof (rule apart_dir(1) [where N = N, OF D])
          have fresh: "P f = None" "P fnp = None" "P dp = None" "P y = None"
            using a(4) ne c(2,3) by (auto split: if_splits)
          show "(?P(dp \<mapsto> cd, y \<mapsto> c, fa := None)) p = P p" if "P p \<noteq> None" "p \<notin> owned foot N" for p
            using that fresh dir_owned(1) [where N = N, OF D] fs_zero [OF R] by (cases "fa = 0") auto
          show "p = 0 \<or> p \<in> owned foot N \<or> P p = None" if "p \<in> {y, da}" for p
            using that fresh dir_owned(2) [where N = N, OF D] by auto
          show "P p = None" if "p \<in> foot f (File fnp fnm dp bs)" for p using that fresh by auto
        qed
        ultimately show thesis using created [of f s'] c(1,4) unfolding run2 by blast
      next
        fix s' assume c: "create_file_data (W d) (W f) data (W (length bs)) ?s = Some (0, s')"
          "fs_rel s' (?P(fnp := None, f := None)) N" "quiet (heap_stable ?s (?P(fnp := None, f := None))) ?s s'" "\<not> room 2 ?s"
        have P: "?P(fnp := None, f := None) = P" using a(4) ne by auto
        have "quiet (heap_stable s P) s s'" using quiet_trans [OF Q] c(3) unfolding P quiet_stable [OF Q] by blast
        moreover have "\<not> room 4 s" by (rule no_room [OF c(4) sp]) simp
        ultimately show thesis using failed c(1,2) unfolding run2 P by blast
      qed
    qed
  qed
qed

end
