(* ===== verification/FsTree.thy ===== *)
theory FsTree
  imports FsDir
begin

section \<open>FsTree: creating the root and directories, and finding names\<close>

subsection \<open>A new directory node\<close>

text \<open>The steps of theory FsSteps when the heap has room.\<close>

lemma fs_alloc_room:
  fixes s :: "'a heap_state_scheme"
  assumes "fs_rel s P N" "0 < n" "n \<le> 32759" "room 1 s"
  obtains p c s' where "allocate (W n) s = Some (W p, s')" "W p \<noteq> 0" "0 < p" "P p = None" "p \<notin> owned foot N"
      "n \<le> c" "fs_rel s' (P(p \<mapsto> c)) N" "quiet (heap_stable s P) s s'" "spends 1 s s'"
  by (rule fs_alloc [OF assms(1-3)]) (use assms(4) in blast)+

lemma fs_strdup_room:
  fixes s :: "'a heap_state_scheme"
  assumes "fs_rel s P N" "cstr (mem s) p nm" "readable (heap_stable s P) p (Suc (length nm))" "length nm < 32759" "room 1 s"
  obtains q s' c where "strdup p s = Some (W q, s')" "W q \<noteq> 0" "0 < q" "P q = None" "q \<notin> owned foot N"
      "length nm < c" "fs_rel s' (P(q \<mapsto> c)) N" "str_obj (mem s') (P(q \<mapsto> c)) q nm" "quiet (heap_stable s P) s s'"
      "spends 1 s s'"
  by (rule fs_strdup [OF assms(1-4)]) (use assms(5) in blast)+

text \<open>The structure and the name that \<open>ramfs_create_root\<close> and \<open>ramfs_create_dir\<close> begin with.\<close>

lemma new_dir:
  fixes s :: "'a fs_state_scheme"
  assumes R: "fs_rel s P N" and room: "room 2 s"
    and name: "cstr (mem s) name enm" "readable (heap_stable s P) name (Suc (length enm))" "length enm < 32759"
  obtains e enp c cn s1 s2 where "allocate 24 s = Some (W e, s1)" "W e \<noteq> 0" "strdup name s1 = Some (W enp, s2)"
    "P e = None" "P enp = None" "N e = None"
    "fs_rel (s2\<lparr>mem := wr_words (mem s2) (W e) [W enp, W par, 0, 0, 0, 0]\<rparr>) (P(e \<mapsto> c, enp \<mapsto> cn))
      (N(e \<mapsto> Dir enp enm par 0 [] 0 []))"
    "quiet (heap_stable s P) s (s2\<lparr>mem := wr_words (mem s2) (W e) [W enp, W par, 0, 0, 0, 0]\<rparr>)" "spends 2 s s2"
proof -
  have "0 < (24 :: nat)" "(24 :: nat) \<le> 32759" by simp_all
  from R this room_mono [OF room] obtain e c s1 where
    a: "allocate (W 24) s = Some (W e, s1)" "W e \<noteq> 0" "0 < e" "P e = None" "e \<notin> owned foot N"
      "24 \<le> c" "fs_rel s1 (P(e \<mapsto> c)) N" "quiet (heap_stable s P) s s1" "spends 1 s s1"
    by (rule fs_alloc_room) simp
  have S1: "same_on (heap_stable s P) (mem s) (mem s1)" using a(8) by (simp add: quiet_def)
  have m1: "heap_stable s P \<subseteq> heap_stable s1 (P(e \<mapsto> c))"
    unfolding quiet_stable [OF a(8)] using a(4) by (rule stable_upd)
  have r1: "room 1 s1" by (rule room_spends [OF a(9) room]) simp
  obtain enp s2 cn where n: "strdup name s1 = Some (W enp, s2)" "W enp \<noteq> 0" "0 < enp" "(P(e \<mapsto> c)) enp = None"
      "enp \<notin> owned foot N" "length enm < cn" "fs_rel s2 (P(e \<mapsto> c, enp \<mapsto> cn)) N"
      "str_obj (mem s2) (P(e \<mapsto> c, enp \<mapsto> cn)) enp enm" "quiet (heap_stable s1 (P(e \<mapsto> c))) s1 s2" "spends 1 s1 s2"
    by (rule fs_strdup_room [OF a(7) cstr_readable_same [OF name(1,2) S1] readable_mono [OF name(2) m1] name(3) r1])
  let ?P = "P(e \<mapsto> c, enp \<mapsto> cn)" and ?ws = "[W enp, W par, 0, 0, 0, 0]"
  let ?s = "s2\<lparr>mem := wr_words (mem s2) (W e) ?ws\<rparr>"
  have ne: "enp \<noteq> e" "P enp = None" using n(4) by (auto split: if_splits)
  have Pe: "?P e = Some c" "?P(e := None) = P(enp \<mapsto> cn)" using ne a(4) by auto
  have er: "e + c \<le> 2 ^ 32" using fs_range [OF n(7) Pe(1)] by simp
  have S: "same_on (- {e..<e + c}) (mem s2) (wr_words (mem s2) (W e) ?ws)"
    by (rule same_on_wr_words) (use a(6) er in auto)
  have R3: "fs_rel ?s ?P N" by (rule fs_put [OF n(7) Pe(1) a(5) S])
  have Q3: "quiet (heap_stable s2 (P(enp \<mapsto> cn))) s2 ?s" using fs_write_quiet [OF n(7) Pe(1) S] unfolding Pe(2) .
  have Q2: "quiet (heap_stable s P) s s2" by (rule quiet_trans [OF a(8) quiet_subset [OF n(9) m1]])
  have m2: "heap_stable s P \<subseteq> heap_stable s2 (P(enp \<mapsto> cn))"
    unfolding quiet_stable [OF Q2] using ne(2) by (rule stable_upd)
  have Q: "quiet (heap_stable s P) s ?s" by (rule quiet_trans [OF Q2 quiet_subset [OF Q3 m2]])
  have "str_obj (mem ?s) (P(enp \<mapsto> cn)) enp enm"
    by (rule str_obj_quiet [OF n(8)]) (use Q3 ne in \<open>auto simp: quiet_def\<close>)
  then have "str_obj (mem ?s) ?P enp enm" by (rule str_obj_cong_P) (use ne in simp)
  moreover have "words_at (mem ?s) e ?ws" using words_at_wr_words [of e ?ws "mem s2"] a(6) er by simp
  moreover have "obj ?P e 24" by (rule fs_obj [OF R3 Pe(1) a(6)])
  ultimately have "node_ok (mem ?s) ?P e (Dir enp enm par 0 [] 0 [])"
    using ne a(3) n(3) by (auto simp: array_obj_def)
  from fs_add [OF R3 this] have "fs_rel ?s ?P (N(e \<mapsto> Dir enp enm par 0 [] 0 []))" using a(5) n(5) by simp
  moreover have "N e = None" by (rule fs.fresh_not_node [OF R [unfolded fs_rel_def] a(5)])
  moreover have "spends 2 s s2" by (rule spends_trans [OF a(9) n(10)]) simp
  ultimately show thesis using that a(1,2,4) n(1) ne(2) Q by simp
qed

lemma ramfs_create_root_spec:
  fixes s :: "'a fs_state_scheme"
  assumes R: "fs_rel s P N" and room: "room 2 s"
  obtains d np P' s' where "ramfs_create_root s = Some (W d, s')" "N d = None"
    "fs_rel s' P' (N(d \<mapsto> Dir np (bytes_of ''/'') 0 0 [] 0 []))" "quiet (heap_stable s P) s s'" "spends 2 s s'"
proof -
  have nm: "cstr (mem s) (lit ''/'') (bytes_of ''/'')" by (rule cstr_lit) (simp add: bytes_of_def)
  have rd: "readable (heap_stable s P) (lit ''/'') (Suc (length (bytes_of ''/'')))" by (simp add: lit_def)
  obtain d np c cn s1 s2 where n: "allocate 24 s = Some (W d, s1)" "W d \<noteq> 0" "strdup (lit ''/'') s1 = Some (W np, s2)"
    "P d = None" "P np = None" "N d = None"
    "fs_rel (s2\<lparr>mem := wr_words (mem s2) (W d) [W np, W 0, 0, 0, 0, 0]\<rparr>) (P(d \<mapsto> c, np \<mapsto> cn))
      (N(d \<mapsto> Dir np (bytes_of ''/'') 0 0 [] 0 []))"
    "quiet (heap_stable s P) s (s2\<lparr>mem := wr_words (mem s2) (W d) [W np, W 0, 0, 0, 0, 0]\<rparr>)" "spends 2 s s2"
    by (rule new_dir [OF R room nm rd, where par = 0]) simp
  show thesis by (rule that [OF _ n(6,7,8)]) (use n(1-3,9) in \<open>simp_all add: ramfs_create_root_def\<close>)
qed

lemma ramfs_create_dir_spec:
  fixes s :: "'a fs_state_scheme"
  assumes R: "fs_rel s P N" and D: "N d = Some (Dir np nm par fa fs da ds)" and room: "room 3 s"
    and name: "cstr (mem s) name enm" "readable (heap_stable s P) name (Suc (length enm))" "length enm < 32759" "name \<noteq> Mem 0"
    and len: "4 * Suc (length ds) \<le> 32759"
  obtains e enp y P' s' where "ramfs_create_dir (W d) name s = Some (W e, s')" "N e = None"
    "fs_rel s' P' (N(e \<mapsto> Dir enp enm d 0 [] 0 [], d \<mapsto> Dir np nm par fa fs y (ds @ [e])))"
    "quiet (heap_stable s (P(d := None, da := None))) s s'" "spends 3 s s'"
    "apart_kept P N P' (N(e \<mapsto> Dir enp enm d 0 [] 0 [], d \<mapsto> Dir np nm par fa fs y (ds @ [e])))"
proof -
  have d0: "W d \<noteq> 0" by (rule W_nonzero [OF dir_node(1) [OF R D]]) simp
  have r2: "room 2 s" by (rule room_mono [OF room]) simp
  let ?ws = "\<lambda>enp. [W enp, W d, 0, 0, 0, 0]"
  obtain e enp c cn s1 s2 where n: "allocate 24 s = Some (W e, s1)" "W e \<noteq> 0" "strdup name s1 = Some (W enp, s2)"
    "P e = None" "P enp = None" "N e = None"
    "fs_rel (s2\<lparr>mem := wr_words (mem s2) (W e) (?ws enp)\<rparr>) (P(e \<mapsto> c, enp \<mapsto> cn)) (N(e \<mapsto> Dir enp enm d 0 [] 0 []))"
    "quiet (heap_stable s P) s (s2\<lparr>mem := wr_words (mem s2) (W e) (?ws enp)\<rparr>)" "spends 2 s s2"
    by (rule new_dir [OF R r2 name(1-3), where par = d])
  define s3 where "s3 = s2\<lparr>mem := wr_words (mem s2) (W e) (?ws enp)\<rparr>"
  let ?P = "P(e \<mapsto> c, enp \<mapsto> cn)" and ?N = "N(e \<mapsto> Dir enp enm d 0 [] 0 [])"
  note R3 = n(7) [folded s3_def] and Q3 = n(8) [folded s3_def]
  have sp: "spends 2 s s3" using n(9) by (simp add: s3_def)
  have de: "d \<noteq> e" using n(6) D by auto
  then have D3: "?N d = Some (Dir np nm par fa fs da ds)" using D by simp
  have cnt: "(subdir_count (mem s3) (W d) + 1) * SIZEOF_PTR = W (4 * Suc (length ds))"
    using dir_fields(6) [OF fs_relD(2) [OF R3 D3]] by simp
  have r3: "room 1 s3" by (rule room_spends [OF sp room]) simp
  have "0 < 4 * Suc (length ds)" by simp
  from R3 this len r3 obtain y cy s4 where y: "allocate (W (4 * Suc (length ds))) s3 = Some (W y, s4)" "W y \<noteq> 0" "0 < y"
      "?P y = None" "y \<notin> owned foot ?N" "4 * Suc (length ds) \<le> cy" "fs_rel s4 (?P(y \<mapsto> cy)) ?N"
      "quiet (heap_stable s3 ?P) s3 s4" "spends 1 s3 s4"
    by (rule fs_alloc_room)
  obtain s5 where s5: "add_entry 16 (W d) (W y) (W e) s4 = Some s5"
    "fs_rel s5 (?P(y \<mapsto> cy, da := None)) (?N(d \<mapsto> Dir np nm par fa fs y (ds @ [e])))"
    "quiet (heap_stable s4 (?P(y \<mapsto> cy, d := None, da := None, y := None))) s4 s5" "spends 0 s4 s5"
    by (rule add_subdir [OF y(7) D3 _ y(6,5)]) (use len in simp_all)
  show thesis
  proof (rule that [OF _ n(6) s5(2)])
    have m3: "wr_words (mem s2) (W e) (?ws enp) = mem s3" "s2\<lparr>mem := mem s3\<rparr> = s3" by (simp_all add: s3_def)
    show "ramfs_create_dir (W d) name s = Some (W e, s5)"
      using d0 name(4) n(1-3) s5(1) y(1,2)
      by (simp add: ramfs_create_dir_def m3 cnt Let_def del: of_nat_mult of_nat_Suc mult_Suc_right wr_words.simps distrib_right_numeral)
    show "spends 3 s s5" by (rule spends_trans [OF spends_trans [OF sp y(9)] s5(4)]) simp_all
    have fresh: "P y = None" using y(4) by (auto split: if_splits)
    show "apart_kept P N (?P(y \<mapsto> cy, da := None)) (N(e \<mapsto> Dir enp enm d 0 [] 0 [], d \<mapsto> Dir np nm par fa fs y (ds @ [e])))"
    proof (rule apart_dir(1) [where N = N, OF D])
      show "(?P(y \<mapsto> cy, da := None)) p = P p" if "P p \<noteq> None" "p \<notin> owned foot N" for p
        using that fresh n(4,5) dir_owned(2) [where N = N, OF D] fs_zero [OF R] by (cases "da = 0") auto
    qed (use n(4,5) fresh dir_owned(1) [where N = N, OF D] in auto)
    show "quiet (heap_stable s (P(d := None, da := None))) s s5"
    proof (rule quiet_trans [OF quiet_trans])
      show "quiet (heap_stable s (P(d := None, da := None))) s s3"
        by (rule quiet_subset [OF Q3 heap_stable_mono]) (auto simp: map_le_def)
      show "quiet (heap_stable s (P(d := None, da := None))) s3 s4"
        by (rule quiet_subset [OF y(8)], unfold quiet_stable [OF Q3], rule heap_stable_mono)
          (use n(4,5) in \<open>auto simp: map_le_def\<close>)
      show "quiet (heap_stable s (P(d := None, da := None))) s4 s5"
        by (rule quiet_subset [OF s5(3)], unfold quiet_stable [OF y(8)] quiet_stable [OF Q3], rule heap_stable_mono)
          (use n(4,5) y(4) in \<open>auto simp: map_le_def\<close>)
    qed
  qed
qed

subsection \<open>Finding a name\<close>

text \<open>The name of a node, if it has one, and where its pointer is: in the first field.\<close>

fun name_of :: "node \<Rightarrow> u8 list option" where
  "name_of (File np nm dp bs) = Some nm"
| "name_of (Dir np nm par fa fs da ds) = Some nm"
| "name_of (Fd n f pos fl) = None"

definition called :: "(nat \<rightharpoonup> node) \<Rightarrow> u8 list \<Rightarrow> nat \<Rightarrow> bool" where
  "called N nm x \<longleftrightarrow> (\<exists>n. N x = Some n \<and> name_of n = Some nm)"

definition named :: "(nat \<rightharpoonup> node) \<Rightarrow> nat \<Rightarrow> bool" where
  "named N x \<longleftrightarrow> (\<exists>nm. called N nm x)"

lemma calledI: "N x = Some n \<Longrightarrow> name_of n = Some nm \<Longrightarrow> called N nm x"
  by (auto simp: called_def)

lemma called_cstr:
  assumes R: "fs_rel s P N" and c: "called N nm x"
  shows "cstr (mem s) (Mem (rd32 (mem s) (W x))) nm"
proof -
  obtain n where n: "N x = Some n" "name_of n = Some nm" using c by (auto simp: called_def)
  note ok = fs_relD(2) [OF R n(1)]
  show ?thesis
  proof (cases n)
    case (File np nm' dp bs)
    then show ?thesis using n(2) ok file_fields(1) [of "mem s" P x np nm' dp bs] by (simp add: file_name_def str_obj_def)
  next
    case (Dir np nm' par fa fs da ds)
    then show ?thesis using n(2) ok dir_fields(1) [of "mem s" P x np nm' par fa fs da ds]
      by (simp add: dir_name_def str_obj_def)
  qed (use n(2) in simp)
qed

lemma find_named_spec:
  assumes R: "fs_rel s P N" and w: "words_at (mem s) a (map W xs)" and nm: "cstr (mem s) name nm"
    and xs: "\<forall>x\<in>set xs. named N x" and i: "i + n = length xs"
  shows "find_named (mem s) (W a) name i n = Some (find (\<lambda>j. called N nm (xs ! j)) [i..<length xs])"
  using i
proof (induction n arbitrary: i)
  case (Suc n)
  have i: "i < length xs" using Suc.prems by simp
  then obtain nm' where x: "called N nm' (xs ! i)" using xs unfolding named_def by (meson nth_mem)
  have c: "called N nm (xs ! i) \<longleftrightarrow> nm' = nm" using x by (auto simp: called_def)
  have "rd32 (mem s) (W (a + 4 * i)) = W (xs ! i)" using words_atD [OF w, of i] i by simp
  moreover have "W a + W i * SIZEOF_PTR = W (a + 4 * i)" by simp
  ultimately have r: "strcmp (mem s) (Mem (rd32 (mem s) (rd32 (mem s) (W a + W i * SIZEOF_PTR)))) name = Some (str_order nm' nm)"
    "str_order nm' nm = 0 \<longleftrightarrow> nm' = nm"
    using strcmp_cstr [OF called_cstr [OF R x] nm] strcmp_eq_0 [OF called_cstr [OF R x] nm] by (simp_all only:)
  have "find_named (mem s) (W a) name (Suc i) n = Some (find (\<lambda>j. called N nm (xs ! j)) [Suc i..<length xs])"
    by (rule Suc.IH) (use Suc.prems in simp)
  then show ?case using r c i by (simp add: upt_conv_Cons)
qed simp

text \<open>The first position of a node with a name in a list of nodes.\<close>

definition position_of :: "(nat \<rightharpoonup> node) \<Rightarrow> u8 list \<Rightarrow> nat list \<Rightarrow> nat option" where
  "position_of N nm xs = find (\<lambda>j. called N nm (xs ! j)) [0..<length xs]"

lemma position_of_SomeD: "position_of N nm xs = Some i \<Longrightarrow> i < length xs \<and> called N nm (xs ! i)"
  unfolding position_of_def find_Some_iff by (auto simp: nth_upt)

lemma position_of_None: "position_of N nm xs = None \<longleftrightarrow> (\<forall>x\<in>set xs. \<not> called N nm x)"
  unfolding position_of_def find_None_iff by (auto simp: all_set_conv_all_nth)

lemma array_words: "array_obj m P a xs \<Longrightarrow> words_at m a (map W xs)"
  by (auto simp: array_obj_def split: if_splits)

lemma array_len: "array_obj m P a xs \<Longrightarrow> length xs < 2 ^ 32"
  using objD [of P a "4 * length xs"] by (cases "xs = []") (auto simp: array_obj_def split: if_splits)

lemma find_named_array:
  assumes "fs_rel s P N" "array_obj (mem s) P a xs" "cstr (mem s) name nm" "\<forall>x\<in>set xs. named N x"
  shows "find_named (mem s) (W a) name 0 (unat (W (length xs))) = Some (position_of N nm xs)"
  using find_named_spec [OF assms(1) array_words [OF assms(2)] assms(3,4), of 0 "length xs"] array_len [OF assms(2)]
  by (simp add: position_of_def unat_of_nat_u32)

subsection \<open>The shape of the tree\<close>

text \<open>
  A directory lists files and, as subdirectories, directories that name it as their parent;
  no file is listed twice. (A deleted file may still be open: nothing is said of descriptors.)
\<close>

definition files :: "(nat \<rightharpoonup> node) \<Rightarrow> nat \<Rightarrow> nat list" where
  "files N d = (case N d of Some (Dir np nm par fa fs da ds) \<Rightarrow> fs | _ \<Rightarrow> [])"

definition subdirs :: "(nat \<rightharpoonup> node) \<Rightarrow> nat \<Rightarrow> nat list" where
  "subdirs N d = (case N d of Some (Dir np nm par fa fs da ds) \<Rightarrow> ds | _ \<Rightarrow> [])"

definition file_node :: "(nat \<rightharpoonup> node) \<Rightarrow> nat \<Rightarrow> bool" where
  "file_node N f \<longleftrightarrow> (\<exists>np nm dp bs. N f = Some (File np nm dp bs))"

definition dir_in :: "(nat \<rightharpoonup> node) \<Rightarrow> nat \<Rightarrow> nat \<Rightarrow> bool" where
  "dir_in N d e \<longleftrightarrow> (\<exists>np nm fa fs da ds. N e = Some (Dir np nm d fa fs da ds))"

definition tree_ok :: "(nat \<rightharpoonup> node) \<Rightarrow> bool" where
  "tree_ok N \<longleftrightarrow>
     (\<forall>d. distinct (files N d) \<and> (\<forall>f\<in>set (files N d). file_node N f) \<and> (\<forall>e\<in>set (subdirs N d). dir_in N d e)) \<and>
     (\<forall>d e. d \<noteq> e \<longrightarrow> set (files N d) \<inter> set (files N e) = {})"

lemma tree_okD:
  assumes "tree_ok N"
  shows "distinct (files N d)" "\<And>f. f \<in> set (files N d) \<Longrightarrow> file_node N f"
    and "\<And>e. e \<in> set (subdirs N d) \<Longrightarrow> dir_in N d e" "d \<noteq> e \<Longrightarrow> set (files N d) \<inter> set (files N e) = {}"
  using assms unfolding tree_ok_def by blast+

lemma files_Dir [simp]: "N d = Some (Dir np nm par fa fs da ds) \<Longrightarrow> files N d = fs"
  "N d = Some (Dir np nm par fa fs da ds) \<Longrightarrow> subdirs N d = ds"
  by (simp_all add: files_def subdirs_def)

lemma files_upd:
  "files (N(a \<mapsto> File np nm dp bs)) = (files N)(a := [])" "subdirs (N(a \<mapsto> File np nm dp bs)) = (subdirs N)(a := [])"
  "files (N(a \<mapsto> Dir np nm par fa fs da ds)) = (files N)(a := fs)"
  "subdirs (N(a \<mapsto> Dir np nm par fa fs da ds)) = (subdirs N)(a := ds)"
  "files (N(a \<mapsto> Fd n f pos fl)) = (files N)(a := [])" "subdirs (N(a \<mapsto> Fd n f pos fl)) = (subdirs N)(a := [])"
  "files (N(a := None)) = (files N)(a := [])" "subdirs (N(a := None)) = (subdirs N)(a := [])"
  by (auto simp: files_def subdirs_def fun_eq_iff)

lemma file_node_named: "file_node N f \<Longrightarrow> named N f" "dir_in N d e \<Longrightarrow> named N e"
  by (auto simp: file_node_def dir_in_def named_def called_def)

lemma tree_named:
  "tree_ok N \<Longrightarrow> \<forall>x\<in>set (files N d). named N x" "tree_ok N \<Longrightarrow> \<forall>x\<in>set (subdirs N d). named N x"
  using tree_okD(2,3) file_node_named by blast+

text \<open>The effects of the operations keep the shape.\<close>

lemma not_listed:
  assumes "tree_ok N" "N f = None"
  shows "f \<notin> set (files N d)" "f \<notin> set (subdirs N d)"
  using tree_okD(2,3) [OF assms(1)] assms(2) by (force simp: file_node_def dir_in_def)+

lemma tree_ok_add_file:
  assumes T: "tree_ok N" and D: "N d = Some (Dir np nm par fa fs da ds)" and f: "N f = None"
  shows "tree_ok (N(f \<mapsto> File fnp fnm dp bs, d \<mapsto> Dir np nm par y (fs @ [f]) da ds))" (is "tree_ok ?N")
proof -
  note n = not_listed [OF T f]
  have df: "d \<noteq> f" using D f by auto
  have F: "files ?N = (files N)(f := [], d := fs @ [f])" "subdirs ?N = (subdirs N)(f := [], d := ds)"
    by (simp_all add: files_upd)
  have fs: "fs = files N d" "ds = subdirs N d" using D by simp_all
  have keep: "file_node N x \<Longrightarrow> file_node ?N x" "dir_in N a x \<Longrightarrow> dir_in ?N a x" for x a
    using D f by (auto simp: file_node_def dir_in_def)
  have new: "file_node ?N f" using df by (simp add: file_node_def)
  show ?thesis unfolding tree_ok_def F
    using tree_okD [OF T] keep new n df fs by (auto simp: disjoint_iff)
qed

lemma tree_ok_add_dir:
  assumes T: "tree_ok N" and D: "N d = Some (Dir np nm par fa fs da ds)" and e: "N e = None"
  shows "tree_ok (N(e \<mapsto> Dir enp enm d 0 [] 0 [], d \<mapsto> Dir np nm par fa fs y (ds @ [e])))" (is "tree_ok ?N")
proof -
  note n = not_listed [OF T e]
  have de: "d \<noteq> e" using D e by auto
  have F: "files ?N = (files N)(e := [], d := fs)" "subdirs ?N = (subdirs N)(e := [], d := ds @ [e])"
    by (simp_all add: files_upd)
  have fs: "fs = files N d" "ds = subdirs N d" using D by simp_all
  have keep: "file_node N x \<Longrightarrow> file_node ?N x" "dir_in N a x \<Longrightarrow> dir_in ?N a x" for x a
    using D e by (auto simp: file_node_def dir_in_def)
  have new: "dir_in ?N d e" using de by (simp add: dir_in_def)
  show ?thesis unfolding tree_ok_def F
    using tree_okD [OF T] keep new n de fs by (auto simp: disjoint_iff)
qed

lemma tree_ok_remove_file:
  assumes T: "tree_ok N" and D: "N d = Some (Dir np nm par fa (xs @ f # zs) da ds)"
  shows "tree_ok (N(f := None, d \<mapsto> Dir np nm par y (xs @ zs) da ds))" (is "tree_ok ?N")
proof -
  have f: "file_node N f" using tree_okD(2) [OF T, of f d] D by simp
  then have df: "d \<noteq> f" using D by (auto simp: file_node_def)
  have F: "files ?N = (files N)(f := [], d := xs @ zs)" "subdirs ?N = (subdirs N)(f := [], d := ds)"
    by (simp_all add: files_upd)
  have fs: "files N d = xs @ f # zs" "ds = subdirs N d" using D by simp_all
  have one: "f \<notin> set (xs @ zs)" "distinct (xs @ zs)" using tree_okD(1) [OF T, of d] fs(1) by auto
  have other: "f \<notin> set (files N a)" if "a \<noteq> d" for a using tree_okD(4) [OF T that] fs(1) by auto
  have keep: "file_node N x \<Longrightarrow> x \<noteq> f \<Longrightarrow> file_node ?N x" "dir_in N a x \<Longrightarrow> dir_in ?N a x" for x a
    using D f by (auto simp: file_node_def dir_in_def)
  have "set (xs @ zs) \<subseteq> set (files N d)" unfolding fs(1) by auto
  then show ?thesis unfolding tree_ok_def F
    using tree_okD [OF T] keep one other df fs(2) by (auto simp: disjoint_iff) blast+
qed

end
