(* ===== verification/FsDelete.thy ===== *)
theory FsDelete
  imports FsTree
begin

section \<open>FsDelete: deleting a file\<close>

subsection \<open>Giving back three objects\<close>

lemma fs_free_three:
  fixes s :: "'a heap_state_scheme"
  assumes R: "fs_rel s P N" and d: "distinct [p, q, r]" "p \<in> dom P" "q \<in> dom P" "r \<in> dom P"
    and own: "p \<notin> owned foot N" "q \<notin> owned foot N" "r \<notin> owned foot N"
  obtains s1 s2 s3 where "free (W p) s = Some (0, s1)" "free (W q) s1 = Some (0, s2)" "free (W r) s2 = Some (0, s3)"
    "fs_rel s3 (P(p := None, q := None, r := None)) N"
    "quiet (heap_stable s (P(p := None, q := None, r := None))) s s3"
proof -
  obtain a b c where P: "P p = Some a" "P q = Some b" "P r = Some c" using d by blast
  obtain s1 where s1: "free (W p) s = Some (0, s1)" "fs_rel s1 (P(p := None)) N" "quiet (heap_stable s (P(p := None))) s s1"
    by (rule fs_free [OF R P(1) own(1)])
  obtain s2 where s2: "free (W q) s1 = Some (0, s2)" "fs_rel s2 (P(p := None, q := None)) N"
    "quiet (heap_stable s1 (P(p := None, q := None))) s1 s2"
    by (rule fs_free [OF s1(2) _ own(2), of b]) (use P d(1) in auto)
  obtain s3 where s3: "free (W r) s2 = Some (0, s3)" "fs_rel s3 (P(p := None, q := None, r := None)) N"
    "quiet (heap_stable s2 (P(p := None, q := None, r := None))) s2 s3"
    by (rule fs_free [OF s2(2) _ own(3), of c]) (use P d(1) in auto)
  have "quiet (heap_stable s (P(p := None, q := None, r := None))) s s3"
  proof (rule quiet_trans [OF quiet_trans])
    show "quiet (heap_stable s (P(p := None, q := None, r := None))) s s1"
      by (rule quiet_subset [OF s1(3) heap_stable_mono]) (auto simp: map_le_def)
    show "quiet (heap_stable s (P(p := None, q := None, r := None))) s1 s2"
      by (rule quiet_subset [OF s2(3)], unfold quiet_stable [OF s1(3)], rule heap_stable_mono) (auto simp: map_le_def)
    show "quiet (heap_stable s (P(p := None, q := None, r := None))) s2 s3"
      using s3(3) unfolding quiet_stable [OF s2(3)] quiet_stable [OF s1(3)] .
  qed
  with s1(1) s2(1) s3(1,2) that show thesis by blast
qed

subsection \<open>Taking an entry out of an array\<close>

lemma W_mult_4: "W n * SIZEOF_PTR = W (4 * n)"
  by simp

lemma unlink_array:
  fixes m :: memory
  assumes w: "words_at m a (map W (xs @ f # zs))" and r: "a + 4 * length (xs @ f # zs) < 2 ^ 32"
  defines "n \<equiv> length (xs @ f # zs)" and "i \<equiv> length xs"
  defines "m' \<equiv> (if W i < W n - (1 :: u32) then memmove m (W a + W i * SIZEOF_PTR) (W a + (W i + 1) * SIZEOF_PTR)
      ((W n - W i - 1) * SIZEOF_PTR) else m)"
  shows "words_at m' a (map W (xs @ zs))" "same_on (- {a..<a + 4 * n}) m m'"
proof -
  have n: "n = i + Suc (length zs)" by (simp add: n_def i_def)
  have rr: "a + 4 * (i + Suc (length zs)) < 2 ^ 32" using r unfolding n_def [symmetric] n .
  have "W n - 1 = W (i + length zs)" by (simp add: n)
  then have lt: "W i < W n - (1 :: u32) \<longleftrightarrow> zs \<noteq> []"
    using of_nat_u32_less [of i "i + length zs"] rr by (cases zs) simp_all
  have wxs: "words_at m a (map W xs)" and wzs: "words_at m (a + 4 * Suc i) (map W zs)"
    using w by (simp_all add: words_at_append words_at_Cons i_def algebra_simps)
  have "words_at m' a (map W (xs @ zs)) \<and> same_on (- {a..<a + 4 * n}) m m'"
  proof (cases "zs = []")
    case True
    then have "m' = m" using lt by (simp add: m'_def)
    then show ?thesis using True wxs by simp
  next
    case False
    let ?k = "4 * length zs"
    have "W a + W i * SIZEOF_PTR = W (a + 4 * i)" "W a + (W i + 1) * SIZEOF_PTR = W (a + 4 * Suc i)"
      "(W n - W i - 1) * SIZEOF_PTR = W ?k" by (simp_all add: n algebra_simps)
    then have "m' = memmove m (W (a + 4 * i)) (W (a + 4 * Suc i)) (W ?k)" using lt False by (simp only: m'_def if_True not_False_eq_True)
    also have "\<dots> = wr_bytes m (W (a + 4 * i)) (rd_bytes m (W (a + 4 * Suc i)) ?k)"
    proof -
      have k: "a + 4 * Suc i + ?k < 2 ^ 32" using rr by simp
      then have "a + 4 * i < 2 ^ 32" "a + 4 * Suc i < 2 ^ 32" "?k < 2 ^ 32" by simp_all
      note u = this [THEN unat_of_nat_u32]
      show ?thesis using k using memmove_wr_bytes [of "W (a + 4 * Suc i)" "W ?k" "W (a + 4 * i)" m] unfolding u by simp
    qed
    finally have m': "m' = wr_bytes m (W (a + 4 * i)) (rd_bytes m (W (a + 4 * Suc i)) ?k)" .
    have "a + 4 * i + ?k < 2 ^ 32" using rr by simp
    then have le: "a + 4 * i + length (rd_bytes m (W (a + 4 * Suc i)) ?k) \<le> 2 ^ 32" by simp
    have S: "same_on (- {a..<a + 4 * n}) m m'" unfolding m' by (rule same_on_wr_bytes [OF le]) (auto simp: n)
    have "same_on {a..<a + 4 * i} m m'" unfolding m' by (rule same_on_wr_bytes [OF le]) auto
    then have x: "words_at m' a (map W xs)"
      by (rule words_at_same_on [OF wxs]) (use le in \<open>auto simp: i_def\<close>)
    have "rd_bytes m' (W (a + 4 * i)) ?k = rd_bytes m (W (a + 4 * Suc i)) ?k"
      unfolding m' by (rule rd_bytes_wr_bytes) (use le in simp_all)
    then have "words_at m' (a + 4 * i) (map W zs)" by (rule words_at_rd_bytes [OF wzs]) simp
    with x S show ?thesis by (simp add: words_at_append i_def)
  qed
  then show "words_at m' a (map W (xs @ zs))" "same_on (- {a..<a + 4 * n}) m m'" by simp_all
qed

subsection \<open>Shrinking the array of a directory\<close>

text \<open>Writing one field of an object that no node owns.\<close>

lemma fs_put_word:
  fixes s :: "'a heap_state_scheme"
  assumes R: "fs_rel s P N" and d: "obj P d (4 * length ws)" "d \<notin> owned foot N" and ws: "words_at (mem s) d ws" "i < length ws"
  shows "fs_rel (s\<lparr>mem := wr32 (mem s) (W (d + 4 * i)) v\<rparr>) P N"
    "words_at (wr32 (mem s) (W (d + 4 * i)) v) d (ws[i := v])"
    "quiet (heap_stable s (P(d := None))) s (s\<lparr>mem := wr32 (mem s) (W (d + 4 * i)) v\<rparr>)"
proof -
  obtain c where c: "P d = Some c" "4 * length ws \<le> c" "d + c \<le> 2 ^ 32" using d(1) by (auto simp: obj_def)
  have S: "same_on (- {d..<d + c}) (mem s) (wr32 (mem s) (W (d + 4 * i)) v)"
    by (rule same_on_wr_obj [OF _ c(3)]) (use ws(2) c(2) in simp)
  show "fs_rel (s\<lparr>mem := wr32 (mem s) (W (d + 4 * i)) v\<rparr>) P N" by (rule fs_put [OF R c(1) d(2) S])
  show "words_at (wr32 (mem s) (W (d + 4 * i)) v) d (ws[i := v])"
    by (rule words_at_wr32 [OF ws]) (use c in simp)
  show "quiet (heap_stable s (P(d := None))) s (s\<lparr>mem := wr32 (mem s) (W (d + 4 * i)) v\<rparr>)"
    by (rule fs_write_quiet [OF R c(1) S])
qed

lemma words_at_quiet:
  assumes "words_at (mem s) d ws" "obj P d (4 * length ws)" "quiet (heap_stable s P) s s'"
  shows "words_at (mem s') d ws"
  using assms(3) obj_stable [OF assms(2), of s] objD [OF assms(2)]
  by (intro words_at_same_on [OF assms(1), of "heap_stable s P"]) (simp_all add: quiet_def)

lemma shrink_array:
  fixes s :: "'a fs_state_scheme"
  assumes R: "fs_rel s P N" and d: "obj P d 24" "d \<notin> owned foot N" "fa \<noteq> d" "fa \<notin> owned foot N"
    and ws: "words_at (mem s) d [w0, w1, W fa, W (Suc (length xs)), w4, w5]"
    and fa: "obj P fa (4 * Suc (length xs))" "words_at (mem s) fa (map W xs)" and len: "4 * length xs \<le> 32759"
  obtains s' P' y where "shrink_files (W d) s = Some s'"
    "fs_rel s' P' N" "words_at (mem s') d [w0, w1, W y, W (Suc (length xs)), w4, w5]" "array_obj (mem s') P' y xs"
    "y \<notin> owned foot N" "y = fa \<or> y = 0 \<or> P y = None" "P' d = P d" "y \<noteq> d"
    "\<forall>p. p \<noteq> fa \<longrightarrow> p \<noteq> y \<longrightarrow> P' p = P p" "quiet (heap_stable s (P(d := None, fa := None))) s s'"
proof -
  let ?ws = "\<lambda>y. [w0, w1, W y, W (Suc (length xs)), w4, w5]"
  have fld: "file_count m (W d) = W (Suc (length xs))" "dir_files m (W d) = W y" if "words_at m d (?ws y)" for m y
    using words_6 [OF that] by (simp_all add: file_count_def dir_files_def)
  obtain cd where cd: "P d = Some cd" using d(1) by (auto simp: obj_def)
  obtain cf where cf: "P fa = Some cf" "4 * Suc (length xs) \<le> cf" using fa(1) by (auto simp: obj_def)
  have f0: "fa \<noteq> 0" using objD [OF fa(1)] by simp
  have d8: "W d + 8 = W (d + 4 * 2)" by simp
  have Pd: "obj (P(fa := None)) d 24" using d(1,3) by (simp add: obj_def)
  have off: "heap_stable s (P(d := None, fa := None)) \<subseteq> heap_stable s (P(fa := None))"
    "heap_stable s (P(d := None, fa := None)) \<subseteq> heap_stable s P"
    "heap_stable s (P(d := None, fa := None)) \<subseteq> heap_stable s (P(d := None))"
    by (rule heap_stable_mono; simp add: map_le_def)+
  show thesis
  proof (cases "xs = []")
    case True
    obtain s1 where s1: "free (W fa) s = Some (0, s1)" "fs_rel s1 (P(fa := None)) N"
      "quiet (heap_stable s (P(fa := None))) s s1" by (rule fs_free [OF R cf(1) d(4)])
    have w1: "words_at (mem s1) d (?ws fa)" by (rule words_at_quiet [OF ws _ s1(3)]) (use Pd in simp)
    let ?s = "s1\<lparr>mem := wr32 (mem s1) (W (d + 4 * 2)) (W 0)\<rparr>"
    have t: "fs_rel ?s (P(fa := None)) N" "words_at (mem ?s) d ((?ws fa)[2 := W 0])"
      "quiet (heap_stable s1 (P(fa := None, d := None))) s1 ?s"
      using fs_put_word [OF s1(2) _ d(2) w1, of 2 "W 0"] Pd by simp_all
    show thesis
    proof (rule that [OF _ t(1), of 0])
      show "quiet (heap_stable s (P(d := None, fa := None))) s ?s"
      proof (rule quiet_trans [OF quiet_subset [OF s1(3) off(1)]])
        show "quiet (heap_stable s (P(d := None, fa := None))) s1 ?s"
          using t(3) d(3) unfolding quiet_stable [OF s1(3)] by (simp add: fun_upd_twist)
      qed
    qed (use True s1(1) fld [OF ws] t(2) d not_owned_0 [OF R] objD [OF d(1)]
        in \<open>simp_all add: shrink_files_def d8 array_obj_def numeral_2_eq_2 del: of_nat_add\<close>)
  next
    case False
    have "Suc (length xs) < 2 ^ 32" using len by simp
    then have gt: "W (Suc (length xs)) > (1 :: u32)"
      using of_nat_u32_less [of 1 "Suc (length xs)"] False by simp
    have n: "(W (Suc (length xs)) - 1) * SIZEOF_PTR = W (4 * length xs)" "W (Suc (length xs)) - 1 = W (length xs)" by simp_all
    have "0 < 4 * length xs" using False by simp
    with R show thesis
    proof (rule fs_alloc [OF _ _ len])
      assume a: "allocate (W (4 * length xs)) s = Some (0, s)"
      have "obj P fa (4 * length xs)" using fa(1) by (auto simp: obj_def)
      then have "array_obj (mem s) P fa xs" using fa(2) f0 False by (simp add: array_obj_def)
      moreover have "quiet (heap_stable s (P(d := None, fa := None))) s s" ..
      ultimately show thesis using that [of s P fa] a R ws d gt fld [OF ws] n
        by (simp add: shrink_files_def del: of_nat_Suc of_nat_mult)
    next
      fix y c s1
      assume a: "allocate (W (4 * length xs)) s = Some (W y, s1)" "W y \<noteq> 0" "0 < y" "P y = None" "y \<notin> owned foot N"
        "4 * length xs \<le> c" "fs_rel s1 (P(y \<mapsto> c)) N" "quiet (heap_stable s P) s s1"
      let ?P = "P(y \<mapsto> c)"
      have ne: "y \<noteq> d" "y \<noteq> fa" using a(4) cd cf by auto
      have S: "same_on (heap_stable s P) (mem s) (mem s1)" using a(8) by (simp add: quiet_def)
      have "obj P fa (4 * length xs)" using fa(1) by (auto simp: obj_def)
      then have "array_obj (mem s) P fa xs" using fa(2) f0 False by (simp add: array_obj_def)
      then have "array_obj (mem s1) P fa xs" by (rule array_obj_quiet [OF _ S]) simp
      then have A: "array_obj (mem s1) ?P fa xs" by (rule array_obj_cong_P) (use ne in simp)
      have w1: "words_at (mem s1) d (?ws fa)" by (rule words_at_quiet [OF ws _ a(8)]) (use d in simp)
      have l29: "length xs < 2 ^ 29" using len by simp
      obtain m s2 where m: "memcpy (mem s1) (W y) (Mem (W fa)) (W (length xs) * SIZEOF_PTR) = m"
        "same_on (- {y..<y + c}) (mem s1) m" "free (W fa) (s1\<lparr>mem := m\<rparr>) = Some (0, s2)" "fs_rel s2 (?P(fa := None)) N"
        "words_at (mem s2) y (map W xs)" "quiet (heap_stable s1 (?P(fa := None, y := None))) s1 s2"
        by (rule copy_array [OF a(7) A f0 d(4) _ a(6,5) ne(2) l29]) simp
      have "{d..<d + cd} \<inter> {y..<y + c} = {}" by (rule fs_objects_apart [OF a(7)]) (use cd ne in simp_all)
      then have "words_at m d (?ws fa)"
        by (intro words_at_same_on [OF w1 m(2)]) (use cd d(1) in \<open>auto simp: obj_def disjoint_iff\<close>)
      note old = fld(2) [OF this]
      have "?P(fa := None, y := None) = P(fa := None)" using ne a(4) by auto
      note Q2 = m(6) [unfolded this]
      have w2: "words_at (mem s2) d (?ws fa)" by (rule words_at_quiet [OF w1 _ Q2]) (use Pd in simp)
      let ?s = "s2\<lparr>mem := wr32 (mem s2) (W (d + 4 * 2)) (W y)\<rparr>"
      have Pd2: "obj (?P(fa := None)) d 24" using d(1,3) ne by (simp add: obj_def)
      have t: "fs_rel ?s (?P(fa := None)) N" "words_at (mem ?s) d ((?ws fa)[2 := W y])"
        "quiet (heap_stable s2 (?P(fa := None, d := None))) s2 ?s"
        using fs_put_word [OF m(4) _ d(2) w2, of 2 "W y"] Pd2 by simp_all
      have yo: "obj (?P(fa := None)) y (4 * length xs)" by (rule fs_obj [OF m(4)]) (use ne a(6) in auto)
      then have "obj (?P(fa := None, d := None)) y (4 * length xs)" using ne by (simp add: obj_def)
      from words_at_quiet [OF m(5) _ t(3)] this have "words_at (mem ?s) y (map W xs)" by simp
      then have arr: "array_obj (mem ?s) (?P(fa := None)) y xs" using yo a(3) False by (simp add: array_obj_def)
      show thesis
      proof (rule that [OF _ t(1) _ arr a(5)])
        show "quiet (heap_stable s (P(d := None, fa := None))) s ?s"
        proof (rule quiet_trans [OF quiet_trans])
          show "quiet (heap_stable s (P(d := None, fa := None))) s s1" by (rule quiet_subset [OF a(8) off(2)])
          show "quiet (heap_stable s (P(d := None, fa := None))) s1 s2"
            using quiet_subset [OF Q2] off(1) unfolding quiet_stable [OF a(8)] .
          show "quiet (heap_stable s (P(d := None, fa := None))) s2 ?s"
            by (rule quiet_subset [OF t(3)], unfold quiet_stable [OF Q2] quiet_stable [OF a(8)], rule heap_stable_mono)
              (use ne a(4) in \<open>auto simp: map_le_def\<close>)
        qed
      qed (use a(1,2,4) gt fld [OF ws] fld [OF w1] n m(1,3) old t(2) ne d(3)
          in \<open>simp_all add: shrink_files_def d8 numeral_2_eq_2 Let_def del: of_nat_add of_nat_Suc of_nat_mult left_diff_distrib_numeral\<close>)
    qed
  qed
qed

lemma fs_range_strict: "fs_rel s P N \<Longrightarrow> P p = Some c \<Longrightarrow> p + c < 2 ^ 32"
proof -
  assume "fs_rel s P N" and p: "P p = Some c"
  then obtain L where R: "heap_rel s L" and P: "P = payloads L" using fs_relD(1) unfolding heap_objects_def by blast
  obtain a k where a: "p = a + 9" "L a = Some k" "c = 2 ^ k - 9" using p unfolding P payloads_Some by blast
  have "a + 2 ^ k \<le> unat (current_brk s)" using heap_rel_block(5) [OF R a(2)] .
  then show ?thesis using payload_range(2) [OF R a(2)] unat_u32_lt [of "current_brk s"] a by simp
qed

lemma delete_unlink_spec:
  fixes s :: "'a fs_state_scheme"
  assumes R: "fs_rel s P N" and d: "obj P d 24" "d \<notin> owned foot N" "fa \<noteq> d" "fa \<notin> owned foot N"
    and ws: "words_at (mem s) d [w0, w1, W fa, W (length (xs @ f # zs)), w4, w5]"
    and fa: "obj P fa (4 * length (xs @ f # zs))" "words_at (mem s) fa (map W (xs @ f # zs))"
    and len: "4 * length (xs @ f # zs) \<le> 32759"
  obtains s' P' y where "delete_file_unlink (W d) (W (length xs)) s = Some s'"
    "fs_rel s' P' N" "words_at (mem s') d [w0, w1, W y, W (length (xs @ zs)), w4, w5]" "array_obj (mem s') P' y (xs @ zs)"
    "y \<notin> owned foot N" "y = fa \<or> y = 0 \<or> P y = None" "P' d = P d" "y \<noteq> d"
    "\<forall>p. p \<noteq> fa \<longrightarrow> p \<noteq> y \<longrightarrow> P' p = P p" "quiet (heap_stable s (P(d := None, fa := None))) s s'"
proof -
  let ?n = "length (xs @ f # zs)" and ?ws = "\<lambda>y k. [w0, w1, W y, W k, w4, w5]"
  have n: "?n = Suc (length (xs @ zs))" by simp
  obtain cf where cf: "P fa = Some cf" "4 * ?n \<le> cf" using fa(1) by (auto simp: obj_def)
  define m where "m = (if W (length xs) < W ?n - (1 :: u32)
      then memmove (mem s) (W fa + W (length xs) * SIZEOF_PTR) (W fa + (W (length xs) + 1) * SIZEOF_PTR)
        ((W ?n - W (length xs) - 1) * SIZEOF_PTR) else mem s)"
  have "fa + 4 * ?n < 2 ^ 32" using fs_range_strict [OF R cf(1)] cf(2) by simp
  note U = unlink_array [OF fa(2) this, folded m_def]
  have S: "same_on (- {fa..<fa + cf}) (mem s) m" by (rule same_on_subset [OF U(2)]) (use cf(2) in auto)
  define s1 where "s1 = s\<lparr>mem := m\<rparr>"
  have R1: "fs_rel s1 P N" unfolding s1_def by (rule fs_put [OF R cf(1) d(4) S])
  have Q1: "quiet (heap_stable s (P(fa := None))) s s1" unfolding s1_def by (rule fs_write_quiet [OF R cf(1) S])
  have "obj (P(fa := None)) d 24" using d(1,3) by (simp add: obj_def)
  then have w1: "words_at (mem s1) d (?ws fa (Suc (length (xs @ zs))))"
    using words_at_quiet [OF ws _ Q1] unfolding n by simp
  have f1: "words_at (mem s1) fa (map W (xs @ zs))" using U(1) by (simp add: s1_def)
  have fo: "obj P fa (4 * Suc (length (xs @ zs)))" using fa(1) unfolding n .
  have l: "4 * length (xs @ zs) \<le> 32759" using len by simp
  obtain s2 P' y where sh: "shrink_files (W d) s1 = Some s2"
    "fs_rel s2 P' N" "words_at (mem s2) d (?ws y (Suc (length (xs @ zs))))" "array_obj (mem s2) P' y (xs @ zs)"
    "y \<notin> owned foot N" "y = fa \<or> y = 0 \<or> P y = None" "P' d = P d" "y \<noteq> d"
    "\<forall>p. p \<noteq> fa \<longrightarrow> p \<noteq> y \<longrightarrow> P' p = P p" "quiet (heap_stable s1 (P(d := None, fa := None))) s1 s2"
    by (rule shrink_array [OF R1 d w1 fo f1 l])
  have d': "obj P' d 24" using d(1) sh(7) by (simp add: obj_def)
  let ?s = "s2\<lparr>mem := wr32 (mem s2) (W (d + 4 * 3)) (W (length (xs @ zs)))\<rparr>"
  have t: "fs_rel ?s P' N" "words_at (mem ?s) d ((?ws y (Suc (length (xs @ zs))))[3 := W (length (xs @ zs))])"
    "quiet (heap_stable s2 (P'(d := None))) s2 ?s"
    using fs_put_word [OF sh(2) _ d(2) sh(3), of 3 "W (length (xs @ zs))"] d' by simp_all
  have w: "words_at (mem ?s) d (?ws y (length (xs @ zs)))" using t(2) by (simp add: eval_nat_numeral)
  have arr: "array_obj (mem ?s) P' y (xs @ zs)"
  proof -
    have "array_obj (mem ?s) (P'(d := None)) y (xs @ zs)"
      by (rule array_obj_quiet [OF sh(4)]) (use t(3) sh(8) in \<open>auto simp: quiet_def\<close>)
    then show ?thesis by (rule array_obj_cong_P) (use sh(8) in simp)
  qed
  have keep: "P' p = P p" if "p \<noteq> fa" "P p \<noteq> None" for p
    using sh(6,9) fs_zero [OF R] that by (cases "p = y") auto
  show thesis
  proof (rule that [OF _ t(1) w arr sh(5-9)])
    have d12: "W d + 12 = W (d + 4 * 3)" by simp
    have c: "file_count (mem s) (W d) = W ?n" "dir_files (mem s) (W d) = W fa"
      using words_6 [OF ws] by (simp_all add: file_count_def dir_files_def)
    have "file_count (mem s2) (W d) - 1 = W (length (xs @ zs))"
      using words_6 [OF sh(3)] by (simp add: file_count_def)
    then have "delete_file_shrink (W d) s1 = Some ?s"
      unfolding delete_file_shrink_def sh(1) d12 by (simp del: of_nat_add)
    moreover have "s\<lparr>mem := mem s\<rparr> = s" by simp
    ultimately show "delete_file_unlink (W d) (W (length xs)) s = Some ?s"
      unfolding delete_file_unlink_def Let_def c using m_def s1_def by (simp split: if_splits)
    show "quiet (heap_stable s (P(d := None, fa := None))) s ?s"
    proof (rule quiet_trans [OF quiet_trans])
      show "quiet (heap_stable s (P(d := None, fa := None))) s s1"
        by (rule quiet_subset [OF Q1 heap_stable_mono]) (simp add: map_le_def)
      show "quiet (heap_stable s (P(d := None, fa := None))) s1 s2" using sh(10) unfolding quiet_stable [OF Q1] .
      show "quiet (heap_stable s (P(d := None, fa := None))) s2 ?s"
        by (rule quiet_subset [OF t(3)], unfold quiet_stable [OF sh(10)] quiet_stable [OF Q1], rule heap_stable_mono)
          (use keep in \<open>auto simp: map_le_def\<close>)
    qed
  qed
qed

subsection \<open>ramfs_delete_file\<close>

text \<open>The directory node is put together again from what the removal left.\<close>

lemma rebuild_dir:
  fixes s :: "'a fs_state_scheme"
  assumes R: "fs_rel s' P' N" and ws: "words_at (mem s') d [W np, W par, W y, W (length fs), W da, W (length ds)]"
    and arr: "array_obj (mem s') P' y fs" and o: "obj P d 24" "P' d = P d"
    and n: "str_obj (mem s) P np nm" and a: "array_obj (mem s) P da ds"
    and ne: "distinct [d, np, fa]" "distinct [d, np, da]" "fa = da \<longrightarrow> fa = 0" "y \<noteq> d" "y = fa \<or> y = 0 \<or> P y = None"
    and keep: "\<forall>p. p \<noteq> fa \<longrightarrow> p \<noteq> y \<longrightarrow> P' p = P p" and Q: "quiet (heap_stable s (P(d := None, fa := None))) s s'"
    and own: "d \<notin> owned foot N" "np \<notin> owned foot N" "y \<notin> owned foot N" "da \<noteq> 0 \<Longrightarrow> da \<notin> owned foot N"
  shows "fs_rel s' P' (N(d \<mapsto> Dir np nm par y fs da ds))"
proof -
  let ?P = "P(d := None, fa := None)"
  have S: "same_on (heap_stable s ?P) (mem s) (mem s')" using Q by (simp add: quiet_def)
  have np: "P np \<noteq> None" "np \<noteq> 0" using n objD [of P np] by (auto simp: str_obj_def)
  then have np': "np \<noteq> y" using ne(1,5) by auto
  have da': "da \<noteq> 0 \<Longrightarrow> da \<noteq> y" using a ne(3,5) by (auto simp: array_obj_def obj_def)
  have "str_obj (mem s') ?P np nm" by (rule str_obj_quiet [OF n S]) (use ne in auto)
  then have n': "str_obj (mem s') P' np nm" by (rule str_obj_cong_P) (use ne np' keep in auto)
  have "array_obj (mem s') ?P da ds" by (rule array_obj_quiet [OF a S]) (use ne in auto)
  then have a': "array_obj (mem s') P' da ds"
    by (rule array_obj_cong_P) (use ne da' keep in auto)
  have "obj P' d 24" using o by (simp add: obj_def)
  then have "node_ok (mem s') P' d (Dir np nm par y fs da ds)"
    using ws arr n' a' ne np' da' by auto
  from fs_add [OF R this] show ?thesis using own by auto
qed

lemma ramfs_delete_file_spec:
  fixes s :: "'a fs_state_scheme"
  assumes R: "fs_rel s P N" and T: "tree_ok N" and D: "N d = Some (Dir np nm par fa fs da ds)"
    and name: "cstr (mem s) name fnm" "name \<noteq> Mem 0" and i: "position_of N fnm fs = Some i"
    and len: "4 * length fs \<le> 32759"
  obtains fnp dp bs y P' s' where "N (fs ! i) = Some (File fnp fnm dp bs)" "ramfs_delete_file (W d) name s = Some s'"
    "fs_rel s' P' (N(fs ! i := None, d \<mapsto> Dir np nm par y (remove1 (fs ! i) fs) da ds))"
    "quiet (heap_stable s (P(fnp := None, dp := None, fs ! i := None, d := None, fa := None))) s s'"
    "apart_kept P N P' (N(fs ! i := None, d \<mapsto> Dir np nm par y (remove1 (fs ! i) fs) da ds))"
proof -
  have il: "i < length fs" and c: "called N fnm (fs ! i)" using position_of_SomeD [OF i] by simp_all
  define f xs zs where "f = fs ! i" and "xs = take i fs" and "zs = drop (Suc i) fs"
  have fs: "fs = xs @ f # zs" "length xs = i" using id_take_nth_drop [OF il] il by (simp_all add: f_def xs_def zs_def)
  have fin: "f \<in> set (files N d)" "distinct fs" using tree_okD(1) [OF T, of d] D fs(1) by simp_all
  obtain fnp dp bs where F: "N f = Some (File fnp fnm dp bs)"
    using tree_okD(2) [OF T fin(1)] c by (auto simp: file_node_def called_def f_def)
  have df: "d \<noteq> f" using D F by auto
  note h = dir_node [OF R D]
  let ?N = "N(f := None, d := None)" and ?F = "File fnp fnm dp bs" and ?P = "P(fnp := None, dp := None, f := None)"
  have R1: "fs_rel s P ?N" by (rule fs_del [OF fs_del [OF R]])
  have "owned foot ?N \<subseteq> owned foot (N(f := None))" by (rule owned_del)
  then have ownF: "foot f ?F \<inter> owned foot ?N = {}" using fs_apart [OF R F] by blast
  have "?N = N(d := None, f := None)" using df by (rule fun_upd_twist [symmetric])
  then have sub: "owned foot ?N \<subseteq> owned foot (N(d := None))" using owned_del [of foot "N(d := None)" f] by simp
  have okF: "node_ok (mem s) P f ?F" using fs_relD(2) [OF R F] .
  have "foot d (Dir np nm par fa fs da ds) \<inter> foot f ?F = {}" by (rule fs_relD(3) [OF R D F df])
  then have ap: "d \<notin> {f, fnp, dp}" "np \<notin> {f, fnp, dp}" "fa \<noteq> 0 \<Longrightarrow> fa \<notin> {f, fnp, dp}" "da \<noteq> 0 \<Longrightarrow> da \<notin> {f, fnp, dp}"
    by auto
  have "fs \<noteq> []" using il by auto
  then have fa0: "fa \<noteq> 0" using h(4) unfolding array_obj_def by metis
  obtain s1 s2 s3 where r: "free (W fnp) s = Some (0, s1)" "free (W dp) s1 = Some (0, s2)" "free (W f) s2 = Some (0, s3)"
    "fs_rel s3 ?P ?N" "quiet (heap_stable s ?P) s s3"
    by (rule fs_free_three [OF R1, of fnp dp f]) (use okF node_ok_foot [OF okF] ownF in auto)
  have S: "same_on (heap_stable s ?P) (mem s) (mem s3)" using r(5) by (simp add: quiet_def)
  have o: "obj ?P d 24" using h(1) ap(1) by (simp add: obj_def)
  have ws: "words_at (mem s3) d [W np, W par, W fa, W (length (xs @ f # zs)), W da, W (length ds)]"
    using words_at_quiet [OF h(2) _ r(5)] o fs(1) by simp
  have A: "array_obj (mem s3) ?P fa fs" by (rule array_obj_quiet [OF h(4) S]) (use ap in auto)
  have n3: "str_obj (mem s3) ?P np nm" by (rule str_obj_quiet [OF h(3) S]) (use ap in auto)
  have a3: "array_obj (mem s3) ?P da ds" by (rule array_obj_quiet [OF h(5) S]) (use ap in auto)
  have A': "obj ?P fa (4 * length (xs @ f # zs))" "words_at (mem s3) fa (map W (xs @ f # zs))"
    using A fa0 unfolding fs(1) by (simp_all add: array_obj_def)
  have l: "4 * length (xs @ f # zs) \<le> 32759" using len fs(1) by simp
  have own: "d \<notin> owned foot ?N" "np \<notin> owned foot ?N" "fa \<notin> owned foot ?N" "da \<noteq> 0 \<Longrightarrow> da \<notin> owned foot ?N"
    using h(9-12) sub fa0 by blast+
  have fd: "fa \<noteq> d" using h(6) by auto
  obtain s' P' y where u: "delete_file_unlink (W d) (W (length xs)) s3 = Some s'"
    "fs_rel s' P' ?N" "words_at (mem s') d [W np, W par, W y, W (length (xs @ zs)), W da, W (length ds)]"
    "array_obj (mem s') P' y (xs @ zs)"
    "y \<notin> owned foot ?N" "y = fa \<or> y = 0 \<or> ?P y = None" "P' d = ?P d" "y \<noteq> d"
    "\<forall>p. p \<noteq> fa \<longrightarrow> p \<noteq> y \<longrightarrow> P' p = ?P p" "quiet (heap_stable s3 (?P(d := None, fa := None))) s3 s'"
    by (rule delete_unlink_spec [OF r(4) o own(1) fd own(3) ws A' l])
  have "fs_rel s' P' (?N(d \<mapsto> Dir np nm par y (xs @ zs) da ds))"
    by (rule rebuild_dir [OF u(2-4) o u(7) n3 a3 h(6-8) u(8,6,9,10) own(1,2) u(5) own(4)])
  moreover have "xs @ zs = remove1 f fs" using fin(2) unfolding fs(1) by (simp add: remove1_append)
  ultimately have rel: "fs_rel s' P' (N(f := None, d \<mapsto> Dir np nm par y (remove1 f fs) da ds))" by simp
  show thesis
  proof (rule that [of fnp dp bs, folded f_def, OF F _ rel])
    have len32: "length fs < 2 ^ 32" using len by simp
    note fld = dir_fields [OF fs_relD(2) [OF R D]] and ff = file_fields [OF okF]
    have nz: "W d \<noteq> 0" "W fa \<noteq> 0" "W (length fs) \<noteq> 0"
      using W_nonzero [OF h(1)] W_nonzero [OF A'(1)] of_nat_u32_eq [of "length fs" 0] fs(1) len32
      by (simp_all del: of_nat_Suc of_nat_add)
    have found: "find_named (mem s) (W fa) name 0 (unat (W (length fs))) = Some (Some i)"
      using find_named_array [OF R h(4) name(1)] tree_named(1) [OF T, of d] D i by simp
    have "rd32 (mem s) (W (fa + 4 * i)) = W f"
      using words_atD [OF array_words [OF h(4)], of i] il by (simp add: f_def)
    moreover have "W fa + W i * SIZEOF_PTR = W (fa + 4 * i)" by simp
    ultimately have e: "rd32 (mem s) (W fa + W i * SIZEOF_PTR) = W f" by (simp only:)
    show "ramfs_delete_file (W d) name s = Some s'"
      unfolding ramfs_delete_file_def fld using nz name(2) found e ff r(1-3) u(1) fs(2) by (simp add: Let_def)
    have gone: "{f, fnp, dp, d, fa} \<subseteq> owned foot N"
      using in_owned [where foot = foot and N = N and a = f, OF F] in_owned [where foot = foot and N = N and a = d, OF D] fa0 by auto
    show "apart_kept P N P' (N(f := None, d \<mapsto> Dir np nm par y (remove1 f fs) da ds))"
    proof (rule apart_dir(2) [where N = N, OF D])
      have y: "y = 0 \<or> y \<in> owned foot N \<or> P y = None" using u(6) gone by (auto split: if_splits)
      show "p = 0 \<or> p \<in> owned foot N \<or> P p = None" if "p \<in> {y, da}" for p
        using that y dir_owned(2) [where N = N, OF D] by auto
      fix p assume p: "P p \<noteq> None" "p \<notin> owned foot N"
      then have "p \<noteq> y" "p \<notin> {f, fnp, dp, d, fa}" using y gone fs_zero [OF R] by auto
      then show "P' p = P p" using u(9) by simp
    qed
    show "quiet (heap_stable s (P(fnp := None, dp := None, f := None, d := None, fa := None))) s s'"
    proof (rule quiet_trans)
      show "quiet (heap_stable s (P(fnp := None, dp := None, f := None, d := None, fa := None))) s s3"
        by (rule quiet_subset [OF r(5) heap_stable_mono]) (simp add: map_le_def)
      show "quiet (heap_stable s (P(fnp := None, dp := None, f := None, d := None, fa := None))) s3 s'"
        using u(10) unfolding quiet_stable [OF r(5)] .
    qed
  qed
qed

lemma ramfs_delete_file_none:
  fixes s :: "'a fs_state_scheme"
  assumes R: "fs_rel s P N" and T: "tree_ok N" and D: "N d = Some (Dir np nm par fa fs da ds)"
    and name: "cstr (mem s) name fnm" and i: "position_of N fnm fs = None"
  shows "ramfs_delete_file (W d) name s = Some s"
proof -
  have "find_named (mem s) (W fa) name 0 (unat (W (length fs))) = Some None"
    using find_named_array [OF R dir_node(4) [OF R D] name] tree_named(1) [OF T, of d] D i by simp
  then show ?thesis unfolding ramfs_delete_file_def dir_fields [OF fs_relD(2) [OF R D]] by simp
qed

end
