(* ===== verification/FsPath.thy ===== *)
theory FsPath
  imports FsTree
begin

section \<open>FsPath: walking a path and opening a file\<close>

subsection \<open>Components of a path\<close>

abbreviation slash :: u8 where "slash \<equiv> 0x2F"

text \<open>The components are the maximal runs of characters other than the slash.\<close>

function path_comps :: "u8 list \<Rightarrow> u8 list list" where
  "path_comps bs = (let v = dropWhile (\<lambda>c. c = slash) bs
     in if v = [] then [] else takeWhile (\<lambda>c. c \<noteq> slash) v # path_comps (tl (dropWhile (\<lambda>c. c \<noteq> slash) v)))"
  by auto
termination
proof (relation "measure length")
  fix bs v :: "u8 list" assume v: "v = dropWhile (\<lambda>c. c = slash) bs" "v \<noteq> []"
  have "length (dropWhile (\<lambda>c. c \<noteq> slash) v) \<le> length v" "length v \<le> length bs"
    unfolding v(1) by (rule length_dropWhile_le)+
  moreover have "0 < length v" using v(2) by simp
  ultimately have "length (tl (dropWhile (\<lambda>c. c \<noteq> slash) v)) < length bs" unfolding length_tl by linarith
  then show "(tl (dropWhile (\<lambda>c. c \<noteq> slash) v), bs) \<in> measure length" by simp
qed simp

declare path_comps.simps [simp del]

fun walk :: "(nat \<rightharpoonup> node) \<Rightarrow> nat \<Rightarrow> u8 list list \<Rightarrow> nat option" where
  "walk N d [] = Some d"
| "walk N d (c # cs) = (case position_of N c (subdirs N d) of None \<Rightarrow> None
     | Some i \<Rightarrow> walk N (subdirs N d ! i) cs)"

subsection \<open>Taking tokens off the copy of a path\<close>

text \<open>
  The copy is the object of \<open>c\<close> bytes at \<open>p\<close>: \<open>rest_ok\<close> is what \<open>strtok\<close> remembers of
  it, \<open>tok_ok\<close> the token it has returned and the components to come.
\<close>

definition rest_ok :: "memory \<Rightarrow> nat \<Rightarrow> nat \<Rightarrow> u32 \<Rightarrow> u8 list list \<Rightarrow> bool" where
  "rest_ok m p c nxt ws \<longleftrightarrow> (if nxt = 0 then ws = [] else
     \<exists>bs. cstr m (Mem nxt) bs \<and> p \<le> unat nxt \<and> unat nxt + length bs < p + c \<and> path_comps bs = ws)"

definition tok_ok :: "memory \<Rightarrow> nat \<Rightarrow> nat \<Rightarrow> u32 \<Rightarrow> u32 \<Rightarrow> u8 list list \<Rightarrow> bool" where
  "tok_ok m p c token nxt ws \<longleftrightarrow> (case ws of [] \<Rightarrow> token = 0
     | w # ws' \<Rightarrow> token \<noteq> 0 \<and> cstr m (Mem token) w \<and> rest_ok m p c nxt ws')"

lemma slash_lit: "0 \<notin> set (bytes_of ''/'')" "set (bytes_of ''/'') = {slash}"
  by (simp_all add: bytes_of_def)

lemma next_token:
  assumes s: "cstr m (Mem a) bs" and a: "a \<noteq> 0" "(if str \<noteq> 0 then str else pos) = a"
    and r: "p \<le> unat a" "unat a + length bs < p + c" "p + c \<le> 2 ^ 32"
  obtains token nxt m' where "strtok str (lit ''/'') pos m = Some (token, nxt, m')"
    "tok_ok m' p c token nxt (path_comps bs)" "same_on (- {p..<p + c}) m m'"
proof -
  define u v where "u = takeWhile (\<lambda>c. c = slash) bs" and "v = dropWhile (\<lambda>c. c = slash) bs"
  define w rr where "w = takeWhile (\<lambda>c. c \<noteq> slash) v" and "rr = dropWhile (\<lambda>c. c \<noteq> slash) v"
  have l: "length bs = length u + length w + length rr"
    by (simp add: u_def v_def w_def rr_def length_append [symmetric] del: length_append)
  have c: "path_comps bs = (if v = [] then [] else w # path_comps (tl rr))"
    by (subst path_comps.simps) (simp add: v_def w_def rr_def Let_def)
  let ?tok = "a + W (length u)" and ?stop = "a + W (length u) + W (length w)"
  have le: "unat a + length bs < 2 ^ 32" using r by simp
  have tok: "unat ?tok = unat a + length u"
    using unat_of_nat_u32 [of "unat a + length u"] le l by simp
  have stop: "?stop = W (unat a + length u + length w)" by simp
  have nz: "?tok \<noteq> 0" using tok a(1) by (metis add_is_0 unat_eq_zero)
  note T = strtok_spec [OF slash_lit(1) s le a(2,1), unfolded slash_lit(2) singleton_iff, folded u_def v_def, folded w_def rr_def]
  show thesis
  proof (cases "v = []")
    case True
    then show thesis using T(1) c by (intro that [of 0 0 m]) (simp_all add: tok_ok_def)
  next
    case v: False
    show thesis
    proof (cases "rr = []")
      case True
      then have "path_comps (tl rr) = []" by (simp add: path_comps.simps)
      then show thesis using T(2) [OF v True] v c nz
        by (intro that [of ?tok 0 m]) (simp_all add: tok_ok_def rest_ok_def)
    next
      case False
      let ?m = "m(?stop := 0)"
      have t: "strtok str (lit ''/'') pos m = Some (?tok, ?stop + 1, ?m)" "cstr ?m (Mem ?tok) w" "cstr ?m (Mem (?stop + 1)) (tl rr)"
        using T(3) [OF v False] by simp_all
      have len: "length rr = Suc (length (tl rr))" using False by simp
      have "unat a + length u + length w + 1 < 2 ^ 32" using le l len by linarith
      then have u1: "unat (W (unat a + length u + length w + 1)) = unat a + length u + length w + 1"
        by (rule unat_of_nat_u32)
      moreover have "?stop + 1 = W (unat a + length u + length w + 1)" by simp
      ultimately have u1: "unat (?stop + 1) = unat a + length u + length w + 1" by (simp only:)
      have nz1: "?stop + 1 \<noteq> 0" using u1 by (metis add_is_0 one_neq_zero unat_0)
      have "p \<le> unat (?stop + 1)" "unat (?stop + 1) + length (tl rr) < p + c" unfolding u1 using r l len by linarith+
      then have "rest_ok ?m p c (?stop + 1) (path_comps (tl rr))"
        unfolding rest_ok_def if_not_P [OF nz1] by (intro exI [of _ "tl rr"] conjI t(3) refl)
      then have "tok_ok ?m p c ?tok (?stop + 1) (path_comps bs)" using c v t(2) nz by (simp add: tok_ok_def)
      moreover have "same_on (- {p..<p + c}) m ?m"
      proof -
        have "unat a + length u + length w < 2 ^ 32" "p \<le> unat a + length u + length w"
          "unat a + length u + length w < p + c" using le l len r by linarith+
        then show ?thesis unfolding stop by (intro same_on_upd) simp_all
      qed
      ultimately show thesis using that t(1) by blast
    qed
  qed
qed

lemma strtok_done: "strtok 0 d 0 m = Some (0, 0, m)"
  by (simp add: strtok_def)

subsection \<open>The walk\<close>

text \<open>As \<open>quiet\<close>, but for what \<open>strtok\<close> remembers.\<close>

definition quiet_tok :: "nat set \<Rightarrow> 'a fs_state_scheme \<Rightarrow> 'a fs_state_scheme \<Rightarrow> bool" where
  "quiet_tok A s s' \<longleftrightarrow> quiet A (s\<lparr>strtok_last := 0\<rparr>) (s'\<lparr>strtok_last := 0\<rparr>)"

lemma quiet_tok_trans: "quiet_tok A s t \<Longrightarrow> quiet_tok A t u \<Longrightarrow> quiet_tok A s u"
  unfolding quiet_tok_def by (rule quiet_trans)

lemma quiet_tok_subset: "quiet_tok B s t \<Longrightarrow> A \<subseteq> B \<Longrightarrow> quiet_tok A s t"
  unfolding quiet_tok_def by (rule quiet_subset)

lemma heap_stable_tok [simp]: "heap_stable (s\<lparr>strtok_last := x\<rparr>) = heap_stable s"
  by (simp add: heap_stable_def fun_eq_iff)

lemma quiet_tok_stable: "quiet_tok A s s' \<Longrightarrow> heap_stable s' = heap_stable s"
  unfolding quiet_tok_def using quiet_stable heap_stable_tok by metis

lemma fs_rel_tok [simp]: "fs_rel (s\<lparr>strtok_last := x\<rparr>) P N = fs_rel s P N"
  by (simp add: fs_rel_def owns_def heap_objects_def heap_rel_def)

lemma quiet_tok_upd [simp]: "quiet_tok A (s\<lparr>strtok_last := x\<rparr>) s' = quiet_tok A s s'"
  "quiet_tok A s (s'\<lparr>strtok_last := x\<rparr>) = quiet_tok A s s'"
  by (simp_all add: quiet_tok_def)

lemma quiet_tokI: "quiet A s s' \<Longrightarrow> quiet_tok A s s'"
proof -
  assume Q: "quiet A s s'"
  then have "heap_state.more (s'\<lparr>strtok_last := 0\<rparr>) = heap_state.more (s\<lparr>strtok_last := 0\<rparr>)"
    using quiet_more [OF Q] by (cases s, cases s') simp
  with Q show ?thesis by (simp add: quiet_tok_def quiet_def heap_frame_def)
qed

lemma spends_tok [simp]: "spends n (s\<lparr>strtok_last := x\<rparr>) t = spends n s t" "spends n s (t\<lparr>strtok_last := x\<rparr>) = spends n s t"
  by (simp_all add: spends_def)

lemma quiet_tokD:
  assumes "quiet_tok A s s'"
  shows "same_on A (mem s) (mem s')" "fd_table s' = fd_table s" "fd_count s' = fd_count s"
    "fs_state.more s' = fs_state.more s"
  using assms by (cases s, cases s', simp add: quiet_tok_def quiet_def heap_frame_def)+

text \<open>One call of \<open>strtok\<close> after the first.\<close>

lemma fs_strtok_step:
  fixes s :: "'a fs_state_scheme"
  assumes R: "fs_rel s P N" and p: "P p = Some c" "p \<notin> owned foot N" and r: "rest_ok (mem s) p c (strtok_last s) ws"
  obtains token s' where "fs_strtok 0 (lit ''/'') s = Some (token, s')" "tok_ok (mem s') p c token (strtok_last s') ws"
    "fs_rel s' P N" "quiet_tok (heap_stable s (P(p := None))) s s'" "spends 0 s s'"
proof (cases "strtok_last s = 0")
  case True
  then have "ws = []" using r by (simp add: rest_ok_def)
  moreover have "fs_strtok 0 (lit ''/'') s = Some (0, s)"
    using True strtok_done [of "lit ''/''" "mem s"] by (simp add: fs_strtok_def)
  ultimately show thesis using R quiet_tokI [OF quiet_refl] by (intro that [of 0 s]) (simp_all add: tok_ok_def)
next
  case False
  then obtain bs where bs: "cstr (mem s) (Mem (strtok_last s)) bs" "p \<le> unat (strtok_last s)"
    "unat (strtok_last s) + length bs < p + c" "path_comps bs = ws" using r by (auto simp: rest_ok_def)
  have pc: "p + c \<le> 2 ^ 32" using fs_range [OF R p(1)] by simp
  obtain token nxt m where t: "strtok 0 (lit ''/'') (strtok_last s) (mem s) = Some (token, nxt, m)"
    "tok_ok m p c token nxt (path_comps bs)" "same_on (- {p..<p + c}) (mem s) m"
    by (rule next_token [OF bs(1) False _ bs(2,3) pc, of 0 "strtok_last s"]) simp
  let ?s = "(s\<lparr>mem := m\<rparr>)\<lparr>strtok_last := nxt\<rparr>"
  have "fs_rel (s\<lparr>mem := m\<rparr>) P N" by (rule fs_put [OF R p t(3)])
  then have R': "fs_rel ((s\<lparr>mem := m\<rparr>)\<lparr>strtok_last := nxt\<rparr>) P N" by simp
  have "quiet_tok (heap_stable s (P(p := None))) s ((s\<lparr>mem := m\<rparr>)\<lparr>strtok_last := nxt\<rparr>)"
    using quiet_tokI [OF fs_write_quiet [OF R p(1) t(3)]] by simp
  moreover have "?s = s\<lparr>strtok_last := nxt, mem := m\<rparr>" by (cases s) simp
  then have "fs_strtok 0 (lit ''/'') s = Some (token, ?s)" using t(1) by (simp add: fs_strtok_def)
  ultimately show thesis using R' t(2) by (intro that [of token ?s]) (simp_all add: bs(4))
qed

text \<open>The address for a result: null when nothing is found.\<close>

definition ptr :: "nat option \<Rightarrow> u32" where
  "ptr x = (case x of None \<Rightarrow> 0 | Some a \<Rightarrow> W a)"

definition is_dir :: "(nat \<rightharpoonup> node) \<Rightarrow> nat \<Rightarrow> bool" where
  "is_dir N d \<longleftrightarrow> (\<exists>np nm par fa fs da ds. N d = Some (Dir np nm par fa fs da ds))"

lemma find_dir_loop_spec:
  fixes s :: "'a fs_state_scheme"
  assumes T: "tree_ok N" and p: "P p = Some c" "p \<notin> owned foot N"
  shows "fs_rel s P N \<Longrightarrow> is_dir N d \<Longrightarrow> tok_ok (mem s) p c token (strtok_last s) ws \<Longrightarrow>
    \<exists>s'. find_dir_loop (W p) (W d) token s = Some (ptr (walk N d ws), s') \<and> fs_rel s' (P(p := None)) N \<and>
      quiet_tok (heap_stable s (P(p := None))) s s' \<and> spends 0 s s'"
proof (induction ws arbitrary: s d token)
  case Nil
  obtain s' where s': "free (W p) s = Some (0, s')" "fs_rel s' (P(p := None)) N" "quiet (heap_stable s (P(p := None))) s s'"
    by (rule fs_free [OF Nil.prems(1) p])
  have "token = 0" using Nil.prems(3) by (simp add: tok_ok_def)
  then have "find_dir_loop (W p) (W d) token s = Some (W d, s')" using s'(1) by (subst find_dir_loop.simps) simp
  then show ?case using s'(2) quiet_tokI [OF s'(3)] free_spends [OF fs_relD(1) [OF Nil.prems(1)] p(1) s'(1)]
    by (intro exI [of _ s']) (simp add: ptr_def del: fun_upd_apply)
next
  case (Cons w ws)
  note R = Cons.prems(1)
  have t: "token \<noteq> 0" "cstr (mem s) (Mem token) w" "rest_ok (mem s) p c (strtok_last s) ws"
    using Cons.prems(3) by (simp_all add: tok_ok_def)
  obtain np nm par fa fs da ds where D: "N d = Some (Dir np nm par fa fs da ds)" using Cons.prems(2) by (auto simp: is_dir_def)
  note fld = dir_fields [OF fs_relD(2) [OF R D]]
  have n: "find_named (mem s) (W da) (Mem token) 0 (unat (W (length ds))) = Some (position_of N w ds)"
    using find_named_array [OF R dir_node(5) [OF R D] t(2)] tree_named(2) [OF T, of d] D by simp
  show ?case
  proof (cases "position_of N w ds")
    case None
    obtain s' where s': "free (W p) s = Some (0, s')" "fs_rel s' (P(p := None)) N"
      "quiet (heap_stable s (P(p := None))) s s'" by (rule fs_free [OF R p])
    have "find_dir_loop (W p) (W d) token s = Some (0, s')"
      using s'(1) t(1) n None by (subst find_dir_loop.simps) (simp add: fld)
    then show ?thesis using s'(2) quiet_tokI [OF s'(3)] free_spends [OF fs_relD(1) [OF R] p(1) s'(1)] None D
      by (intro exI [of _ s']) (simp add: ptr_def del: fun_upd_apply)
  next
    case (Some i)
    then have i: "i < length ds" using position_of_SomeD [OF Some] by simp
    have "dir_in N d (ds ! i)" using tree_okD(3) [OF T, of "ds ! i" d] D i by simp
    then have dir: "is_dir N (ds ! i)" by (auto simp: dir_in_def is_dir_def)
    have "rd32 (mem s) (W (da + 4 * i)) = W (ds ! i)"
      using words_atD [OF array_words [OF dir_node(5) [OF R D]], of i] i by simp
    moreover have "W da + W i * SIZEOF_PTR = W (da + 4 * i)" by simp
    ultimately have cur: "rd32 (mem s) (W da + W i * SIZEOF_PTR) = W (ds ! i)" by (simp only:)
    obtain token' s1 where s1: "fs_strtok 0 (lit ''/'') s = Some (token', s1)" "tok_ok (mem s1) p c token' (strtok_last s1) ws"
      "fs_rel s1 P N" "quiet_tok (heap_stable s (P(p := None))) s s1" "spends 0 s s1"
      by (rule fs_strtok_step [OF R p t(3)])
    obtain s' where s': "find_dir_loop (W p) (W (ds ! i)) token' s1 = Some (ptr (walk N (ds ! i) ws), s')"
      "fs_rel s' (P(p := None)) N" "quiet_tok (heap_stable s1 (P(p := None))) s1 s'" "spends 0 s1 s'"
      using Cons.IH [OF s1(3) dir s1(2)] by blast
    have "find_dir_loop (W p) (W d) token s = Some (ptr (walk N d (w # ws)), s')"
      using t(1) n Some s1(1) s'(1) D cur by (subst find_dir_loop.simps) (simp add: fld)
    moreover have "quiet_tok (heap_stable s (P(p := None))) s s'"
      using quiet_tok_trans [OF s1(4)] s'(3) unfolding quiet_tok_stable [OF s1(4)] .
    moreover have "spends 0 s s'" by (rule spends_trans [OF s1(5) s'(4)]) simp
    ultimately show ?thesis using s'(2) by blast
  qed
qed

subsection \<open>ramfs_find_dir\<close>

lemma same_on_tok: "quiet_tok A s s' \<Longrightarrow> same_on A (mem s) (mem s')"
  by (rule quiet_tokD)

lemma ramfs_find_dir_spec:
  fixes s :: "'a fs_state_scheme"
  assumes R: "fs_rel s P N" and T: "tree_ok N" and D: "is_dir N d" and room: "room 1 s"
    and path: "cstr (mem s) path bs" "readable (heap_stable s P) path (Suc (length bs))" "length bs < 32759" "path \<noteq> Mem 0"
  obtains s' where "ramfs_find_dir (W d) path s = Some (ptr (walk N d (path_comps bs)), s')" "fs_rel s' P N"
    "quiet_tok (heap_stable s P) s s'" "spends 1 s s'"
proof -
  obtain np nm par fa fs da ds where N: "N d = Some (Dir np nm par fa fs da ds)" using D by (auto simp: is_dir_def)
  have d0: "W d \<noteq> 0" by (rule W_nonzero [OF dir_node(1) [OF R N]]) simp
  have sl: "cstr (mem s) (lit ''/'') [slash]" using cstr_lit [OF slash_lit(1)] by (simp add: bytes_of_def)
  have cmp: "strcmp (mem s) path (lit ''/'') = Some (str_order bs [slash])" "str_order bs [slash] = 0 \<longleftrightarrow> bs = [slash]"
    using strcmp_cstr [OF path(1) sl] strcmp_eq_0 [OF path(1) sl] by simp_all
  show thesis
  proof (cases "bs = [slash]")
    case True
    then have "path_comps bs = []" by (simp add: path_comps.simps)
    then show thesis using R d0 path(4) cmp True quiet_tokI [OF quiet_refl]
      by (intro that [of s]) (simp_all add: ramfs_find_dir_def ptr_def)
  next
    case False
    obtain q s1 c where q: "strdup path s = Some (W q, s1)" "W q \<noteq> 0" "0 < q" "P q = None" "q \<notin> owned foot N"
      "length bs < c" "fs_rel s1 (P(q \<mapsto> c)) N" "str_obj (mem s1) (P(q \<mapsto> c)) q bs" "quiet (heap_stable s P) s s1"
      "spends 1 s s1"
      by (rule fs_strdup_room [OF R path(1-3) room])
    let ?P = "P(q \<mapsto> c)"
    have qP: "?P q = Some c" "?P(q := None) = P" using q(4) by auto
    have qc: "q + c \<le> 2 ^ 32" using fs_range [OF q(7) qP(1)] by simp
    have uq: "unat (W q) = q" using qc q(6) by (intro unat_of_nat_u32) simp
    have sq: "cstr (mem s1) (Mem (W q)) bs" using q(8) by (simp add: str_obj_def)
    have le: "q \<le> unat (W q)" "unat (W q) + length bs < q + c" using uq q(6) by simp_all
    obtain token nxt m where t: "strtok (W q) (lit ''/'') (strtok_last s1) (mem s1) = Some (token, nxt, m)"
      "tok_ok m q c token nxt (path_comps bs)" "same_on (- {q..<q + c}) (mem s1) m"
      by (rule next_token [OF sq q(2) _ le qc, of "W q" "strtok_last s1"]) (use q(2) in simp)
    let ?s = "(s1\<lparr>mem := m\<rparr>)\<lparr>strtok_last := nxt\<rparr>"
    have "?s = s1\<lparr>strtok_last := nxt, mem := m\<rparr>" by (cases s1) simp
    then have run: "fs_strtok (W q) (lit ''/'') s1 = Some (token, ?s)" using t(1) by (simp add: fs_strtok_def)
    have "fs_rel (s1\<lparr>mem := m\<rparr>) ?P N" by (rule fs_put [OF q(7) qP(1) q(5) t(3)])
    then have R2: "fs_rel ?s ?P N" by simp
    have Q2: "quiet_tok (heap_stable s1 P) s1 ?s"
      using quiet_tokI [OF fs_write_quiet [OF q(7) qP(1) t(3)]] unfolding qP(2) by simp
    have "tok_ok (mem ?s) q c token (strtok_last ?s) (path_comps bs)" using t(2) by simp
    from find_dir_loop_spec [OF T qP(1) q(5) R2 D this] obtain s' where
      s': "find_dir_loop (W q) (W d) token ?s = Some (ptr (walk N d (path_comps bs)), s')" "fs_rel s' P N"
        "quiet_tok (heap_stable ?s P) ?s s'" "spends 0 ?s s'" unfolding qP(2) by blast
    show thesis
    proof (rule that [OF _ s'(2)])
      show "ramfs_find_dir (W d) path s = Some (ptr (walk N d (path_comps bs)), s')"
        using d0 path(4) cmp False q(1,2) run s'(1) by (simp add: ramfs_find_dir_def)
      show "spends 1 s s'" by (rule spends_trans [OF q(10), of 0]) (use s'(4) in simp_all)
      show "quiet_tok (heap_stable s P) s s'"
      proof (rule quiet_tok_trans [OF quiet_tok_trans])
        show "quiet_tok (heap_stable s P) s s1" by (rule quiet_tokI [OF q(9)])
        show "quiet_tok (heap_stable s P) s1 ?s" using Q2 unfolding quiet_stable [OF q(9)] .
        show "quiet_tok (heap_stable s P) ?s s'"
          using s'(3) unfolding quiet_tok_stable [OF Q2] quiet_stable [OF q(9)] .
      qed
    qed
  qed
qed

subsection \<open>ramfs_open\<close>

text \<open>
  The directory is what stands before the first slash, walked from the root; the name is all
  that stands behind that slash.
\<close>

definition open_dir :: "(nat \<rightharpoonup> node) \<Rightarrow> nat \<Rightarrow> u8 list \<Rightarrow> nat option" where
  "open_dir N root bs = (let pre = takeWhile (\<lambda>c. c \<noteq> slash) bs
     in if slash \<in> set bs \<and> pre \<noteq> [] then walk N root (path_comps pre) else Some root)"

definition open_name :: "u8 list \<Rightarrow> u8 list" where
  "open_name bs = (if slash \<in> set bs then tl (dropWhile (\<lambda>c. c \<noteq> slash) bs) else bs)"

definition file_in :: "(nat \<rightharpoonup> node) \<Rightarrow> nat \<Rightarrow> u8 list \<Rightarrow> nat option" where
  "file_in N d nm = map_option (\<lambda>i. files N d ! i) (position_of N nm (files N d))"

definition open_lookup :: "(nat \<rightharpoonup> node) \<Rightarrow> nat \<Rightarrow> u8 list \<Rightarrow> nat option" where
  "open_lookup N root bs = (case open_dir N root bs of None \<Rightarrow> None | Some d \<Rightarrow> file_in N d (open_name bs))"

definition free_slot :: "'a fs_state_scheme \<Rightarrow> nat option" where
  "free_slot s = find (\<lambda>i. fd_table s ! i = 0) [0..<MAX_FDS]"

lemma walk_is_dir: "tree_ok N \<Longrightarrow> is_dir N d \<Longrightarrow> walk N d cs = Some e \<Longrightarrow> is_dir N e"
proof (induction cs arbitrary: d)
  case (Cons c cs)
  from Cons.prems(3) obtain i where i: "position_of N c (subdirs N d) = Some i" "walk N (subdirs N d ! i) cs = Some e"
    by (auto split: option.splits)
  then have "dir_in N d (subdirs N d ! i)" using tree_okD(3) [OF Cons.prems(1)] position_of_SomeD [OF i(1)] nth_mem by blast
  then show ?case using Cons.IH [OF Cons.prems(1) _ i(2)] by (auto simp: dir_in_def is_dir_def)
qed simp

lemma ptr_nonzero:
  assumes R: "fs_rel s P N" and x: "\<And>a. x = Some a \<Longrightarrow> N a \<noteq> None"
  shows "ptr x = 0 \<longleftrightarrow> x = None"
proof (cases x)
  case (Some a)
  then obtain n where "N a = Some n" using x by blast
  then have "node_ok (mem s) P a n" by (rule fs_relD(2) [OF R])
  then have "W a \<noteq> 0" using W_nonzero [of P a 12] W_nonzero [of P a 24] W_nonzero [of P a 16] by (cases n) simp_all
  with Some show ?thesis by (simp add: ptr_def)
qed (simp add: ptr_def)

lemma open_path_spec:
  fixes s :: "'a fs_state_scheme"
  assumes R: "fs_rel s P N" and T: "tree_ok N" and D: "is_dir N root" and room: "room 1 s"
    and q: "P q = Some c" "q \<notin> owned foot N" "str_obj (mem s) P q bs" and len: "length bs < 32759"
  obtains fn s' where "open_path (W root) (W q) s = Some (ptr (open_dir N root bs), fn, s')"
    "cstr (mem s') (Mem fn) (open_name bs)" "fs_rel s' P N" "quiet_tok (heap_stable s (P(q := None))) s s'" "spends 1 s s'"
proof -
  have sq: "cstr (mem s) (Mem (W q)) bs" and oq: "obj P q (length bs + 1)" using q(3) by (simp_all add: str_obj_def)
  have qc: "q + c \<le> 2 ^ 32" "length bs < c" using fs_range [OF R q(1)] oq q(1) by (simp_all add: obj_def)
  have uq: "unat (W q) = q" using qc by (intro unat_of_nat_u32) simp
  have chr: "strchr (mem s) (Mem (W q)) slash = Some (if slash \<in> set bs
      then Mem (W q + W (length (takeWhile (\<lambda>x. x \<noteq> slash) bs))) else Mem 0)"
    using strchr_cstr [OF sq, of slash] by simp
  show thesis
  proof (cases "slash \<in> set bs")
    case False
    then show thesis using chr sq R quiet_tokI [OF quiet_refl]
      by (intro that [of "W q" s]) (simp_all add: open_path_def open_dir_def open_name_def ptr_def)
  next
    case True
    define t r where "t = takeWhile (\<lambda>x. x \<noteq> slash) bs" and "r = tl (dropWhile (\<lambda>x. x \<noteq> slash) bs)"
    have "dropWhile (\<lambda>x. x \<noteq> slash) bs \<noteq> []" using True by auto
    then have "dropWhile (\<lambda>x. x \<noteq> slash) bs = slash # r"
      using hd_dropWhile [of "\<lambda>x. x \<noteq> slash" bs] unfolding r_def by (metis list.collapse)
    then have bs: "bs = t @ slash # r" unfolding t_def by (metis takeWhile_dropWhile_id)
    let ?sl = "W q + W (length t)" and ?m = "(mem s)(W q + W (length t) := 0)"
    have "unat (W q) + length (t @ slash # r) < 2 ^ 32" using uq qc bs by simp
    note C = cstr_cut [OF sq [unfolded bs] this]
    have u: "unat (W (q + length t)) = q + length t" using qc bs by (intro unat_of_nat_u32) simp
    have sl: "?sl = W (q + length t)" by simp
    have "?sl \<noteq> 0" using u fs_range [OF R q(1)] unfolding sl by (metis add_is_0 less_irrefl unat_0)
    have S: "same_on (- {q..<q + c}) (mem s) ?m"
      unfolding sl by (rule same_on_upd) (use qc bs in simp_all)
    let ?s = "s\<lparr>mem := ?m\<rparr>"
    have R1: "fs_rel ?s P N" by (rule fs_put [OF R q(1,2) S])
    have Q1: "quiet (heap_stable s (P(q := None))) s ?s" by (rule fs_write_quiet [OF R q(1) S])
    have ln: "strlen ?m (Mem (W q)) = Some (W (length t))" by (rule strlen_cstr [OF C(1)])
    have l0: "W (length t) > (0 :: u32) \<longleftrightarrow> t \<noteq> []"
      using of_nat_u32_less [of 0 "length t"] len bs by simp
    have nm: "open_name bs = r" using True by (simp add: open_name_def r_def)
    show thesis
    proof (cases "t = []")
      case True
      then have "open_path (W root) (W q) s = Some (W root, ?sl + 1, ?s)"
        using chr \<open>slash \<in> set bs\<close> \<open>?sl \<noteq> 0\<close> ln l0 unfolding t_def [symmetric] by (simp add: open_path_def)
      moreover have "open_dir N root bs = Some root" using True by (simp add: open_dir_def t_def Let_def)
      ultimately show thesis using R1 C(2) nm quiet_tokI [OF Q1]
        by (intro that [of "?sl + 1" ?s]) (simp_all add: ptr_def)
    next
      case False
      have r1: "room 1 ?s" using room by simp
      have stable: "{q..<q + c} \<subseteq> heap_stable ?s P" by (rule obj_stable [OF fs_obj [OF R1 q(1)]]) simp
      then have rd: "readable (heap_stable ?s P) (Mem (W q)) (Suc (length t))"
        using uq qc bs by (auto simp: subset_eq)
      have lt: "length t < 32759" "Mem (W q) \<noteq> Mem 0" using len bs W_nonzero [OF oq] by simp_all
      have C1: "cstr (mem ?s) (Mem (W q)) t" using C(1) by simp
      obtain s' where s': "ramfs_find_dir (W root) (Mem (W q)) ?s = Some (ptr (walk N root (path_comps t)), s')"
        "fs_rel s' P N" "quiet_tok (heap_stable ?s P) ?s s'" "spends 1 ?s s'"
        by (rule ramfs_find_dir_spec [OF R1 T D r1 C1 rd lt])
      have rd2: "readable (heap_stable ?s P) (Mem (?sl + 1)) (Suc (length r))"
      proof -
        have e: "?sl + 1 = W (q + length t + 1)" by simp
        have "unat (?sl + 1) = q + length t + 1" unfolding e using qc bs by (intro unat_of_nat_u32) simp
        moreover have "q + length t + 1 + Suc (length r) \<le> q + c" using qc bs by simp
        ultimately show ?thesis using stable qc by (auto simp: subset_eq)
      qed
      have "cstr (mem s') (Mem (?sl + 1)) r"
        by (rule cstr_same_on [OF same_on_tok [OF s'(3)] rd2]) (use C(2) in simp)
      moreover have "open_path (W root) (W q) s = Some (ptr (walk N root (path_comps t)), ?sl + 1, s')"
        using chr True False \<open>?sl \<noteq> 0\<close> ln l0 s'(1) unfolding t_def [symmetric] by (simp add: open_path_def)
      moreover have "open_dir N root bs = walk N root (path_comps t)"
        using False True by (simp add: open_dir_def t_def Let_def)
      moreover have "quiet_tok (heap_stable s (P(q := None))) s s'"
      proof (rule quiet_tok_trans [OF quiet_tokI [OF Q1] quiet_tok_subset [OF s'(3)]])
        show "heap_stable s (P(q := None)) \<subseteq> heap_stable ?s P"
          unfolding quiet_stable [OF Q1] by (rule heap_stable_mono) (simp add: map_le_def)
      qed
      ultimately show thesis using s'(2,4) nm by (intro that [of "?sl + 1" s']) simp_all
    qed
  qed
qed

text \<open>The state with a new table entry.\<close>

definition fd_added :: "nat \<Rightarrow> nat \<Rightarrow> 'a fs_state_scheme \<Rightarrow> 'a fs_state_scheme" where
  "fd_added fd e s = s\<lparr>fd_table := (fd_table s)[fd := W e], fd_count := fd_count s + 1\<rparr>"

lemma fd_added_simps [simp]:
  "mem (fd_added fd e s) = mem s" "fs_rel (fd_added fd e s) P N = fs_rel s P N"
  "heap_stable (fd_added fd e s) = heap_stable s" "spends n (fd_added fd e s) t = spends n s t"
  by (simp_all add: fd_added_def fs_rel_def owns_def heap_objects_def heap_rel_def heap_stable_def spends_def fun_eq_iff)

lemma quiet_fd_added: "quiet A s s' \<Longrightarrow> quiet A (fd_added fd e s) (fd_added fd e s')"
  by (cases s; cases s') (simp add: quiet_def heap_frame_def fd_added_def)

lemma open_entry_spec:
  fixes s :: "'a fs_state_scheme"
  assumes R: "fs_rel s P N" and T: "tree_ok N" and d: "is_dir N d" and room: "room 1 s"
    and q: "P q = Some c" "q \<notin> owned foot N" and nm: "cstr (mem s) (Mem fn) nm"
  obtains (absent) s' where "open_entry (W q) (W d) fn flags s = Some (- 1, s')" "file_in N d nm = None \<or> free_slot s = None"
      "fs_rel s' (P(q := None)) N" "quiet (heap_stable s (P(q := None))) s s'" "spends 0 s s'"
    | (opened) f fd e P' s' where "file_in N d nm = Some f" "free_slot s = Some fd" "N e = None"
      "open_entry (W q) (W d) fn flags s = Some (of_nat fd, s')" "fs_rel s' P' (N(e \<mapsto> Fd fd f 0 flags))"
      "quiet (heap_stable s (P(q := None))) (fd_added fd e s) s'" "spends 1 s s'"
      "apart_kept (P(q := None)) N P' (N(e \<mapsto> Fd fd f 0 flags))"
proof -
  obtain np dnm par fa fs da ds where D: "N d = Some (Dir np dnm par fa fs da ds)" using d by (auto simp: is_dir_def)
  note fld = dir_fields [OF fs_relD(2) [OF R D]] and A = dir_node(4) [OF R D]
  have d0: "W d \<noteq> 0" by (rule W_nonzero [OF dir_node(1) [OF R D]]) simp
  have found: "find_named (mem s) (W fa) (Mem fn) 0 (unat (W (length fs))) = Some (position_of N nm fs)"
    using find_named_array [OF R A nm] tree_named(1) [OF T, of d] D by simp
  have gone: thesis if run: "open_entry (W q) (W d) fn flags s = do { (_, s) \<leftarrow> free (W q) s; Some (- 1, s) }"
    and no: "file_in N d nm = None \<or> free_slot s = None"
  proof -
    obtain s' where s': "free (W q) s = Some (0, s')" "fs_rel s' (P(q := None)) N" "quiet (heap_stable s (P(q := None))) s s'"
      by (rule fs_free [OF R q])
    show thesis by (rule absent [OF _ no s'(2,3) free_spends [OF fs_relD(1) [OF R] q(1) s'(1)]]) (simp add: run s'(1))
  qed
  show thesis
  proof (cases "position_of N nm fs")
    case None
    then show thesis using d0 found D by (intro gone) (simp_all add: open_entry_def fld file_in_def)
  next
    case (Some i)
    then have i: "i < length fs" using position_of_SomeD [OF Some] by simp
    let ?f = "fs ! i"
    have F: "file_in N d nm = Some ?f" using Some D by (simp add: file_in_def)
    have "file_node N ?f" using tree_okD(2) [OF T, of ?f d] D i by simp
    then have f0: "W ?f \<noteq> 0" using ptr_nonzero [OF R, of "Some ?f"] by (auto simp: ptr_def file_node_def)
    have "rd32 (mem s) (W (fa + 4 * i)) = W ?f" using words_atD [OF array_words [OF A], of i] i by simp
    moreover have "W fa + W i * SIZEOF_PTR = W (fa + 4 * i)" by simp
    ultimately have e: "rd32 (mem s) (W fa + W i * SIZEOF_PTR) = W ?f" by (simp only:)
    show thesis
    proof (cases "free_slot s")
      case None
      then show thesis using d0 found Some e f0
        by (intro gone) (simp_all add: open_entry_def fld free_slot_def)
    next
      case slot: (Some fd)
      have "0 < (16 :: nat)" "(16 :: nat) \<le> 32759" by simp_all
      from R this room obtain x cx s1 where x: "allocate (W 16) s = Some (W x, s1)" "W x \<noteq> 0" "0 < x" "P x = None"
        "x \<notin> owned foot N" "16 \<le> cx" "fs_rel s1 (P(x \<mapsto> cx)) N" "quiet (heap_stable s P) s s1" "spends 1 s s1"
        by (rule fs_alloc_room)
      let ?ws = "[of_nat fd, W ?f, 0, flags]" and ?P = "P(x \<mapsto> cx)"
      let ?m = "wr_words (mem s1) (W x) ?ws"
      have Px: "?P x = Some cx" "?P(x := None) = P" using x(4) by auto
      have xr: "x + cx \<le> 2 ^ 32" using fs_range [OF x(7) Px(1)] by simp
      have S: "same_on (- {x..<x + cx}) (mem s1) ?m" by (rule same_on_wr_words) (use x(6) xr in auto)
      let ?s2 = "s1\<lparr>mem := ?m\<rparr>" and ?N = "N(x \<mapsto> Fd fd ?f 0 flags)"
      have R2: "fs_rel ?s2 ?P N" by (rule fs_put [OF x(7) Px(1) x(5) S])
      have Q2: "quiet (heap_stable s1 P) s1 ?s2" using fs_write_quiet [OF x(7) Px(1) S] unfolding Px(2) .
      have "words_at ?m x ?ws" using words_at_wr_words [of x ?ws "mem s1"] x(6) xr by simp
      moreover have "obj ?P x 16" by (rule fs_obj [OF R2 Px(1) x(6)])
      ultimately have "node_ok (mem ?s2) ?P x (Fd fd ?f 0 flags)" by simp
      from fs_add [OF R2 this] have R3: "fs_rel (fd_added fd x ?s2) ?P ?N" using x(5) by simp
      have qx: "q \<noteq> x" using q(1) x(4) by auto
      have q3: "?P q = Some c" "q \<notin> owned foot ?N"
        using q qx owned_del [of foot N x] by (auto simp: owned_upd)
      obtain s' where s': "free (W q) (fd_added fd x ?s2) = Some (0, s')" "fs_rel s' (?P(q := None)) ?N"
        "quiet (heap_stable (fd_added fd x ?s2) (?P(q := None))) (fd_added fd x ?s2) s'"
        by (rule fs_free [OF R3 q3])
      have sp: "spends 0 (fd_added fd x ?s2) s'" by (rule free_spends [OF fs_relD(1) [OF R3] q3(1) s'(1)])
      have fa2: "fd_added fd x ?s2 = s1\<lparr>mem := ?m, fd_table := (fd_table s1)[fd := W x], fd_count := fd_count s1 + 1\<rparr>"
        by (cases s1) (simp add: fd_added_def)
      have hs: "heap_stable (fd_added fd x ?s2) = heap_stable s"
        using quiet_stable [OF x(8)] quiet_stable [OF Q2] by simp
      show thesis
      proof (rule opened [OF F slot _ _ s'(2)])
        show "N x = None" by (rule fs.fresh_not_node [OF R [unfolded fs_rel_def] x(5)])
        show "open_entry (W q) (W d) fn flags s = Some (of_nat fd, s')"
          using d0 found Some e f0 slot x(1,2) s'(1) unfolding fa2
          by (simp add: open_entry_def fld free_slot_def Let_def del: wr_words.simps)
        show "spends 1 s s'" by (rule spends_trans [OF x(9), of 0]) (use sp in simp_all)
        show "apart_kept (P(q := None)) N (?P(q := None)) ?N"
          by (rule apart_keptI [OF _ owned_one]) (use x(4) in \<open>auto split: if_splits\<close>)
        show "quiet (heap_stable s (P(q := None))) (fd_added fd x s) s'"
        proof (rule quiet_trans [OF quiet_fd_added])
          show "quiet (heap_stable s (P(q := None))) s ?s2"
          proof (rule quiet_trans)
            show "quiet (heap_stable s (P(q := None))) s s1"
              by (rule quiet_subset [OF x(8) heap_stable_mono]) (simp add: map_le_def)
            show "quiet (heap_stable s (P(q := None))) s1 ?s2"
              by (rule quiet_subset [OF Q2], unfold quiet_stable [OF x(8)], rule heap_stable_mono) (simp add: map_le_def)
          qed
          show "quiet (heap_stable s (P(q := None))) (fd_added fd x ?s2) s'"
            by (rule quiet_subset [OF s'(3)], unfold hs, rule heap_stable_mono) (use x(4) in \<open>auto simp: map_le_def\<close>)
        qed
      qed
    qed
  qed
qed

lemma quiet_tok_fd_added: "quiet_tok A s s' \<Longrightarrow> quiet_tok A (fd_added fd e s) (fd_added fd e s')"
  by (cases s; cases s') (simp add: quiet_tok_def quiet_def heap_frame_def fd_added_def)

definition std_names :: "u8 list set" where
  "std_names = {bytes_of ''/dev/stdin'', bytes_of ''/dev/stdout'', bytes_of ''/dev/stderr''}"

lemma strcmp_lit:
  assumes "cstr m p bs" "0 \<notin> set (bytes_of t)"
  shows "\<exists>r. strcmp m p (lit t) = Some r \<and> (r = 0 \<longleftrightarrow> bs = bytes_of t)"
  using strcmp_cstr [OF assms(1) cstr_lit [OF assms(2)]] strcmp_eq_0 [OF assms(1) cstr_lit [OF assms(2)]] by blast

lemma open_common:
  assumes p: "cstr (mem s) path bs" "bs \<noteq> []" "bs \<notin> std_names" "path \<noteq> Mem 0" and root: "root \<noteq> 0"
  shows "ramfs_open root path flags s = do {
     (path_copy, s) \<leftarrow> strdup path s;
     if path_copy = 0 then Some (- 1, s) else do {
     (dir, filename, s) \<leftarrow> open_path root path_copy s;
     open_entry path_copy dir filename flags s } }"
proof -
  have nz: "ld (mem s) path \<noteq> 0" using p(1,2) by (cases bs) (auto simp: cstr_Cons)
  obtain r0 where r0: "strcmp (mem s) path (lit ''/dev/stdin'') = Some r0" "r0 \<noteq> 0"
    using strcmp_lit [OF p(1), of "''/dev/stdin''"] p(3) by (auto simp: std_names_def bytes_of_def)
  obtain r1 where r1: "strcmp (mem s) path (lit ''/dev/stdout'') = Some r1" "r1 \<noteq> 0"
    using strcmp_lit [OF p(1), of "''/dev/stdout''"] p(3) by (auto simp: std_names_def bytes_of_def)
  obtain r2 where r2: "strcmp (mem s) path (lit ''/dev/stderr'') = Some r2" "r2 \<noteq> 0"
    using strcmp_lit [OF p(1), of "''/dev/stderr''"] p(3) by (auto simp: std_names_def bytes_of_def)
  show ?thesis using nz r0 r1 r2 p(4) root by (simp add: ramfs_open_def)
qed

lemma ramfs_open_spec:
  fixes s :: "'a fs_state_scheme"
  assumes R: "fs_rel s P N" and T: "tree_ok N" and D: "is_dir N root" and room: "room 3 s"
    and path: "cstr (mem s) path bs" "readable (heap_stable s P) path (Suc (length bs))" "length bs < 32759" "path \<noteq> Mem 0"
    and bs: "bs \<noteq> []" "bs \<notin> std_names"
  obtains (absent) s' where "ramfs_open (W root) path flags s = Some (- 1, s')" "open_lookup N root bs = None \<or> free_slot s = None"
      "fs_rel s' P N" "quiet_tok (heap_stable s P) s s'" "spends 2 s s'"
    | (opened) f fd e P' s' where "open_lookup N root bs = Some f" "free_slot s = Some fd" "N e = None"
      "ramfs_open (W root) path flags s = Some (of_nat fd, s')" "fs_rel s' P' (N(e \<mapsto> Fd fd f 0 flags))"
      "quiet_tok (heap_stable s P) (fd_added fd e s) s'" "spends 3 s s'"
      "apart_kept P N P' (N(e \<mapsto> Fd fd f 0 flags))"
proof -
  obtain np dnm par fa fs da ds where N: "N root = Some (Dir np dnm par fa fs da ds)" using D by (auto simp: is_dir_def)
  have d0: "W root \<noteq> 0" by (rule W_nonzero [OF dir_node(1) [OF R N]]) simp
  have rm: "room 1 s" by (rule room_mono [OF room]) simp
  obtain q s1 c where q: "strdup path s = Some (W q, s1)" "W q \<noteq> 0" "0 < q" "P q = None" "q \<notin> owned foot N"
      "length bs < c" "fs_rel s1 (P(q \<mapsto> c)) N" "str_obj (mem s1) (P(q \<mapsto> c)) q bs" "quiet (heap_stable s P) s s1"
      "spends 1 s s1"
    by (rule fs_strdup_room [OF R path(1-3) rm])
  have Pq: "(P(q \<mapsto> c)) q = Some c" "(P(q \<mapsto> c))(q := None) = P" using q(4) by auto
  have rm1: "room 1 s1" by (rule room_spends [OF q(10) room]) simp
  obtain fn s2 where o: "open_path (W root) (W q) s1 = Some (ptr (open_dir N root bs), fn, s2)"
    "cstr (mem s2) (Mem fn) (open_name bs)" "fs_rel s2 (P(q \<mapsto> c)) N"
    "quiet_tok (heap_stable s1 P) s1 s2" "spends 1 s1 s2"
    by (rule open_path_spec [OF q(7) T D rm1 Pq(1) q(5) q(8) path(3), unfolded Pq(2)])
  have sp2: "spends 2 s s2" by (rule spends_trans [OF q(10) o(5)]) simp
  have rm2: "room 1 s2" by (rule room_spends [OF sp2 room]) simp
  have Q2: "quiet_tok (heap_stable s P) s s2"
    using quiet_tok_trans [OF quiet_tokI [OF q(9)]] o(4) unfolding quiet_stable [OF q(9)] .
  have fs: "free_slot s2 = free_slot s" using quiet_tokD(2) [OF Q2] by (simp add: free_slot_def)
  have run: "ramfs_open (W root) path flags s = open_entry (W q) (ptr (open_dir N root bs)) fn flags s2"
    unfolding open_common [OF path(1) bs path(4) d0] using q(1,2) o(1) by simp
  show thesis
  proof (cases "open_dir N root bs")
    case None
    obtain s' where s': "free (W q) s2 = Some (0, s')" "fs_rel s' P N" "quiet (heap_stable s2 P) s2 s'"
      using fs_free [OF o(3) Pq(1) q(5)] unfolding Pq(2) by blast
    show thesis
    proof (rule absent [OF _ _ s'(2)])
      show "ramfs_open (W root) path flags s = Some (- 1, s')" using run s'(1) None by (simp add: open_entry_def ptr_def)
      show "open_lookup N root bs = None \<or> free_slot s = None" using None by (simp add: open_lookup_def)
      show "quiet_tok (heap_stable s P) s s'"
        using quiet_tok_trans [OF Q2 quiet_tokI [OF s'(3) [unfolded quiet_tok_stable [OF Q2]]]] .
      show "spends 2 s s'" by (rule spends_trans [OF sp2 free_spends [OF fs_relD(1) [OF o(3)] Pq(1) s'(1)]]) simp
    qed
  next
    case (Some d)
    have dd: "is_dir N d"
      using Some D walk_is_dir [OF T D] by (auto simp: open_dir_def Let_def split: if_splits)
    have look: "open_lookup N root bs = file_in N d (open_name bs)" using Some by (simp add: open_lookup_def)
    have run': "ramfs_open (W root) path flags s = open_entry (W q) (W d) fn flags s2" using run Some by (simp add: ptr_def)
    from o(3) T dd rm2 Pq(1) q(5) o(2) show thesis
    proof (rule open_entry_spec [where flags = flags])
      fix s' assume a: "open_entry (W q) (W d) fn flags s2 = Some (- 1, s')"
        "file_in N d (open_name bs) = None \<or> free_slot s2 = None" "fs_rel s' ((P(q \<mapsto> c))(q := None)) N"
        "quiet (heap_stable s2 ((P(q \<mapsto> c))(q := None))) s2 s'" "spends 0 s2 s'"
      show thesis
      proof (rule absent [OF _ _ a(3) [unfolded Pq(2)]])
        show "quiet_tok (heap_stable s P) s s'"
          using quiet_tok_trans [OF Q2 quiet_tokI [OF a(4) [unfolded Pq(2) quiet_tok_stable [OF Q2]]]] .
        show "spends 2 s s'" by (rule spends_trans [OF sp2 a(5)]) simp
      qed (use a(1,2) run' look fs in simp_all)
    next
      fix f fd e P' s' assume a: "file_in N d (open_name bs) = Some f" "free_slot s2 = Some fd" "N e = None"
        "open_entry (W q) (W d) fn flags s2 = Some (of_nat fd, s')" "fs_rel s' P' (N(e \<mapsto> Fd fd f 0 flags))"
        "quiet (heap_stable s2 ((P(q \<mapsto> c))(q := None))) (fd_added fd e s2) s'" "spends 1 s2 s'"
        "apart_kept ((P(q \<mapsto> c))(q := None)) N P' (N(e \<mapsto> Fd fd f 0 flags))"
      show thesis
      proof (rule opened [OF _ a(2) [unfolded fs] a(3) _ a(5)])
        show "quiet_tok (heap_stable s P) (fd_added fd e s) s'"
          using quiet_tok_trans [OF quiet_tok_fd_added [OF Q2] quiet_tokI [OF a(6) [unfolded Pq(2) quiet_tok_stable [OF Q2]]]] .
        show "spends 3 s s'" by (rule spends_trans [OF sp2 a(7)]) simp
        show "apart_kept P N P' (N(e \<mapsto> Fd fd f 0 flags))" using a(8) unfolding Pq(2) .
      qed (use a(1,4) run' look in simp_all)
    qed
  qed
qed

end
