(* ===== verification/FsData.thy ===== *)
theory FsData
  imports FsDelete FsPath
begin

section \<open>FsData: reading and writing through a descriptor\<close>

subsection \<open>The fields of nodes in place\<close>

lemma fd_node:
  assumes R: "fs_rel s P N" and E: "N e = Some (Fd n f pos fl)"
  shows "obj P e 16" "words_at (mem s) e [W n, W f, W pos, fl]" "e \<notin> owned foot (N(e := None))"
  using fs_relD(2) [OF R E] fs_apart [OF R E] by auto

lemma file_node_parts:
  assumes R: "fs_rel s P N" and F: "N f = Some (File fnp fnm dp bs)"
  shows "obj P f 12" "words_at (mem s) f [W fnp, W dp, W (length bs)]" "str_obj (mem s) P fnp fnm"
    "obj P dp (length bs)" "rd_bytes (mem s) (W dp) (length bs) = bs" "f \<noteq> fnp" "f \<noteq> dp" "fnp \<noteq> dp"
    "f \<notin> owned foot (N(f := None))" "fnp \<notin> owned foot (N(f := None))" "dp \<notin> owned foot (N(f := None))"
  using fs_relD(2) [OF R F] fs_apart [OF R F] by auto

lemma set_position:
  assumes R: "fs_rel s P N" and E: "N e = Some (Fd n f pos fl)"
  shows "fs_rel (s\<lparr>mem := wr32 (mem s) (W e + 8) (W pos')\<rparr>) P (N(e \<mapsto> Fd n f pos' fl))"
    "quiet (heap_stable s (P(e := None))) s (s\<lparr>mem := wr32 (mem s) (W e + 8) (W pos')\<rparr>)"
proof -
  note h = fd_node [OF R E]
  have R1: "fs_rel s P (N(e := None))" by (rule fs_del [OF R])
  have e8: "W e + 8 = W (e + 4 * 2)" by simp
  have "obj P e (4 * length [W n, W f, W pos, fl])" "2 < length [W n, W f, W pos, fl]" using h(1) by simp_all
  note p = fs_put_word [OF R1 this(1) h(3,2) this(2), of "W pos'", folded e8]
  show "quiet (heap_stable s (P(e := None))) s (s\<lparr>mem := wr32 (mem s) (W e + 8) (W pos')\<rparr>)" by (rule p(3))
  have "node_ok (wr32 (mem s) (W e + 8) (W pos')) P e (Fd n f pos' fl)"
    using p(2) h(1) by (simp add: numeral_2_eq_2)
  then have "node_ok (mem (s\<lparr>mem := wr32 (mem s) (W e + 8) (W pos')\<rparr>)) P e (Fd n f pos' fl)" by simp
  from fs_add [OF p(1) this] h(3) show "fs_rel (s\<lparr>mem := wr32 (mem s) (W e + 8) (W pos')\<rparr>) P (N(e \<mapsto> Fd n f pos' fl))"
    by simp
qed

text \<open>Overwriting bytes of a file's data in place.\<close>

lemma rd_bytes_overwrite:
  assumes "p + length dat \<le> n" "n < 2 ^ 32"
  shows "rd_bytes (wr_bytes m (a + W p) dat) a n = take p (rd_bytes m a n) @ dat @ drop (p + length dat) (rd_bytes m a n)"
proof (rule nth_equalityI)
  fix i assume "i < length (rd_bytes (wr_bytes m (a + W p) dat) a n)"
  then have i: "i < n" by simp
  have u: "unat (a + W i - (a + W p)) = (if p \<le> i then i - p else 2 ^ 32 + i - p)"
    using i assms by (auto simp: unat_sub_if' unat_of_nat_u32)
  show "rd_bytes (wr_bytes m (a + W p) dat) a n ! i =
      (take p (rd_bytes m a n) @ dat @ drop (p + length dat) (rd_bytes m a n)) ! i"
    using i u assms by (auto simp: wr_bytes_def nth_append)
qed (use assms in simp)

lemma overwrite_file:
  fixes s :: "'a fs_state_scheme"
  assumes R: "fs_rel s P N" and F: "N f = Some (File fnp fnm dp bs)" and len: "p + length dat \<le> length bs"
  shows "fs_rel (s\<lparr>mem := wr_bytes (mem s) (W dp + W p) dat\<rparr>) P
      (N(f \<mapsto> File fnp fnm dp (take p bs @ dat @ drop (p + length dat) bs)))"
    "quiet (heap_stable s (P(dp := None))) s (s\<lparr>mem := wr_bytes (mem s) (W dp + W p) dat\<rparr>)"
proof -
  note h = file_node_parts [OF R F]
  let ?m = "wr_bytes (mem s) (W dp + W p) dat" and ?bs = "take p bs @ dat @ drop (p + length dat) bs"
  obtain c where c: "P dp = Some c" "length bs \<le> c" using h(4) by (auto simp: obj_def)
  have cr: "dp + c < 2 ^ 32" by (rule fs_range_strict [OF R c(1)])
  have R1: "fs_rel s P (N(f := None))" by (rule fs_del [OF R])
  have a: "W dp + W p = W (dp + p)" by simp
  have S: "same_on (- {dp..<dp + c}) (mem s) ?m"
    unfolding a by (rule same_on_wr_bytes) (use len c cr in auto)
  have R2: "fs_rel (s\<lparr>mem := ?m\<rparr>) P (N(f := None))" by (rule fs_put [OF R1 c(1) h(11) S])
  show Q: "quiet (heap_stable s (P(dp := None))) s (s\<lparr>mem := ?m\<rparr>)" by (rule fs_write_quiet [OF R c(1) S])
  have lb: "length ?bs = length bs" using len by simp
  have "rd_bytes ?m (W dp) (length bs) = ?bs"
    using rd_bytes_overwrite [OF len, of "mem s" "W dp"] c cr h(5) by simp
  moreover have "words_at ?m f [W fnp, W dp, W (length bs)]"
    using words_at_quiet [OF h(2) _ Q] h(1,7) by (simp add: obj_def)
  moreover have "str_obj ?m P fnp fnm"
  proof -
    have "str_obj (mem (s\<lparr>mem := ?m\<rparr>)) (P(dp := None)) fnp fnm"
      by (rule str_obj_quiet [OF h(3)]) (use Q h(8) in \<open>auto simp: quiet_def\<close>)
    then have "str_obj ?m (P(dp := None)) fnp fnm" by simp
    then show ?thesis by (rule str_obj_cong_P) (use h(8) in simp)
  qed
  ultimately have "node_ok (mem (s\<lparr>mem := ?m\<rparr>)) P f (File fnp fnm dp ?bs)" using h(1,4,6-8) lb by simp
  from fs_add [OF R2 this] h(9-11) show "fs_rel (s\<lparr>mem := ?m\<rparr>) P (N(f \<mapsto> File fnp fnm dp ?bs))" by simp
qed

subsection \<open>Making a file larger\<close>

lemma grow_file:
  fixes s :: "'a fs_state_scheme"
  assumes R: "fs_rel s P N" and F: "N f = Some (File fnp fnm dp bs)" and k: "length bs < k" "k \<le> 32759" and room: "room 1 s"
  obtains y junk P' s' where "write_grow (W f) (W k) s = Some (True, s')"
    "fs_rel s' P' (N(f \<mapsto> File fnp fnm y (bs @ junk)))" "length bs + length junk = k"
    "quiet (heap_stable s (P(f := None, dp := None))) s s'" "spends 1 s s'"
    "\<forall>p. p \<noteq> dp \<longrightarrow> p \<noteq> y \<longrightarrow> P' p = P p" "P y = None"
proof -
  note h = file_node_parts [OF R F]
  let ?N = "N(f := None)"
  have R1: "fs_rel s P ?N" by (rule fs_del [OF R])
  obtain c where c: "P dp = Some c" "length bs \<le> c" using h(4) by (auto simp: obj_def)
  obtain cf where cf: "P f = Some cf" using h(1) by (auto simp: obj_def)
  have k0: "0 < k" using k by simp
  obtain y cy s1 where y: "allocate (W k) s = Some (W y, s1)" "W y \<noteq> 0" "0 < y" "P y = None" "y \<notin> owned foot ?N"
    "k \<le> cy" "fs_rel s1 (P(y \<mapsto> cy)) ?N" "quiet (heap_stable s P) s s1" "spends 1 s s1"
    by (rule fs_alloc_room [OF R1 k0 k(2) room])
  let ?P = "P(y \<mapsto> cy)"
  have ne: "y \<noteq> dp" "y \<noteq> f" "y \<noteq> fnp" using y(4) c cf h(3) by (auto simp: str_obj_def obj_def)
  have S1: "same_on (heap_stable s P) (mem s) (mem s1)" using y(8) by (simp add: quiet_def)
  have yr: "y + cy \<le> 2 ^ 32" using fs_range [OF y(7), of y cy] by simp
  have w1: "words_at (mem s1) f [W fnp, W dp, W (length bs)]" by (rule words_at_quiet [OF h(2) _ y(8)]) (use h(1) in simp)
  have f1: "file_data (mem s1) (W f) = W dp" "file_size (mem s1) (W f) = W (length bs)"
    using words_3 [OF w1] by (simp_all add: file_data_def file_size_def)
  have dpr: "dp + c < 2 ^ 32" "0 < dp" using fs_range_strict [OF R c(1)] fs_range [OF R c(1)] by simp_all
  then have dp0: "W dp \<noteq> 0" using of_nat_u32_eq [of dp 0] by simp
  have bs1: "rd_bytes (mem s1) (W dp) (length bs) = bs"
    using rd_bytes_same_on [OF S1, of dp "length bs"] obj_stable [OF h(4), of s] objD [OF h(4)] h(5) by simp
  have ap: "{dp..<dp + c} \<inter> {y..<y + cy} = {}" by (rule fs_objects_apart [OF y(7)]) (use c ne in simp_all)
  define m where "m = wr_bytes (mem s1) (W y) bs"
  have m: "memcpy (mem s1) (W y) (Mem (W dp)) (W (length bs)) = m"
  proof -
    have "readable {dp..<dp + c} (Mem (W dp)) (length bs)"
      using c dpr unat_of_nat_u32 [of dp] by simp
    from memcpy_readable [OF this ap _ yr, of "mem s1"] bs1 k y(6) show ?thesis by (simp add: m_def)
  qed
  have S2: "same_on (- {y..<y + cy}) (mem s1) m"
    unfolding m_def by (rule same_on_wr_bytes) (use k y(6) yr in auto)
  have R2: "fs_rel (s1\<lparr>mem := m\<rparr>) ?P ?N" by (rule fs_put [OF y(7) _ y(5) S2]) simp
  have "quiet (heap_stable s1 (?P(y := None))) s1 (s1\<lparr>mem := m\<rparr>)" by (rule fs_write_quiet [OF y(7) _ S2]) simp
  moreover have Py: "?P(y := None) = P" using y(4) by auto
  ultimately have Q2: "quiet (heap_stable s P) s1 (s1\<lparr>mem := m\<rparr>)" by (simp add: quiet_stable [OF y(8)])
  have QQ: "quiet (heap_stable s P) s (s1\<lparr>mem := m\<rparr>)" by (rule quiet_trans [OF y(8) Q2])
  have "words_at m f [W fnp, W dp, W (length bs)]" using words_at_quiet [OF h(2) _ QQ] h(1) by simp
  from words_3 [OF this] have old: "file_data m (W f) = W dp" by (simp add: file_data_def)
  have ym: "rd_bytes m (W y) (length bs) = bs" unfolding m_def by (rule rd_bytes_wr_bytes) (use k in simp_all)
  obtain s2 where s2: "free (W dp) (s1\<lparr>mem := m\<rparr>) = Some (0, s2)" "fs_rel s2 (?P(dp := None)) ?N"
    "quiet (heap_stable (s1\<lparr>mem := m\<rparr>) (?P(dp := None))) (s1\<lparr>mem := m\<rparr>) s2"
    by (rule fs_free [OF R2 _ h(11)]) (use c ne in simp)
  have sp: "spends 0 (s1\<lparr>mem := m\<rparr>) s2" by (rule free_spends [OF fs_relD(1) [OF R2] _ s2(1)]) (use c ne in simp)
  note Q3 = s2(3) [unfolded quiet_stable [OF QQ]]
  have Q03: "quiet (heap_stable s (P(dp := None))) s s2"
  proof (rule quiet_trans)
    show "quiet (heap_stable s (P(dp := None))) s (s1\<lparr>mem := m\<rparr>)"
      by (rule quiet_subset [OF QQ heap_stable_mono]) (simp add: map_le_def)
    show "quiet (heap_stable s (P(dp := None))) (s1\<lparr>mem := m\<rparr>) s2"
      by (rule quiet_subset [OF Q3 heap_stable_mono]) (use y(4) in \<open>auto simp: map_le_def\<close>)
  qed
  let ?P2 = "?P(dp := None)"
  have w2: "words_at (mem s2) f [W fnp, W dp, W (length bs)]"
    using words_at_quiet [OF h(2) _ Q03] h(1,7) by (simp add: obj_def)
  have fo: "obj ?P2 f (4 * length [W fnp, W dp, W (length bs)])" using h(1,7) ne by (simp add: obj_def)
  let ?s3 = "s2\<lparr>mem := wr32 (mem s2) (W (f + 4 * 1)) (W y)\<rparr>"
  note t1 = fs_put_word [OF s2(2) fo h(9) w2, of 1 "W y"]
  have fo': "obj ?P2 f (4 * length [W fnp, W y, W (length bs)])" using fo by simp
  have R3: "fs_rel ?s3 ?P2 ?N" and w3: "words_at (mem ?s3) f [W fnp, W y, W (length bs)]" using t1(1,2) by simp_all
  let ?s4 = "?s3\<lparr>mem := wr32 (mem ?s3) (W (f + 4 * 2)) (W k)\<rparr>"
  note t2 = fs_put_word [OF R3 fo' h(9) w3, of 2 "W k"]
  have w4: "words_at (mem ?s4) f [W fnp, W y, W k]" using t2(2) by (simp add: numeral_2_eq_2)
  have Q4: "quiet (heap_stable s (?P2(f := None))) s2 ?s4"
  proof (rule quiet_trans)
    show "quiet (heap_stable s (?P2(f := None))) s2 ?s3" using t1(3) by (simp add: quiet_stable [OF Q03])
    show "quiet (heap_stable s (?P2(f := None))) ?s3 ?s4"
      using t2(3) heap.stable_put [of _ s2] by (simp add: quiet_stable [OF Q03])
  qed
  let ?Q = "P(dp := None, f := None, y \<mapsto> cy)"
  have PQ: "?P2(f := None) = ?Q" using ne by auto
  have ystab: "{y..<y + cy} \<subseteq> heap_stable s ?P2"
    using obj_stable [of ?P2 y cy s] fs_obj [OF s2(2), of y cy] ne by simp
  have ystab4: "{y..<y + cy} \<subseteq> heap_stable s (?P2(f := None))"
    using obj_stable [of "?P2(f := None)" y cy s] fs_obj [OF s2(2), of y cy cy] ne by (simp add: obj_def)
  have sub: "{y..<y + length bs} \<subseteq> {y..<y + cy}" using k y(6) by auto
  have y2: "rd_bytes (mem s2) (W y) (length bs) = bs"
    using rd_bytes_same_on [of "heap_stable s ?P2" m "mem s2" y "length bs"] Q3 subset_trans [OF sub ystab] k y(6) yr ym
    by (simp add: quiet_def)
  have y4: "rd_bytes (mem ?s4) (W y) (length bs) = bs"
    using rd_bytes_same_on [of "heap_stable s (?P2(f := None))" "mem s2" "mem ?s4" y "length bs"] Q4 subset_trans [OF sub ystab4] k y(6) yr y2
    unfolding quiet_def by simp
  define junk where "junk = drop (length bs) (rd_bytes (mem ?s4) (W y) k)"
  have "take (length bs) (rd_bytes (mem ?s4) (W y) k) = rd_bytes (mem ?s4) (W y) (length bs)"
    using k(1) by (simp add: rd_bytes_def take_map)
  then have all: "rd_bytes (mem ?s4) (W y) k = bs @ junk" using y4 unfolding junk_def by (metis append_take_drop_id)
  have lj: "length bs + length junk = k" using k(1) by (simp add: junk_def)
  have "str_obj (mem s2) (P(dp := None)) fnp fnm"
    by (rule str_obj_quiet [OF h(3)]) (use Q03 h(8) in \<open>auto simp: quiet_def\<close>)
  then have "str_obj (mem s2) ?P2 fnp fnm" by (rule str_obj_cong_P) (use h(8) ne in simp)
  then have "str_obj (mem ?s4) (?P2(f := None)) fnp fnm"
    by (rule str_obj_quiet) (use Q4 h(6) in \<open>auto simp: quiet_def\<close>)
  then have n4: "str_obj (mem ?s4) ?P2 fnp fnm" by (rule str_obj_cong_P) (use h(6) in simp)
  have yo: "obj ?P2 y (length (bs @ junk))" by (rule fs_obj [OF s2(2), of y cy]) (use ne lj y(6) in simp_all)
  have "node_ok (mem ?s4) ?P2 f (File fnp fnm y (bs @ junk))"
    using fo w4 n4 yo all lj h(6) ne by simp
  from fs_add [OF t2(1) this] have rel: "fs_rel ?s4 ?P2 (N(f \<mapsto> File fnp fnm y (bs @ junk)))"
    using h(9,10) y(5) by simp
  show thesis
  proof (rule that [OF _ rel lj])
    have f48: "W f + 4 = W (f + 4 * 1)" "W f + 8 = W (f + 4 * 2)" by simp_all
    have "W k > file_size (mem s) (W f)"
      using file_fields(3) [OF fs_relD(2) [OF R F]] of_nat_u32_less [of "length bs" k] k by simp
    then show "write_grow (W f) (W k) s = Some (True, ?s4)"
      using y(1,2) f1 dp0 m old s2(1) by (simp add: write_grow_def f48 Let_def del: of_nat_add)
    show "quiet (heap_stable s (P(f := None, dp := None))) s ?s4"
    proof (rule quiet_trans)
      show "quiet (heap_stable s (P(f := None, dp := None))) s s2"
        by (rule quiet_subset [OF Q03 heap_stable_mono]) (simp add: map_le_def)
      show "quiet (heap_stable s (P(f := None, dp := None))) s2 ?s4"
        by (rule quiet_subset [OF Q4 heap_stable_mono]) (use y(4) in \<open>auto simp: map_le_def\<close>)
    qed
    show "spends 1 s ?s4" by (rule spends_trans [OF y(9), of 0]) (use sp in simp_all)
  qed (use y(4) in auto)
qed

subsection \<open>ramfs_write\<close>

text \<open>The end of \<open>ramfs_write\<close>, when the file is large enough.\<close>

lemma write_tail:
  fixes s :: "'a fs_state_scheme"
  assumes R: "fs_rel s P N" and F: "N f = Some (File fnp fnm y bs)" and E: "N e = Some (Fd n f p fl)"
    and len: "p + length dat \<le> length bs"
    and dat: "readable (heap_stable s (P(y := None))) data (length dat)" "rd_chars (mem s) data (length dat) = dat"
  defines "m \<equiv> memcpy (mem s) (file_data (mem s) (W f) + fd_position (mem s) (W e)) data (W (length dat))"
  defines "s' \<equiv> s\<lparr>mem := wr32 m (W e + 8) (fd_position m (W e) + W (length dat))\<rparr>"
  shows "fs_rel s' P (N(f \<mapsto> File fnp fnm y (take p bs @ dat @ drop (p + length dat) bs), e \<mapsto> Fd n f (p + length dat) fl))"
    "quiet (heap_stable s (P(y := None, e := None))) s s'"
proof -
  note h = file_node_parts [OF R F]
  have ef: "e \<noteq> f" using E F by auto
  obtain c where c: "P y = Some c" "length bs \<le> c" using h(4) by (auto simp: obj_def)
  have cr: "y + c < 2 ^ 32" by (rule fs_range_strict [OF R c(1)])
  have ap: "heap_stable s (P(y := None)) \<inter> {y..<y + c} = {}" using heap.apart [OF fs_relD(1) [OF R] c(1)] by blast
  have yp: "W y + W p = W (y + p)" by simp
  have m: "m = wr_bytes (mem s) (W y + W p) dat"
  proof -
    have "heap_stable s (P(y := None)) \<inter> {y + p..<y + p + length dat} = {}" using ap len c by auto
    from memcpy_readable [OF dat(1) this, of "mem s"] dat(2) len c cr show ?thesis
      unfolding m_def yp [symmetric] file_fields(2) [OF fs_relD(2) [OF R F]] fd_fields(2) [OF fs_relD(2) [OF R E]] by simp
  qed
  let ?s = "s\<lparr>mem := m\<rparr>" and ?N = "N(f \<mapsto> File fnp fnm y (take p bs @ dat @ drop (p + length dat) bs))"
  have R2: "fs_rel ?s P ?N" and Q2: "quiet (heap_stable s (P(y := None))) s ?s"
    using overwrite_file [OF R F len] unfolding m by simp_all
  have E2: "?N e = Some (Fd n f p fl)" using E ef by simp
  have "fd_position m (W e) = W p" using fd_fields(2) [OF fs_relD(2) [OF R2 E2]] by simp
  then have pos: "fd_position m (W e) + W (length dat) = W (p + length dat)" by simp
  have s': "s' = ?s\<lparr>mem := wr32 (mem ?s) (W e + 8) (W (p + length dat))\<rparr>" unfolding s'_def pos by simp
  note p = set_position [OF R2 E2, of "p + length dat", folded s']
  from p(1) show "fs_rel s' P (?N(e \<mapsto> Fd n f (p + length dat) fl))" .
  show "quiet (heap_stable s (P(y := None, e := None))) s s'"
  proof (rule quiet_trans)
    show "quiet (heap_stable s (P(y := None, e := None))) s ?s"
      by (rule quiet_subset [OF Q2 heap_stable_mono]) (simp add: map_le_def)
    show "quiet (heap_stable s (P(y := None, e := None))) ?s s'"
      by (rule quiet_subset [OF p(2)], unfold quiet_stable [OF Q2], rule heap_stable_mono) (simp add: map_le_def)
  qed
qed

text \<open>Descriptor \<open>fd\<close> is the entry at \<open>e\<close>.\<close>

definition fd_is :: "'a fs_state_scheme \<Rightarrow> i32 \<Rightarrow> nat \<Rightarrow> bool" where
  "fd_is s fd e \<longleftrightarrow> \<not> fd_invalid fd s \<and> fd_table s ! unat fd = W e"

text \<open>The position an append-mode write begins at is the end of the file.\<close>

definition write_pos :: "i32 \<Rightarrow> nat \<Rightarrow> u8 list \<Rightarrow> nat" where
  "write_pos fl pos bs = (if fl AND O_APPEND \<noteq> 0 then length bs else pos)"

lemma ramfs_write_spec:
  fixes s :: "'a fs_state_scheme"
  assumes R: "fs_rel s P N" and V: "fd_is s fd e" "fd \<noteq> STDOUT_FILENO" "fd \<noteq> STDERR_FILENO"
    and E: "N e = Some (Fd n f pos fl)" and F: "N f = Some (File fnp fnm dp bs)" and fl: "fl AND 3 \<noteq> 0"
    and p: "p = write_pos fl pos bs" and len: "p + length dat \<le> 32759" "length bs \<le> 32759" and room: "room 1 s"
    and dat: "readable (heap_stable s (P(e := None, f := None, dp := None))) data (length dat)"
      "rd_chars (mem s) data (length dat) = dat"
  obtains y junk P' s' where "ramfs_write fd data (W (length dat)) s = Some (W (length dat), s')"
    "fs_rel s' P' (N(f \<mapsto> File fnp fnm y (take p (bs @ junk) @ dat @ drop (p + length dat) (bs @ junk)),
       e \<mapsto> Fd n f (p + length dat) fl))"
    "length bs + length junk = max (length bs) (p + length dat)"
    "quiet (heap_stable s (P(e := None, f := None, dp := None))) s s'" "spends 1 s s'"
    "\<forall>q. q \<noteq> dp \<longrightarrow> P q \<noteq> None \<longrightarrow> P' q = P q"
proof -
  let ?A = "heap_stable s (P(e := None, f := None, dp := None))"
  have ef: "e \<noteq> f" using E F by auto
  define s1 where "s1 = (if fl AND O_APPEND \<noteq> 0
      then s\<lparr>mem := wr32 (mem s) (W e + 8) (file_size (mem s) (W f))\<rparr> else s)"
  let ?N1 = "N(e \<mapsto> Fd n f p fl)"
  have R1: "fs_rel s1 P ?N1" and Q1: "quiet (heap_stable s (P(e := None))) s s1" and sp1: "spends 0 s s1"
    using set_position [OF R E, of "length bs"] R E file_fields(3) [OF fs_relD(2) [OF R F]]
    by (auto simp: s1_def p write_pos_def fun_upd_idem)
  have F1: "?N1 f = Some (File fnp fnm dp bs)" and E1: "?N1 e = Some (Fd n f p fl)" using F ef by simp_all
  note fd1 = fd_fields [OF fs_relD(2) [OF R1 E1]] and ff1 = file_fields [OF fs_relD(2) [OF R1 F1]]
  have f0: "W f \<noteq> 0" using W_nonzero file_node_parts(1) [OF R F] by simp
  let ?k = "p + length dat"
  have gt: "fd_position (mem s1) (W e) + W (length dat) > file_size (mem s1) (W f) \<longleftrightarrow> ?k > length bs"
    using of_nat_u32_less [of "length bs" ?k] len fd1 ff1 by simp
  have kk: "fd_position (mem s1) (W e) + W (length dat) = W ?k" using fd1 by simp
  have rd1: "?A \<subseteq> heap_stable s (P(e := None))" "?A \<subseteq> heap_stable s (P(f := None, dp := None))"
    "?A \<subseteq> heap_stable s (P(dp := None))"
    by (rule heap_stable_mono; simp add: map_le_def)+
  obtain s2 y junk P2 where g: "write_grow (W f) (fd_position (mem s1) (W e) + W (length dat)) s1 = Some (True, s2)"
    "fs_rel s2 P2 (?N1(f \<mapsto> File fnp fnm y (bs @ junk)))" "length bs + length junk = max (length bs) ?k"
    "quiet ?A s s2" "spends 1 s s2" "\<forall>q. q \<noteq> dp \<longrightarrow> q \<noteq> y \<longrightarrow> P2 q = P q" "y = dp \<or> P y = None"
  proof (cases "length bs < ?k")
    case False
    then have "fs_rel s1 P (?N1(f \<mapsto> File fnp fnm dp (bs @ [])))" using R1 F1 by (simp add: fun_upd_idem)
    moreover have "write_grow (W f) (fd_position (mem s1) (W e) + W (length dat)) s1 = Some (True, s1)"
      using gt False by (simp add: write_grow_def)
    ultimately show thesis using False quiet_subset [OF Q1 rd1(1)] sp1
      by (intro that [of s1 P dp "[]"]) (simp_all add: spends_def)
  next
    case True
    have rm: "room 1 s1" by (rule room_spends [OF sp1 room]) simp
    obtain y junk P2 s2 where g: "write_grow (W f) (W ?k) s1 = Some (True, s2)"
      "fs_rel s2 P2 (?N1(f \<mapsto> File fnp fnm y (bs @ junk)))" "length bs + length junk = ?k"
      "quiet (heap_stable s1 (P(f := None, dp := None))) s1 s2" "spends 1 s1 s2"
      "\<forall>q. q \<noteq> dp \<longrightarrow> q \<noteq> y \<longrightarrow> P2 q = P q" "P y = None"
      by (rule grow_file [OF R1 F1 True len(1) rm])
    have "quiet ?A s s2"
      using quiet_trans [OF quiet_subset [OF Q1 rd1(1)]] quiet_subset [OF g(4)] rd1(2) unfolding quiet_stable [OF Q1] by blast
    moreover have "spends 1 s s2" by (rule spends_trans [OF sp1 g(5)]) simp
    ultimately show thesis using g True by (intro that [of s2 P2 y junk]) (simp_all add: kk del: of_nat_add)
  qed
  let ?N2 = "?N1(f \<mapsto> File fnp fnm y (bs @ junk))"
  have F2: "?N2 f = Some (File fnp fnm y (bs @ junk))" and E2: "?N2 e = Some (Fd n f p fl)" using ef by simp_all
  have keep: "P2 q = P q" if "q \<noteq> dp" "P q \<noteq> None" for q using g(6,7) that by (cases "q = y") auto
  have rd: "?A \<subseteq> heap_stable s2 (P2(y := None))"
    unfolding quiet_stable [OF g(4)] by (rule heap_stable_mono) (use keep g(7) in \<open>auto simp: map_le_def\<close>)
  have dat2: "rd_chars (mem s2) data (length dat) = dat"
    using rd_chars_same_on [of ?A "mem s" "mem s2"] g(4) dat by (simp add: quiet_def)
  have len2: "p + length dat \<le> length (bs @ junk)" using g(3) by simp
  define m where "m = memcpy (mem s2) (file_data (mem s2) (W f) + fd_position (mem s2) (W e)) data (W (length dat))"
  define s' where "s' = s2\<lparr>mem := wr32 m (W e + 8) (fd_position m (W e) + W (length dat))\<rparr>"
  note T = write_tail [OF g(2) F2 E2 len2 readable_mono [OF dat(1) rd] dat2, folded m_def, folded s'_def]
  have N': "?N2(f \<mapsto> x, e \<mapsto> z) = N(f \<mapsto> x, e \<mapsto> z)" for x z using ef by (auto simp: fun_eq_iff)
  have mono: "?A \<subseteq> heap_stable s2 (P2(y := None, e := None))"
    unfolding quiet_stable [OF g(4)] by (rule heap_stable_mono) (use keep g(7) in \<open>auto simp: map_le_def\<close>)
  show thesis
  proof (rule that [OF _ T(1) [unfolded N'] g(3)])
    note fld = fd_fields [OF fs_relD(2) [OF R E]]
    have "fd_flags (mem s) (W e) AND (O_WRONLY OR O_RDWR) \<noteq> 0" using fl fld(3) by simp
    moreover have v: "\<not> fd_invalid fd s" "fd_table s ! unat fd = W e" using V(1) by (simp_all add: fd_is_def)
    ultimately show "ramfs_write fd data (W (length dat)) s = Some (W (length dat), s')"
      using V(2,3) fld f0 g(1) unfolding ramfs_write_def Let_def v(2)
      by (cases "fl AND O_APPEND = 0") (simp_all add: s1_def m_def s'_def del: not_gr_zero)
    show "quiet ?A s s'" by (rule quiet_trans [OF g(4) quiet_subset [OF T(2) mono]])
    show "spends 1 s s'" using g(5) by (simp add: s'_def)
    show "\<forall>q. q \<noteq> dp \<longrightarrow> P q \<noteq> None \<longrightarrow> P2 q = P q" using keep by blast
  qed
qed

subsection \<open>ramfs_seek and ramfs_read\<close>

text \<open>The bytes below the heap, the list heads excepted: stacks and static data.\<close>

definition low_bytes :: "'a heap_state_scheme \<Rightarrow> nat set" where
  "low_bytes s = {..<heap_base} - {unat (free_list s)..<unat (free_list s) + 128}"

lemma low_stable: "low_bytes s \<subseteq> heap_stable s P"
  by (auto simp: low_bytes_def heap_stable_def)

lemma quiet_low: "quiet A s s' \<Longrightarrow> low_bytes s' = low_bytes s"
  by (simp add: quiet_def heap_frame_def low_bytes_def)

lemma low_apart:
  assumes "fs_rel s P N"
  shows "low_bytes s \<inter> extent P A = {}"
proof -
  obtain L where R: "heap_rel s L" and P: "P = payloads L" using fs_relD(1) [OF assms] unfolding heap_objects_def by blast
  have "heap_base \<le> p" if pc: "P p = Some c" for p c
  proof -
    obtain a k where a: "p = a + 9" "L a = Some k" using pc unfolding P payloads_Some by blast
    then show ?thesis using heap_rel_block(3) [OF R a(2)] by simp
  qed
  then show ?thesis unfolding low_bytes_def extent_def by fastforce
qed

text \<open>Writing bytes that no object of the file system holds.\<close>

lemma fs_put_outside:
  fixes s :: "'a heap_state_scheme"
  assumes R: "fs_rel s P N" and S: "same_on (- B) (mem s) m" and B: "B \<subseteq> heap_stable s P" "B \<inter> extent P (owned foot N) = {}"
  shows "fs_rel (s\<lparr>mem := m\<rparr>) P N"
proof -
  have "same_on (- heap_stable s P) (mem s) m" by (rule same_on_subset [OF S]) (use B(1) in blast)
  then have O: "heap_objects (s\<lparr>mem := m\<rparr>) P" by (rule heap.rel_put [OF fs_relD(1) [OF R]])
  have "same_on (extent P (owned foot N)) (mem s) (mem (s\<lparr>mem := m\<rparr>))"
    using same_on_subset [OF S, of "extent P (owned foot N)"] B(2) by auto
  from fs.owns_cong [OF R [unfolded fs_rel_def] O refl this] show ?thesis by (simp add: fs_rel_def)
qed

lemma ramfs_seek_spec:
  fixes s :: "'a fs_state_scheme"
  assumes R: "fs_rel s P N" and V: "fd_is s fd e" and E: "N e = Some (Fd n f pos fl)" and p: "0 \<le> sint off"
  shows "\<exists>s'. ramfs_seek fd off 0 s = (off, s') \<and> fs_rel s' P (N(e \<mapsto> Fd n f (unat off) fl)) \<and>
    quiet (heap_stable s (P(e := None))) s s'"
  using V p set_position [OF R E, of "unat off"] by (simp add: ramfs_seek_def fd_is_def)

text \<open>A read copies what is there between the position and the end, at most \<open>count\<close> bytes.\<close>

lemma ramfs_read_spec:
  fixes s :: "'a fs_state_scheme"
  assumes R: "fs_rel s P N" and V: "fd_is s fd e" and E: "N e = Some (Fd n f pos fl)"
    and F: "N f = Some (File fnp fnm dp bs)" and fl: "fl AND 3 \<noteq> 0" and pos: "pos \<le> length bs"
    and k: "k = min (unat count) (length bs - pos)"
    and b: "{b..<b + k} \<subseteq> heap_stable s P" "{b..<b + k} \<inter> extent P (owned foot N) = {}" "b + k \<le> 2 ^ 32"
  obtains s' where "ramfs_read_file fd (W b) count s = (W k, s')" "rd_bytes (mem s') (W b) k = take k (drop pos bs)"
    "fs_rel s' P (N(e \<mapsto> Fd n f (pos + k) fl))" "quiet (heap_stable s (P(e := None)) - {b..<b + k}) s s'"
proof -
  note h = file_node_parts [OF R F] and fd = fd_fields [OF fs_relD(2) [OF R E]] and ff = file_fields [OF fs_relD(2) [OF R F]]
  obtain c where c: "P dp = Some c" "length bs \<le> c" using h(4) by (auto simp: obj_def)
  have cr: "dp + c < 2 ^ 32" by (rule fs_range_strict [OF R c(1)])
  have l32: "length bs < 2 ^ 32" using c cr by simp
  have f0: "W f \<noteq> 0" using W_nonzero h(1) by simp
  have av: "W (length bs) - W pos = W (length bs - pos)" using pos by (simp add: of_nat_diff)
  have cnt: "(if count > W (length bs) - W pos then W (length bs) - W pos else count) = W k"
    unfolding av using unat_of_nat_u32 [of "length bs - pos"] l32 by (simp add: k word_less_nat_alt min_def not_less)
  have k32: "k \<le> length bs - pos" "k < 2 ^ 32" using k l32 by simp_all
  let ?D = "{dp + pos..<dp + pos + k}"
  have "dp \<in> owned foot N" using in_owned [of N f _ foot] F by fastforce
  then have "{dp..<dp + c} \<subseteq> extent P (owned foot N)" by (rule in_extent) (rule c)
  moreover have "?D \<subseteq> {dp..<dp + c}" using k32(1) pos c by auto
  ultimately have D: "?D \<subseteq> extent P (owned foot N)" by (rule subset_trans [rotated])
  have dpos: "W dp + W pos = W (dp + pos)" by simp
  have rd: "readable ?D (Mem (W (dp + pos))) k"
    using unat_of_nat_u32 [of "dp + pos"] c cr k32(1) pos by simp
  have ap: "?D \<inter> {b..<b + k} = {}" using D b(2) by blast
  define m where "m = wr_bytes (mem s) (W b) (take k (drop pos bs))"
  have src: "rd_bytes (mem s) (W (dp + pos)) k = take k (drop pos bs)"
  proof (rule nth_equalityI)
    fix i assume "i < length (rd_bytes (mem s) (W (dp + pos)) k)"
    then have i: "i < k" by simp
    have "rd_bytes (mem s) (W dp) (length bs) ! (pos + i) = bs ! (pos + i)" using h(5) by simp
    then show "rd_bytes (mem s) (W (dp + pos)) k ! i = take k (drop pos bs) ! i"
      using i k32(1) pos by (simp add: add.assoc)
  qed (use k32(1) pos in simp)
  have m: "memcpy (mem s) (W b) (Mem (W dp + W pos)) (W k) = m"
    unfolding dpos m_def using memcpy_readable [OF rd ap _ b(3) k32(2)] src by simp
  have lk: "length (take k (drop pos bs)) = k" using k32(1) by simp
  have S: "same_on (- {b..<b + k}) (mem s) m" unfolding m_def by (rule same_on_wr_bytes) (use lk b(3) in auto)
  let ?s = "s\<lparr>mem := m\<rparr>"
  have R1: "fs_rel ?s P N" by (rule fs_put_outside [OF R S b(1,2)])
  have Q1: "quiet (heap_stable s (P(e := None)) - {b..<b + k}) s ?s"
    by (rule quiet_put, rule same_on_subset [OF S]) blast
  have pos1: "fd_position m (W e) + W k = W (pos + k)" using fd_fields(2) [OF fs_relD(2) [OF R1 E]] by simp
  note p = set_position [OF R1 E, of "pos + k"]
  let ?s' = "?s\<lparr>mem := wr32 (mem ?s) (W e + 8) (W (pos + k))\<rparr>"
  have buf: "rd_bytes (mem ?s') (W b) k = take k (drop pos bs)"
  proof -
    obtain ce where ce: "P e = Some ce" "16 \<le> ce" using fd_node(1) [OF R E] by (auto simp: obj_def)
    have er: "e + ce \<le> 2 ^ 32" using fs_range [OF R ce(1)] by simp
    have "e \<in> owned foot N" using in_owned [of N e _ foot] E by fastforce
    then have "{e..<e + ce} \<inter> {b..<b + k} = {}" using in_extent [of e "owned foot N" P ce] ce(1) b(2) by blast
    then have "same_on {b..<b + k} m (wr32 m (W (e + 8)) (W (pos + k)))"
      by (intro same_on_wr32) (use ce er in \<open>auto simp: disjoint_iff\<close>)
    moreover have "rd_bytes m (W b) k = take k (drop pos bs)"
      unfolding m_def by (rule rd_bytes_wr_bytes) (use lk k32 in simp_all)
    moreover have "W e + 8 = W (e + 8)" by simp
    ultimately show ?thesis using rd_bytes_same_on [of "{b..<b + k}" m "wr32 m (W (e + 8)) (W (pos + k))" b k] b(3)
      by (simp del: of_nat_add)
  qed
  show thesis
  proof (rule that [OF _ buf p(1)])
    have v: "fd_table s ! unat fd = W e" using V by (simp add: fd_is_def)
    have nr: "\<not> (fd_flags (mem s) (W e) AND O_RDONLY = 0 \<and> fd_flags (mem s) (W e) AND O_RDWR = 0)" using fl fd(3) by simp
    show "ramfs_read_file fd (W b) count s = (W k, ?s')"
      unfolding ramfs_read_file_def Let_def v fd(1,2) ff cnt m pos1 if_not_P [OF nr] if_not_P [OF f0] by simp
    show "quiet (heap_stable s (P(e := None)) - {b..<b + k}) s ?s'"
    proof (rule quiet_trans [OF Q1 quiet_subset [OF p(2)]])
      show "heap_stable s (P(e := None)) - {b..<b + k} \<subseteq> heap_stable ?s (P(e := None))"
        by (simp add: quiet_stable [OF Q1] Diff_subset)
    qed
  qed
qed

subsection \<open>ramfs_close\<close>

text \<open>
  The block header that \<open>free\<close> looks at lies just below the local variable \<open>fd_ptr\<close>. Unless it
  happens to be linked to itself, \<open>free\<close> refuses, and the entry is never given back.
\<close>

lemma ramfs_close_leaks:
  fixes s :: "'a fs_state_scheme"
  assumes R: "fs_rel s P N" and V: "fd_is s fd e" and loc: "{loc..<loc + 4} \<subseteq> low_bytes s" "0 < loc" "loc + 4 \<le> 2 ^ 32"
    and h: "hnext (wr32 (mem s) (W loc) (W e)) (W loc - 9) \<noteq> W loc - 9"
  obtains s' where "ramfs_close (W loc) fd s = Some (0, s')" "fs_rel s' P N"
    "fd_table s' = (fd_table s)[unat fd := 0]" "fd_count s' = fd_count s - 1"
proof -
  have v: "\<not> fd_invalid fd s" "fd_table s ! unat fd = W e" using V by (simp_all add: fd_is_def)
  let ?m = "wr32 (mem s) (W loc) (W e)"
  let ?s = "s\<lparr>mem := ?m\<rparr>"
  have S: "same_on (- {loc..<loc + 4}) (mem s) ?m" by (rule same_on_wr32) (use loc in auto)
  have R1: "fs_rel ?s P N"
    by (rule fs_put_outside [OF R S]) (use loc low_stable low_apart [OF R] in blast)+
  have l0: "W loc \<noteq> 0" using loc of_nat_u32_eq [of loc 0] by simp
  let ?msg = "CHR 0x0A # ''BLOCK DATA CORRUPTED. failed to free''"
  have c: "cstr (mem ?s) (lit ?msg) (bytes_of ?msg)" by (rule cstr_lit) (simp add: bytes_of_def)
  have "length (bytes_of ?msg) < 2 ^ 32" by simp
  with terminal_writestring_cstr [OF c] obtain t where t: "terminal_writestring (lit ?msg) ?s = Some t" by blast
  have f: "free (W loc) ?s = Some (1, t)" using h l0 t by (simp add: free_def Let_def)
  have T: "term_frame ?s t" by (rule term_frame_writestring [OF t])
  let ?s' = "t\<lparr>fd_table := (fd_table t)[unat fd := 0], fd_count := fd_count t - 1\<rparr>"
  have e: "mem t = mem ?s" "fd_table t = fd_table s" "fd_count t = fd_count s" "free_list t = free_list s" "current_brk t = current_brk s"
    by (subst term_frame_state [OF T], simp)+
  have "fs_rel ?s' P N"
    using R1 e by (simp add: fs_rel_def owns_def heap_objects_def heap_rel_def)
  moreover have "ramfs_close (W loc) fd s = Some (0, ?s')" using v f by (simp add: ramfs_close_def)
  ultimately show thesis using that e by simp
qed

end
