(* ===== verification/FsInv.thy ===== *)
theory FsInv
  imports FsData
begin

section \<open>FsInv: what every sequence of file operations keeps\<close>

text \<open>
  The commands of the shell are a walk to a directory followed by one operation there.
  \<open>fs_step\<close> has one rule for each, with the state of the machine only; \<open>fs_ok\<close> says that the
  memory holds a well-formed tree with a directory at the root. Every step implements a step
  \<open>tree_step\<close> of the map of nodes, and leaves alone the heap objects that no node owns.
\<close>

definition fs_ok :: "nat \<Rightarrow> 'a fs_state_scheme \<Rightarrow> bool" where
  "fs_ok root s \<longleftrightarrow> (\<exists>P N. fs_rel s P N \<and> tree_ok N \<and> is_dir N root)"

text \<open>A terminated string outside the heap, or a literal.\<close>

definition text_at :: "'a heap_state_scheme \<Rightarrow> cptr \<Rightarrow> u8 list \<Rightarrow> bool" where
  "text_at s p bs \<longleftrightarrow> cstr (mem s) p bs \<and> readable (low_bytes s) p (Suc (length bs)) \<and> length bs < 32759 \<and> p \<noteq> Mem 0"

lemma text_atD:
  assumes "text_at s p bs"
  shows "cstr (mem s) p bs" "readable (heap_stable s P) p (Suc (length bs))" "length bs < 32759" "p \<noteq> Mem 0"
  using assms readable_mono [OF _ low_stable [of s P]] by (simp_all add: text_at_def)

lemma text_bytes:
  assumes "text_at s p bs"
  shows "readable (heap_stable s P) p (length bs)" "rd_chars (mem s) p (length bs) = bs"
  using text_atD [OF assms] readable_less rd_chars_cstr by (blast intro: le_SucI order_refl)+

lemma text_at_quiet:
  assumes t: "text_at s p bs" and Q: "quiet_tok (heap_stable s P) s s'"
  shows "text_at s' p bs"
proof -
  have l: "low_bytes s' = low_bytes s"
    using Q by (cases s; cases s') (simp add: quiet_tok_def quiet_def heap_frame_def low_bytes_def)
  have "same_on (low_bytes s) (mem s) (mem s')" by (rule same_on_subset [OF same_on_tok [OF Q] low_stable])
  with t show ?thesis unfolding text_at_def l using cstr_same_on by blast
qed

inductive fs_step :: "nat \<Rightarrow> 'a fs_state_scheme \<Rightarrow> 'a fs_state_scheme \<Rightarrow> bool" for root :: nat where
  make_file: "ramfs_find_dir (W root) path s = Some (d, s1) \<Longrightarrow> d \<noteq> 0 \<Longrightarrow>
    text_at s path ws \<Longrightarrow> text_at s name nm \<Longrightarrow> text_at s data bs \<Longrightarrow> room 1 s \<Longrightarrow> file_count (mem s1) d < 8000 \<Longrightarrow>
    ramfs_create_file d name data (W (length bs)) s1 = Some (f, s') \<Longrightarrow> fs_step root s s'"
| make_dir: "ramfs_find_dir (W root) path s = Some (d, s1) \<Longrightarrow> d \<noteq> 0 \<Longrightarrow>
    text_at s path ws \<Longrightarrow> text_at s name nm \<Longrightarrow> room 4 s \<Longrightarrow> subdir_count (mem s1) d < 8000 \<Longrightarrow>
    ramfs_create_dir d name s1 = Some (e, s') \<Longrightarrow> fs_step root s s'"
| remove_file: "ramfs_find_dir (W root) path s = Some (d, s1) \<Longrightarrow> d \<noteq> 0 \<Longrightarrow>
    text_at s path ws \<Longrightarrow> text_at s name nm \<Longrightarrow> room 1 s \<Longrightarrow> file_count (mem s1) d < 8000 \<Longrightarrow>
    ramfs_delete_file d name s1 = Some s' \<Longrightarrow> fs_step root s s'"
| open_file: "text_at s path ws \<Longrightarrow> ws \<noteq> [] \<Longrightarrow> ws \<notin> std_names \<Longrightarrow> room 3 s \<Longrightarrow>
    ramfs_open (W root) path flags s = Some (fd, s') \<Longrightarrow> fs_step root s s'"

inductive_cases fs_stepE: "fs_step root s s'"

subsection \<open>Each step\<close>

lemma find_dir_step:
  fixes s :: "'a fs_state_scheme"
  assumes R: "fs_rel s P N" "tree_ok N" "is_dir N root" and t: "text_at s path ws" "room 1 s"
    and f: "ramfs_find_dir (W root) path s = Some (d, s1)" "d \<noteq> 0"
  obtains e np nm par fa fs da ds where "d = W e" "N e = Some (Dir np nm par fa fs da ds)" "fs_rel s1 P N"
    "quiet_tok (heap_stable s P) s s1" "spends 1 s s1"
proof -
  note t' = text_atD [OF t(1)]
  obtain s2 where s2: "ramfs_find_dir (W root) path s = Some (ptr (walk N root (path_comps ws)), s2)" "fs_rel s2 P N"
    "quiet_tok (heap_stable s P) s s2" "spends 1 s s2"
    by (rule ramfs_find_dir_spec [OF R t(2) t'])
  then have d: "d = ptr (walk N root (path_comps ws))" "s1 = s2" using f(1) by simp_all
  then obtain e where e: "walk N root (path_comps ws) = Some e" "d = W e" using f(2) by (auto simp: ptr_def split: option.splits)
  then have "is_dir N e" using walk_is_dir [OF R(2,3)] by blast
  then show thesis using that e(2) s2 d(2) unfolding is_dir_def by blast
qed

lemma fs_okI: "fs_rel s P N \<Longrightarrow> tree_ok N \<Longrightarrow> is_dir N root \<Longrightarrow> fs_ok root s"
  by (auto simp: fs_ok_def)

lemma is_dir_upd:
  "is_dir N root \<Longrightarrow> N f = None \<Longrightarrow> is_dir (N(f \<mapsto> n, d \<mapsto> Dir np nm par fa fs da ds)) root"
  "is_dir N root \<Longrightarrow> file_node N f \<Longrightarrow> is_dir (N(f := None, d \<mapsto> Dir np nm par fa fs da ds)) root"
  by (auto simp: is_dir_def file_node_def)

lemma tree_ok_open: "tree_ok N \<Longrightarrow> N e = None \<Longrightarrow> tree_ok (N(e \<mapsto> Fd n f p fl))"
proof -
  assume T: "tree_ok N" and e: "N e = None"
  have "files N e = []" "subdirs N e = []" using e by (simp_all add: files_def subdirs_def)
  then have F: "files (N(e \<mapsto> Fd n f p fl)) = files N" "subdirs (N(e \<mapsto> Fd n f p fl)) = subdirs N"
    by (simp_all add: files_upd fun_upd_idem)
  have "file_node N x \<Longrightarrow> file_node (N(e \<mapsto> Fd n f p fl)) x" "dir_in N a x \<Longrightarrow> dir_in (N(e \<mapsto> Fd n f p fl)) a x" for x a
    using e by (auto simp: file_node_def dir_in_def)
  with T show ?thesis unfolding tree_ok_def F by blast
qed

lemma remove1_split: "i < length xs \<Longrightarrow> distinct xs \<Longrightarrow> remove1 (xs ! i) xs = take i xs @ drop (Suc i) xs"
proof -
  assume i: "i < length xs" and d: "distinct xs"
  have xs: "xs = take i xs @ xs ! i # drop (Suc i) xs" by (rule id_take_nth_drop [OF i])
  then have "xs ! i \<notin> set (take i xs)" using d by (metis distinct_append not_distinct_conv_prefix)
  then show ?thesis by (subst xs) (simp add: remove1_append)
qed

lemma tree_ok_remove_nth:
  assumes T: "tree_ok N" and D: "N d = Some (Dir np nm par fa fs da ds)" and i: "i < length fs"
  shows "tree_ok (N(fs ! i := None, d \<mapsto> Dir np nm par y (remove1 (fs ! i) fs) da ds))"
proof -
  have "distinct fs" using tree_okD(1) [OF T, of d] D by simp
  note r = remove1_split [OF i this]
  have "N d = Some (Dir np nm par fa (take i fs @ fs ! i # drop (Suc i) fs) da ds)"
    using D by (simp add: id_take_nth_drop [OF i, symmetric])
  from tree_ok_remove_file [OF T this] show ?thesis by (simp add: r)
qed

lemma count_less:
  assumes "W n < (8000 :: u32)" "n < 2 ^ 32"
  shows "n < 8000"
  using assms of_nat_u32_less [of n 8000] by simp

subsection \<open>Each step is a step of the abstract tree\<close>

text \<open>
  What a command does to the nodes: a file or directory appears at the end of its directory's
  entries, a file disappears from them, a file descriptor appears, or nothing changes.
\<close>

inductive tree_step :: "(nat \<rightharpoonup> node) \<Rightarrow> (nat \<rightharpoonup> node) \<Rightarrow> bool" where
  unchanged: "tree_step N N"
| new_file: "N d = Some (Dir np nm par fa fs da ds) \<Longrightarrow> N f = None \<Longrightarrow>
    tree_step N (N(f \<mapsto> File fnp fnm dp bs, d \<mapsto> Dir np nm par y (fs @ [f]) da ds))"
| new_dir: "N d = Some (Dir np nm par fa fs da ds) \<Longrightarrow> N e = None \<Longrightarrow>
    tree_step N (N(e \<mapsto> Dir enp enm d 0 [] 0 [], d \<mapsto> Dir np nm par fa fs y (ds @ [e])))"
| old_file: "N d = Some (Dir np nm par fa fs da ds) \<Longrightarrow> i < length fs \<Longrightarrow> file_node N (fs ! i) \<Longrightarrow>
    tree_step N (N(fs ! i := None, d \<mapsto> Dir np nm par y (remove1 (fs ! i) fs) da ds))"
| new_fd: "N e = None \<Longrightarrow> tree_step N (N(e \<mapsto> Fd n f 0 fl))"

lemma tree_step_ok: "tree_step N N' \<Longrightarrow> tree_ok N \<Longrightarrow> is_dir N root \<Longrightarrow> tree_ok N' \<and> is_dir N' root"
proof (induction rule: tree_step.induct)
  case (new_fd N e n f fl)
  then show ?case by (simp only: tree_ok_open) (auto simp: is_dir_def)
qed (simp_all add: tree_ok_add_file tree_ok_add_dir tree_ok_remove_nth is_dir_upd)

text \<open>What a command leaves alone: the objects that no node owns and all other state than the files'.\<close>

definition fs_frame :: "'a fs_state_scheme \<Rightarrow> 'a fs_state_scheme \<Rightarrow> bool" where
  "fs_frame s s' \<longleftrightarrow> heap_frame (s\<lparr>fd_table := [], fd_count := 0, strtok_last := 0\<rparr>) (s'\<lparr>fd_table := [], fd_count := 0, strtok_last := 0\<rparr>)"

definition unowned_kept :: "(nat \<rightharpoonup> nat) \<Rightarrow> (nat \<rightharpoonup> node) \<Rightarrow> 'a fs_state_scheme \<Rightarrow> 'a fs_state_scheme \<Rightarrow> bool" where
  "unowned_kept P N s s' \<longleftrightarrow> same_on (extent P (- owned foot N)) (mem s) (mem s') \<and> fs_frame s s'"

lemma unowned_kept_trans [trans]: "unowned_kept P N s t \<Longrightarrow> unowned_kept P N t u \<Longrightarrow> unowned_kept P N s u"
  by (auto simp: unowned_kept_def fs_frame_def intro: same_on_trans heap_frame_trans)

lemma unowned_kept_tok: "quiet_tok (heap_stable s P) s t \<Longrightarrow> unowned_kept P N s t"
  unfolding unowned_kept_def
proof
  assume Q: "quiet_tok (heap_stable s P) s t"
  show "same_on (extent P (- owned foot N)) (mem s) (mem t)"
    by (rule same_on_subset [OF quiet_tokD(1) [OF Q] extent_heap_stable])
  show "fs_frame s t" using Q by (cases s; cases t) (simp add: quiet_tok_def quiet_def heap_frame_def fs_frame_def)
qed

lemma unowned_kept_quiet:
  assumes Q: "quiet (heap_stable s P') s t" and P: "\<And>p. P p \<noteq> None \<Longrightarrow> p \<notin> owned foot N \<Longrightarrow> P' p = P p"
  shows "unowned_kept P N s t"
proof -
  have "extent P (- owned foot N) \<subseteq> extent P' UNIV" using P by (fastforce simp: extent_def)
  then have "same_on (extent P (- owned foot N)) (mem s) (mem t)"
    using Q extent_heap_stable [of P' UNIV s] unfolding quiet_def by (blast intro: same_on_subset)
  moreover have "fs_frame s t" using Q by (cases s; cases t) (simp add: quiet_def heap_frame_def fs_frame_def)
  ultimately show ?thesis by (simp add: unowned_kept_def)
qed

lemma unowned_kept_fd: "quiet_tok (heap_stable s P) (fd_added fd e s) t \<Longrightarrow> unowned_kept P N s t"
proof -
  assume Q: "quiet_tok (heap_stable s P) (fd_added fd e s) t"
  have "fs_frame s (fd_added fd e s)" by (cases s) (simp add: fs_frame_def fd_added_def)
  then have "unowned_kept P N s (fd_added fd e s)" by (simp add: unowned_kept_def)
  also have "unowned_kept P N (fd_added fd e s) t" by (rule unowned_kept_tok) (use Q in simp)
  finally show ?thesis .
qed

definition fs_kept :: "(nat \<rightharpoonup> nat) \<Rightarrow> (nat \<rightharpoonup> node) \<Rightarrow> 'a fs_state_scheme \<Rightarrow> 'a fs_state_scheme \<Rightarrow> bool" where
  "fs_kept P N s s' \<longleftrightarrow> (\<exists>P' N'. fs_rel s' P' N' \<and> tree_step N N' \<and> apart_kept P N P' N' \<and> unowned_kept P N s s')"

lemma fs_keptI: "fs_rel s' P' N' \<Longrightarrow> tree_step N N' \<Longrightarrow> apart_kept P N P' N' \<Longrightarrow> unowned_kept P N s s' \<Longrightarrow> fs_kept P N s s'"
  by (auto simp: fs_kept_def)

lemma fs_kept_same: "fs_rel s' P N \<Longrightarrow> unowned_kept P N s s' \<Longrightarrow> fs_kept P N s s'"
  by (rule fs_keptI [OF _ tree_step.unchanged apart_kept_refl])

text \<open>The entry of a directory may move; the objects of no node stay.\<close>

lemma unowned_entry:
  assumes R: "fs_rel s P N" and D: "N d = Some (Dir np nm par fa fs da ds)" and p: "P p \<noteq> None" "p \<notin> owned foot N"
  shows "p \<noteq> d" "p \<noteq> fa" "p \<noteq> da"
proof -
  have "d \<in> owned foot N" using in_owned [where foot = foot and N = N and a = d, OF D] by simp
  then show "p \<noteq> d" using p(2) by blast
  have "p \<noteq> 0" using p(1) fs_zero [OF R] by metis
  then show "p \<noteq> fa" "p \<noteq> da" using p(2) dir_owned [where N = N, OF D] by metis+
qed

lemma make_file_kept:
  fixes s s' :: "'a fs_state_scheme"
  assumes R: "fs_rel s P N" and D: "N d = Some (Dir np dn par fa fs da ds)"
    and t: "text_at s name nm" "text_at s data bs" and n: "file_count (mem s) (W d) < 8000"
    and c: "ramfs_create_file (W d) name data (W (length bs)) s = Some (f, s')"
  shows "fs_kept P N s s'"
proof -
  have l: "4 * Suc (length fs) \<le> 32759" "length bs \<le> 32759"
    using count_less [of "length fs"] array_len [OF dir_node(4) [OF R D]] n text_atD(3) [OF t(2)]
      dir_fields(4) [OF fs_relD(2) [OF R D]] by simp_all
  from R D text_atD [OF t(1)] text_bytes [OF t(2)] text_atD(4) [OF t(2)] l show ?thesis
  proof (rule ramfs_create_file_spec)
    fix g gnp dp y P' u assume g: "ramfs_create_file (W d) name data (W (length bs)) s = Some (W g, u)" "N g = None"
      "fs_rel u P' (N(g \<mapsto> File gnp nm dp bs, d \<mapsto> Dir np dn par y (fs @ [g]) da ds))"
      "quiet (heap_stable s (P(d := None, fa := None))) s u"
      "apart_kept P N P' (N(g \<mapsto> File gnp nm dp bs, d \<mapsto> Dir np dn par y (fs @ [g]) da ds))"
    have "unowned_kept P N s u" by (rule unowned_kept_quiet [OF g(4)]) (simp add: unowned_entry [OF R D])
    with fs_keptI [OF g(3) tree_step.new_file [of N, OF D g(2)] g(5)] g(1) c show ?thesis by simp
  next
    fix u assume g: "ramfs_create_file (W d) name data (W (length bs)) s = Some (0, u)" "fs_rel u P N" "quiet (heap_stable s P) s u"
    then show ?thesis using c fs_kept_same [OF g(2) unowned_kept_quiet [OF g(3)]] by simp
  qed
qed

lemma make_dir_kept:
  fixes s s' :: "'a fs_state_scheme"
  assumes R: "fs_rel s P N" and D: "N d = Some (Dir np dn par fa fs da ds)"
    and t: "text_at s name nm" and n: "subdir_count (mem s) (W d) < 8000" and r: "room 3 s"
    and c: "ramfs_create_dir (W d) name s = Some (e, s')"
  shows "fs_kept P N s s'"
proof -
  have l: "4 * Suc (length ds) \<le> 32759"
    using count_less [of "length ds"] array_len [OF dir_node(5) [OF R D]] n dir_fields(6) [OF fs_relD(2) [OF R D]] by simp
  obtain g gnp y P' u where g: "ramfs_create_dir (W d) name s = Some (W g, u)" "N g = None"
    "fs_rel u P' (N(g \<mapsto> Dir gnp nm d 0 [] 0 [], d \<mapsto> Dir np dn par fa fs y (ds @ [g])))"
    "quiet (heap_stable s (P(d := None, da := None))) s u"
    "apart_kept P N P' (N(g \<mapsto> Dir gnp nm d 0 [] 0 [], d \<mapsto> Dir np dn par fa fs y (ds @ [g])))"
    by (rule ramfs_create_dir_spec [OF R D r text_atD [OF t] l])
  have "unowned_kept P N s u" by (rule unowned_kept_quiet [OF g(4)]) (simp add: unowned_entry [OF R D])
  with fs_keptI [OF g(3) tree_step.new_dir [of N, OF D g(2)] g(5)] g(1) c show ?thesis by simp
qed

lemma remove_file_kept:
  fixes s s' :: "'a fs_state_scheme"
  assumes R: "fs_rel s P N" "tree_ok N" and D: "N d = Some (Dir np dn par fa fs da ds)"
    and t: "text_at s name nm" and n: "file_count (mem s) (W d) < 8000" and c: "ramfs_delete_file (W d) name s = Some s'"
  shows "fs_kept P N s s'"
proof (cases "position_of N nm fs")
  case None
  then have "s' = s" using ramfs_delete_file_none [OF R D text_atD(1) [OF t]] c by simp
  then show ?thesis using fs_kept_same [OF R(1) unowned_kept_tok [OF quiet_tokI]] by simp
next
  case (Some i)
  have l: "4 * length fs \<le> 32759"
    using count_less [of "length fs"] array_len [OF dir_node(4) [OF R(1) D]] n dir_fields(4) [OF fs_relD(2) [OF R(1) D]] by simp
  have i: "i < length fs" using position_of_SomeD [OF Some] by simp
  obtain fnp dp bs y P' u where g: "N (fs ! i) = Some (File fnp nm dp bs)" "ramfs_delete_file (W d) name s = Some u"
    "fs_rel u P' (N(fs ! i := None, d \<mapsto> Dir np dn par y (remove1 (fs ! i) fs) da ds))"
    "quiet (heap_stable s (P(fnp := None, dp := None, fs ! i := None, d := None, fa := None))) s u"
    "apart_kept P N P' (N(fs ! i := None, d \<mapsto> Dir np dn par y (remove1 (fs ! i) fs) da ds))"
    by (rule ramfs_delete_file_spec [OF R D text_atD(1,4) [OF t] Some l])
  have F: "file_node N (fs ! i)" using g(1) by (simp add: file_node_def)
  have "{fs ! i, fnp, dp} \<subseteq> owned foot N" using in_owned [where foot = foot and N = N and a = "fs ! i", OF g(1)] by simp
  then have "unowned_kept P N s u" by (intro unowned_kept_quiet [OF g(4)]) (auto simp: unowned_entry [OF R(1) D])
  with fs_keptI [OF g(3) tree_step.old_file [of N, OF D i F] g(5)] g(2) c show ?thesis by simp
qed

lemma open_file_kept:
  fixes s s' :: "'a fs_state_scheme"
  assumes R: "fs_rel s P N" "tree_ok N" "is_dir N root" and t: "text_at s path ws" "ws \<noteq> []" "ws \<notin> std_names" and r: "room 3 s"
    and c: "ramfs_open (W root) path flags s = Some (fd, s')"
  shows "fs_kept P N s s'"
  using R r text_atD [OF t(1)] t(2,3)
proof (rule ramfs_open_spec [where flags = flags])
  fix u assume g: "ramfs_open (W root) path flags s = Some (- 1, u)" "fs_rel u P N" "quiet_tok (heap_stable s P) s u"
  then show ?thesis using c fs_kept_same [OF g(2) unowned_kept_tok [OF g(3)]] by simp
next
  fix f k e P' u assume g: "N e = None" "ramfs_open (W root) path flags s = Some (of_nat k, u)"
    "fs_rel u P' (N(e \<mapsto> Fd k f 0 flags))" "quiet_tok (heap_stable s P) (fd_added k e s) u"
    "apart_kept P N P' (N(e \<mapsto> Fd k f 0 flags))"
  then show ?thesis using c fs_keptI [OF g(3) tree_step.new_fd g(5) unowned_kept_fd [OF g(4)]] by simp
qed

text \<open>Each command walks to its directory first, with the cursor of \<open>strtok\<close> as only change.\<close>

lemma fs_kept_walk: "unowned_kept P N s t \<Longrightarrow> fs_kept P N t u \<Longrightarrow> fs_kept P N s u"
  unfolding fs_kept_def by (blast intro: unowned_kept_trans)

lemma fs_step_kept:
  fixes s s' :: "'a fs_state_scheme"
  assumes "fs_step root s s'" and R: "fs_rel s P N" "tree_ok N" "is_dir N root"
  shows "fs_kept P N s s'"
  using assms(1)
proof cases
  case (make_file path d s1 ws name nm data bs f)
  obtain e np dn par fa fs da ds where D: "d = W e" "N e = Some (Dir np dn par fa fs da ds)" "fs_rel s1 P N"
    "quiet_tok (heap_stable s P) s s1" by (rule find_dir_step [OF R make_file(3,6,1,2)])
  have t: "text_at s1 name nm" "text_at s1 data bs" using text_at_quiet D(4) make_file(4,5) by blast+
  show ?thesis
    by (rule fs_kept_walk [OF unowned_kept_tok [OF D(4)] make_file_kept [OF D(3,2) t make_file(7,8) [unfolded D(1)]]])
next
  case (make_dir path d s1 ws name nm f)
  have rm: "room 1 s" by (rule room_mono [OF make_dir(5)]) simp
  obtain e np dn par fa fs da ds where D: "d = W e" "N e = Some (Dir np dn par fa fs da ds)" "fs_rel s1 P N"
    "quiet_tok (heap_stable s P) s s1" "spends 1 s s1" by (rule find_dir_step [OF R make_dir(3) rm make_dir(1,2)])
  have r3: "room 3 s1" by (rule room_spends [OF D(5) make_dir(5)]) simp
  show ?thesis
    by (rule fs_kept_walk [OF unowned_kept_tok [OF D(4)]
      make_dir_kept [OF D(3,2) text_at_quiet [OF make_dir(4) D(4)] make_dir(6) [unfolded D(1)] r3 make_dir(7) [unfolded D(1)]]])
next
  case (remove_file path d s1 ws name nm)
  obtain e np dn par fa fs da ds where D: "d = W e" "N e = Some (Dir np dn par fa fs da ds)" "fs_rel s1 P N"
    "quiet_tok (heap_stable s P) s s1" by (rule find_dir_step [OF R remove_file(3,5,1,2)])
  show ?thesis
    by (rule fs_kept_walk [OF unowned_kept_tok [OF D(4)]
      remove_file_kept [OF D(3) R(2) D(2) text_at_quiet [OF remove_file(4) D(4)] remove_file(6,7) [unfolded D(1)]]])
next
  case (open_file path ws flags fd)
  then show ?thesis using open_file_kept [OF R] by blast
qed

text \<open>So the commands implement the steps of the tree, and keep its well-formedness.\<close>

definition holds_tree :: "nat \<Rightarrow> 'a fs_state_scheme \<Rightarrow> (nat \<rightharpoonup> node) \<Rightarrow> bool" where
  "holds_tree root s N \<longleftrightarrow> (\<exists>P. fs_rel s P N) \<and> tree_ok N \<and> is_dir N root"

lemma fs_ok_tree: "fs_ok root s \<longleftrightarrow> (\<exists>N. holds_tree root s N)"
  by (auto simp: fs_ok_def holds_tree_def)

interpretation files: simulation "fs_step root" tree_step "holds_tree root" for root
proof
  show "\<exists>N'. holds_tree root t N' \<and> tree_step N N'" if st: "fs_step root s t" and h: "holds_tree root s N" for s t :: "'a fs_state_scheme" and N
  proof -
    obtain P where R: "fs_rel s P N" "tree_ok N" "is_dir N root" using h by (auto simp: holds_tree_def)
    then show ?thesis
      using fs_step_kept [OF st R] tree_step_ok [OF _ R(2,3)] unfolding fs_kept_def holds_tree_def by blast
  qed
qed

end
