(* ===== verification/Elf.thy ===== *)
theory Elf
  imports Ramfs
begin

section \<open>Elf: the ELF loader (elf/elf.c, elf/elf.h)\<close>

text \<open>
  The header and the program headers are read where the file's data lies in memory. The
  loader makes two passes over the program headers: the first computes the lowest
  virtual address and the size to allocate, the second copies and zeroes the segments.
\<close>

definition rd16 :: "memory \<Rightarrow> u32 \<Rightarrow> u16" where
  "rd16 m a = ucast (m a) OR push_bit 8 (ucast (m (a + 1)))"

text \<open>\<open>Elf32_Ehdr\<close>\<close>

record Elf32_Ehdr =
  e_ident :: "u8 list"
  e_type :: u16
  e_machine :: u16
  e_version :: u32
  e_entry :: u32
  e_phoff :: u32
  e_shoff :: u32
  e_flags :: u32
  e_ehsize :: u16
  e_phentsize :: u16
  e_phnum :: u16
  e_shentsize :: u16
  e_shnum :: u16
  e_shstrndx :: u16

definition rd_ehdr :: "memory \<Rightarrow> u32 \<Rightarrow> Elf32_Ehdr" where
  "rd_ehdr m a = \<lparr>e_ident = rd_bytes m a 16, e_type = rd16 m (a + 16), e_machine = rd16 m (a + 18),
     e_version = rd32 m (a + 20), e_entry = rd32 m (a + 24), e_phoff = rd32 m (a + 28), e_shoff = rd32 m (a + 32),
     e_flags = rd32 m (a + 36), e_ehsize = rd16 m (a + 40), e_phentsize = rd16 m (a + 42), e_phnum = rd16 m (a + 44),
     e_shentsize = rd16 m (a + 46), e_shnum = rd16 m (a + 48), e_shstrndx = rd16 m (a + 50)\<rparr>"

text \<open>\<open>Elf32_Phdr\<close>, 32 bytes\<close>

record Elf32_Phdr =
  p_type :: u32
  p_offset :: u32
  p_vaddr :: u32
  p_paddr :: u32
  p_filesz :: u32
  p_memsz :: u32
  p_flags :: u32
  p_align :: u32

definition rd_phdr :: "memory \<Rightarrow> u32 \<Rightarrow> Elf32_Phdr" where
  "rd_phdr m a = \<lparr>p_type = rd32 m a, p_offset = rd32 m (a + 4), p_vaddr = rd32 m (a + 8), p_paddr = rd32 m (a + 12),
     p_filesz = rd32 m (a + 16), p_memsz = rd32 m (a + 20), p_flags = rd32 m (a + 24), p_align = rd32 m (a + 28)\<rparr>"

abbreviation (input) "ELFCLASS32 \<equiv> 1 :: u8"
abbreviation (input) "E_LITTLE_ENDIAN \<equiv> 1 :: u8"
abbreviation (input) "E_TYPE_EXEC \<equiv> 2 :: u16"
abbreviation (input) "E_MACHINE_NONE \<equiv> 0 :: u16"
abbreviation (input) "E_MACHINE_386 \<equiv> 3 :: u16"
abbreviation (input) "PROGRAM_TYPE_LOAD \<equiv> 1 :: u32"
abbreviation (input) "ELF_ERROR \<equiv> 1 :: u32"
abbreviation (input) "NOT_ELF_FILE \<equiv> 2 :: u32"
abbreviation (input) "ELF_UNREADABLE \<equiv> 3 :: u32"

definition is_readable :: "u32 \<Rightarrow> memory \<Rightarrow> u32" where
  "is_readable f m =
     (let h = rd_ehdr m (file_data m f)
      in if e_ident h ! 0 \<noteq> 0x7F \<or> e_ident h ! 1 \<noteq> of_char CHR ''E'' \<or> e_ident h ! 2 \<noteq> of_char CHR ''L'' \<or>
            e_ident h ! 3 \<noteq> of_char CHR ''F'' then NOT_ELF_FILE
         else if e_ident h ! 4 \<noteq> ELFCLASS32 then ELF_UNREADABLE
         else if e_ident h ! 5 \<noteq> E_LITTLE_ENDIAN then ELF_UNREADABLE
         else if e_type h \<noteq> E_TYPE_EXEC then ELF_UNREADABLE
         else if e_machine h \<noteq> E_MACHINE_386 \<and> e_machine h \<noteq> E_MACHINE_NONE then ELF_UNREADABLE
         else 0)"

text \<open>The segments both loops skip.\<close>

definition skipped :: "Elf32_Phdr \<Rightarrow> bool" where
  "skipped h \<longleftrightarrow> p_type h \<noteq> PROGRAM_TYPE_LOAD \<and> p_memsz h > 0"

text \<open>One round of the first loop, on the size and the lowest address so far.\<close>

definition span_round :: "Elf32_Phdr \<Rightarrow> u32 \<times> u32 \<Rightarrow> u32 \<times> u32" where
  "span_round h = (\<lambda>(sz, min_vaddr).
     if skipped h then (sz, min_vaddr)
     else
       let (sz, min_vaddr) = (if p_vaddr h < min_vaddr
             then (if sz > 0 then sz + (min_vaddr - p_vaddr h) else p_memsz h, p_vaddr h)
             else (sz, min_vaddr))
       in if p_vaddr h + p_memsz h > min_vaddr + sz
          then (p_vaddr h + p_memsz h - min_vaddr, min_vaddr) else (sz, min_vaddr))"

definition phdrs :: "memory \<Rightarrow> u32 \<Rightarrow> Elf32_Phdr list" where
  "phdrs m f = (let e = rd_ehdr m (file_data m f)
     in map (\<lambda>i. rd_phdr m (file_data m f + e_phoff e + 32 * of_nat i)) [0..<unat (e_phnum e)])"

definition elf_span :: "Elf32_Phdr list \<Rightarrow> u32 \<times> u32" where
  "elf_span hs = fold span_round hs (0, - 1)"

text \<open>
  The second loop. The headers are read from the memory it is writing, and every segment
  is copied to the start of \<open>textSpace\<close>.
\<close>

definition load_segment :: "u32 \<Rightarrow> u32 \<Rightarrow> Elf32_Phdr \<Rightarrow> memory \<Rightarrow> memory" where
  "load_segment text_space f h m =
     (if skipped h then m
      else
        let m = memcpy m text_space (Mem (file_data m f + p_offset h)) (p_filesz h)
        in memset m (text_space + p_filesz h) 0 (p_memsz h - p_filesz h))"

partial_function (option) load_loop :: "u32 \<Rightarrow> u32 \<Rightarrow> u32 \<Rightarrow> u32 \<Rightarrow> nat \<Rightarrow> memory \<Rightarrow> memory option" where
  "load_loop text_space f data pheaders i m =
     (if i < unat (e_phnum (rd_ehdr m data))
      then load_loop text_space f data pheaders (Suc i)
        (load_segment text_space f (rd_phdr m (pheaders + 32 * of_nat i)) m)
      else Some m)"

definition init_elf :: "u32 \<Rightarrow> 'a fs_state_scheme \<Rightarrow> (u32 \<times> 'a fs_state_scheme) option" where
  "init_elf f s =
     (if is_readable f (mem s) \<noteq> 0 then Some (ELF_ERROR, s)
      else do {
        let data = file_data (mem s) f;
        let pheaders = data + e_phoff (rd_ehdr (mem s) data);
        let (sz, min_vaddr) = elf_span (phdrs (mem s) f);
        (text_space, s) \<leftarrow> allocate sz s;
        if text_space = 0 then Some (ELF_ERROR, s)
        else do {
          m \<leftarrow> load_loop text_space f data pheaders 0 (mem s);
          (stack_space, s) \<leftarrow> allocate 1000 (s\<lparr>mem := m\<rparr>);
          if stack_space = 0 then do { (_, s) \<leftarrow> free text_space s; Some (ELF_ERROR, s) }
          else init_process (text_space + e_entry (rd_ehdr (mem s) data) - min_vaddr) stack_space s } })"

end
