(* ===== verification/RamfsExec.thy ===== *)
theory RamfsExec
  imports Elf
begin

section \<open>RamfsExec: the file system's commands (fs/ramfs_executables.c)\<close>

text \<open>
  The functions behind the shell's commands. \<open>say\<close> is a sequence of calls of
  \<open>terminal_writestring\<close>; a newline in a literal is written \<open>nl\<close>.
\<close>

abbreviation (input) "nl \<equiv> [CHR 0x0A]"

fun say :: "cptr list \<Rightarrow> 'a term_state_scheme \<Rightarrow> 'a term_state_scheme option" where
  "say [] s = Some s"
| "say (p # ps) s = do { s \<leftarrow> terminal_writestring p s; say ps s }"

text \<open>The two loops of \<open>ramfs_pwd\<close> from a directory up to the root.\<close>

partial_function (option) pwd_length :: "memory \<Rightarrow> u32 \<Rightarrow> u32 \<Rightarrow> u32 option" where
  "pwd_length m temp len =
     (if temp \<noteq> 0 then do {
        n \<leftarrow> strlen m (Mem (dir_name m temp));
        pwd_length m (dir_parent m temp) (len + (n + 1)) }
      else Some len)"

partial_function (option) pwd_fill :: "u32 \<Rightarrow> u32 \<Rightarrow> memory \<Rightarrow> memory option" where
  "pwd_fill temp ptr m =
     (if temp \<noteq> 0 then do {
        name_len \<leftarrow> strlen m (Mem (dir_name m temp));
        let ptr = ptr - name_len;
        let m = memcpy m ptr (Mem (dir_name m temp)) name_len;
        let (ptr, m) = (if dir_parent m temp \<noteq> 0 then (ptr - 1, m(ptr - 1 := 0x2F)) else (ptr, m));
        pwd_fill (dir_parent m temp) ptr m }
      else Some m)"

definition ramfs_pwd :: "u32 \<Rightarrow> 'a fs_state_scheme \<Rightarrow> 'a fs_state_scheme option" where
  "ramfs_pwd dir s =
     (if dir = 0 then Some s else do {
        len \<leftarrow> pwd_length (mem s) dir 0;
        (path, s) \<leftarrow> allocate (len + 1) s;
        if path = 0 then Some s else do {
          m \<leftarrow> pwd_fill dir (path + len) ((mem s)(path + len := 0));
          s \<leftarrow> say [lit ''The current directory is: {'', Mem path, lit (''}'' @ nl)] (s\<lparr>mem := m\<rparr>);
          (_, s) \<leftarrow> free path s;
          Some s } })"

definition ramfs_mkdir :: "u32 \<Rightarrow> cptr \<Rightarrow> 'a fs_state_scheme \<Rightarrow> 'a fs_state_scheme option" where
  "ramfs_mkdir dir dirname s =
     (if dir = 0 \<or> dirname = Mem 0 then Some s else do {
        found \<leftarrow> find_named (mem s) (dir_subdirs (mem s) dir) dirname 0 (unat (subdir_count (mem s) dir));
        if found \<noteq> None then say [lit ''Directory already exists: '', dirname, lit nl] s
        else do {
          (newdir, s) \<leftarrow> ramfs_create_dir dir dirname s;
          if newdir \<noteq> 0 then say [lit ''Created directory: '', dirname, lit nl] s
          else say [lit ''Failed to create directory: '', dirname, lit nl] s } })"

definition ramfs_rm :: "u32 \<Rightarrow> cptr \<Rightarrow> 'a fs_state_scheme \<Rightarrow> 'a fs_state_scheme option" where
  "ramfs_rm dir filename s =
     (if dir = 0 \<or> filename = Mem 0 then Some s else do {
        found \<leftarrow> find_named (mem s) (dir_files (mem s) dir) filename 0 (unat (file_count (mem s) dir));
        if found = None then say [lit ''File not found: '', filename, lit nl] s
        else do {
          s \<leftarrow> ramfs_delete_file dir filename s;
          say [lit ''Removed file: '', filename, lit nl] s } })"

text \<open>The two loops of \<open>ramfs_ls\<close> over \<open>n\<close> entries from index \<open>i\<close> on.\<close>

fun ls_dirs :: "u32 \<Rightarrow> nat \<Rightarrow> nat \<Rightarrow> 'a fs_state_scheme \<Rightarrow> 'a fs_state_scheme option" where
  "ls_dirs dir i 0 s = Some s"
| "ls_dirs dir i (Suc n) s = do {
     let d = rd32 (mem s) (dir_subdirs (mem s) dir + of_nat i * SIZEOF_PTR);
     s \<leftarrow> say [lit ''[DIR]  '', Mem (dir_name (mem s) d), lit nl] s;
     ls_dirs dir (Suc i) n s }"

fun ls_files :: "u32 \<Rightarrow> nat \<Rightarrow> nat \<Rightarrow> 'a fs_state_scheme \<Rightarrow> 'a fs_state_scheme option" where
  "ls_files dir i 0 s = Some s"
| "ls_files dir i (Suc n) s = do {
     let f = rd32 (mem s) (dir_files (mem s) dir + of_nat i * SIZEOF_PTR);
     s \<leftarrow> say [lit ''[FILE] '', Mem (file_name (mem s) f), lit ''    size:''] s;
     s \<leftarrow> terminal_writestring (lit nl) (terminal_writeint (file_size (mem s) f) s);
     ls_files dir (Suc i) n s }"

definition ramfs_ls :: "u32 \<Rightarrow> 'a fs_state_scheme \<Rightarrow> 'a fs_state_scheme option" where
  "ramfs_ls dir s =
     (if dir = 0 then Some s else do {
        s \<leftarrow> terminal_writestring (lit ''Contents of '') s;
        s \<leftarrow> ramfs_pwd dir s;
        s \<leftarrow> ls_dirs dir 0 (unat (subdir_count (mem s) dir)) s;
        ls_files dir 0 (unat (file_count (mem s) dir)) s })"

partial_function (option) skip_spaces :: "memory \<Rightarrow> cptr \<Rightarrow> cptr option" where
  "skip_spaces m p = (if ld m p = 0x20 then skip_spaces m (padd p 1) else Some p)"

definition ramfs_cat :: "u32 \<Rightarrow> cptr \<Rightarrow> 'a fs_state_scheme \<Rightarrow> 'a fs_state_scheme option" where
  "ramfs_cat dir filename s =
     (if dir = 0 \<or> filename = Mem 0 then Some s else do {
        filename \<leftarrow> skip_spaces (mem s) filename;
        found \<leftarrow> find_named (mem s) (dir_files (mem s) dir) filename 0 (unat (file_count (mem s) dir));
        let f = (case found of None \<Rightarrow> 0 | Some i \<Rightarrow> rd32 (mem s) (dir_files (mem s) dir + of_nat i * SIZEOF_PTR));
        if f \<noteq> 0 then say [Mem (file_data (mem s) f), lit nl] s
        else say [lit ''File not found: '', filename, lit nl] s })"

definition ramfs_touch :: "u32 \<Rightarrow> cptr \<Rightarrow> 'a fs_state_scheme \<Rightarrow> 'a fs_state_scheme option" where
  "ramfs_touch dir filename s =
     (if dir = 0 \<or> filename = Mem 0 then Some s else do {
        filename \<leftarrow> skip_spaces (mem s) filename;
        n \<leftarrow> strlen (mem s) filename;
        if n = 0 then terminal_writestring (lit (''Usage: touch <filename>'' @ nl)) s
        else do {
          found \<leftarrow> find_named (mem s) (dir_files (mem s) dir) filename 0 (unat (file_count (mem s) dir));
          if found \<noteq> None then terminal_writestring (lit (''File already exists'' @ nl)) s
          else do {
            (f, s) \<leftarrow> ramfs_create_file dir filename (lit []) 1 s;
            if f \<noteq> 0 then say [lit ''Created file: '', filename, lit nl] s
            else terminal_writestring (lit (''Failed to create file'' @ nl)) s } } })"

definition ramfs_cd :: "u32 \<Rightarrow> cptr \<Rightarrow> 'a fs_state_scheme \<Rightarrow> (u32 \<times> 'a fs_state_scheme) option" where
  "ramfs_cd root path s = ramfs_find_dir root path s"

definition ramfs_run :: "u32 \<Rightarrow> cptr \<Rightarrow> 'a fs_state_scheme \<Rightarrow> 'a fs_state_scheme option" where
  "ramfs_run dir filename s =
     (if dir = 0 \<or> filename = Mem 0 then Some s else do {
        filename \<leftarrow> skip_spaces (mem s) filename;
        found \<leftarrow> find_named (mem s) (dir_files (mem s) dir) filename 0 (unat (file_count (mem s) dir));
        let f = (case found of None \<Rightarrow> 0 | Some i \<Rightarrow> rd32 (mem s) (dir_files (mem s) dir + of_nat i * SIZEOF_PTR));
        if f \<noteq> 0 then do { (_, s) \<leftarrow> init_elf f s; Some s }
        else say [lit ''File not found: '', filename, lit nl] s })"

end
