(* ===== verification/HeapDebug.thy ===== *)
theory HeapDebug
  imports HeapSpec
begin

section \<open>HeapDebug: the debugging printers (memory/heap.c)\<close>

text \<open>
  \<open>addr_to_string\<close> writes a number in hexadecimal into a buffer; \<open>print_free_counts\<close> prints
  the lengths of the free lists. A local buffer that is written through a pointer is at an
  address of the stack, \<open>loc\<close>; a two-character local string is given by its bytes.
\<close>

text \<open>The loop that counts the digits.\<close>

fun hex_digits_count :: "nat \<Rightarrow> nat" where
  "hex_digits_count temp = (if temp = 0 then 0 else Suc (hex_digits_count (temp div 16)))"

declare hex_digits_count.simps [simp del]

definition hex_digit :: "nat \<Rightarrow> u8" where
  "hex_digit d = bytes_of ''0123456789ABCDEF'' ! d"

text \<open>The loop that writes the digits from the last position down.\<close>

fun hex_write :: "u32 \<Rightarrow> nat \<Rightarrow> nat \<Rightarrow> memory \<Rightarrow> memory" where
  "hex_write buffer pos addr m = (if addr = 0 then m
     else hex_write buffer (pos - 1) (addr div 16) (m(buffer + of_nat pos := hex_digit (addr mod 16))))"

declare hex_write.simps [simp del]

definition addr_to_string :: "u32 \<Rightarrow> u32 \<Rightarrow> memory \<Rightarrow> memory" where
  "addr_to_string buffer addr m =
     (let m = m(buffer := of_char CHR ''0'', buffer + 1 := of_char CHR ''x'')
      in if addr = 0 then m(buffer + 2 := of_char CHR ''0'', buffer + 3 := 0)
         else
           let digits = hex_digits_count (unat addr);
               digits = (if digits = 1 then digits + 1 else digits);
               m = m(buffer + of_nat (digits + 2) := 0)
           in hex_write buffer (digits + 1) (unat addr) m)"

partial_function (option) count_list :: "memory \<Rightarrow> u32 \<Rightarrow> u32 \<Rightarrow> u32 option" where
  "count_list m node count =
     (if hnext m node \<noteq> node then count_list m (hnext m node) (count + 1) else Some count)"

definition print_free_count :: "nat \<Rightarrow> 'a heap_state_scheme \<Rightarrow> 'a heap_state_scheme option" where
  "print_free_count i s = do {
     count \<leftarrow> count_list (mem s) (free_list_entry (free_list s) (of_nat i)) 0;
     let c = Lit [ucast count + 48] 0;
     let c2 = Lit [if i \<ge> 10 then of_nat i + 65 - 10 else of_nat i + 48] 0;
     s \<leftarrow> terminal_writestring c s;
     s \<leftarrow> terminal_writestring (lit '' free blocks of scale '') s;
     s \<leftarrow> terminal_writestring c2 s;
     terminal_writestring (lit [CHR 0x0A]) s }"

fun print_free_loop :: "nat list \<Rightarrow> 'a heap_state_scheme \<Rightarrow> 'a heap_state_scheme option" where
  "print_free_loop [] s = Some s"
| "print_free_loop (i # is) s = do { s \<leftarrow> print_free_count i s; print_free_loop is s }"

definition print_free_counts :: "u32 \<Rightarrow> 'a heap_state_scheme \<Rightarrow> 'a heap_state_scheme option" where
  "print_free_counts loc s = do {
     s \<leftarrow> terminal_writestring (lit (''free_block counts:'' @ [CHR 0x0A])) s;
     s \<leftarrow> print_free_loop [4..<16] s;
     let s = s\<lparr>mem := addr_to_string loc (current_brk s) (mem s)\<rparr>;
     s \<leftarrow> terminal_writestring (lit ''brk at '') s;
     s \<leftarrow> terminal_writestring (Mem loc) s;
     terminal_writestring (lit [CHR 0x0A]) s }"

end
