(* ===== verification/Keyboard.thy ===== *)
theory Keyboard
  imports RamfsExec HeapDebug
begin

section \<open>Keyboard: the kernel's state and its keyboard handler (kernel/kernel.c, kernel.h, boot.h)\<close>

text \<open>
  The state of the whole kernel, the port accesses, the shell's commands and the keyboard
  interrupt handler that feeds them. The device behind a port is an arbitrary function from
  the number of accesses so far to the byte it returns; all accesses are recorded.
\<close>

subsection \<open>State\<close>

text \<open>\<open>KEY_state\<close>: one-bit fields.\<close>

record KEY_state =
  caps :: "1 word"
  alt :: "1 word"
  ctrl :: "1 word"
  shift :: "1 word"

record IDT_entry =
  offset_lowerbits :: u16
  selector :: u16
  zero :: u8
  type_attr :: u8
  offset_upperbits :: u16

record IDT_pointer =
  limit :: u16
  base :: u32

datatype io_event = In u16 u8 | Out u16 u8

text \<open>\<open>cmd_buffer\<close> is the buffer's address; \<open>IDTR\<close> and \<open>IF\<close> are the processor's table register and interrupt flag.\<close>

record kernel_state = fs_state +
  special_key_state :: KEY_state
  cmd_buffer :: u32
  cmd_pos :: u32
  current_dir :: u32
  system_root :: u32
  IDT :: "IDT_entry list"
  IDTR :: IDT_pointer
  IF :: bool
  io_trace :: "io_event list"
  io_input :: "nat \<Rightarrow> u16 \<Rightarrow> u8"

definition ioport_out :: "u16 \<Rightarrow> u8 \<Rightarrow> 'a kernel_state_scheme \<Rightarrow> 'a kernel_state_scheme" where
  "ioport_out port data s = s\<lparr>io_trace := io_trace s @ [Out port data]\<rparr>"

definition ioport_in :: "u16 \<Rightarrow> 'a kernel_state_scheme \<Rightarrow> u8 \<times> 'a kernel_state_scheme" where
  "ioport_in port s =
     (let b = io_input s (length (io_trace s)) port in (b, s\<lparr>io_trace := io_trace s @ [In port b]\<rparr>))"

abbreviation (input) "PIC1_COMMAND_PORT \<equiv> 0x20 :: u16"
abbreviation (input) "PIC1_DATA_PORT \<equiv> 0x21 :: u16"
abbreviation (input) "PIC2_COMMAND_PORT \<equiv> 0xA0 :: u16"
abbreviation (input) "PIC2_DATA_PORT \<equiv> 0xA1 :: u16"
abbreviation (input) "KEYBOARD_DATA_PORT \<equiv> 0x60 :: u16"
abbreviation (input) "KEYBOARD_STATUS_PORT \<equiv> 0x64 :: u16"
abbreviation (input) "CMD_MAX_LEN \<equiv> 64 :: u32"

subsection \<open>Key maps\<close>

definition keyboard_map :: "u8 list" where
  "keyboard_map = bytes_of (''  12345678'' @ ''90-=  qwer'' @ ''tyuiop[]'' @ nl @ '' '' @ ''asdfghjkl;'' @
     '' `  zxcvbn'' @ ''m,./ *    '' @ ''          '' @ '' 789-456 1'' @ ''230.      '' @
     ''          '' @ ''          '' @ ''          '' @ ''        '')"

definition keyboard_map_shift :: "u8 list" where
  "keyboard_map_shift = bytes_of (''  !@#$%^&*'' @ ''()_+  QWER'' @ ''TYUIOP{}'' @ nl @ '' '' @ ''ASDFGHJKL:'' @
     '' ~  ZXCVBN'' @ ''M<>? *    '' @ ''          '' @ '' 789-456 1'' @ ''230.      '' @
     ''          '' @ ''          '' @ ''          '' @ ''        '')"

subsection \<open>Commands\<close>

text \<open>The loop that splits the command at its first space; the null pointer is 0.\<close>

partial_function (option) split_at_space :: "u32 \<Rightarrow> memory \<Rightarrow> (u32 \<times> memory) option" where
  "split_at_space p m =
     (if m p = 0 then Some (0, m)
      else if m p = 0x20 then Some (p + 1, m(p := 0))
      else split_at_space (p + 1) m)"

text \<open>\<open>strcmp(cmd_name, "...") == 0\<close> on the rest of the chain of comparisons.\<close>

definition if_cmd :: "u32 \<Rightarrow> string \<Rightarrow> ('a kernel_state_scheme \<Rightarrow> 'a kernel_state_scheme option) \<Rightarrow>
    ('a kernel_state_scheme \<Rightarrow> 'a kernel_state_scheme option) \<Rightarrow> 'a kernel_state_scheme \<Rightarrow> 'a kernel_state_scheme option" where
  "if_cmd cmd_name word yes no s = do {
     r \<leftarrow> strcmp (mem s) (Mem cmd_name) (lit word);
     if r = 0 then yes s else no s }"

definition with_args :: "u32 \<Rightarrow> string \<Rightarrow> ('a kernel_state_scheme \<Rightarrow> 'a kernel_state_scheme option) \<Rightarrow>
    'a kernel_state_scheme \<Rightarrow> 'a kernel_state_scheme option" where
  "with_args args usage run s = (if args = 0 then terminal_writestring (lit (usage @ nl)) s else run s)"

definition change_dir :: "u32 \<Rightarrow> 'a kernel_state_scheme \<Rightarrow> 'a kernel_state_scheme option" where
  "change_dir args s = do {
     (result_dir, s) \<leftarrow> ramfs_cd (system_root s) (Mem args) s;
     if result_dir \<noteq> 0 then Some (s\<lparr>current_dir := result_dir\<rparr>)
     else terminal_writestring (lit (''Failed to find directory'' @ nl)) s }"

definition help_text :: "cptr list" where
  "help_text = map (\<lambda>l. lit (l @ nl)) [''Available commands:'', ''  clear        Clear the screen'',
     ''  ls          List directory contents'', ''  pwd         Print working directory'',
     ''  cat <file>  Display file contents'', ''  touch <file> Create empty file'',
     ''  mkdir <dir> Create directory'', ''  rm <file>   Remove file'', ''  help        Show this help message'']"

definition run_command :: "string \<Rightarrow> u32 \<Rightarrow> u32 \<Rightarrow> 'a kernel_state_scheme \<Rightarrow> 'a kernel_state_scheme option" where
  "run_command cd_usage cmd_name args =
     if_cmd cmd_name ''clear'' (\<lambda>s. Some (terminal_clear s))
    (if_cmd cmd_name ''ls'' (\<lambda>s. ramfs_ls (current_dir s) s)
    (if_cmd cmd_name ''pwd'' (\<lambda>s. ramfs_pwd (current_dir s) s)
    (if_cmd cmd_name ''cat'' (with_args args ''Usage: cat <filename>'' (\<lambda>s. ramfs_cat (current_dir s) (Mem args) s))
    (if_cmd cmd_name ''touch'' (with_args args ''Usage: touch <filename>'' (\<lambda>s. ramfs_touch (current_dir s) (Mem args) s))
    (if_cmd cmd_name ''mkdir'' (with_args args ''Usage: mkdir <dirname>'' (\<lambda>s. ramfs_mkdir (current_dir s) (Mem args) s))
    (if_cmd cmd_name ''rm'' (with_args args ''Usage: rm <filename>'' (\<lambda>s. ramfs_rm (current_dir s) (Mem args) s))
    (if_cmd cmd_name ''help'' (say help_text)
    (if_cmd cmd_name ''cd'' (with_args args cd_usage (change_dir args))
    (if_cmd cmd_name ''run'' (with_args args ''Usage: rm <filename>'' (\<lambda>s. ramfs_run (current_dir s) (Mem args) s))
    (\<lambda>s. if mem s cmd_name \<noteq> 0 then say [lit ''Unknown command: '', Mem cmd_name, lit nl] s else Some s))))))))))"

definition handle_command :: "u32 \<Rightarrow> 'a kernel_state_scheme \<Rightarrow> 'a kernel_state_scheme option" where
  "handle_command cmd s = do {
     (args, m) \<leftarrow> split_at_space cmd (mem s);
     run_command ''Usage: rm <filename>'' cmd args (s\<lparr>mem := m\<rparr>) }"

definition void_command :: "u32 \<Rightarrow> 'a kernel_state_scheme \<Rightarrow> 'a kernel_state_scheme option" where
  "void_command cmd s = do {
     (args, m) \<leftarrow> split_at_space cmd (mem s);
     run_command ''Usage: cd <filename>'' cmd args (s\<lparr>mem := m\<rparr>) }"

text \<open>
  The loop of \<open>parse_command\<close>: position, current token, the two flags, the tokens so far
  and the memory. (The code stores the tokens in an array of sixteen without a check.)
\<close>

partial_function (option) parse_loop ::
  "u32 \<Rightarrow> u32 \<Rightarrow> bool \<Rightarrow> bool \<Rightarrow> u32 list \<Rightarrow> memory \<Rightarrow> (u32 \<times> bool \<times> u32 list \<times> memory) option" where
  "parse_loop p token in_quotes was_space argv m =
     (if m p = 0 then Some (token, was_space, argv, m)
      else if m p = 0x22
      then let in_quotes = (\<not> in_quotes)
           in parse_loop (p + 1) (p + 1) in_quotes was_space
                (if \<not> in_quotes \<and> token \<noteq> p then argv @ [token] else argv) (m(p := 0))
      else if m p = 0x20 \<and> \<not> in_quotes
      then parse_loop (p + 1) (p + 1) in_quotes True (if \<not> was_space then argv @ [token] else argv) (m(p := 0))
      else parse_loop (p + 1) (if was_space then p else token) in_quotes False argv m)"

definition parse_command :: "u32 \<Rightarrow> memory \<Rightarrow> (u32 list \<times> memory) option" where
  "parse_command cmd m = do {
     (token, was_space, argv, m) \<leftarrow> parse_loop cmd cmd False True [] m;
     n \<leftarrow> strlen m (Mem cmd);
     Some (if \<not> was_space \<and> token \<noteq> cmd + n then argv @ [token] else argv, m) }"

definition short_help_text :: "cptr list" where
  "short_help_text = map (\<lambda>l. lit (l @ nl)) [''Available commands:'', ''  clear - Clear the screen'',
     ''  ls - List directory contents'', ''  pwd - Print working directory'',
     ''  cat <file> - Display file contents'', ''  touch <file> - Create empty file'',
     ''  mkdir <dir> - Create directory'', ''  rm <file> - Remove file'']"

definition execute_command :: "u32 \<Rightarrow> 'a kernel_state_scheme \<Rightarrow> 'a kernel_state_scheme option" where
  "execute_command cmd s = do {
     (argv, m) \<leftarrow> parse_command cmd (mem s);
     let s = s\<lparr>mem := m\<rparr>;
     if argv = [] then Some s
     else
       let arg = (if length argv < 2 then 0 else argv ! 1); cmd_name = argv ! 0
       in (if_cmd cmd_name ''clear'' (\<lambda>s. Some (terminal_clear s))
          (if_cmd cmd_name ''ls'' (\<lambda>s. ramfs_ls (current_dir s) s)
          (if_cmd cmd_name ''pwd'' (\<lambda>s. ramfs_pwd (current_dir s) s)
          (if_cmd cmd_name ''cat'' (with_args arg ''Usage: cat <filename>'' (\<lambda>s. ramfs_cat (current_dir s) (Mem arg) s))
          (if_cmd cmd_name ''touch'' (with_args arg ''Usage: touch <filename>'' (\<lambda>s. ramfs_touch (current_dir s) (Mem arg) s))
          (if_cmd cmd_name ''mkdir'' (with_args arg ''Usage: mkdir <dirname>'' (\<lambda>s. ramfs_mkdir (current_dir s) (Mem arg) s))
          (if_cmd cmd_name ''rm'' (with_args arg ''Usage: rm <filename>'' (\<lambda>s. ramfs_rm (current_dir s) (Mem arg) s))
          (if_cmd cmd_name ''help'' (say short_help_text)
          (say [lit ''Unknown command: '', Mem cmd_name, lit (nl @ ''Type 'help' for available commands'' @ nl)]))))))))) s }"

subsection \<open>The keyboard interrupt\<close>

definition key_bit :: "u8 \<Rightarrow> 1 word" where
  "key_bit keycode = 1 - ucast (drop_bit 7 keycode)"

text \<open>Enter: the command is terminated and run.\<close>

definition key_enter :: "'a kernel_state_scheme \<Rightarrow> 'a kernel_state_scheme option" where
  "key_enter s = do {
     let s = s\<lparr>mem := (mem s)(cmd_buffer s + cmd_pos s := 0)\<rparr>;
     (_, s) \<leftarrow> ramfs_write STDIN_FILENO (lit nl) 1 s;
     (_, s) \<leftarrow> ramfs_write STDOUT_FILENO (lit nl) 1 s;
     let s = terminal_putchar 0x0A s;
     s \<leftarrow> (if current_dir s \<noteq> 0 \<and> cmd_pos s > 0 then handle_command (cmd_buffer s) s else Some s);
     terminal_writestring (lit ''shompOS> '') (s\<lparr>cmd_pos := 0\<rparr>) }"

definition key_backspace :: "'a kernel_state_scheme \<Rightarrow> 'a kernel_state_scheme" where
  "key_backspace s =
     (if cmd_pos s > 0 then
        let s = s\<lparr>cmd_pos := cmd_pos s - 1\<rparr>
        in if terminal_column s > 9 then
             let s = s\<lparr>terminal_column := terminal_column s - 1\<rparr>;
                 s = terminal_putentryat (of_char CHR '' '') (terminal_color s) (terminal_column s) (terminal_row s) s
             in s\<lparr>terminal_buffer := (terminal_buffer s)(terminal_row s * VGA_WIDTH + terminal_column s :=
                  vga_entry (of_char CHR '' '') (terminal_color s))\<rparr>
           else s
      else s)"

definition key_char :: "u8 \<Rightarrow> KEY_state \<Rightarrow> u8" where
  "key_char keycode k =
     (let c = keyboard_map ! unat keycode
      in if c \<ge> 0x61 \<and> c \<le> 0x7A then if shift k XOR caps k = 1 then c - 32 else c
         else if shift k \<noteq> 0 then keyboard_map_shift ! unat keycode else c)"

text \<open>A character: \<open>c\<close> is a local variable, at the stack address \<open>loc\<close>, whose address is passed on.\<close>

definition key_add :: "u32 \<Rightarrow> u8 \<Rightarrow> 'a kernel_state_scheme \<Rightarrow> 'a kernel_state_scheme option" where
  "key_add loc keycode s =
     (if cmd_pos s < CMD_MAX_LEN - 1 then
        let c = key_char keycode (special_key_state s); s = s\<lparr>mem := (mem s)(loc := c)\<rparr>
        in if c \<ge> 32 \<and> c \<le> 126 then do {
             let s = s\<lparr>mem := (mem s)(cmd_buffer s + cmd_pos s := c), cmd_pos := cmd_pos s + 1\<rparr>;
             (_, s) \<leftarrow> ramfs_write STDIN_FILENO (Mem loc) 1 s;
             (_, s) \<leftarrow> ramfs_write STDOUT_FILENO (Mem loc) 1 s;
             Some s }
           else Some s
      else Some s)"

definition key_event :: "u32 \<Rightarrow> u8 \<Rightarrow> 'a kernel_state_scheme \<Rightarrow> 'a kernel_state_scheme option" where
  "key_event loc keycode s =
     (let k = special_key_state s
      in if keycode \<in> {0x2A, 0xAA, 0x36, 0xB6} then Some (s\<lparr>special_key_state := k\<lparr>shift := key_bit keycode\<rparr>\<rparr>)
         else if keycode \<in> {0x38, 0xB8} then Some (s\<lparr>special_key_state := k\<lparr>alt := key_bit keycode\<rparr>\<rparr>)
         else if keycode \<in> {0x1D, 0x9D} then Some (s\<lparr>special_key_state := k\<lparr>ctrl := key_bit keycode\<rparr>\<rparr>)
         else if keycode = 0x3A then Some (s\<lparr>special_key_state := k\<lparr>caps := 1 - caps k\<rparr>\<rparr>)
         else if keycode > 127 then Some s
         else if keyboard_map ! unat keycode = 0x0A then key_enter s
         else if keycode = 0x0E then Some (key_backspace s)
         else key_add loc keycode s)"

definition handle_keyboard_interrupt :: "u32 \<Rightarrow> 'a kernel_state_scheme \<Rightarrow> 'a kernel_state_scheme option" where
  "handle_keyboard_interrupt loc s =
     (let s = ioport_out PIC1_COMMAND_PORT 0x20 s;
          (status, s) = ioport_in KEYBOARD_STATUS_PORT s
      in if status AND 1 \<noteq> 0 then
           let (keycode, s) = ioport_in KEYBOARD_DATA_PORT s;
               (keycode, s) = (if keycode = 0xE0 then ioport_in KEYBOARD_DATA_PORT s else (keycode, s))
           in key_event loc keycode s
         else Some s)"

subsection \<open>Reading through a descriptor\<close>

definition ramfs_read :: "u32 \<Rightarrow> i32 \<Rightarrow> u32 \<Rightarrow> u32 \<Rightarrow> 'a kernel_state_scheme \<Rightarrow> (i32 \<times> 'a kernel_state_scheme) option" where
  "ramfs_read loc fd buf count s =
     (if fd_invalid fd s then Some (- 1, s)
      else if fd = STDIN_FILENO then do { s \<leftarrow> handle_keyboard_interrupt loc s; Some (- 1, s) }
      else Some (ramfs_read_file fd buf count s))"

text \<open>\<open>init_stdio\<close>: its buffer \<open>read_data\<close> of 80 bytes is on the stack at \<open>buf\<close>.\<close>

definition init_stdio :: "u32 \<Rightarrow> u32 \<Rightarrow> u32 \<Rightarrow> 'a kernel_state_scheme \<Rightarrow> (i32 \<times> 'a kernel_state_scheme) option" where
  "init_stdio loc buf root s = do {
     (stdin_file, s) \<leftarrow> ramfs_create_file root (lit ''stdin'') (lit []) 0 s;
     (stdout_file, s) \<leftarrow> ramfs_create_file root (lit ''stdout'') (lit []) 0 s;
     (stderr_file, s) \<leftarrow> ramfs_create_file root (lit ''stderr'') (lit []) 0 s;
     if stdin_file = 0 \<or> stdout_file = 0 \<or> stderr_file = 0 then Some (- 1, s) else do {
     (_, s) \<leftarrow> ramfs_open root (lit ''stdin'') (O_RDWR OR O_APPEND) s;
     (_, s) \<leftarrow> ramfs_open root (lit ''stdout'') O_WRONLY s;
     (_, s) \<leftarrow> ramfs_open root (lit ''stderr'') O_WRONLY s;
     (_, s) \<leftarrow> ramfs_create_file root (lit ''FD-test'') (lit []) 0 s;
     (test_fd, s) \<leftarrow> ramfs_open root (lit ''FD-test'') (O_RDWR OR O_APPEND) s;
     let data = lit (''Welcome to ShompOS. This message demonstrates read and write capabilities.'' @ nl);
     n \<leftarrow> strlen (mem s) data;
     (_, s) \<leftarrow> ramfs_write test_fd data n s;
     let (_, s) = ramfs_seek test_fd 0 0 s;
     let s = s\<lparr>mem := memset (mem s) buf 0 80\<rparr>;
     (r, s) \<leftarrow> ramfs_read loc test_fd buf 79 s;
     let s = s\<lparr>mem := (mem s)(buf + r := 0)\<rparr>;
     s \<leftarrow> terminal_writestring (Mem buf) s;
     Some (0, s) } }"

end
