(* ===== verification/FsProps.thy ===== *)
theory FsProps
  imports FsInv HeapProps Keyboard
begin

section \<open>FsProps: the properties of the file system\<close>

text \<open>
  The claims about fs/ramfs.c. The witnesses start from the kernel's state before
  \<open>init_heap\<close>, with the root that \<open>ramfs_create_root\<close> makes and files added to it.
\<close>

subsection \<open>Concrete states\<close>

definition boot_kernel :: kernel_state where
  "boot_kernel = \<lparr>mem = (\<lambda>_. 0), terminal_row = 0, terminal_column = 0, terminal_color = 7,
     terminal_buffer = (\<lambda>_. 0), free_list = 0x100000, current_brk = 0,
     proc_table = [], active_pid = - 1, next_pid = - 1,
     regs = \<lparr>eax = 0, ecx = 0, edx = 0, ebx = 0, esp = 0x8000, ebp = 0x9000, esi = 0, edi = 0, eflags = 0x202, eip = 0\<rparr>,
     kill_process_addr = 0, switch_from_queue_addr = 0, fd_table = replicate MAX_FDS 0, fd_count = 0, strtok_last = 0,
     special_key_state = \<lparr>caps = 0, alt = 0, ctrl = 0, shift = 0\<rparr>, cmd_buffer = 0x110000, cmd_pos = 0,
     current_dir = 0, system_root = 0, IDT = [], IDTR = \<lparr>limit = 0, base = 0\<rparr>, IF = False, io_trace = [],
     io_input = (\<lambda>_ _. 0)\<rparr>"

lemma boot_kernel_free_list: "unat (free_list boot_kernel) + 128 \<le> heap_base"
  by (simp add: boot_kernel_def heap_base_def)

text \<open>An initialised heap is an empty file system with room.\<close>

lemma fs_rel_empty: "heap_rel s Map.empty \<Longrightarrow> fs_rel s Map.empty Map.empty"
  by (auto simp: fs_rel_def owns_def heap_objects_def payloads_def fun_eq_iff intro!: exI [of _ Map.empty])

lemma tree_ok_empty: "tree_ok Map.empty"
  by (simp add: tree_ok_def files_def subdirs_def)

lemma boot_fs:
  "\<exists>s. init_heap HEAP_LOWER_BOUND boot_kernel = Some s \<and> fs_rel s Map.empty Map.empty \<and> room 100 s \<and>
     free_list s = 0x100000 \<and> fd_table s = replicate MAX_FDS 0"
proof -
  obtain s where s: "init_heap HEAP_LOWER_BOUND boot_kernel = Some s" "heap_rel s Map.empty"
    "unat (current_brk s) = heap_base + 2 ^ 15"
    "s = boot_kernel\<lparr>mem := mem s, current_brk := W (heap_base + 2 ^ 15)\<rparr>"
    using init_heap_core [OF boot_kernel_free_list] by blast
  have "free_list s = 0x100000" "fd_table s = replicate MAX_FDS 0"
    by (subst s(4), simp add: boot_kernel_def)+
  moreover have "room 100 s" using s(3) by (simp add: room_def heap_base_def)
  ultimately show ?thesis using s(1) fs_rel_empty [OF s(2)] by blast
qed

abbreviation root_node :: "nat \<Rightarrow> node" where
  "root_node np \<equiv> Dir np (bytes_of ''/'') 0 0 [] 0 []"

lemma boot_root:
  "\<exists>(s :: kernel_state) P d np. fs_rel s P [d \<mapsto> root_node np] \<and> room 90 s \<and> free_list s = 0x100000 \<and>
     fd_table s = replicate MAX_FDS 0"
proof -
  obtain s where s: "fs_rel (s :: kernel_state) Map.empty Map.empty" "room 100 s" "free_list s = 0x100000"
    "fd_table s = replicate MAX_FDS 0" using boot_fs by blast
  have r: "room 2 s" by (rule room_mono [OF s(2)]) simp
  obtain d np P' s' where c: "fs_rel s' P' [d \<mapsto> root_node np]" "quiet (heap_stable s Map.empty) s s'" "spends 2 s s'"
    using ramfs_create_root_spec [OF s(1) r] by metis
  have "room 90 s'" by (rule room_spends [OF c(3) s(2)]) simp
  moreover have "free_list s' = 0x100000" using c(2) s(3) by (simp add: quiet_def heap_frame_def)
  moreover have "fd_table s' = replicate MAX_FDS 0" using quiet_tokD(2) [OF quiet_tokI [OF c(2)]] s(4) by simp
  ultimately show ?thesis using c(1) by blast
qed

lemma tree_ok_root: "tree_ok [d \<mapsto> root_node np]" "is_dir [d \<mapsto> root_node np] d"
  by (auto simp: tree_ok_def files_def subdirs_def is_dir_def)

lemma text_at_lit: "0 \<notin> set (bytes_of t) \<Longrightarrow> length t < 32759 \<Longrightarrow> text_at s (lit t) (bytes_of t)"
  unfolding text_at_def using cstr_lit [of t "mem s"] by (simp add: lit_def)

text \<open>A root with one file.\<close>

lemma boot_file:
  "\<exists>(s :: kernel_state) P N d f np fnp dp y. fs_rel s P N \<and> tree_ok N \<and> is_dir N d \<and>
     N = [d \<mapsto> Dir np (bytes_of ''/'') 0 y [f] 0 [], f \<mapsto> File fnp (bytes_of ''a'') dp (bytes_of ''hi'')] \<and> d \<noteq> f \<and>
     room 80 s \<and> free_list s = 0x100000 \<and> fd_table s = replicate MAX_FDS 0"
proof -
  obtain s :: kernel_state and P d np where s: "fs_rel s P [d \<mapsto> root_node np]" "room 90 s" "free_list s = 0x100000"
    "fd_table s = replicate MAX_FDS 0" using boot_root by blast
  let ?N = "[d \<mapsto> root_node np]"
  have D: "?N d = Some (root_node np)" by simp
  have z: "0 \<notin> set (bytes_of ''a'')" "0 \<notin> set (bytes_of ''hi'')" by (simp_all add: bytes_of_def)
  have n: "text_at s (lit ''a'') (bytes_of ''a'')" by (rule text_at_lit [OF z(1)]) simp
  have t: "text_at s (lit ''hi'') (bytes_of ''hi'')" by (rule text_at_lit [OF z(2)]) simp
  have l: "4 * Suc (length ([] :: nat list)) \<le> 32759" "length (bytes_of ''hi'') \<le> 32759" by simp_all
  from s(1) D text_atD [OF n] text_bytes [OF t] text_atD(4) [OF t] l show ?thesis
  proof (rule ramfs_create_file_spec)
    fix f fnp dp y P' s' assume c: "?N f = None"
      "fs_rel s' P' (?N(f \<mapsto> File fnp (bytes_of ''a'') dp (bytes_of ''hi''), d \<mapsto> Dir np (bytes_of ''/'') 0 y ([] @ [f]) 0 []))"
      "quiet (heap_stable s (P(d := None, 0 := None))) s s'" "spends 4 s s'"
    let ?M = "[d \<mapsto> Dir np (bytes_of ''/'') 0 y [f] 0 [], f \<mapsto> File fnp (bytes_of ''a'') dp (bytes_of ''hi'')]"
    have df: "d \<noteq> f" using c(1) by (auto split: if_splits)
    then have M: "?N(f \<mapsto> File fnp (bytes_of ''a'') dp (bytes_of ''hi''), d \<mapsto> Dir np (bytes_of ''/'') 0 y ([] @ [f]) 0 []) = ?M"
      by (auto simp: fun_eq_iff)
    have T: "tree_ok ?M" unfolding M [symmetric] by (rule tree_ok_add_file [OF tree_ok_root(1) D c(1)])
    have dir: "is_dir ?M d" using df by (simp add: is_dir_def)
    have rm: "room 80 s'" by (rule room_spends [OF c(4) s(2)]) simp
    have fl: "free_list s' = 0x100000" using c(3) s(3) by (simp add: quiet_def heap_frame_def)
    have fdt: "fd_table s' = replicate MAX_FDS 0" using quiet_tokD(2) [OF quiet_tokI [OF c(3)]] s(4) by simp
    show ?thesis using c(2) [unfolded M] T dir df rm fl fdt by blast
  next
    fix s' assume "\<not> room 4 s"
    then show ?thesis using room_mono [OF s(2), of 4] by simp
  qed
qed

subsection \<open>Creating\<close>

text \<open>
  C34: \<open>ramfs_create_file\<close> in a directory refines adding a file to it: it returns a new
  structure with the given name and bytes, listed last in the directory, and the tree stays
  well-formed; when the heap has no room for its four objects it returns NULL and the file
  system is as before. No byte outside the directory and its array changes, and no other
  part of the state.
\<close>

theorem create_file_adds:
  fixes s :: "'a fs_state_scheme"
  assumes "fs_rel s P N" "tree_ok N" "N d = Some (Dir np nm par fa fs da ds)"
    and "cstr (mem s) name fnm" "readable (heap_stable s P) name (Suc (length fnm))" "length fnm < 32759" "name \<noteq> Mem 0"
    and "readable (heap_stable s P) data (length bs)" "rd_chars (mem s) data (length bs) = bs" "data \<noteq> Mem 0"
    and "4 * Suc (length fs) \<le> 32759" "length bs \<le> 32759"
  shows "\<exists>r s'. ramfs_create_file (of_nat d) name data (of_nat (length bs)) s = Some (r, s') \<and>
    (if r = 0 then \<not> room 4 s \<and> fs_rel s' P N
     else \<exists>f fnp dp y P'. r = of_nat f \<and> N f = None \<and>
       (let N' = N(f \<mapsto> File fnp fnm dp bs, d \<mapsto> Dir np nm par y (fs @ [f]) da ds) in fs_rel s' P' N' \<and> tree_ok N')) \<and>
    quiet (heap_stable s (P(d := None, fa := None))) s s'"
  using assms(1,3-)
proof (rule ramfs_create_file_spec)
  fix f fnp dp y P' s' assume c: "ramfs_create_file (W d) name data (W (length bs)) s = Some (W f, s')" "N f = None"
    "fs_rel s' P' (N(f \<mapsto> File fnp fnm dp bs, d \<mapsto> Dir np nm par y (fs @ [f]) da ds))"
    "quiet (heap_stable s (P(d := None, fa := None))) s s'"
  let ?N = "N(f \<mapsto> File fnp fnm dp bs, d \<mapsto> Dir np nm par y (fs @ [f]) da ds)"
  have "?N f \<noteq> None" by simp
  then have "W f \<noteq> 0" using ptr_nonzero [OF c(3), of "Some f"] by (simp add: ptr_def)
  moreover have "tree_ok ?N" by (rule tree_ok_add_file [OF assms(2,3) c(2)])
  ultimately show ?thesis using c unfolding Let_def
    by (intro exI [of _ "W f"] exI [of _ s']) (simp only: if_False simp_thms, blast)
next
  fix s' assume c: "ramfs_create_file (W d) name data (W (length bs)) s = Some (0, s')" "fs_rel s' P N"
    "quiet (heap_stable s P) s s'" "\<not> room 4 s"
  have "quiet (heap_stable s (P(d := None, fa := None))) s s'"
    by (rule quiet_subset [OF c(3) heap_stable_mono]) (auto simp: map_le_def)
  with c(1,2,4) show ?thesis by (intro exI [of _ 0] exI [of _ s']) simp
qed

lemma create_file_adds_witness:
  "\<exists>(s :: kernel_state) d r s'. ramfs_create_file d (lit ''a'') (lit ''hi'') (of_nat 2) s = Some (r, s') \<and> r \<noteq> 0"
proof -
  obtain s :: kernel_state and P d np where s: "fs_rel s P [d \<mapsto> root_node np]" "room 90 s" using boot_root by blast
  let ?N = "[d \<mapsto> root_node np]"
  have D: "?N d = Some (root_node np)" by simp
  have z: "0 \<notin> set (bytes_of ''a'')" "0 \<notin> set (bytes_of ''hi'')" by (simp_all add: bytes_of_def)
  have n: "text_at s (lit ''a'') (bytes_of ''a'')" by (rule text_at_lit [OF z(1)]) simp
  have t: "text_at s (lit ''hi'') (bytes_of ''hi'')" by (rule text_at_lit [OF z(2)]) simp
  have "4 * Suc (length ([] :: nat list)) \<le> 32759" "length (bytes_of ''hi'') \<le> 32759" by simp_all
  from create_file_adds [OF s(1) tree_ok_root(1) D text_atD [OF n] text_bytes [OF t] text_atD(4) [OF t] this]
  obtain r s' where "ramfs_create_file (W d) (lit ''a'') (lit ''hi'') (W 2) s = Some (r, s')" "r = 0 \<longrightarrow> \<not> room 4 s"
    by (auto split: if_splits)
  moreover have "room 4 s" by (rule room_mono [OF s(2)]) simp
  ultimately show ?thesis by blast
qed

text \<open>
  \<open>ramfs_create_dir\<close>, when the heap has room for its three objects, returns a new empty
  directory with the given name and parent, listed last among the parent's subdirectories, and
  the tree stays well-formed.
\<close>

lemma create_dir_adds:
  fixes s :: "'a fs_state_scheme"
  assumes "fs_rel s P N" "tree_ok N" "N d = Some (Dir np nm par fa fs da ds)" "room 3 s"
    and "cstr (mem s) name enm" "readable (heap_stable s P) name (Suc (length enm))" "length enm < 32759" "name \<noteq> Mem 0"
    and "4 * Suc (length ds) \<le> 32759"
  shows "\<exists>e enp y P' s'. ramfs_create_dir (of_nat d) name s = Some (of_nat e, s') \<and> N e = None \<and>
    (let N' = N(e \<mapsto> Dir enp enm d 0 [] 0 [], d \<mapsto> Dir np nm par fa fs y (ds @ [e])) in fs_rel s' P' N' \<and> tree_ok N') \<and>
    quiet (heap_stable s (P(d := None, da := None))) s s'"
proof -
  obtain e enp y P' s' where c: "ramfs_create_dir (W d) name s = Some (W e, s')" "N e = None"
    "fs_rel s' P' (N(e \<mapsto> Dir enp enm d 0 [] 0 [], d \<mapsto> Dir np nm par fa fs y (ds @ [e])))"
    "quiet (heap_stable s (P(d := None, da := None))) s s'"
    by (rule ramfs_create_dir_spec [OF assms(1,3-)])
  moreover have "tree_ok (N(e \<mapsto> Dir enp enm d 0 [] 0 [], d \<mapsto> Dir np nm par fa fs y (ds @ [e])))"
    by (rule tree_ok_add_dir [OF assms(2,3) c(2)])
  ultimately show ?thesis unfolding Let_def by blast
qed

lemma create_dir_adds_witness:
  "\<exists>(s :: kernel_state) d e s'. ramfs_create_dir d (lit ''home'') s = Some (e, s') \<and> e \<noteq> 0"
proof -
  obtain s :: kernel_state and P d np where s: "fs_rel s P [d \<mapsto> root_node np]" "room 90 s" using boot_root by blast
  have D: "[d \<mapsto> root_node np] d = Some (root_node np)" by simp
  have z: "0 \<notin> set (bytes_of ''home'')" by (simp add: bytes_of_def)
  have n: "text_at s (lit ''home'') (bytes_of ''home'')" by (rule text_at_lit [OF z]) simp
  have l: "4 * Suc (length ([] :: nat list)) \<le> 32759" by simp
  have r: "room 3 s" by (rule room_mono [OF s(2)]) simp
  from create_dir_adds [OF s(1) tree_ok_root(1) D r text_atD [OF n] l]
  obtain e enp y P' s' where c: "ramfs_create_dir (W d) (lit ''home'') s = Some (W e, s')"
    "fs_rel s' P' ([d \<mapsto> root_node np](e \<mapsto> Dir enp (bytes_of ''home'') d 0 [] 0 [], d \<mapsto> Dir np (bytes_of ''/'') 0 0 [] y ([] @ [e])))"
    unfolding Let_def by blast
  have "W e \<noteq> 0" using ptr_nonzero [OF c(2), of "Some e"] by (simp add: ptr_def)
  with c(1) show ?thesis by blast
qed

subsection \<open>Deleting and finding\<close>

text \<open>
  C35: \<open>ramfs_delete_file\<close> refines removing the first file of the given name: that file leaves
  the directory, the order of the others is kept, its three objects go back to the heap, and
  the tree stays well-formed; without such a file nothing changes at all. It cannot fail,
  with or without room on the heap.
\<close>

theorem delete_file_removes:
  fixes s :: "'a fs_state_scheme"
  assumes "fs_rel s P N" "tree_ok N" "N d = Some (Dir np nm par fa fs da ds)"
    and "cstr (mem s) name fnm" "name \<noteq> Mem 0" "4 * length fs \<le> 32759"
  shows "case position_of N fnm fs of None \<Rightarrow> ramfs_delete_file (of_nat d) name s = Some s
    | Some i \<Rightarrow> \<exists>fnp dp bs y P' s'. N (fs ! i) = Some (File fnp fnm dp bs) \<and>
       ramfs_delete_file (of_nat d) name s = Some s' \<and>
       (let N' = N(fs ! i := None, d \<mapsto> Dir np nm par y (remove1 (fs ! i) fs) da ds) in fs_rel s' P' N' \<and> tree_ok N') \<and>
       quiet (heap_stable s (P(fnp := None, dp := None, fs ! i := None, d := None, fa := None))) s s'"
proof (cases "position_of N fnm fs")
  case None
  then show ?thesis using ramfs_delete_file_none [OF assms(1-4) None] by simp
next
  case (Some i)
  have i: "i < length fs" using position_of_SomeD [OF Some] by simp
  obtain fnp dp bs y P' s' where c: "N (fs ! i) = Some (File fnp fnm dp bs)" "ramfs_delete_file (W d) name s = Some s'"
    "fs_rel s' P' (N(fs ! i := None, d \<mapsto> Dir np nm par y (remove1 (fs ! i) fs) da ds))"
    "quiet (heap_stable s (P(fnp := None, dp := None, fs ! i := None, d := None, fa := None))) s s'"
    by (rule ramfs_delete_file_spec [OF assms(1-5) Some assms(6)])
  with tree_ok_remove_nth [OF assms(2,3) i] show ?thesis unfolding Some option.case Let_def by blast
qed

lemma delete_file_removes_witness:
  "\<exists>(s :: kernel_state) d s' P N. ramfs_delete_file d (lit ''a'') s = Some s' \<and> fs_rel s' P N \<and> tree_ok N"
proof -
  obtain s :: kernel_state and P N d f np fnp dp y where s: "fs_rel s P N" "tree_ok N" "d \<noteq> f"
    "N = [d \<mapsto> Dir np (bytes_of ''/'') 0 y [f] 0 [], f \<mapsto> File fnp (bytes_of ''a'') dp (bytes_of ''hi'')]"
    using boot_file by metis
  have D: "N d = Some (Dir np (bytes_of ''/'') 0 y [f] 0 [])" using s(3,4) by simp
  have "0 \<notin> set (bytes_of ''a'')" by (simp add: bytes_of_def)
  then have n: "text_at s (lit ''a'') (bytes_of ''a'')" by (rule text_at_lit) simp
  have l: "4 * length [f] \<le> 32759" by simp
  have p: "position_of N (bytes_of ''a'') [f] = Some 0" using s(4) by (simp add: position_of_def called_def)
  from delete_file_removes [OF s(1,2) D text_atD(1,4) [OF n] l] show ?thesis
    unfolding p option.case Let_def by blast
qed

text \<open>
  C36: \<open>ramfs_find_dir\<close> walks a path from a directory: its result is the directory reached by
  following the components (the maximal runs of characters other than the slash) from
  subdirectory to subdirectory, or NULL when a component names none. The walk ends, the file
  system is as before and the copy of the path is given back.
\<close>

theorem find_dir_walks:
  fixes s :: "'a fs_state_scheme"
  assumes "fs_rel s P N" "tree_ok N" "is_dir N d" "room 1 s"
    and "cstr (mem s) path bs" "readable (heap_stable s P) path (Suc (length bs))" "length bs < 32759" "path \<noteq> Mem 0"
  shows "\<exists>s'. ramfs_find_dir (of_nat d) path s = Some (ptr (walk N d (path_comps bs)), s') \<and>
    fs_rel s' P N \<and> quiet_tok (heap_stable s P) s s'"
  using ramfs_find_dir_spec [OF assms] by metis

lemma find_dir_walks_witness:
  "\<exists>(s :: kernel_state) d s'. ramfs_find_dir d (lit ''/home/doc'') s = Some (0, s')"
proof -
  obtain s :: kernel_state and P d np where s: "fs_rel s P [d \<mapsto> root_node np]" "room 90 s" using boot_root by blast
  have r: "room 1 s" by (rule room_mono [OF s(2)]) simp
  have "0 \<notin> set (bytes_of ''/home/doc'')" by (simp add: bytes_of_def)
  then have p: "text_at s (lit ''/home/doc'') (bytes_of ''/home/doc'')" by (rule text_at_lit) simp
  have c: "path_comps (bytes_of ''/home/doc'') = [bytes_of ''home'', bytes_of ''doc'']"
    by (simp add: bytes_of_def path_comps.simps)
  have w: "walk [d \<mapsto> root_node np] d [bytes_of ''home'', bytes_of ''doc''] = None"
    by (simp add: position_of_def)
  from find_dir_walks [OF s(1) tree_ok_root r text_atD [OF p]] show ?thesis unfolding c w ptr_def option.case by blast
qed

subsection \<open>Descriptors\<close>

text \<open>
  C37: \<open>ramfs_open\<close> of a path that is none of the three special names looks for the file called
  by what follows the first slash, in the directory before that slash. When there is one and a
  free table slot, the lowest free slot is returned and holds a new entry for the file at
  position 0 with the flags given; otherwise the result is -1, the table is as before and so
  is the file system.
\<close>

theorem open_enters_file:
  fixes s :: "'a fs_state_scheme"
  assumes "fs_rel s P N" "tree_ok N" "is_dir N root" "room 3 s"
    and "cstr (mem s) path bs" "readable (heap_stable s P) path (Suc (length bs))" "length bs < 32759" "path \<noteq> Mem 0"
    and "bs \<noteq> []" "bs \<notin> std_names"
  shows "case (open_lookup N root bs, free_slot s) of
      (Some f, Some fd) \<Rightarrow> \<exists>e P' s'. ramfs_open (of_nat root) path flags s = Some (of_nat fd, s') \<and> N e = None \<and>
        fs_rel s' P' (N(e \<mapsto> Fd fd f 0 flags)) \<and> fd_table s' = (fd_table s)[fd := of_nat e]
    | _ \<Rightarrow> \<exists>s'. ramfs_open (of_nat root) path flags s = Some (- 1, s') \<and> fs_rel s' P N \<and> fd_table s' = fd_table s"
  using assms
proof (rule ramfs_open_spec [where flags = flags])
  fix s' assume c: "ramfs_open (W root) path flags s = Some (- 1, s')" "open_lookup N root bs = None \<or> free_slot s = None"
    "fs_rel s' P N" "quiet_tok (heap_stable s P) s s'"
  with quiet_tokD(2) [OF c(4)] show ?thesis by (auto split: option.splits)
next
  fix f fd e P' s' assume c: "open_lookup N root bs = Some f" "free_slot s = Some fd" "N e = None"
    "ramfs_open (W root) path flags s = Some (of_nat fd, s')" "fs_rel s' P' (N(e \<mapsto> Fd fd f 0 flags))"
    "quiet_tok (heap_stable s P) (fd_added fd e s) s'"
  have "fd_table s' = (fd_table s)[fd := W e]" using quiet_tokD(2) [OF c(6)] by (simp add: fd_added_def)
  with c show ?thesis by auto
qed

text \<open>The file of the root above is found by its name.\<close>

lemma arg_a: "text_at s (lit ''a'') (bytes_of ''a'')" "bytes_of ''a'' \<noteq> []" "bytes_of ''a'' \<notin> std_names"
proof -
  show "text_at s (lit ''a'') (bytes_of ''a'')" by (rule text_at_lit) (simp_all add: bytes_of_def)
qed (simp_all add: bytes_of_def std_names_def)

lemma boot_lookup:
  "\<exists>(s :: kernel_state) P N d f fnp dp. fs_rel s P N \<and> tree_ok N \<and> is_dir N d \<and>
     N f = Some (File fnp (bytes_of ''a'') dp (bytes_of ''hi'')) \<and> room 80 s \<and> free_list s = 0x100000 \<and>
     fd_table s = replicate MAX_FDS 0 \<and> open_lookup N d (bytes_of ''a'') = Some f \<and> free_slot s = Some 0"
proof -
  obtain s :: kernel_state and P N d f np fnp dp y where s: "fs_rel s P N" "tree_ok N" "is_dir N d" "d \<noteq> f"
    "N = [d \<mapsto> Dir np (bytes_of ''/'') 0 y [f] 0 [], f \<mapsto> File fnp (bytes_of ''a'') dp (bytes_of ''hi'')]"
    "room 80 s" "free_list s = 0x100000" "fd_table s = replicate MAX_FDS 0"
    using boot_file by metis
  have N: "N d = Some (Dir np (bytes_of ''/'') 0 y [f] 0 [])" "N f = Some (File fnp (bytes_of ''a'') dp (bytes_of ''hi''))"
    using s(4,5) by simp_all
  have "open_dir N d (bytes_of ''a'') = Some d" "open_name (bytes_of ''a'') = bytes_of ''a''"
    by (simp_all add: open_dir_def open_name_def bytes_of_def)
  moreover have "position_of N (bytes_of ''a'') [f] = Some 0" using N(2) by (simp add: position_of_def called_def)
  ultimately have "open_lookup N d (bytes_of ''a'') = Some f" using N(1) by (simp add: open_lookup_def file_in_def)
  moreover have "free_slot s = Some 0" by (simp add: free_slot_def s(8) upt_conv_Cons)
  ultimately show ?thesis using s(1-3,6-8) N(2) by blast
qed

text \<open>A root with one file, which is open as descriptor 0.\<close>

lemma boot_open:
  "\<exists>(s :: kernel_state) P N f e fnp dp. fs_rel s P N \<and> room 70 s \<and> free_list s = 0x100000 \<and> fd_is s 0 e \<and>
     N e = Some (Fd 0 f 0 flags) \<and> N f = Some (File fnp (bytes_of ''a'') dp (bytes_of ''hi''))"
proof -
  obtain s :: kernel_state and P N d f fnp dp where s: "fs_rel s P N" "tree_ok N" "is_dir N d"
    "N f = Some (File fnp (bytes_of ''a'') dp (bytes_of ''hi''))" "room 80 s" "free_list s = 0x100000"
    "fd_table s = replicate MAX_FDS 0" "open_lookup N d (bytes_of ''a'') = Some f" "free_slot s = Some 0"
    using boot_lookup by metis
  note n = arg_a(1) [of s] and b = arg_a(2,3)
  have r: "room 3 s" by (rule room_mono [OF s(5)]) simp
  from s(1-3) r text_atD [OF n] b show ?thesis
  proof (rule ramfs_open_spec [where flags = flags])
    fix g k e P' t assume c: "open_lookup N d (bytes_of ''a'') = Some g" "free_slot s = Some k" "N e = None"
      "fs_rel t P' (N(e \<mapsto> Fd k g 0 flags))" "quiet_tok (heap_stable s P) (fd_added k e s) t" "spends 3 s t"
    have gk: "g = f" "k = 0" using c(1,2) s(8,9) by simp_all
    have ef: "e \<noteq> f" using c(3) s(4) by auto
    let ?M = "N(e \<mapsto> Fd 0 f 0 flags)"
    have tab: "fd_table t = (replicate 64 0)[0 := W e]"
      using quiet_tokD(2) [OF c(5)] s(7) gk by (simp add: fd_added_def)
    have e: "?M e = Some (Fd 0 f 0 flags)" "?M f = Some (File fnp (bytes_of ''a'') dp (bytes_of ''hi''))" using s(4) ef by simp_all
    have R: "fs_rel t P' ?M" using c(4) gk by simp
    have "W e \<noteq> 0" using ptr_nonzero [OF R, of "Some e"] by (simp add: ptr_def)
    then have v: "fd_is t 0 e" by (simp add: fd_is_def fd_invalid_def tab)
    have fl: "free_list t = 0x100000"
      using c(5) s(6) by (cases s; cases t) (simp add: quiet_tok_def quiet_def heap_frame_def fd_added_def)
    have "room 70 t" by (rule room_spends [OF c(6) s(5)]) simp
    with R fl v e show ?thesis by blast
  qed (use s(8,9) in auto)
qed

lemma open_enters_file_witness:
  "\<exists>(s :: kernel_state) root s'. ramfs_open root (lit ''a'') 3 s = Some (0, s')"
proof -
  obtain s :: kernel_state and P N d f fnp dp where s: "fs_rel s P N" "tree_ok N" "is_dir N d"
    "N f = Some (File fnp (bytes_of ''a'') dp (bytes_of ''hi''))" "room 80 s" "free_list s = 0x100000"
    "fd_table s = replicate MAX_FDS 0" "open_lookup N d (bytes_of ''a'') = Some f" "free_slot s = Some 0"
    using boot_lookup by metis
  note n = arg_a(1) [of s] and b = arg_a(2,3)
  have r: "room 3 s" by (rule room_mono [OF s(5)]) simp
  from open_enters_file [OF s(1-3) r text_atD [OF n] b, where flags = 3] show ?thesis
    unfolding s(8,9) prod.case option.case by auto
qed

end
