(* ===== verification/FileIO.thy ===== *)
theory FileIO
  imports FsProps
begin

section \<open>FileIO: the properties of descriptors in use\<close>

text \<open>
  Writing, seeking, reading and closing through a descriptor, and what the boot does with
  them in \<open>init_stdio\<close>.
\<close>

subsection \<open>A descriptor after an operation\<close>

lemma quiet_fd_table: "quiet A s s' \<Longrightarrow> fd_table s' = fd_table (s :: 'a fs_state_scheme)"
  by (rule quiet_tokD(2) [OF quiet_tokI])

lemma quiet_fd_is: "quiet A s s' \<Longrightarrow> fd_is s' fd e = fd_is (s :: 'a fs_state_scheme) fd e"
  by (simp add: fd_is_def fd_invalid_def quiet_fd_table)

lemma sint_W: "n < 2 ^ 31 \<Longrightarrow> sint (W n :: i32) = int n"
  by (simp add: sint_of_nat_u32 signed_take_bit_int_eq_self)

subsection \<open>Round trip\<close>

text \<open>
  C33: What \<open>ramfs_write\<close> wrote comes back: writing bytes through a descriptor, moving the
  position back to where the write began (the end of the file for an appending descriptor)
  with \<open>ramfs_seek\<close>, and reading as many bytes with \<open>ramfs_read\<close> into a buffer outside the heap
  succeeds at each call and leaves the bytes in the buffer, whether or not the file had to grow.
\<close>

theorem write_read_back:
  fixes s :: "'a kernel_state_scheme"
  assumes "fs_rel s P N" "fd_is s fd e" "fd \<notin> {STDIN_FILENO, STDOUT_FILENO, STDERR_FILENO}"
    and "N e = Some (Fd n f pos fl)" "N f = Some (File fnp fnm dp bs)" "fl AND 3 \<noteq> 0"
    and "p = write_pos fl pos bs" "p + length dat \<le> 32759" "length bs \<le> 32759" "room 1 s"
    and "readable (low_bytes s) data (length dat)" "rd_chars (mem s) data (length dat) = dat"
    and "{b..<b + length dat} \<subseteq> low_bytes s" "b < heap_base"
  shows "\<exists>s1 s2 s3. ramfs_write fd data (of_nat (length dat)) s = Some (of_nat (length dat), s1) \<and>
    ramfs_seek fd (of_nat p) 0 s1 = (of_nat p, s2) \<and>
    ramfs_read loc fd (of_nat b) (of_nat (length dat)) s2 = Some (of_nat (length dat), s3) \<and>
    rd_bytes (mem s3) (of_nat b) (length dat) = dat"
proof -
  note A = assms
  have io: "fd \<noteq> STDIN_FILENO" "fd \<noteq> STDOUT_FILENO" "fd \<noteq> STDERR_FILENO" using A(3) by simp_all
  have ef: "e \<noteq> f" using A(4,5) by auto
  obtain y junk P1 s1 where w: "ramfs_write fd data (W (length dat)) s = Some (W (length dat), s1)"
    "fs_rel s1 P1 (N(f \<mapsto> File fnp fnm y (take p (bs @ junk) @ dat @ drop (p + length dat) (bs @ junk)),
       e \<mapsto> Fd n f (p + length dat) fl))"
    "length bs + length junk = max (length bs) (p + length dat)"
    "quiet (heap_stable s (P(e := None, f := None, dp := None))) s s1"
    by (rule ramfs_write_spec [OF A(1,2) io(2,3) A(4-10) readable_mono [OF A(11) low_stable] A(12)])
  let ?bs = "take p (bs @ junk) @ dat @ drop (p + length dat) (bs @ junk)"
  let ?N1 = "N(f \<mapsto> File fnp fnm y ?bs, e \<mapsto> Fd n f (p + length dat) fl)"
  have p32: "unat (W p :: i32) = p" "0 \<le> sint (W p :: i32)" using A(8) unat_of_nat_u32 [of p] by (simp_all add: sint_W)
  have V1: "fd_is s1 fd e" using A(2) by (simp add: quiet_fd_is [OF w(4)])
  have "?N1 e = Some (Fd n f (p + length dat) fl)" by simp
  from ramfs_seek_spec [OF w(2) V1 this p32(2)] obtain s2 where k: "ramfs_seek fd (W p) 0 s1 = (W p, s2)"
    "fs_rel s2 P1 (?N1(e \<mapsto> Fd n f p fl))" "quiet (heap_stable s1 (P1(e := None))) s1 s2"
    unfolding p32(1) by blast
  let ?N2 = "?N1(e \<mapsto> Fd n f p fl)"
  have V2: "fd_is s2 fd e" using V1 by (simp add: quiet_fd_is [OF k(3)])
  have E2: "?N2 e = Some (Fd n f p fl)" and F2: "?N2 f = Some (File fnp fnm y ?bs)" using ef by simp_all
  have len: "p + length dat \<le> length (bs @ junk)" using w(3) by simp
  then have "length (take p (bs @ junk)) = p" by simp
  then have pos: "p \<le> length ?bs" and rd: "take (length dat) (drop p ?bs) = dat" and "length dat \<le> length ?bs - p" by simp_all
  moreover have "unat (W (length dat) :: u32) = length dat" using A(8) by (intro unat_of_nat_u32) simp
  ultimately have kk: "length dat = min (unat (W (length dat) :: u32)) (length ?bs - p)"
    by (simp only: min_absorb1)
  have L: "low_bytes s2 = low_bytes s" using quiet_low [OF w(4)] quiet_low [OF k(3)] by simp
  have B: "{b..<b + length dat} \<subseteq> heap_stable s2 P1" "{b..<b + length dat} \<inter> extent P1 (owned foot ?N2) = {}"
    using A(13) low_stable [of s2 P1] low_apart [OF k(2)] unfolding L by blast+
  have b32: "b + length dat \<le> 2 ^ 32"
  proof (cases "length dat")
    case (Suc k)
    then have "b + k \<in> low_bytes s" using A(13) by auto
    then show ?thesis using Suc by (simp add: low_bytes_def heap_base_def)
  qed (use A(14) in \<open>simp add: heap_base_def\<close>)
  obtain s3 where r: "ramfs_read_file fd (W b) (W (length dat)) s2 = (W (length dat), s3)"
    "rd_bytes (mem s3) (W b) (length dat) = take (length dat) (drop p ?bs)"
    by (rule ramfs_read_spec [OF k(2) V2 E2 F2 A(6) pos kk B b32])
  have "ramfs_read loc fd (W b) (W (length dat)) s2 = Some (W (length dat), s3)"
    using V2 io(1) r(1) by (simp add: ramfs_read_def fd_is_def)
  with w(1) k(1) r(2) rd show ?thesis by metis
qed

text \<open>The file opened above, as descriptor 3.\<close>

lemma boot_open3:
  "\<exists>(s :: kernel_state) P N f e fnp dp. fs_rel s P N \<and> room 70 s \<and> free_list s = 0x100000 \<and> fd_is s 3 e \<and>
     N e = Some (Fd 0 f 0 3) \<and> N f = Some (File fnp (bytes_of ''a'') dp (bytes_of ''hi''))"
proof -
  obtain s :: kernel_state and P N f e fnp dp where s: "fs_rel s P N" "room 70 s" "free_list s = 0x100000" "fd_is s 0 e"
    "N e = Some (Fd 0 f 0 3)" "N f = Some (File fnp (bytes_of ''a'') dp (bytes_of ''hi''))" using boot_open [of 3] by metis
  have e: "W e \<noteq> 0" using ptr_nonzero [OF s(1), of "Some e"] s(5) by (simp add: ptr_def)
  let ?s = "s\<lparr>fd_table := replicate 64 (W e)\<rparr>"
  have "fs_rel ?s P N" using s(1) by (simp add: fs_rel_def owns_def heap_objects_def heap_rel_def)
  moreover have "fd_is ?s 3 e" using e by (simp add: fd_is_def fd_invalid_def)
  moreover have "room 70 ?s" "free_list ?s = 0x100000" using s(2,3) by (simp_all add: room_def)
  ultimately show ?thesis using s(5,6) by blast
qed

lemma write_read_back_witness:
  "\<exists>(s :: kernel_state) s1 s2 s3. ramfs_write 3 (lit ''ok!'') (of_nat 3) s = Some (of_nat 3, s1) \<and>
     ramfs_seek 3 (of_nat 0) 0 s1 = (of_nat 0, s2) \<and> ramfs_read 0 3 (of_nat 0x1000) (of_nat 3) s2 = Some (of_nat 3, s3) \<and>
     rd_bytes (mem s3) (of_nat 0x1000) 3 = bytes_of ''ok!''"
proof -
  obtain s :: kernel_state and P N f e fnp dp where s: "fs_rel s P N" "room 70 s" "free_list s = 0x100000" "fd_is s 3 e"
    "N e = Some (Fd 0 f 0 3)" "N f = Some (File fnp (bytes_of ''a'') dp (bytes_of ''hi''))" using boot_open3 by metis
  have "0 \<notin> set (bytes_of ''ok!'')" by (simp add: bytes_of_def)
  then have "text_at s (lit ''ok!'') (bytes_of ''ok!'')" by (rule text_at_lit) simp
  note t2 = text_bytes(2) [OF this]
  have t: "readable (low_bytes s) (lit ''ok!'') (length (bytes_of ''ok!''))" by (simp add: lit_def)
  have fd: "(3 :: i32) \<notin> {STDIN_FILENO, STDOUT_FILENO, STDERR_FILENO}" "(3 :: i32) AND 3 \<noteq> 0" by simp_all
  have p: "0 = write_pos 3 0 (bytes_of ''hi'')" by (simp add: write_pos_def)
  have l: "0 + length (bytes_of ''ok!'') \<le> 32759" "length (bytes_of ''hi'') \<le> 32759" by simp_all
  have b: "{0x1000..<0x1000 + length (bytes_of ''ok!'')} \<subseteq> low_bytes s" "0x1000 < heap_base"
    using s(3) by (auto simp: low_bytes_def heap_base_def)
  have r: "room 1 s" by (rule room_mono [OF s(2)]) simp
  have "length (bytes_of ''ok!'') = 3" by simp
  from write_read_back [OF s(1,4) fd(1) s(5,6) fd(2) p l r t t2 b, of 0, unfolded this] show ?thesis by blast
qed

subsection \<open>Reading\<close>

text \<open>
  C39: \<open>ramfs_read\<close> with the position inside the file never reads past its end: it returns the
  smaller of the count and the bytes left, copies exactly those into the buffer, moves the
  position by as much, and leaves every other byte outside the descriptor and the files alone.
\<close>

theorem read_stops_at_end:
  fixes s :: "'a kernel_state_scheme"
  assumes "fs_rel s P N" "fd_is s fd e" "fd \<noteq> STDIN_FILENO" "N e = Some (Fd n f pos fl)"
    and "N f = Some (File fnp fnm dp bs)" "fl AND 3 \<noteq> 0" "pos \<le> length bs"
    and "{b..<b + unat count} \<subseteq> low_bytes s" "b + unat count \<le> 2 ^ 32"
  shows "let k = min (unat count) (length bs - pos) in
    \<exists>s'. ramfs_read loc fd (of_nat b) count s = Some (of_nat k, s') \<and> rd_bytes (mem s') (of_nat b) k = take k (drop pos bs) \<and>
      fs_rel s' P (N(e \<mapsto> Fd n f (pos + k) fl)) \<and> same_on (low_bytes s - {b..<b + k}) (mem s) (mem s')"
proof -
  note A = assms
  define k where "k = min (unat count) (length bs - pos)"
  have sub: "{b..<b + k} \<subseteq> {b..<b + unat count}" "b + k \<le> 2 ^ 32" using A(9) by (auto simp: k_def)
  have B: "{b..<b + k} \<subseteq> heap_stable s P" "{b..<b + k} \<inter> extent P (owned foot N) = {}"
    using sub(1) A(8) low_stable [of s P] low_apart [OF A(1)] by blast+
  obtain s' where r: "ramfs_read_file fd (W b) count s = (W k, s')" "rd_bytes (mem s') (W b) k = take k (drop pos bs)"
    "fs_rel s' P (N(e \<mapsto> Fd n f (pos + k) fl))" "quiet (heap_stable s (P(e := None)) - {b..<b + k}) s s'"
    by (rule ramfs_read_spec [OF A(1,2,4-7) k_def B sub(2)])
  have "low_bytes s - {b..<b + k} \<subseteq> heap_stable s (P(e := None)) - {b..<b + k}"
    by (rule Diff_mono [OF low_stable order_refl])
  with r(4) have "same_on (low_bytes s - {b..<b + k}) (mem s) (mem s')"
    unfolding quiet_def by (blast intro: same_on_subset)
  moreover have "ramfs_read loc fd (W b) count s = Some (W k, s')"
    using A(2,3) r(1) by (simp add: ramfs_read_def fd_is_def)
  ultimately show ?thesis using r(2,3) unfolding Let_def k_def [symmetric] by blast
qed

lemma read_stops_at_end_witness:
  "\<exists>(s :: kernel_state) s'. ramfs_read 0 3 (of_nat 0x1000) 79 s = Some (of_nat 2, s') \<and>
     rd_bytes (mem s') (of_nat 0x1000) 2 = bytes_of ''hi''"
proof -
  obtain s :: kernel_state and P N f e fnp dp where s: "fs_rel s P N" "free_list s = 0x100000" "fd_is s 3 e"
    "N e = Some (Fd 0 f 0 3)" "N f = Some (File fnp (bytes_of ''a'') dp (bytes_of ''hi''))" using boot_open3 by metis
  have c: "(3 :: i32) \<noteq> STDIN_FILENO" "(3 :: i32) AND 3 \<noteq> 0" "0 \<le> length (bytes_of ''hi'')" by simp_all
  have b: "{0x1000..<0x1000 + unat (79 :: u32)} \<subseteq> low_bytes s" "0x1000 + unat (79 :: u32) \<le> 2 ^ 32"
    using s(2) by (auto simp: low_bytes_def heap_base_def)
  have "min (unat (79 :: u32)) (length (bytes_of ''hi'') - 0) = 2" "take 2 (drop 0 (bytes_of ''hi'')) = bytes_of ''hi''" by simp_all
  from read_stops_at_end [OF s(1,3) c(1) s(4,5) c(2,3) b, of 0, unfolded this Let_def] this(2) show ?thesis by metis
qed

subsection \<open>Closing\<close>

text \<open>
  C40: \<open>ramfs_close\<close> does not give the descriptor's entry back: it calls \<open>free\<close> with the address of
  its local variable. When the variable is in memory below the heap and the word read as the
  link of its would-be block header does not point to itself, \<open>free\<close> refuses; the slot of the
  table is cleared, but the entry stays a live block of the heap which nothing refers to.
\<close>

theorem close_leaks_entry:
  fixes s :: "'a fs_state_scheme"
  assumes "fs_rel s P N" "fd_is s fd e" "N e = Some (Fd n f pos fl)"
    and "{loc..<loc + 4} \<subseteq> low_bytes s" "0 < loc" "loc + 4 \<le> 2 ^ 32"
    and "hnext (wr32 (mem s) (of_nat loc) (of_nat e)) (of_nat loc - 9) \<noteq> of_nat loc - 9"
  shows "\<exists>s'. ramfs_close (of_nat loc) fd s = Some (0, s') \<and> fd_table s' = (fd_table s)[unat fd := 0] \<and>
    fs_rel s' P N \<and> obj P e 16"
proof -
  obtain s' where "ramfs_close (W loc) fd s = Some (0, s')" "fs_rel s' P N" "fd_table s' = (fd_table s)[unat fd := 0]"
    by (rule ramfs_close_leaks [OF assms(1,2,4-7)])
  with fd_node(1) [OF assms(1,3)] show ?thesis by blast
qed

lemma close_leaks_entry_witness:
  "\<exists>(s :: kernel_state) s' P N e. fd_is s 3 e \<and> ramfs_close (of_nat 0x1000) 3 s = Some (0, s') \<and>
     fs_rel s' P N \<and> obj P e 16"
proof -
  obtain s :: kernel_state and P N f e fnp dp where s: "fs_rel s P N" "free_list s = 0x100000" "fd_is s 3 e"
    "N e = Some (Fd 0 f 0 3)" using boot_open3 by metis
  let ?m = "wr32 (mem s) (W 0xFF7) 0"
  let ?s = "s\<lparr>mem := ?m\<rparr>"
  have l: "{0xFF7..<0xFF7 + 4} \<subseteq> low_bytes s" "{0x1000..<0x1000 + 4} \<subseteq> low_bytes ?s"
    using s(2) by (auto simp: low_bytes_def heap_base_def)
  have "same_on (- {0xFF7..<0xFF7 + 4}) (mem s) ?m" by (rule same_on_wr32) simp_all
  then have R: "fs_rel ?s P N"
    by (rule fs_put_outside [OF s(1)]) (use l(1) low_stable low_apart [OF s(1)] in blast)+
  have V: "fd_is ?s 3 e" using s(3) by (auto simp: fd_is_def fd_invalid_def)
  have h: "hnext (wr32 (mem ?s) (W 0x1000) (W e)) (W 0xFF7) = 0"
    unfolding hnext_def by (subst rd32_wr32_disj) (simp_all add: disj_def rd32_wr32_same del: of_nat_numeral)
  have "hnext (wr32 (mem ?s) (W 0x1000) (W e)) (W 0x1000 - 9) \<noteq> W 0x1000 - 9" using h by simp
  from close_leaks_entry [OF R V s(4) l(2) _ _ this] V show ?thesis by force
qed

subsection \<open>Commands\<close>

text \<open>
  C32: From the initialised heap and a fresh root, every sequence of commands (creating and
  deleting files, creating directories, opening files, each in the directory that a path
  leads to) is a run of the abstract tree, in which a file or directory is added at the end of a
  directory's entries, a file is taken out of them, or a file descriptor is added, and leaves
  the memory a well-formed file system: the structures are disjoint live heap objects with
  terminated names, arrays of the right length and bytes of the right number, every directory
  lists distinct existing files and subdirectories with parent pointers back, and the root is a
  directory.
\<close>

theorem file_system_well_formed:
  assumes "unat (free_list s0) + 128 \<le> heap_base" "init_heap HEAP_LOWER_BOUND s0 = Some s1"
    and "ramfs_create_root s1 = Some (of_nat root, s2)" "root < 2 ^ 32" "(fs_step root)\<^sup>*\<^sup>* s2 (s :: 'a fs_state_scheme)"
  shows "\<exists>np P N. fs_rel s P N \<and> tree_ok N \<and> is_dir N root \<and> tree_step\<^sup>*\<^sup>* [root \<mapsto> root_node np] N"
proof -
  obtain t where t: "init_heap HEAP_LOWER_BOUND s0 = Some t" "heap_rel t Map.empty"
    "unat (current_brk t) = heap_base + 2 ^ 15" using init_heap_core [OF assms(1)] by blast
  have R: "fs_rel s1 Map.empty Map.empty" using t(1,2) assms(2) fs_rel_empty by simp
  have rm: "room 2 s1" using t(1,3) assms(2) by (simp add: room_def heap_base_def)
  obtain r np P u where r: "ramfs_create_root s1 = Some (W r, u)" "fs_rel u P [r \<mapsto> root_node np]"
    by (rule ramfs_create_root_spec [OF R rm]) auto
  have "r < 2 ^ 32" using dir_node(1) [OF r(2) fun_upd_same] by (auto simp: obj_def)
  then have "r = root" using r(1) assms(3,4) of_nat_u32_eq by simp
  then have "holds_tree root s2 [root \<mapsto> root_node np]" using r assms(3) tree_ok_root unfolding holds_tree_def by auto
  from files.runs [OF assms(5) this] show ?thesis unfolding holds_tree_def by blast
qed

text \<open>Here the first command is \<open>mkdir\<close> in the root.\<close>

lemma file_system_well_formed_witness:
  "\<exists>s1 root s2 s3 d s. init_heap HEAP_LOWER_BOUND boot_kernel = Some s1 \<and> ramfs_create_root s1 = Some (of_nat root, s2) \<and>
     ramfs_find_dir (of_nat root) (lit ''/'') s2 = Some (of_nat root, s3) \<and>
     ramfs_create_dir (of_nat root) (lit ''home'') s3 = Some (d, s) \<and>
     (\<exists>P N. fs_rel s P N \<and> tree_ok N \<and> is_dir N root)"
proof -
  obtain s1 where s1: "init_heap HEAP_LOWER_BOUND boot_kernel = Some s1" "fs_rel s1 Map.empty Map.empty" "room 100 s1"
    using boot_fs by blast
  have r2: "room 2 s1" by (rule room_mono [OF s1(3)]) simp
  obtain d np P s2 where c: "ramfs_create_root s1 = Some (W d, s2)" "fs_rel s2 P [d \<mapsto> root_node np]" "spends 2 s1 s2"
    by (rule ramfs_create_root_spec [OF s1(2) r2]) auto
  let ?N = "[d \<mapsto> root_node np]"
  have D: "?N d = Some (root_node np)" by simp
  have z: "0 \<notin> set (bytes_of ''/'')" "0 \<notin> set (bytes_of ''home'')" by (simp_all add: bytes_of_def)
  have p: "text_at s (lit ''/'') (bytes_of ''/'')" for s :: kernel_state by (rule text_at_lit [OF z(1)]) simp
  have n: "text_at s (lit ''home'') (bytes_of ''home'')" for s :: kernel_state by (rule text_at_lit [OF z(2)]) simp
  have rm: "room 1 s2" "room 4 s2" by (rule room_spends [OF c(3) s1(3)], simp)+
  obtain s3 where f: "ramfs_find_dir (W d) (lit ''/'') s2 = Some (ptr (walk ?N d (path_comps (bytes_of ''/''))), s3)"
    "fs_rel s3 P ?N" "spends 1 s2 s3"
    by (rule ramfs_find_dir_spec [OF c(2) tree_ok_root rm(1) text_atD [OF p]])
  have "path_comps (bytes_of ''/'') = []" by (simp add: bytes_of_def path_comps.simps)
  then have f1: "ramfs_find_dir (W d) (lit ''/'') s2 = Some (W d, s3)" using f(1) by (simp add: ptr_def)
  have r3: "room 3 s3" by (rule room_spends [OF f(3) rm(2)]) simp
  have l: "4 * Suc (length ([] :: nat list)) \<le> 32759" by simp
  obtain e enp y P' s where m: "ramfs_create_dir (W d) (lit ''home'') s3 = Some (W e, s)"
    by (rule ramfs_create_dir_spec [OF f(2) D r3 text_atD [OF n] l])
  have "W d \<noteq> 0" using ptr_nonzero [OF c(2), of "Some d"] by (simp add: ptr_def)
  moreover have "subdir_count (mem s3) (W d) < 8000" using dir_fields(6) [OF fs_relD(2) [OF f(2) D]] by simp
  ultimately have "fs_step d s2 s" using fs_step.make_dir [OF f1 _ p n rm(2) _ m] by blast
  then have "(fs_step d)\<^sup>*\<^sup>* s2 s" by (rule r_into_rtranclp)
  moreover have "d < 2 ^ 32" using dir_node(1) [OF c(2) D] by (auto simp: obj_def)
  ultimately have "\<exists>np P N. fs_rel s P N \<and> tree_ok N \<and> is_dir N d \<and> tree_step\<^sup>*\<^sup>* [d \<mapsto> root_node np] N"
    by (rule file_system_well_formed [OF boot_kernel_free_list s1(1) c(1) _ , rotated])
  with s1(1) c(1) f1 m show ?thesis by blast
qed

end
