(* ===== verification/KeyLine.thy ===== *)
theory KeyLine
  imports FileIO
begin

section \<open>KeyLine: the keyboard as a line editor\<close>

text \<open>
  What typing does, as operations on the modifiers and the line alone; and the proof that the
  keyboard handler, which keeps the line in \<open>cmd_buffer\<close> and echoes it through the descriptors
  0 and 1, implements it.
\<close>

subsection \<open>The line editor\<close>

definition edit_key :: "u8 \<Rightarrow> KEY_state \<times> u8 list \<Rightarrow> KEY_state \<times> u8 list" where
  "edit_key code = (\<lambda>(k, line).
     if code \<in> {0x2A, 0xAA, 0x36, 0xB6} then (k\<lparr>shift := key_bit code\<rparr>, line)
     else if code \<in> {0x38, 0xB8} then (k\<lparr>alt := key_bit code\<rparr>, line)
     else if code \<in> {0x1D, 0x9D} then (k\<lparr>ctrl := key_bit code\<rparr>, line)
     else if code = 0x3A then (k\<lparr>caps := 1 - caps k\<rparr>, line)
     else if code > 127 then (k, line)
     else if code = 0x0E then (k, butlast line)
     else let c = key_char code k
       in (k, if 32 \<le> c \<and> c \<le> 126 \<and> length line < 63 then line @ [c] else line))"

text \<open>The modifiers and the line in the kernel's state.\<close>

definition line_of :: "'a kernel_state_scheme \<Rightarrow> KEY_state \<times> u8 list" where
  "line_of s = (special_key_state s, rd_bytes (mem s) (cmd_buffer s) (unat (cmd_pos s)))"

definition is_enter :: "u8 \<Rightarrow> bool" where
  "is_enter code \<longleftrightarrow> code \<le> 127 \<and> keyboard_map ! unat code = 0x0A"

fun key_events :: "u32 \<Rightarrow> u8 list \<Rightarrow> 'a kernel_state_scheme \<Rightarrow> 'a kernel_state_scheme option" where
  "key_events loc [] s = Some s"
| "key_events loc (c # cs) s = do { s \<leftarrow> key_event loc c s; key_events loc cs s }"

subsection \<open>The handler's state\<close>

text \<open>
  The command buffer and the handler's local variable are outside the heap and apart, and the
  byte behind the variable is 0, so that the echo, which prints a string, ends.
\<close>

definition key_memory :: "nat \<Rightarrow> 'a kernel_state_scheme \<Rightarrow> bool" where
  "key_memory loc s \<longleftrightarrow> unat (cmd_pos s) < 64 \<and> loc + 2 \<le> 2 ^ 32 \<and> unat (cmd_buffer s) + 64 \<le> 2 ^ 32 \<and>
     {unat (cmd_buffer s)..<unat (cmd_buffer s) + 64} \<subseteq> low_bytes s \<and> {loc..<loc + 2} \<subseteq> low_bytes s \<and>
     {unat (cmd_buffer s)..<unat (cmd_buffer s) + 64} \<inter> {loc..<loc + 2} = {} \<and> mem s (W loc + 1) = 0"

text \<open>Descriptor 0 appends to a file which can take \<open>n\<close> more bytes, each of which may need a new block.\<close>

definition stdin_open :: "nat \<Rightarrow> 'a fs_state_scheme \<Rightarrow> bool" where
  "stdin_open n s \<longleftrightarrow> (\<exists>P N e f k pos fnp fnm dp bs. fs_rel s P N \<and> room n s \<and> fd_is s STDIN_FILENO e \<and>
     N e = Some (Fd k f pos (O_RDWR OR O_APPEND)) \<and> N f = Some (File fnp fnm dp bs) \<and> length bs + n \<le> 32759)"

lemma term_frame_heap:
  fixes s :: "'a fs_state_scheme"
  assumes "term_frame s s'"
  shows "mem s' = mem s" "free_list s' = free_list s" "current_brk s' = current_brk s" "heap_state.more s' = heap_state.more s"
    "fs_rel s' P N = fs_rel s P N" "room n s' = room n s" "low_bytes s' = low_bytes s" "stdin_open n s' = stdin_open n s"
  by (subst term_frame_state [OF assms],
      simp add: fs_rel_def owns_def heap_objects_def heap_rel_def room_def low_bytes_def stdin_open_def fd_is_def fd_invalid_def)+

lemma stdin_write:
  fixes s :: "'a fs_state_scheme"
  assumes S: "stdin_open (Suc n) s" and l: "readable (low_bytes s) p 1"
  obtains s' where "ramfs_write STDIN_FILENO p 1 s = Some (1, s')" "stdin_open n s'"
    "same_on (low_bytes s) (mem s) (mem s')" "heap_frame s s'"
proof -
  obtain P N e f k pos fnp fnm dp bs where R: "fs_rel s P N" "room (Suc n) s" "fd_is s STDIN_FILENO e"
    "N e = Some (Fd k f pos (O_RDWR OR O_APPEND))" "N f = Some (File fnp fnm dp bs)" "length bs + Suc n \<le> 32759"
    using S unfolding stdin_open_def by blast
  let ?fl = "O_RDWR OR O_APPEND" and ?dat = "[ld (mem s) p]"
  have fl: "?fl AND 3 \<noteq> 0" "write_pos ?fl pos bs = length bs" by (simp_all add: write_pos_def)
  have io: "STDIN_FILENO \<noteq> STDOUT_FILENO" "STDIN_FILENO \<noteq> STDERR_FILENO" by simp_all
  have len: "length bs + length ?dat \<le> 32759" "length bs \<le> 32759" using R(6) by simp_all
  have rm: "room 1 s" by (rule room_mono [OF R(2)]) simp
  have dat: "readable (low_bytes s) p (length ?dat)" "rd_chars (mem s) p (length ?dat) = ?dat"
    using l by (simp_all add: rd_chars_def)
  obtain y junk P' s' where w: "ramfs_write STDIN_FILENO p (W (length ?dat)) s = Some (W (length ?dat), s')"
    "fs_rel s' P' (N(f \<mapsto> File fnp fnm y (take (length bs) (bs @ junk) @ ?dat @ drop (length bs + length ?dat) (bs @ junk)),
       e \<mapsto> Fd k f (length bs + length ?dat) ?fl))"
    "length bs + length junk = max (length bs) (length bs + length ?dat)"
    "quiet (heap_stable s (P(e := None, f := None, dp := None))) s s'" "spends 1 s s'"
    by (rule ramfs_write_spec [OF R(1,3) io R(4,5) fl(1) fl(2) [symmetric] len rm readable_mono [OF dat(1) low_stable] dat(2)])
  show thesis
  proof (rule that)
    show "ramfs_write STDIN_FILENO p 1 s = Some (1, s')" using w(1) by simp
    show "same_on (low_bytes s) (mem s) (mem s')" "heap_frame s s'"
      using w(4) low_stable unfolding quiet_def by (blast intro: same_on_subset)+
    have "e \<noteq> f" using R(4,5) by auto
    moreover have "room n s'" by (rule room_spends [OF w(5) R(2)]) simp
    moreover have "fd_is s' STDIN_FILENO e" using R(3) by (simp add: quiet_fd_is [OF w(4)])
    ultimately show "stdin_open n s'" unfolding stdin_open_def using w(2,3) R(6)
      by (intro exI [of _ P'] exI [of _ "N(f \<mapsto> _, e \<mapsto> _)"] exI conjI) (assumption | simp)+
  qed
qed

lemma stdout_write:
  fixes s :: "'a fs_state_scheme"
  assumes "cstr (mem s) p [c]"
  obtains r s' where "ramfs_write STDOUT_FILENO p 1 s = Some (r, s')" "term_frame s s'"
proof -
  obtain t where "terminal_writestring p s = Some t" using terminal_writestring_cstr [OF assms] by simp
  with term_frame_writestring [OF this] that show thesis
    by (cases "fd_invalid STDOUT_FILENO s") (auto simp: ramfs_write_def)
qed

lemma stdin_open_put:
  fixes s :: "'a fs_state_scheme"
  assumes "stdin_open n s" "same_on (- B) (mem s) m" "B \<subseteq> low_bytes s"
  shows "stdin_open n (s\<lparr>mem := m\<rparr>)"
proof -
  have R: "fs_rel (s\<lparr>mem := m\<rparr>) P N" if "fs_rel s P N" for P N
    by (rule fs_put_outside [OF that assms(2)]) (use assms(3) low_stable low_apart [OF that] in blast)+
  have [simp]: "room n (s\<lparr>mem := m\<rparr>) = room n s" "fd_is (s\<lparr>mem := m\<rparr>) = fd_is s"
    by (simp_all add: room_def fd_is_def fd_invalid_def fun_eq_iff)
  show ?thesis using assms(1) R unfolding stdin_open_def by fastforce
qed

text \<open>Growing the line by a character.\<close>

lemma line_put:
  assumes K: "key_memory loc s" and p: "unat (cmd_pos s) < 63"
  shows "rd_bytes ((mem s)(W loc := c, cmd_buffer s + cmd_pos s := c)) (cmd_buffer s) (unat (cmd_pos s + 1)) =
    rd_bytes (mem s) (cmd_buffer s) (unat (cmd_pos s)) @ [c]"
    "same_on (- ({loc} \<union> {unat (cmd_buffer s)..<unat (cmd_buffer s) + 64})) (mem s)
       ((mem s)(W loc := c, cmd_buffer s + cmd_pos s := c))"
    "unat (cmd_pos s + 1) = unat (cmd_pos s) + 1" "W loc \<noteq> cmd_buffer s + cmd_pos s"
    "W loc + 1 \<noteq> cmd_buffer s + cmd_pos s" "W loc + 1 \<noteq> (W loc :: u32)"
proof -
  note k = K [unfolded key_memory_def]
  define b q where "b = unat (cmd_buffer s)" and "q = unat (cmd_pos s)"
  have B: "cmd_buffer s = W b" "cmd_pos s = W q" by (simp_all add: b_def q_def)
  have q: "q < 63" and b: "b + 64 \<le> 2 ^ 32" and l: "loc + 2 \<le> 2 ^ 32" using p k by (simp_all add: b_def q_def)
  have uq: "unat (W q :: u32) = q" using q by (intro unat_of_nat_u32) simp
  have bq: "cmd_buffer s + cmd_pos s = W (b + q)" by (simp add: B)
  have "{b..<b + 64} \<inter> {loc..<loc + 2} = {}" using k by (simp add: b_def)
  then have d: "loc < b \<or> b + 64 \<le> loc" "loc + 1 < b \<or> b + 64 \<le> loc + 1" by (auto simp: disjoint_iff)
  have ne: "W loc \<noteq> (W (b + i) :: u32)" "W (loc + 1) \<noteq> (W (b + i) :: u32)" if "i < 64" for i
    using of_nat_u32_eq [of loc "b + i"] of_nat_u32_eq [of "loc + 1" "b + i"] d b l that by auto
  show u: "unat (cmd_pos s + 1) = unat (cmd_pos s) + 1"
    using unat_of_nat_u32 [of "Suc q"] unat_of_nat_u32 [of q] q by (simp add: B add.commute [of _ 1])
  show "W loc \<noteq> cmd_buffer s + cmd_pos s" "W loc + 1 \<noteq> cmd_buffer s + cmd_pos s"
    using ne [of q] q unfolding bq by (simp_all add: add.commute)
  show "W loc + 1 \<noteq> (W loc :: u32)" by simp
  have same: "W (b + i) \<noteq> (W (b + q) :: u32)" if "i < q" for i
    using of_nat_u32_eq [of "b + i" "b + q"] that q b by simp
  have "rd_bytes ((mem s)(W loc := c, W (b + q) := c)) (W b) q = rd_bytes (mem s) (W b) q"
    by (rule rd_bytes_cong) (use ne(1) [symmetric] same q in \<open>simp add: of_nat_add [symmetric] del: of_nat_add\<close>)
  then show "rd_bytes ((mem s)(W loc := c, cmd_buffer s + cmd_pos s := c)) (cmd_buffer s) (unat (cmd_pos s + 1)) =
      rd_bytes (mem s) (cmd_buffer s) (unat (cmd_pos s)) @ [c]"
    unfolding u bq by (simp add: rd_bytes_Suc B uq)
  have "loc < 2 ^ 32" "b + q < 2 ^ 32" using q b l by simp_all
  then show "same_on (- ({loc} \<union> {unat (cmd_buffer s)..<unat (cmd_buffer s) + 64})) (mem s)
      ((mem s)(W loc := c, cmd_buffer s + cmd_pos s := c))"
    unfolding bq b_def [symmetric] using q by (auto simp: same_on_def of_nat_u32_eq simp del: of_nat_add)
qed

subsection \<open>One key\<close>

definition key_ready :: "nat \<Rightarrow> nat \<Rightarrow> 'a kernel_state_scheme \<Rightarrow> bool" where
  "key_ready n loc s \<longleftrightarrow> key_memory loc s \<and> stdin_open n s"

lemma key_memory_upd:
  assumes "key_memory loc s" "same_on (low_bytes s) (mem s) (mem s')" "low_bytes s' = low_bytes s"
    and "cmd_buffer s' = cmd_buffer s" "unat (cmd_pos s') < 64"
  shows "key_memory loc s'"
proof -
  note k = assms(1) [unfolded key_memory_def]
  then have "loc + 1 \<in> low_bytes s" "loc + 1 < 2 ^ 32" by auto
  then have "mem s' (W (loc + 1)) = mem s (W (loc + 1))" using assms(2) unat_of_nat_u32 [of "loc + 1"]
    by (auto dest: same_onD)
  then have "mem s' (W loc + 1) = 0" using k by (simp add: add.commute)
  with k show ?thesis unfolding key_memory_def assms(3,4) using assms(5) by blast
qed

lemma stdin_open_mono: "stdin_open m s \<Longrightarrow> n \<le> m \<Longrightarrow> stdin_open n s"
proof -
  assume S: "stdin_open m s" and n: "n \<le> m"
  then obtain P N e f k pos fnp fnm dp bs where "fs_rel s P N" "room m s" "fd_is s STDIN_FILENO e"
    "N e = Some (Fd k f pos (O_RDWR OR O_APPEND))" "N f = Some (File fnp fnm dp bs)" "length bs + m \<le> 32759"
    unfolding stdin_open_def by blast
  moreover have "room n s" by (rule room_mono [OF \<open>room m s\<close> n])
  moreover have "length bs + n \<le> 32759" using n \<open>length bs + m \<le> 32759\<close> by simp
  ultimately show ?thesis unfolding stdin_open_def by blast
qed

lemma kernel_more:
  fixes s s' :: "'a kernel_state_scheme"
  assumes "heap_state.more s' = heap_state.more s"
  shows "special_key_state s' = special_key_state s" "cmd_buffer s' = cmd_buffer s" "cmd_pos s' = cmd_pos s"
  using assms by (cases s; cases s'; simp)+

lemma line_of_same:
  fixes s s' :: "'a kernel_state_scheme"
  assumes K: "key_memory loc s" and S: "same_on (low_bytes s) (mem s) (mem s')" and f: "heap_state.more s' = heap_state.more s"
  shows "line_of s' = line_of s"
proof -
  note k = K [unfolded key_memory_def]
  note e = kernel_more [OF f]
  define b q where "b = unat (cmd_buffer s)" and "q = unat (cmd_pos s)"
  have "{b..<b + q} \<subseteq> low_bytes s" "b + q \<le> 2 ^ 32" using k by (auto simp: b_def q_def)
  from rd_bytes_same_on [OF S this] show ?thesis by (simp add: line_of_def e b_def q_def)
qed

lemma butlast_rd_bytes: "butlast (rd_bytes m a n) = rd_bytes m a (n - 1)"
  by (cases n) (simp_all add: rd_bytes_Suc, simp add: rd_bytes_def)

lemma key_backspace_line:
  assumes K: "key_ready n loc s"
  shows "line_of (key_backspace s) = (fst (line_of s), butlast (snd (line_of s)))" "key_ready n loc (key_backspace s)"
proof -
  have e: "mem (key_backspace s) = mem s" "cmd_buffer (key_backspace s) = cmd_buffer s"
    "special_key_state (key_backspace s) = special_key_state s" "low_bytes (key_backspace s) = low_bytes s"
    "cmd_pos (key_backspace s) = (if cmd_pos s > 0 then cmd_pos s - 1 else cmd_pos s)"
    "stdin_open n (key_backspace s) = stdin_open n s"
    by (simp_all add: key_backspace_def Let_def terminal_putentryat_def low_bytes_def stdin_open_def fs_rel_def owns_def
      heap_objects_def heap_rel_def room_def fd_is_def fd_invalid_def)
  have p: "unat (if cmd_pos s > 0 then cmd_pos s - 1 else cmd_pos s) = unat (cmd_pos s) - 1"
    by (cases "cmd_pos s = 0") (simp_all add: unat_minus_one word_neq_0_conv)
  show "line_of (key_backspace s) = (fst (line_of s), butlast (snd (line_of s)))"
    unfolding line_of_def e by (simp add: p butlast_rd_bytes)
  show "key_ready n loc (key_backspace s)"
    using K less_imp_diff_less unfolding key_ready_def key_memory_def e(1,2,4-6) p by blast
qed

lemma scratch_put:
  fixes s :: "'a kernel_state_scheme"
  assumes K: "key_ready n loc s"
  shows "key_ready n loc (s\<lparr>mem := (mem s)(W loc := c)\<rparr>)" "line_of (s\<lparr>mem := (mem s)(W loc := c)\<rparr>) = line_of s"
proof -
  note k = K [unfolded key_ready_def key_memory_def]
  let ?t = "s\<lparr>mem := (mem s)(W loc := c)\<rparr>"
  define b q where "b = unat (cmd_buffer s)" and "q = unat (cmd_pos s)"
  have l: "loc < 2 ^ 32" "loc \<in> low_bytes s" using k by auto
  have S: "same_on A (mem s) ((mem s)(W loc := c))" if "loc \<notin> A" for A by (rule same_on_upd [OF l(1) that])
  have "stdin_open n ?t" by (rule stdin_open_put [of n s "{loc}"]) (use k l(2) S in auto)
  moreover have "W loc + 1 \<noteq> (W loc :: u32)" "low_bytes ?t = low_bytes s" by (simp_all add: low_bytes_def)
  ultimately show "key_ready n loc ?t" using k unfolding key_ready_def key_memory_def by simp
  have "{b..<b + q} \<inter> {loc} = {}" "b + q \<le> 2 ^ 32" using k by (auto simp: b_def q_def disjoint_iff)
  then have "rd_bytes ((mem s)(W loc := c)) (W b) q = rd_bytes (mem s) (W b) q"
    by (intro rd_bytes_same_on [OF S order_refl]) auto
  then show "line_of ?t = line_of s" by (simp add: line_of_def b_def q_def)
qed

lemma key_add_line:
  fixes s :: "'a kernel_state_scheme"
  assumes K: "key_ready (Suc n) loc s"
  obtains s' where "key_add (W loc) code s = Some s'" "key_ready n loc s'"
    "line_of s' = (let (k, line) = line_of s; c = key_char code k
       in (k, if 32 \<le> c \<and> c \<le> 126 \<and> length line < 63 then line @ [c] else line))"
proof -
  note m = K [unfolded key_ready_def] and k = K [unfolded key_ready_def key_memory_def]
  define c where "c = key_char code (special_key_state s)"
  have line: "length (snd (line_of s)) = unat (cmd_pos s)" by (simp add: line_of_def)
  have lim: "cmd_pos s < 63 \<longleftrightarrow> unat (cmd_pos s) < 63" by (simp add: word_less_nat_alt)
  have target: "(let (k, line) = line_of s; c = key_char code k
       in (k, if 32 \<le> c \<and> c \<le> 126 \<and> length line < 63 then line @ [c] else line)) =
     (special_key_state s, if 32 \<le> c \<and> c \<le> 126 \<and> unat (cmd_pos s) < 63 then snd (line_of s) @ [c] else snd (line_of s))"
    by (simp add: line_of_def c_def Let_def)
  have r: "key_ready n loc s" using stdin_open_mono [OF conjunct2 [OF m], of n] m by (simp add: key_ready_def)
  consider "\<not> unat (cmd_pos s) < 63" | "unat (cmd_pos s) < 63" "\<not> (32 \<le> c \<and> c \<le> 126)"
    | "unat (cmd_pos s) < 63" "32 \<le> c" "c \<le> 126" by blast
  then show thesis
  proof cases
    case 1
    then have "key_add (W loc) code s = Some s" by (simp add: key_add_def lim)
    with 1 that [OF _ r] show thesis unfolding target by (simp add: line_of_def)
  next
    case 2
    let ?t = "s\<lparr>mem := (mem s)(W loc := c)\<rparr>"
    have "key_add (W loc) code s = Some ?t" using 2 by (auto simp: key_add_def lim c_def Let_def)
    then show thesis using that scratch_put [OF r, of c] 2 unfolding target by (simp add: line_of_def)
  next
    case 3
    let ?m = "(mem s)(W loc := c, cmd_buffer s + cmd_pos s := c)"
    let ?t = "s\<lparr>mem := ?m, cmd_pos := cmd_pos s + 1\<rparr>"
    note p = line_put(1,2) [OF conjunct1 [OF m] 3(1), of c] line_put(3-6) [OF conjunct1 [OF m] 3(1)]
    have low: "{loc} \<union> {unat (cmd_buffer s)..<unat (cmd_buffer s) + 64} \<subseteq> low_bytes s" "loc \<in> low_bytes s" using k by auto
    have "stdin_open (Suc n) (s\<lparr>mem := ?m\<rparr>)" by (rule stdin_open_put [OF conjunct2 [OF m] p(2) low(1)])
    then have T: "stdin_open (Suc n) ?t"
      by (simp add: stdin_open_def fs_rel_def owns_def heap_objects_def heap_rel_def room_def fd_is_def fd_invalid_def)
    have lt: "low_bytes ?t = low_bytes s" by (simp add: low_bytes_def)
    have "unat (W loc :: u32) = loc" using k by (intro unat_of_nat_u32) simp
    then have l: "readable (low_bytes ?t) (Mem (W loc)) 1" using low(2) k unfolding lt by auto
    obtain t1 where t1: "ramfs_write STDIN_FILENO (Mem (W loc)) 1 ?t = Some (1, t1)" "stdin_open n t1"
      "same_on (low_bytes ?t) (mem ?t) (mem t1)" "heap_frame ?t t1"
      by (rule stdin_write [OF T l])
    have B: "unat (W loc :: u32) = loc" "unat (W loc + 1 :: u32) = loc + 1"
      using k unat_of_nat_u32 [of loc] unat_of_nat_u32 [of "Suc loc"] by (simp_all add: add.commute)
    have "loc + 1 \<in> low_bytes s" "loc < 2 ^ 32" "loc + 1 < 2 ^ 32" using k by auto
    with low(2) have "mem t1 (W loc) = mem ?t (W loc)" "mem t1 (W (loc + 1)) = mem ?t (W (loc + 1))"
      by (simp_all only: same_onD [OF t1(3)] lt)
    then have bytes: "mem t1 (W loc) = c" "mem t1 (W loc + 1) = 0"
      using p(4-6) k by (simp_all add: add.commute)
    have "c \<noteq> 0" using 3(2) by auto
    then have "cstr (mem t1) (Mem (W loc)) [c]" using bytes by (simp add: cstr_Cons cstr_Nil)
    then obtain r t2 where t2: "ramfs_write STDOUT_FILENO (Mem (W loc)) 1 t1 = Some (r, t2)" "term_frame t1 t2"
      by (rule stdout_write)
    note h = term_frame_heap [OF t2(2)]
    show thesis
    proof (rule that)
      show "key_add (W loc) code s = Some t2"
        using 3 t1(1) t2(1) by (simp add: key_add_def lim c_def [symmetric] Let_def fun_upd_twist)
      have M: "key_memory loc ?t" using k p(3,5,6) 3(1) unfolding key_memory_def lt by simp
      have f: "heap_state.more t1 = heap_state.more ?t" using t1(4) by (simp add: heap_frame_def)
      note e = kernel_more [OF f [folded h(4)]]
      have lt2: "low_bytes t2 = low_bytes ?t" using t1(4) by (simp add: h(2) heap_frame_def low_bytes_def)
      have S: "same_on (low_bytes ?t) (mem ?t) (mem t2)" using t1(3) by (simp add: h(1))
      have "unat (cmd_pos t2) < 64" using p(3) 3(1) by (simp add: e(3))
      with key_memory_upd [OF M S lt2 e(2)] t1(2) show "key_ready n loc t2" by (simp add: key_ready_def h(8))
      show "line_of t2 = (let (k, line) = line_of s; c = key_char code k
         in (k, if 32 \<le> c \<and> c \<le> 126 \<and> length line < 63 then line @ [c] else line))"
        unfolding target line_of_same [OF M S f [folded h(4)]] using 3 p(1) by (simp add: line_of_def)
    qed
  qed
qed

lemma key_event_line:
  fixes s :: "'a kernel_state_scheme"
  assumes K: "key_ready (Suc n) loc s" and e: "\<not> is_enter code"
  obtains s' where "key_event (W loc) code s = Some s'" "key_ready n loc s'" "line_of s' = edit_key code (line_of s)"
proof -
  have m: "key_memory loc s" "stdin_open (Suc n) s" using K by (simp_all add: key_ready_def)
  have r: "key_ready n loc s" using K stdin_open_mono [OF m(2)] by (simp add: key_ready_def)
  have mods: "key_ready n loc (s\<lparr>special_key_state := k\<rparr>)" for k
    using r by (simp add: key_ready_def key_memory_def low_bytes_def stdin_open_def fs_rel_def owns_def heap_objects_def
      heap_rel_def room_def fd_is_def fd_invalid_def)
  have lin: "line_of s = (special_key_state s, snd (line_of s))"
    "line_of (s\<lparr>special_key_state := k\<rparr>) = (k, snd (line_of s))" for k
    by (simp_all add: line_of_def)
  note ev = key_event_def [of "W loc" code s] edit_key_def [of code] Let_def
  have nl: "keyboard_map ! unat code \<noteq> 0x0A" if "\<not> code > 127" using e that by (simp add: is_enter_def)
  let ?A = "{0x2A, 0xAA, 0x36, 0xB6} :: u8 set" and ?B = "{0x38, 0xB8} :: u8 set" and ?C = "{0x1D, 0x9D} :: u8 set"
  have ev: "key_event (W loc) code s = (if code \<in> ?A \<union> ?B \<union> ?C \<union> {0x3A} \<or> code > 127
      then Some (s\<lparr>special_key_state := fst (edit_key code (line_of s))\<rparr>)
      else if code = 0x0E then Some (key_backspace s) else key_add (W loc) code s)"
    using nl unfolding key_event_def edit_key_def Let_def line_of_def prod.case
    by (cases "code \<in> ?A"; cases "code \<in> ?B"; cases "code \<in> ?C"; cases "code = 0x3A"; cases "code > 127") simp_all
  have ed: "snd (edit_key code (line_of s)) = snd (line_of s)" if "code \<in> ?A \<union> ?B \<union> ?C \<union> {0x3A} \<or> code > 127"
    using that unfolding edit_key_def Let_def line_of_def prod.case
    by (cases "code \<in> ?A"; cases "code \<in> ?B"; cases "code \<in> ?C"; cases "code = 0x3A"; cases "code > 127") simp_all
  show thesis
  proof (cases "code \<in> ?A \<union> ?B \<union> ?C \<union> {0x3A} \<or> code > 127")
    case True
    have "line_of (s\<lparr>special_key_state := fst (edit_key code (line_of s))\<rparr>) = edit_key code (line_of s)"
      using ed [OF True] lin(2) by (metis prod.collapse)
    then show thesis using that ev True mods by simp
  next
    case False
    then show thesis
    proof (cases "code = 0x0E")
      case True
      have "edit_key code (line_of s) = (fst (line_of s), butlast (snd (line_of s)))"
        by (cases "line_of s") (simp add: edit_key_def True)
      with True show thesis using that [OF _ key_backspace_line(2) [OF r]] key_backspace_line(1) [OF r] ev by simp
    next
      case add: False
      obtain s' where "key_add (W loc) code s = Some s'" "key_ready n loc s'"
        "line_of s' = (let (k, line) = line_of s; c = key_char code k
           in (k, if 32 \<le> c \<and> c \<le> 126 \<and> length line < 63 then line @ [c] else line))"
        by (rule key_add_line [OF K])
      moreover have "edit_key code (line_of s) = (let (k, line) = line_of s; c = key_char code k
           in (k, if 32 \<le> c \<and> c \<le> 126 \<and> length line < 63 then line @ [c] else line))"
        using False add by (cases "line_of s") (simp add: edit_key_def)
      ultimately show thesis using that ev False add by simp
    qed
  qed
qed

subsection \<open>Typing\<close>

text \<open>
  C10: The keyboard handler refines a line editor: for any sequence of key codes without Enter,
  each handled key acts on the modifiers and on the line in \<open>cmd_buffer\<close> as \<open>edit_key\<close> does on a
  pair of modifiers and list (printable characters are appended up to 63, with the shift and
  caps lock rules; backspace removes the last; releases are ignored), although each
  character is also appended to the open file of descriptor 0 and printed. The handler
  returns each time, the buffer does not overflow, and the file system stays well-formed.
\<close>

theorem typing_edits_line:
  fixes s :: "'a kernel_state_scheme"
  assumes "key_ready (length codes + n) loc s" "\<forall>c\<in>set codes. \<not> is_enter c"
  shows "\<exists>s'. key_events (of_nat loc) codes s = Some s' \<and> line_of s' = fold edit_key codes (line_of s) \<and> key_ready n loc s'"
  using assms
proof (induction codes arbitrary: s)
  case (Cons c cs)
  have "key_ready (Suc (length cs + n)) loc s" "\<not> is_enter c" using Cons.prems by simp_all
  then obtain t where t: "key_event (W loc) c s = Some t" "key_ready (length cs + n) loc t" "line_of t = edit_key c (line_of s)"
    by (rule key_event_line)
  from Cons.IH [OF t(2)] Cons.prems(2) t(1,3) show ?case by simp
qed simp

text \<open>A state in which \<open>x\<close> has been typed.\<close>

abbreviation no_mods :: KEY_state where
  "no_mods \<equiv> \<lparr>caps = 0, alt = 0, ctrl = 0, shift = 0\<rparr>"

lemma boot_keys:
  "\<exists>s :: kernel_state. key_ready 70 0x1000 s \<and> line_of s = (no_mods, bytes_of ''x'') \<and> current_dir s \<noteq> 0"
proof -
  obtain s :: kernel_state and P N f e fnp dp where s: "fs_rel s P N" "room 70 s" "free_list s = 0x100000" "fd_is s 0 e"
    "N e = Some (Fd 0 f 0 7)" "N f = Some (File fnp (bytes_of ''a'') dp (bytes_of ''hi''))" using boot_open [of 7] by metis
  let ?m = "(mem s)(W 0x1001 := 0, W 0x2000 := 0x78)"
  let ?s = "s\<lparr>mem := ?m, cmd_buffer := 0x2000, cmd_pos := 1, special_key_state := no_mods, current_dir := 1\<rparr>"
  have "N e = Some (Fd 0 f 0 (O_RDWR OR O_APPEND))" "length (bytes_of ''hi'') + 70 \<le> 32759" using s(5) by simp_all
  with s(1,2,4,6) have S: "stdin_open 70 s" unfolding stdin_open_def by blast
  have "same_on (- {0x1001, 0x2000}) (mem s) ?m"
    using of_nat_u32_eq [of _ "0x1001"] of_nat_u32_eq [of _ "0x2000"] by (auto simp: same_on_def)
  then have "stdin_open 70 (s\<lparr>mem := ?m\<rparr>)"
    by (rule stdin_open_put [OF S]) (use s(3) in \<open>auto simp: low_bytes_def heap_base_def\<close>)
  then have S: "stdin_open 70 ?s"
    by (simp add: stdin_open_def fs_rel_def owns_def heap_objects_def heap_rel_def room_def fd_is_def fd_invalid_def)
  have "key_memory 0x1000 ?s" using s(3) by (auto simp: key_memory_def low_bytes_def heap_base_def)
  with S have "key_ready 70 0x1000 ?s" by (simp add: key_ready_def)
  moreover have "line_of ?s = (no_mods, bytes_of ''x'')" by (simp add: line_of_def rd_bytes_def bytes_of_def)
  ultimately show ?thesis by force
qed

text \<open>Typing \<open>l\<close>, \<open>S\<close> with the shift key held, a release and backspace.\<close>

lemma typing_edits_line_witness:
  "\<exists>(s :: kernel_state) s'. key_events (of_nat 0x1000) [0x26, 0x2A, 0x1F, 0xAA, 0x0E] s = Some s' \<and>
     snd (line_of s') = bytes_of ''xl''"
proof -
  let ?codes = "[0x26, 0x2A, 0x1F, 0xAA, 0x0E] :: u8 list"
  obtain s :: kernel_state where s: "key_ready 70 0x1000 s" "line_of s = (no_mods, bytes_of ''x'')" using boot_keys by blast
  have K: "key_ready (length ?codes + 65) 0x1000 s" using s(1) by simp
  have e: "\<forall>c\<in>set ?codes. \<not> is_enter c" by code_simp
  have "snd (fold edit_key ?codes (no_mods, bytes_of ''x'')) = bytes_of ''xl''" by code_simp
  with typing_edits_line [OF K e, unfolded s(2)] show ?thesis by metis
qed

end
