(* ===== verification/Stdio.thy ===== *)
theory Stdio
  imports KeyLine
begin

section \<open>Stdio: what the boot does with the file system\<close>

text \<open>
  \<open>init_stdio\<close> creates four files, opens them as descriptors 0 to 3, writes a message to the
  last, reads it back and prints it. The steps compose the specifications of the operations;
  \<open>dir_lists\<close> follows the root directory by the names in it.
\<close>

subsection \<open>A directory by its names\<close>

definition dir_lists :: "(nat \<rightharpoonup> node) \<Rightarrow> nat \<Rightarrow> (u8 list \<times> nat) list \<Rightarrow> bool" where
  "dir_lists N d xs \<longleftrightarrow> (\<exists>np nm par fa da ds. N d = Some (Dir np nm par fa (map snd xs) da ds)) \<and>
     (\<forall>(nm, f)\<in>set xs. \<exists>fnp dp bs. N f = Some (File fnp nm dp bs))"

lemma find_map: "find P (map f xs) = map_option f (find (P \<circ> f) xs)"
  by (induction xs) auto

lemma find_nth: "map_option (\<lambda>i. xs ! i) (find (\<lambda>j. P (xs ! j)) [0..<length xs]) = find P xs"
proof (induction xs)
  case (Cons x xs)
  have "[0..<length (x # xs)] = 0 # map Suc [0..<length xs]" by (simp add: map_Suc_upt upt_conv_Cons del: upt_Suc)
  then have "map_option (\<lambda>i. (x # xs) ! i) (find (\<lambda>j. P ((x # xs) ! j)) [0..<length (x # xs)]) =
      (if P x then Some x else map_option (\<lambda>i. xs ! i) (find (\<lambda>j. P (xs ! j)) [0..<length xs]))"
    by (simp only:) (simp add: find_map comp_def option.map_comp)
  then show ?case using Cons by simp
qed simp

lemma find_map_of:
  assumes "\<forall>(nm, f)\<in>set xs. P f = (nm = k)"
  shows "find P (map snd xs) = map_of xs k"
  using assms by (induction xs) auto

lemma file_in_lists:
  assumes "dir_lists N d xs"
  shows "file_in N d nm = map_of xs nm"
proof -
  have f: "files N d = map snd xs" using assms by (auto simp: dir_lists_def)
  have "\<forall>(k, f)\<in>set xs. called N nm f = (k = nm)" using assms by (fastforce simp: dir_lists_def called_def)
  from find_map_of [OF this] find_nth [of "map snd xs" "called N nm"] show ?thesis
    by (simp add: file_in_def f position_of_def)
qed

definition stdio_state :: "nat \<Rightarrow> nat \<Rightarrow> (u8 list \<times> nat) list \<Rightarrow> 'a fs_state_scheme \<Rightarrow> (nat \<rightharpoonup> nat) \<Rightarrow> (nat \<rightharpoonup> node) \<Rightarrow> bool" where
  "stdio_state k root xs s P N \<longleftrightarrow> fs_rel s P N \<and> tree_ok N \<and> dir_lists N root xs \<and> room k s"

text \<open>
  The parts of the state which the steps leave alone: the processes and the kernel's own
  variables, and the memory below the heap.
\<close>

definition others_kept :: "'a fs_state_scheme \<Rightarrow> 'a fs_state_scheme \<Rightarrow> bool" where
  "others_kept s s' \<longleftrightarrow> free_list s' = free_list s \<and> proc_table s' = proc_table s \<and> active_pid s' = active_pid s \<and>
     next_pid s' = next_pid s \<and> fs_state.more s' = fs_state.more s"

definition low_kept :: "'a fs_state_scheme \<Rightarrow> 'a fs_state_scheme \<Rightarrow> bool" where
  "low_kept s s' \<longleftrightarrow> others_kept s s' \<and> same_on (low_bytes s) (mem s) (mem s')"

lemma others_kept_refl [simp, intro]: "others_kept s s"
  by (simp add: others_kept_def)

lemma others_kept_trans [trans]: "others_kept s t \<Longrightarrow> others_kept t u \<Longrightarrow> others_kept s u"
  by (simp add: others_kept_def)

lemma others_kept_mem [simp]: "others_kept (s\<lparr>mem := m\<rparr>) t = others_kept s t" "others_kept s (t\<lparr>mem := m\<rparr>) = others_kept s t"
  by (simp_all add: others_kept_def)

lemma others_kept_low: "others_kept s s' \<Longrightarrow> low_bytes s' = low_bytes s"
  by (simp add: others_kept_def low_bytes_def)

lemma heap_frame_others: "heap_frame s s' \<Longrightarrow> others_kept s s'"
  by (cases s; cases s') (simp add: heap_frame_def others_kept_def)

lemma quiet_others: "quiet A s s' \<Longrightarrow> others_kept s s'"
  by (simp add: quiet_def heap_frame_others)

lemma quiet_tok_others: "quiet_tok A s s' \<Longrightarrow> others_kept s s'"
  by (cases s; cases s') (simp add: quiet_tok_def quiet_def heap_frame_def others_kept_def)

lemma low_kept_trans [trans]: "low_kept s t \<Longrightarrow> low_kept t u \<Longrightarrow> low_kept s u"
  unfolding low_kept_def by (metis same_on_trans others_kept_trans others_kept_low)

lemma quiet_low_kept: "quiet (heap_stable s P) s s' \<Longrightarrow> low_kept s s'"
  using quiet_others low_stable unfolding low_kept_def quiet_def by (blast intro: same_on_subset)

lemma stdio_create:
  fixes s :: "'a fs_state_scheme"
  assumes S: "stdio_state m root xs s P N" and m: "k + 4 \<le> m" and n: "0 \<notin> set (bytes_of nm)" "length nm < 100" and x: "length xs < 1000"
  obtains f fnp dp s' P' N' where "ramfs_create_file (W root) (lit nm) (lit []) 0 s = Some (W f, s')" "W f \<noteq> 0"
    "stdio_state k root (xs @ [(bytes_of nm, f)]) s' P' N'" "fd_table s' = fd_table s" "low_kept s s'"
    "\<forall>x z. x \<noteq> root \<longrightarrow> N x = Some z \<longrightarrow> N' x = Some z" "N' f = Some (File fnp (bytes_of nm) dp [])"
proof -
  let ?nm = "bytes_of nm"
  have R: "fs_rel s P N" "tree_ok N" "dir_lists N root xs" "room m s" using S by (simp_all add: stdio_state_def)
  obtain np dnm par fa da ds where D: "N root = Some (Dir np dnm par fa (map snd xs) da ds)" using R(3) by (auto simp: dir_lists_def)
  have t: "text_at s (lit nm) ?nm" by (rule text_at_lit [OF n(1)]) (use n(2) in simp)
  have dat: "readable (heap_stable s P) (lit []) (length ([] :: u8 list))" "rd_chars (mem s) (lit []) (length ([] :: u8 list)) = []"
    "lit [] \<noteq> Mem 0" by (simp_all add: lit_def rd_chars_def)
  have len: "4 * Suc (length (map snd xs)) \<le> 32759" "length ([] :: u8 list) \<le> 32759" using x by simp_all
  from R(1) D text_atD [OF t] dat len show thesis
  proof (rule ramfs_create_file_spec)
    fix f fnp dp y P' s' assume c: "ramfs_create_file (W root) (lit nm) (lit []) (W (length ([] :: u8 list))) s = Some (W f, s')"
      "N f = None" "fs_rel s' P' (N(f \<mapsto> File fnp ?nm dp [], root \<mapsto> Dir np dnm par y (map snd xs @ [f]) da ds))"
      "quiet (heap_stable s (P(root := None, fa := None))) s s'" "spends 4 s s'"
    let ?N = "N(f \<mapsto> File fnp ?nm dp [], root \<mapsto> Dir np dnm par y (map snd xs @ [f]) da ds)"
    have fr: "f \<noteq> root" using c(2) D by auto
    show thesis
    proof (rule that [where N' = ?N])
      show "ramfs_create_file (W root) (lit nm) (lit []) 0 s = Some (W f, s')" using c(1) by simp
      show "W f \<noteq> 0" using ptr_nonzero [OF c(3), of "Some f"] by (simp add: ptr_def)
      show "fd_table s' = fd_table s" by (rule quiet_fd_table [OF c(4)])
      show "low_kept s s'" by (rule quiet_low_kept [OF c(4)])
      show "?N f = Some (File fnp ?nm dp [])" using fr by simp
      show keep: "\<forall>x z. x \<noteq> root \<longrightarrow> N x = Some z \<longrightarrow> ?N x = Some z" using c(2) by auto
      have "\<exists>fnp' dp' bs'. ?N g = Some (File fnp' m dp' bs')" if "(m, g) \<in> set (xs @ [(?nm, f)])" for m g
      proof (cases "g = f")
        case True
        moreover have "(m, f) \<notin> set xs" using R(3) c(2) by (fastforce simp: dir_lists_def)
        then have "m = ?nm" using that True by auto
        ultimately show ?thesis using fr by simp
      next
        case False
        then have "(m, g) \<in> set xs" using that by auto
        then obtain fnp' dp' bs' where g: "N g = Some (File fnp' m dp' bs')" using R(3) by (fastforce simp: dir_lists_def)
        then have "g \<noteq> root" using D by auto
        with g keep show ?thesis by blast
      qed
      then have "dir_lists ?N root (xs @ [(?nm, f)])" unfolding dir_lists_def by fastforce
      moreover have "tree_ok ?N" by (rule tree_ok_add_file [OF R(2) D c(2)])
      moreover have "room k s'" by (rule room_spends [OF c(5) R(4)]) (use m in simp)
      ultimately show "stdio_state k root (xs @ [(?nm, f)]) s' P' ?N" using c(3) by (simp add: stdio_state_def)
    qed
  next
    fix s' assume "\<not> room 4 s"
    then show thesis using room_mono [OF R(4), of 4] m by simp
  qed
qed

lemma stdio_open:
  fixes s :: "'a fs_state_scheme"
  assumes S: "stdio_state m root xs s P N" and m: "k + 3 \<le> m" and n: "0 \<notin> set (bytes_of nm)" "length nm < 100"
    "slash \<notin> set (bytes_of nm)" "nm \<noteq> []" and f: "map_of xs (bytes_of nm) = Some f" and i: "free_slot s = Some i"
  obtains e s' P' where "ramfs_open (W root) (lit nm) flags s = Some (of_nat i, s')" "N e = None" "W e \<noteq> 0"
    "stdio_state k root xs s' P' (N(e \<mapsto> Fd i f 0 flags))" "fd_table s' = (fd_table s)[i := W e]" "low_kept s s'"
proof -
  let ?nm = "bytes_of nm"
  have R: "fs_rel s P N" "tree_ok N" "dir_lists N root xs" "room m s" using S by (simp_all add: stdio_state_def)
  have D: "is_dir N root" using R(3) by (auto simp: dir_lists_def is_dir_def)
  have t: "text_at s (lit nm) ?nm" by (rule text_at_lit [OF n(1)]) (use n(2) in simp)
  have b: "?nm \<noteq> []" "?nm \<notin> std_names" using n(3,4) by (auto simp: bytes_of_def std_names_def)
  have l: "open_lookup N root ?nm = Some f"
    using n(3) f by (simp add: open_lookup_def open_dir_def open_name_def file_in_lists [OF R(3)])
  have r3: "room 3 s" by (rule room_mono [OF R(4)]) (use m in simp)
  from R(1,2) D r3 text_atD [OF t] b show thesis
  proof (rule ramfs_open_spec [where flags = flags])
    fix s' assume "open_lookup N root ?nm = None \<or> free_slot s = None"
    then show thesis using l i by simp
  next
    fix g j e P' s' assume c: "open_lookup N root ?nm = Some g" "free_slot s = Some j" "N e = None"
      "ramfs_open (W root) (lit nm) flags s = Some (of_nat j, s')" "fs_rel s' P' (N(e \<mapsto> Fd j g 0 flags))"
      "quiet_tok (heap_stable s P) (fd_added j e s) s'" "spends 3 s s'"
    have gj: "g = f" "j = i" using c(1,2) l i by simp_all
    let ?N = "N(e \<mapsto> Fd i f 0 flags)"
    show thesis
    proof (rule that [OF _ c(3)])
      show "ramfs_open (W root) (lit nm) flags s = Some (of_nat i, s')" using c(4) gj by simp
      show "W e \<noteq> 0" using ptr_nonzero [OF c(5), of "Some e"] by (simp add: ptr_def)
      show "fd_table s' = (fd_table s)[i := W e]" using quiet_tokD(2) [OF c(6)] gj by (simp add: fd_added_def)
      have "others_kept s s'" using quiet_tok_others [OF c(6)] by (simp add: others_kept_def fd_added_def)
      moreover have "same_on (heap_stable s P) (mem s) (mem s')" using quiet_tokD(1) [OF c(6)] by simp
      ultimately show "low_kept s s'" using same_on_subset [OF _ low_stable] by (simp add: low_kept_def)
      have "dir_lists ?N root xs" using R(3) c(3) unfolding dir_lists_def by fastforce
      moreover have "room k s'" by (rule room_spends [OF c(7) R(4)]) (use m in simp)
      ultimately show "stdio_state k root xs s' P' ?N"
        using c(5) tree_ok_open [OF R(2) c(3)] by (simp add: stdio_state_def gj)
    qed
  qed
qed

subsection \<open>The descriptor table\<close>

definition open_table :: "nat list \<Rightarrow> 'a fs_state_scheme \<Rightarrow> bool" where
  "open_table es s \<longleftrightarrow> fd_table s = map W es @ replicate (64 - length es) 0 \<and> (\<forall>e\<in>set es. (W e :: u32) \<noteq> 0) \<and> length es \<le> 64"

lemma open_table_free:
  assumes "open_table es s" "length es < 64"
  shows "free_slot s = Some (length es)"
proof -
  have t: "fd_table s ! i = (if i < length es then W (es ! i) else 0)" if "i < 64" for i
    using assms that by (auto simp: open_table_def nth_append)
  show ?thesis unfolding free_slot_def find_Some_iff
    by (rule exI [of _ "length es"]) (use assms t in \<open>auto simp: open_table_def\<close>)
qed

lemma open_table_fd:
  assumes "open_table es s" "i < length es"
  shows "fd_is s (of_nat i) (es ! i)"
proof -
  have i: "i < 64" using assms by (simp add: open_table_def)
  then have "unat (of_nat i :: i32) = i" "sint (of_nat i :: i32) = int i"
    by (intro unat_of_nat_u32 sint_W; simp)+
  then show ?thesis using assms i by (simp add: fd_is_def fd_invalid_def open_table_def nth_append)
qed

lemma open_table_add:
  assumes "open_table es s" "length es < 64" "fd_table s' = (fd_table s)[length es := W e]" "(W e :: u32) \<noteq> 0"
  shows "open_table (es @ [e]) s'"
proof -
  have "replicate (64 - length es) (0 :: u32) = 0 # replicate (64 - Suc (length es)) 0"
    using assms(2) by (simp add: Suc_diff_Suc [symmetric] del: Suc_diff_Suc)
  then show ?thesis using assms by (simp add: open_table_def list_update_append)
qed

lemma dir_lists_nodes:
  assumes L: "dir_lists N d xs" and F: "N f = Some (File fnp nm dp bs)" and E: "N e = Some (Fd n g pos fl)"
  shows "dir_lists (N(f \<mapsto> File fnp nm y bs', e \<mapsto> Fd n g pos' fl)) d xs"
proof -
  let ?M = "N(f \<mapsto> File fnp nm y bs', e \<mapsto> Fd n g pos' fl)"
  obtain np dnm par fa da ds where D: "N d = Some (Dir np dnm par fa (map snd xs) da ds)" using L by (auto simp: dir_lists_def)
  have ne: "f \<noteq> d" "e \<noteq> d" "e \<noteq> f" using D F E by auto
  have "\<exists>fnp dp bs. ?M h = Some (File fnp k dp bs)" if h: "(k, h) \<in> set xs" for k h
  proof -
    obtain fnp' dp' bs'' where h': "N h = Some (File fnp' k dp' bs'')" using L h by (fastforce simp: dir_lists_def)
    show ?thesis using h' F E ne by (cases "h = f") auto
  qed
  moreover have "?M d = Some (Dir np dnm par fa (map snd xs) da ds)" using D ne by simp
  ultimately show ?thesis unfolding dir_lists_def by blast
qed

lemma tree_ok_nodes:
  assumes "tree_ok N" "N f = Some (File fnp nm dp bs)" "N e = Some (Fd n g pos fl)"
  shows "tree_ok (N(f \<mapsto> File fnp nm y bs', e \<mapsto> Fd n g pos' fl))"
proof -
  let ?M = "N(f \<mapsto> File fnp nm y bs', e \<mapsto> Fd n g pos' fl)"
  have "files ?M = files N" "subdirs ?M = subdirs N"
    using assms(2,3) by (auto simp: files_def subdirs_def fun_eq_iff)
  moreover have "file_node N x \<Longrightarrow> file_node ?M x" "dir_in N a x \<Longrightarrow> dir_in ?M a x" for x a
    using assms(2,3) by (auto simp: file_node_def dir_in_def)
  ultimately show ?thesis using assms(1) unfolding tree_ok_def by simp
qed

lemma stdio_open_next:
  fixes s :: "'a fs_state_scheme"
  assumes S: "stdio_state m root xs s P N" and m: "k + 3 \<le> m" and n: "0 \<notin> set (bytes_of nm)" "length nm < 100"
    "slash \<notin> set (bytes_of nm)" "nm \<noteq> []" and f: "map_of xs (bytes_of nm) = Some f"
    and T: "open_table es s" "length es < 64"
  obtains e s' P' where "ramfs_open (W root) (lit nm) flags s = Some (of_nat (length es), s')" "N e = None"
    "stdio_state k root xs s' P' (N(e \<mapsto> Fd (length es) f 0 flags))" "open_table (es @ [e]) s'" "low_kept s s'"
proof -
  obtain e s' P' where o: "ramfs_open (W root) (lit nm) flags s = Some (of_nat (length es), s')" "N e = None" "(W e :: u32) \<noteq> 0"
    "stdio_state k root xs s' P' (N(e \<mapsto> Fd (length es) f 0 flags))" "fd_table s' = (fd_table s)[length es := W e]" "low_kept s s'"
    by (rule stdio_open [OF S m n f open_table_free [OF T]])
  with that open_table_add [OF T o(5,3)] show thesis by blast
qed

subsection \<open>The demonstration\<close>

definition stdio_message :: string where
  "stdio_message = ''Welcome to ShompOS. This message demonstrates read and write capabilities.'' @ nl"

lemma stdio_message: "0 \<notin> set (bytes_of stdio_message)" "length (bytes_of stdio_message) = 75" "length stdio_message = 75"
  by (simp_all add: stdio_message_def bytes_of_def)

lemma kernel_fd_table:
  fixes s s' :: "'a fs_state_scheme"
  assumes "heap_state.more s' = heap_state.more s"
  shows "fd_table s' = fd_table s"
  using assms by (cases s; cases s') simp

lemma seek_read_brk:
  "ramfs_seek fd off wh s = (r, s') \<Longrightarrow> current_brk s' = current_brk s"
  "ramfs_read_file fd buf count s = (r, s') \<Longrightarrow> current_brk s' = current_brk s"
  by (auto simp: ramfs_seek_def ramfs_read_file_def Let_def split: if_splits)

lemma stdio_demo:
  fixes s :: "'a kernel_state_scheme"
  assumes S: "stdio_state 12 root xs s P N" and T: "open_table es s" "length es = 4"
    and E: "N (es ! 3) = Some (Fd 3 f 0 (O_RDWR OR O_APPEND))" and F: "N f = Some (File fnp fnm dp [])"
    and b: "{b..<b + 80} \<subseteq> low_bytes s"
  obtains s1 s2 s3 s4 P' y where "ramfs_write 3 (lit stdio_message) 75 s = Some (75, s1)" "ramfs_seek 3 0 0 s1 = (0, s2)"
    "ramfs_read loc 3 (W b) 79 (s2\<lparr>mem := memset (mem s2) (W b) 0 80\<rparr>) = Some (75, s3)"
    "terminal_writestring (Mem (W b)) (s3\<lparr>mem := (mem s3)(W b + 75 := 0)\<rparr>) = Some s4"
    "cstr (mem s4) (Mem (W b)) (bytes_of stdio_message)" "open_table es s4"
    "fs_rel s4 P' (N(f \<mapsto> File fnp fnm y (bytes_of stdio_message), es ! 3 \<mapsto> Fd 3 f 75 (O_RDWR OR O_APPEND)))"
    "room 11 s4" "others_kept s s4"
proof -
  let ?fl = "O_RDWR OR O_APPEND" and ?dat = "bytes_of stdio_message" and ?e = "es ! 3"
  have R: "fs_rel s P N" "room 1 s" "room 12 s" using S room_mono [of 12 s 1] by (simp_all add: stdio_state_def)
  have V: "fd_is s 3 ?e" using open_table_fd [OF T(1), of 3] T(2) by simp
  have io: "(3 :: i32) \<noteq> STDOUT_FILENO" "(3 :: i32) \<noteq> STDERR_FILENO" "?fl AND 3 \<noteq> 0" "0 = write_pos ?fl 0 []" by (simp_all add: write_pos_def)
  have len: "0 + length ?dat \<le> 32759" "length ([] :: u8 list) \<le> 32759" by (simp_all add: stdio_message(3))
  have t: "text_at s (lit stdio_message) ?dat" by (rule text_at_lit [OF stdio_message(1)]) (simp add: stdio_message_def)
  note d = text_bytes [OF t]
  have ef: "?e \<noteq> f" using E F by auto
  obtain y junk P1 s1 where w: "ramfs_write 3 (lit stdio_message) (W (length ?dat)) s = Some (W (length ?dat), s1)"
    "fs_rel s1 P1 (N(f \<mapsto> File fnp fnm y (take 0 ([] @ junk) @ ?dat @ drop (0 + length ?dat) ([] @ junk)), ?e \<mapsto> Fd 3 f (0 + length ?dat) ?fl))"
    "length ([] :: u8 list) + length junk = max (length ([] :: u8 list)) (0 + length ?dat)"
    "quiet (heap_stable s (P(?e := None, f := None, dp := None))) s s1" "spends 1 s s1"
    by (rule ramfs_write_spec [OF R(1) V io(1,2) E F io(3,4) len R(2) d])
  let ?F = "File fnp fnm y ?dat"
  have w2: "fs_rel s1 P1 (N(f \<mapsto> ?F, ?e \<mapsto> Fd 3 f 75 ?fl))" using w(2,3) by (simp add: stdio_message(3))
  have V1: "fd_is s1 3 ?e" using V by (simp add: quiet_fd_is [OF w(4)])
  have "0 \<le> sint (0 :: i32)" by simp
  from ramfs_seek_spec [OF w2 V1 fun_upd_same this] obtain s2 where k: "ramfs_seek 3 0 0 s1 = (0, s2)" "fs_rel s2 P1 (N(f \<mapsto> ?F, ?e \<mapsto> Fd 3 f 0 ?fl))"
    "quiet (heap_stable s1 (P1(?e := None))) s1 s2"
    unfolding fun_upd_upd unat_0 by blast
  let ?N2 = "N(f \<mapsto> ?F, ?e \<mapsto> Fd 3 f 0 ?fl)"
  have L2: "low_bytes s2 = low_bytes s" using quiet_low [OF w(4)] quiet_low [OF k(3)] by simp
  have "b + 79 \<in> low_bytes s" using b by auto
  then have b32: "b + 80 < 2 ^ 32" by (simp add: low_bytes_def heap_base_def)
  let ?m2 = "memset (mem s2) (W b) 0 80"
  let ?t2 = "s2\<lparr>mem := ?m2\<rparr>"
  have "?m2 = wr_bytes (mem s2) (W b) (replicate 80 0)" by (simp add: memset_wr_bytes)
  then have S2: "same_on (- {b..<b + 80}) (mem s2) ?m2" using same_on_wr_bytes [of b "replicate 80 (0 :: u8)"] b32 by simp
  have o2: "{b..<b + 80} \<subseteq> heap_stable s2 P1" "{b..<b + 80} \<inter> extent P1 (owned foot ?N2) = {}"
    using b low_stable [of s2 P1] low_apart [OF k(2)] unfolding L2 by blast+
  have R2: "fs_rel ?t2 P1 ?N2" by (rule fs_put_outside [OF k(2) S2 o2])
  have "fd_is s2 3 ?e" using V1 by (simp add: quiet_fd_is [OF k(3)])
  then have V2: "fd_is ?t2 3 ?e" by (auto simp: fd_is_def fd_invalid_def)
  have E2: "?N2 ?e = Some (Fd 3 f 0 ?fl)" and F2: "?N2 f = Some ?F" using ef by simp_all
  have kk: "75 = min (unat (79 :: u32)) (length ?dat - 0)" "0 \<le> length ?dat" by (simp_all add: stdio_message(3))
  have o3: "{b..<b + 75} \<subseteq> heap_stable ?t2 P1" "{b..<b + 75} \<inter> extent P1 (owned foot ?N2) = {}" "b + 75 \<le> 2 ^ 32"
  proof -
    have "{b..<b + 75} \<subseteq> {b..<b + 80}" "heap_stable ?t2 P1 = heap_stable s2 P1" by (auto simp: heap_stable_def)
    with o2 b32 show "{b..<b + 75} \<subseteq> heap_stable ?t2 P1" "{b..<b + 75} \<inter> extent P1 (owned foot ?N2) = {}" "b + 75 \<le> 2 ^ 32"
      by (blast, blast, simp)
  qed
  obtain s3 where r: "ramfs_read_file 3 (W b) 79 ?t2 = (W 75, s3)" "rd_bytes (mem s3) (W b) 75 = take 75 (drop 0 ?dat)"
    "fs_rel s3 P1 (?N2(?e \<mapsto> Fd 3 f (0 + 75) ?fl))" "quiet (heap_stable ?t2 (P1(?e := None)) - {b..<b + 75}) ?t2 s3"
    by (rule ramfs_read_spec [OF R2 V2 E2 F2 io(3) kk(2,1) o3])
  have rd: "ramfs_read loc 3 (W b) 79 ?t2 = Some (75, s3)" using V2 r(1) by (simp add: ramfs_read_def fd_is_def)
  let ?m3 = "(mem s3)(W b + 75 := 0)"
  let ?t3 = "s3\<lparr>mem := ?m3\<rparr>"
  have b75: "W b + 75 = (W (b + 75) :: u32)" by simp
  have L3: "low_bytes s3 = low_bytes s" using quiet_low [OF r(4)] L2 by (simp add: low_bytes_def)
  have S3: "same_on (- {b + 75}) (mem s3) ?m3" unfolding b75 by (rule same_on_upd) (use b32 in simp_all)
  have "{b + 75} \<subseteq> low_bytes s3" using b unfolding L3 by auto
  then have o4: "{b + 75} \<subseteq> heap_stable s3 P1" "{b + 75} \<inter> extent P1 (owned foot (?N2(?e \<mapsto> Fd 3 f (0 + 75) ?fl))) = {}"
    using low_stable [of s3 P1] low_apart [OF r(3)] by blast+
  have R3: "fs_rel ?t3 P1 (?N2(?e \<mapsto> Fd 3 f 75 ?fl))" using fs_put_outside [OF r(3) S3 o4] by simp
  have c3: "cstr (mem ?t3) (Mem (W b)) ?dat"
  proof (rule cstr_rd_bytes [OF stdio_message(1)])
    have "same_on {b..<b + 75} (mem s3) ?m3" unfolding b75 by (rule same_on_upd) (use b32 in simp_all)
    then have "rd_bytes ?m3 (W b) 75 = ?dat" using rd_bytes_same_on [of "{b..<b + 75}" "mem s3" ?m3 b 75] r(2) b32
      by (simp add: stdio_message)
    then show "rd_bytes (mem ?t3) (W b) (Suc (length ?dat)) = ?dat @ [0]"
      unfolding rd_bytes_Suc stdio_message(2) by simp
  qed
  from terminal_writestring_cstr [OF this] obtain s4 where t4: "terminal_writestring (Mem (W b)) ?t3 = Some s4"
    using stdio_message(3) by auto
  note h = term_frame_heap [OF term_frame_writestring [OF t4]]
  have ft: "fd_table s4 = fd_table s"
    using kernel_fd_table [OF h(4)] quiet_fd_table [OF w(4)] quiet_fd_table [OF k(3)] quiet_fd_table [OF r(4)] by simp
  have "room 11 s1" by (rule room_spends [OF w(5) R(3)]) simp
  then have rm: "room 11 s4" using seek_read_brk(1) [OF k(1)] seek_read_brk(2) [OF r(1)] by (simp add: h(3) room_def)
  have "others_kept s s1" "others_kept s1 s2" "others_kept s2 s3" using quiet_others [OF w(4)] quiet_others [OF k(3)] quiet_others [OF r(4)] by simp_all
  moreover have "others_kept s3 s4" using heap_frame_others [OF heap_frame_term [OF term_frame_writestring [OF t4]]] by simp
  ultimately have ok: "others_kept s s4" using others_kept_trans by blast
  show thesis
  proof (rule that [OF _ k(1) rd t4 _ _ _ rm ok])
    show "ramfs_write 3 (lit stdio_message) 75 s = Some (75, s1)" using w(1) by (simp add: stdio_message(3))
    show "cstr (mem s4) (Mem (W b)) ?dat" using c3 by (simp add: h(1))
    show "open_table es s4" using T(1) by (simp add: open_table_def ft)
    show "fs_rel s4 P1 (N(f \<mapsto> ?F, ?e \<mapsto> Fd 3 f 75 ?fl))" using R3 by (simp add: h(5))
  qed
qed

subsection \<open>The property\<close>

lemma stdio_names:
  "nm \<in> {''stdin'', ''stdout'', ''stderr'', ''FD-test''} \<Longrightarrow>
     0 \<notin> set (bytes_of nm) \<and> length nm < 100 \<and> slash \<notin> set (bytes_of nm) \<and> nm \<noteq> []"
  by (auto simp: bytes_of_def)

lemma stdio_distinct:
  "distinct [bytes_of ''stdin'', bytes_of ''stdout'', bytes_of ''stderr'', bytes_of ''FD-test'']"
  "distinct [bytes_of ''FD-test'', bytes_of ''stderr'', bytes_of ''stdout'', bytes_of ''stdin'']"
  by (simp_all add: bytes_of_def)

lemma low_kept_table: "low_kept s s' \<Longrightarrow> {b..<b + 80} \<subseteq> low_bytes s \<Longrightarrow> {b..<b + 80} \<subseteq> low_bytes s'"
  using others_kept_low by (auto simp: low_kept_def)

lemma stdio_three:
  fixes s :: "'a fs_state_scheme"
  assumes S: "stdio_state 40 root xs s P N" and x: "length xs < 900"
    and new: "\<forall>nm\<in>{''stdin'', ''stdout'', ''stderr'', ''FD-test''}. map_of xs (bytes_of nm) = None"
  obtains f1 f2 f3 s1 s2 s3 P' N' ys where
    "ramfs_create_file (W root) (lit ''stdin'') (lit []) 0 s = Some (W f1, s1)" "(W f1 :: u32) \<noteq> 0"
    "ramfs_create_file (W root) (lit ''stdout'') (lit []) 0 s1 = Some (W f2, s2)" "(W f2 :: u32) \<noteq> 0"
    "ramfs_create_file (W root) (lit ''stderr'') (lit []) 0 s2 = Some (W f3, s3)" "(W f3 :: u32) \<noteq> 0"
    "stdio_state 28 root ys s3 P' N'" "length ys < 903" "fd_table s3 = fd_table s" "low_kept s s3"
    "map_of ys (bytes_of ''stdin'') = Some f1" "map_of ys (bytes_of ''stdout'') = Some f2" "map_of ys (bytes_of ''stderr'') = Some f3"
    "map_of ys (bytes_of ''FD-test'') = None"
proof -
  let ?in = "bytes_of ''stdin''" and ?out = "bytes_of ''stdout''" and ?err = "bytes_of ''stderr''"
  note nm = stdio_names [of "''stdin''", simplified] stdio_names [of "''stdout''", simplified] stdio_names [of "''stderr''", simplified]
  obtain f1 p1 d1 s1 P1 N1 where c1: "ramfs_create_file (W root) (lit ''stdin'') (lit []) 0 s = Some (W f1, s1)" "(W f1 :: u32) \<noteq> 0"
    "stdio_state 36 root (xs @ [(?in, f1)]) s1 P1 N1" "fd_table s1 = fd_table s" "low_kept s s1"
    by (rule stdio_create [OF S, of 36 "''stdin''"]) (use nm x in simp_all)
  obtain f2 p2 d2 s2 P2 N2 where c2: "ramfs_create_file (W root) (lit ''stdout'') (lit []) 0 s1 = Some (W f2, s2)" "(W f2 :: u32) \<noteq> 0"
    "stdio_state 32 root ((xs @ [(?in, f1)]) @ [(?out, f2)]) s2 P2 N2" "fd_table s2 = fd_table s1" "low_kept s1 s2"
    by (rule stdio_create [OF c1(3), of 32 "''stdout''"]) (use nm x in simp_all)
  obtain f3 p3 d3 s3 P3 N3 where c3: "ramfs_create_file (W root) (lit ''stderr'') (lit []) 0 s2 = Some (W f3, s3)" "(W f3 :: u32) \<noteq> 0"
    "stdio_state 28 root (((xs @ [(?in, f1)]) @ [(?out, f2)]) @ [(?err, f3)]) s3 P3 N3" "fd_table s3 = fd_table s2" "low_kept s2 s3"
    by (rule stdio_create [OF c2(3), of 28 "''stderr''"]) (use nm x in simp_all)
  have L: "low_kept s s3" using c1(5) c2(5) c3(5) low_kept_trans by blast
  show thesis
    by (rule that [OF c1(1,2) c2(1,2) c3(1-3) _ _ L])
      (use x new stdio_distinct c1(4) c2(4) c3(4) in \<open>simp_all add: map_add_def\<close>)
qed

lemma stdio_opened:
  fixes s :: "'a fs_state_scheme"
  assumes S: "stdio_state 28 root ys s P N" and y: "length ys < 903" and T: "open_table [] s"
    and m: "map_of ys (bytes_of ''stdin'') = Some f1" "map_of ys (bytes_of ''stdout'') = Some f2" "map_of ys (bytes_of ''stderr'') = Some f3"
      "map_of ys (bytes_of ''FD-test'') = None"
  obtains f4 s1 s2 s3 s4 s5 P' N' zs es fnp dp where
    "ramfs_open (W root) (lit ''stdin'') 7 s = Some (0, s1)" "ramfs_open (W root) (lit ''stdout'') 2 s1 = Some (1, s2)"
    "ramfs_open (W root) (lit ''stderr'') 2 s2 = Some (2, s3)"
    "ramfs_create_file (W root) (lit ''FD-test'') (lit []) 0 s3 = Some (W f4, s4)"
    "ramfs_open (W root) (lit ''FD-test'') 7 s4 = Some (3, s5)"
    "stdio_state 12 root zs s5 P' N'" "open_table es s5" "length es = 4" "low_kept s s5"
    "map_of zs (bytes_of ''stdin'') = Some f1" "map_of zs (bytes_of ''stdout'') = Some f2" "map_of zs (bytes_of ''stderr'') = Some f3"
    "map_of zs (bytes_of ''FD-test'') = Some f4" "N' f4 = Some (File fnp (bytes_of ''FD-test'') dp [])"
    "N' (es ! 0) = Some (Fd 0 f1 0 7)" "N' (es ! 1) = Some (Fd 1 f2 0 2)" "N' (es ! 2) = Some (Fd 2 f3 0 2)" "N' (es ! 3) = Some (Fd 3 f4 0 7)"
proof -
  let ?tst = "bytes_of ''FD-test''"
  note nm = stdio_names [of "''stdin''", simplified] stdio_names [of "''stdout''", simplified] stdio_names [of "''stderr''", simplified]
    stdio_names [of "''FD-test''", simplified]
  obtain e0 s1 P1 where o0: "ramfs_open (W root) (lit ''stdin'') 7 s = Some (of_nat (length ([] :: nat list)), s1)" "N e0 = None"
    "stdio_state 25 root ys s1 P1 (N(e0 \<mapsto> Fd (length ([] :: nat list)) f1 0 7))" "open_table ([] @ [e0]) s1" "low_kept s s1"
    by (rule stdio_open_next [OF S _ _ _ _ _ m(1) T, where k = 25 and flags = 7]) (use nm in simp_all)
  let ?N1 = "N(e0 \<mapsto> Fd 0 f1 0 7)"
  have s1: "stdio_state 25 root ys s1 P1 ?N1" "open_table [e0] s1" using o0(3,4) by simp_all
  obtain e1 s2 P2 where o1: "ramfs_open (W root) (lit ''stdout'') 2 s1 = Some (of_nat (length [e0]), s2)" "?N1 e1 = None"
    "stdio_state 22 root ys s2 P2 (?N1(e1 \<mapsto> Fd (length [e0]) f2 0 2))" "open_table ([e0] @ [e1]) s2" "low_kept s1 s2"
    by (rule stdio_open_next [OF s1(1) _ _ _ _ _ m(2) s1(2), where k = 22 and flags = 2]) (use nm in simp_all)
  let ?N2 = "?N1(e1 \<mapsto> Fd 1 f2 0 2)"
  have s2: "stdio_state 22 root ys s2 P2 ?N2" "open_table [e0, e1] s2" using o1(3,4) by simp_all
  obtain e2 s3 P3 where o2: "ramfs_open (W root) (lit ''stderr'') 2 s2 = Some (of_nat (length [e0, e1]), s3)" "?N2 e2 = None"
    "stdio_state 19 root ys s3 P3 (?N2(e2 \<mapsto> Fd (length [e0, e1]) f3 0 2))" "open_table ([e0, e1] @ [e2]) s3" "low_kept s2 s3"
    by (rule stdio_open_next [OF s2(1) _ _ _ _ _ m(3) s2(2), where k = 19 and flags = 2]) (use nm in simp_all)
  let ?N3 = "?N2(e2 \<mapsto> Fd 2 f3 0 2)"
  have s3: "stdio_state 19 root ys s3 P3 ?N3" "open_table [e0, e1, e2] s3" using o2(3,4) by (simp_all add: numeral_2_eq_2)
  obtain f4 fnp dp s4 P4 N4 where c4: "ramfs_create_file (W root) (lit ''FD-test'') (lit []) 0 s3 = Some (W f4, s4)"
    "stdio_state 15 root (ys @ [(?tst, f4)]) s4 P4 N4" "fd_table s4 = fd_table s3" "low_kept s3 s4"
    "\<forall>x z. x \<noteq> root \<longrightarrow> ?N3 x = Some z \<longrightarrow> N4 x = Some z" "N4 f4 = Some (File fnp ?tst dp [])"
    by (rule stdio_create [OF s3(1), where k = 15 and nm = "''FD-test''"]) (use nm y in simp_all)
  define zs where "zs = ys @ [(?tst, f4)]"
  have z: "map_of zs (bytes_of ''stdin'') = Some f1" "map_of zs (bytes_of ''stdout'') = Some f2" "map_of zs (bytes_of ''stderr'') = Some f3"
    "map_of zs ?tst = Some f4"
    using m stdio_distinct by (simp_all add: zs_def map_add_def)
  have s4: "stdio_state 15 root zs s4 P4 N4" "open_table [e0, e1, e2] s4"
    using c4(2,3) s3(2) by (simp_all add: zs_def open_table_def)
  obtain e3 s5 P5 where o3: "ramfs_open (W root) (lit ''FD-test'') 7 s4 = Some (of_nat (length [e0, e1, e2]), s5)" "N4 e3 = None"
    "stdio_state 12 root zs s5 P5 (N4(e3 \<mapsto> Fd (length [e0, e1, e2]) f4 0 7))" "open_table ([e0, e1, e2] @ [e3]) s5" "low_kept s4 s5"
    by (rule stdio_open_next [OF s4(1) _ _ _ _ _ z(4) s4(2), where k = 12 and flags = 7]) (use nm in simp_all)
  let ?N5 = "N4(e3 \<mapsto> Fd 3 f4 0 7)"
  have s5: "stdio_state 12 root zs s5 P5 ?N5" "open_table [e0, e1, e2, e3] s5"
    using o3(3,4) by (simp_all add: numeral_3_eq_3)
  have L: "low_kept s s5" using o0(5) o1(5) o2(5) c4(4) o3(5) low_kept_trans by blast
  have "N root \<noteq> None" using S by (auto simp: stdio_state_def dir_lists_def)
  then have rt: "root \<notin> {e0, e1, e2}" using o0(2) o1(2) o2(2) by (auto split: if_splits)
  have ne: "e1 \<noteq> e0" "e2 \<noteq> e0" "e2 \<noteq> e1" "e3 \<noteq> f4" using o1(2) o2(2) o3(2) c4(6) by (auto split: if_splits)
  have k4: "N4 e0 = Some (Fd 0 f1 0 7)" "N4 e1 = Some (Fd 1 f2 0 2)" "N4 e2 = Some (Fd 2 f3 0 2)"
    using c4(5) rt ne by auto
  then have ne3: "e3 \<notin> {e0, e1, e2}" using o3(2) by auto
  show thesis
    by (rule that [where es = "[e0, e1, e2, e3]" and N' = ?N5, OF _ _ _ c4(1) _ s5(1,2) _ L z])
      (use o0(1) o1(1) o2(1) o3(1) ne ne3 k4 c4(6) in \<open>auto simp: numeral_2_eq_2 numeral_3_eq_3\<close>)
qed

lemma init_stdio_spec:
  fixes s :: "'a kernel_state_scheme"
  assumes "fs_rel s P N" "tree_ok N" "dir_lists N root xs" "room 40 s" "length xs < 900" "fd_table s = replicate MAX_FDS 0"
    and "\<forall>nm\<in>{''stdin'', ''stdout'', ''stderr'', ''FD-test''}. map_of xs (bytes_of nm) = None" "{b..<b + 80} \<subseteq> low_bytes s"
  shows "\<exists>s' P' N' es. init_stdio loc (of_nat b) (of_nat root) s = Some (0, s') \<and> fs_rel s' P' N' \<and> tree_ok N' \<and>
    open_table es s' \<and> length es = 4 \<and> cstr (mem s') (Mem (of_nat b)) (bytes_of stdio_message) \<and>
    (\<forall>(i, nm, fl)\<in>set [(0, ''stdin'', O_RDWR OR O_APPEND), (1, ''stdout'', O_WRONLY), (2, ''stderr'', O_WRONLY),
        (3, ''FD-test'', O_RDWR OR O_APPEND)].
      \<exists>f pos. file_in N' root (bytes_of nm) = Some f \<and> N' (es ! i) = Some (Fd i f pos fl)) \<and>
    is_dir N' root \<and> room 11 s' \<and> others_kept s s'"
proof -
  have S0: "stdio_state 40 root xs s P N" using assms(1-4) by (simp add: stdio_state_def)
  obtain f1 f2 f3 s1 s2 s3 P3 N3 ys where c:
    "ramfs_create_file (W root) (lit ''stdin'') (lit []) 0 s = Some (W f1, s1)" "(W f1 :: u32) \<noteq> 0"
    "ramfs_create_file (W root) (lit ''stdout'') (lit []) 0 s1 = Some (W f2, s2)" "(W f2 :: u32) \<noteq> 0"
    "ramfs_create_file (W root) (lit ''stderr'') (lit []) 0 s2 = Some (W f3, s3)" "(W f3 :: u32) \<noteq> 0"
    "stdio_state 28 root ys s3 P3 N3" "length ys < 903" "fd_table s3 = fd_table s" "low_kept s s3"
    "map_of ys (bytes_of ''stdin'') = Some f1" "map_of ys (bytes_of ''stdout'') = Some f2" "map_of ys (bytes_of ''stderr'') = Some f3"
    "map_of ys (bytes_of ''FD-test'') = None"
    by (rule stdio_three [OF S0 assms(5,7)])
  have T3: "open_table [] s3" using assms(6) c(9) by (simp add: open_table_def)
  obtain f4 t1 t2 t3 t4 t5 P5 N5 zs es fnp dp where o:
    "ramfs_open (W root) (lit ''stdin'') 7 s3 = Some (0, t1)" "ramfs_open (W root) (lit ''stdout'') 2 t1 = Some (1, t2)"
    "ramfs_open (W root) (lit ''stderr'') 2 t2 = Some (2, t3)"
    "ramfs_create_file (W root) (lit ''FD-test'') (lit []) 0 t3 = Some (W f4, t4)"
    "ramfs_open (W root) (lit ''FD-test'') 7 t4 = Some (3, t5)"
    "stdio_state 12 root zs t5 P5 N5" "open_table es t5" "length es = 4" "low_kept s3 t5"
    "map_of zs (bytes_of ''stdin'') = Some f1" "map_of zs (bytes_of ''stdout'') = Some f2" "map_of zs (bytes_of ''stderr'') = Some f3"
    "map_of zs (bytes_of ''FD-test'') = Some f4" "N5 f4 = Some (File fnp (bytes_of ''FD-test'') dp [])"
    "N5 (es ! 0) = Some (Fd 0 f1 0 7)" "N5 (es ! 1) = Some (Fd 1 f2 0 2)" "N5 (es ! 2) = Some (Fd 2 f3 0 2)" "N5 (es ! 3) = Some (Fd 3 f4 0 7)"
    by (rule stdio_opened [OF c(7,8) T3 c(11-14)])
  have b: "{b..<b + 80} \<subseteq> low_bytes t5" by (rule low_kept_table [OF o(9) low_kept_table [OF c(10) assms(8)]])
  have E: "N5 (es ! 3) = Some (Fd 3 f4 0 (O_RDWR OR O_APPEND))" using o(18) by simp
  obtain u1 u2 u3 u4 P' y where d: "ramfs_write 3 (lit stdio_message) 75 t5 = Some (75, u1)" "ramfs_seek 3 0 0 u1 = (0, u2)"
    "ramfs_read loc 3 (W b) 79 (u2\<lparr>mem := memset (mem u2) (W b) 0 80\<rparr>) = Some (75, u3)"
    "terminal_writestring (Mem (W b)) (u3\<lparr>mem := (mem u3)(W b + 75 := 0)\<rparr>) = Some u4"
    "cstr (mem u4) (Mem (W b)) (bytes_of stdio_message)" "open_table es u4"
    "fs_rel u4 P' (N5(f4 \<mapsto> File fnp (bytes_of ''FD-test'') y (bytes_of stdio_message), es ! 3 \<mapsto> Fd 3 f4 75 (O_RDWR OR O_APPEND)))"
    "room 11 u4" "others_kept t5 u4"
    by (rule stdio_demo [OF o(6-8) E o(14) b])
  let ?N = "N5(f4 \<mapsto> File fnp (bytes_of ''FD-test'') y (bytes_of stdio_message), es ! 3 \<mapsto> Fd 3 f4 75 (O_RDWR OR O_APPEND))"
  have "strlen (mem t5) (lit stdio_message) = Some 75"
    using strlen_cstr [OF cstr_lit [OF stdio_message(1)], of "mem t5"] by (simp add: stdio_message(3))
  then have run: "init_stdio loc (W b) (W root) s = Some (0, u4)"
    using c(2,4,6) unfolding init_stdio_def Let_def stdio_message_def [symmetric]
    by (simp add: c(1,3,5) o(1-5) d(1-4))
  have T: "tree_ok ?N" by (rule tree_ok_nodes [OF _ o(14) E]) (use o(6) in \<open>simp add: stdio_state_def\<close>)
  have z: "dir_lists N5 root zs" using o(6) by (simp add: stdio_state_def)
  then have zN: "dir_lists ?N root zs" by (rule dir_lists_nodes [OF _ o(14) E])
  note look = file_in_lists [OF this]
  have D: "is_dir ?N root" using zN unfolding dir_lists_def is_dir_def by blast
  have "others_kept s s3" "others_kept s3 t5" using c(10) o(9) by (simp_all add: low_kept_def)
  with d(9) have ok: "others_kept s u4" using others_kept_trans by blast
  have "\<forall>(i, nm, fl)\<in>set [(0, ''stdin'', O_RDWR OR O_APPEND), (1, ''stdout'', O_WRONLY), (2, ''stderr'', O_WRONLY),
        (3, ''FD-test'', O_RDWR OR O_APPEND)].
      \<exists>f pos. file_in ?N root (bytes_of nm) = Some f \<and> ?N (es ! i) = Some (Fd i f pos fl)"
  proof -
    have ne: "es ! 3 \<notin> {es ! 0, es ! 1, es ! 2}" "f4 \<notin> {es ! 0, es ! 1, es ! 2}" using o(14-18) by auto
    then have "?N (es ! 0) = Some (Fd 0 f1 0 7)" "?N (es ! 1) = Some (Fd 1 f2 0 2)" "?N (es ! 2) = Some (Fd 2 f3 0 2)"
      "?N (es ! 3) = Some (Fd 3 f4 75 7)" using o(15-17) by auto
    then show ?thesis unfolding look by (simp add: o(10-13))
  qed
  with run d(5-8) T o(8) D ok show ?thesis by blast
qed

text \<open>
  C38: \<open>init_stdio\<close>, on a well-formed file system with an empty descriptor table whose root has
  none of the names yet, returns 0: the root then has files \<open>stdin\<close>, \<open>stdout\<close>, \<open>stderr\<close> and
  \<open>FD-test\<close>, open as the descriptors 0, 1, 2 and 3 with the flags the code asks for, the message
  written through descriptor 3 has been read back into the buffer as a terminated string (and
  printed), and the file system is well-formed.
\<close>

theorem init_stdio_opens_files:
  fixes s :: "'a kernel_state_scheme"
  assumes "fs_rel s P N" "tree_ok N" "dir_lists N root xs" "room 40 s" "length xs < 900" "fd_table s = replicate MAX_FDS 0"
    and "\<forall>nm\<in>{''stdin'', ''stdout'', ''stderr'', ''FD-test''}. map_of xs (bytes_of nm) = None" "{b..<b + 80} \<subseteq> low_bytes s"
  shows "\<exists>s' P' N' es. init_stdio loc (of_nat b) (of_nat root) s = Some (0, s') \<and> fs_rel s' P' N' \<and> tree_ok N' \<and>
    open_table es s' \<and> length es = 4 \<and> cstr (mem s') (Mem (of_nat b)) (bytes_of stdio_message) \<and>
    (\<forall>(i, nm, fl)\<in>set [(0, ''stdin'', O_RDWR OR O_APPEND), (1, ''stdout'', O_WRONLY), (2, ''stderr'', O_WRONLY),
        (3, ''FD-test'', O_RDWR OR O_APPEND)].
      \<exists>f pos. file_in N' root (bytes_of nm) = Some f \<and> N' (es ! i) = Some (Fd i f pos fl))"
  using init_stdio_spec [OF assms, of loc] by blast

lemma init_stdio_opens_files_witness:
  "\<exists>(s :: kernel_state) root s'. init_stdio 0x3000 (of_nat 0x1000) root s = Some (0, s') \<and>
     cstr (mem s') (Mem (of_nat 0x1000)) (bytes_of stdio_message)"
proof -
  obtain s :: kernel_state and P d np where s: "fs_rel s P [d \<mapsto> root_node np]" "room 90 s" "free_list s = 0x100000"
    "fd_table s = replicate MAX_FDS 0" using boot_root by blast
  let ?N = "[d \<mapsto> root_node np]"
  have L: "dir_lists ?N d []" by (simp add: dir_lists_def)
  have r: "room 40 s" by (rule room_mono [OF s(2)]) simp
  have x: "length ([] :: (u8 list \<times> nat) list) < 900"
    "\<forall>nm\<in>{''stdin'', ''stdout'', ''stderr'', ''FD-test''}. map_of ([] :: (u8 list \<times> nat) list) (bytes_of nm) = None" by simp_all
  have b: "{0x1000..<0x1000 + 80} \<subseteq> low_bytes s" using s(3) by (auto simp: low_bytes_def heap_base_def)
  from init_stdio_opens_files [OF s(1) tree_ok_root(1) L r x(1) s(4) x(2) b, of "0x3000"] show ?thesis by blast
qed

end
