(* ===== verification/Kernel.thy ===== *)
theory Kernel
  imports Keyboard
begin

section \<open>Kernel: interrupts, devices, the sample processes and the boot (kernel/kernel.c, syscalls/syscalls.c)\<close>

text \<open>
  The set-up of the interrupt table, the interrupt controllers and the timer as recorded
  port accesses; one round of each sample process's endless loop (the counting loops that
  only pass time are left out); and \<open>kernel_main\<close> up to its final endless loop.
  Addresses that the linker decides are in the record \<open>link_map\<close>.
\<close>

record link_map =
  isr_stub_table :: "u32 list"
  syscall_handler :: u32
  keyboard_handler :: u32
  clock_handler :: u32
  IDT_addr :: u32
  terminal_backstop_addr :: u32
  sample2_addr :: u32
  sample3_addr :: u32
  test_jump_addr :: u32

abbreviation (input) "IDT_SIZE \<equiv> 0x100 :: nat"
abbreviation (input) "EXCEPTIONS_SIZE \<equiv> 0x20 :: nat"
abbreviation (input) "KERNEL_CODE_SEGMENT_OFFSET \<equiv> 8 :: u16"
abbreviation (input) "IDT_INTERRUPT_GATE_32BIT \<equiv> 0x8E :: u8"
abbreviation (input) "IDT_TRAP_GATE_32BIT \<equiv> 0x8F :: u8"
abbreviation (input) "PIT_CHANNEL_0_DATA_PORT \<equiv> 0x40 :: u16"
abbreviation (input) "PIT_COMMAND_MODE_PORT \<equiv> 0x43 :: u16"
abbreviation (input) "PIT_DIVISOR \<equiv> 0xFFF :: u32"

subsection \<open>Interrupt table, controllers and timer\<close>

definition idt_set_descriptor :: "u8 \<Rightarrow> u32 \<Rightarrow> u8 \<Rightarrow> 'a kernel_state_scheme \<Rightarrow> 'a kernel_state_scheme" where
  "idt_set_descriptor interrupt_num offset flags s =
     s\<lparr>IDT := (IDT s)[unat interrupt_num := \<lparr>offset_lowerbits = ucast (offset AND 0xFFFF),
       selector = KERNEL_CODE_SEGMENT_OFFSET, zero = 0, type_attr = flags,
       offset_upperbits = ucast (drop_bit 16 (offset AND 0xFFFF0000))\<rparr>]\<rparr>"

definition init_idt :: "link_map \<Rightarrow> 'a kernel_state_scheme \<Rightarrow> 'a kernel_state_scheme" where
  "init_idt l s =
     (let s = fold (\<lambda>i s. idt_set_descriptor (of_nat i) (isr_stub_table l ! i) IDT_TRAP_GATE_32BIT s)
            [0..<EXCEPTIONS_SIZE] s;
          s = idt_set_descriptor 0x80 (syscall_handler l) IDT_INTERRUPT_GATE_32BIT s;
          s = idt_set_descriptor 0x21 (keyboard_handler l) IDT_INTERRUPT_GATE_32BIT s;
          s = idt_set_descriptor 0x20 (clock_handler l) IDT_TRAP_GATE_32BIT s;
          s = fold (\<lambda>(p, b). ioport_out p b)
            [(PIC1_COMMAND_PORT, 0x11), (PIC2_COMMAND_PORT, 0x11), (PIC1_DATA_PORT, 0x20), (PIC2_DATA_PORT, 0x28),
             (PIC1_DATA_PORT, 4), (PIC2_DATA_PORT, 2), (PIC1_DATA_PORT, 1), (PIC2_DATA_PORT, 1),
             (PIC1_DATA_PORT, 0xFF), (PIC2_DATA_PORT, 0xFF)] s
      in s\<lparr>IDTR := \<lparr>limit = 8 * 0x100 - 1, base = IDT_addr l\<rparr>\<rparr>)"

definition init_kb :: "'a kernel_state_scheme \<Rightarrow> 'a kernel_state_scheme" where
  "init_kb s = ioport_out PIC1_DATA_PORT 0xFD s"

definition init_pit :: "u32 \<Rightarrow> 'a kernel_state_scheme \<Rightarrow> 'a kernel_state_scheme" where
  "init_pit divisor s =
     (let s = ioport_out PIT_COMMAND_MODE_PORT 0x36 s;
          s = ioport_out PIT_CHANNEL_0_DATA_PORT (ucast (divisor AND 0xFF)) s;
          s = ioport_out PIT_CHANNEL_0_DATA_PORT (ucast (drop_bit 8 divisor AND 0xFF)) s;
          (b, s) = ioport_in PIC1_DATA_PORT s
      in ioport_out PIC1_DATA_PORT (b AND NOT 1) s)"

definition enable_interrupts :: "'a kernel_state_scheme \<Rightarrow> 'a kernel_state_scheme" where
  "enable_interrupts s = s\<lparr>IF := True\<rparr>"

definition handle_clock_interrupt :: "'a kernel_state_scheme \<Rightarrow> 'a kernel_state_scheme" where
  "handle_clock_interrupt s = switch_process_from_queue (ioport_out PIC1_COMMAND_PORT 0x20 s)"

text \<open>An exception stops the machine: after the message no state follows, which the result says.\<close>

datatype 'a outcome = Returns 'a | Halted 'a

definition kill_process_exception :: "'a kernel_state_scheme \<Rightarrow> 'a kernel_state_scheme outcome" where
  "kill_process_exception s = Halted (s\<lparr>IF := False\<rparr>)"

definition exception_handler :: "'a kernel_state_scheme \<Rightarrow> 'a kernel_state_scheme outcome option" where
  "exception_handler s = do {
     s \<leftarrow> terminal_writestring (lit ''Exception!'') s;
     Some (kill_process_exception s) }"

definition handle_div_by_zero :: "'a term_state_scheme \<Rightarrow> 'a term_state_scheme option" where
  "handle_div_by_zero s = terminal_writestring (lit ''Div by zero!'') s"

definition syscall_exit :: "i32 \<Rightarrow> 'a term_state_scheme \<Rightarrow> 'a term_state_scheme option" where
  "syscall_exit error_code s = do {
     s \<leftarrow> terminal_writestring (lit ''exiting!'') s;
     terminal_writestring (Lit [ucast error_code + 48] 0) s }"

subsection \<open>Sample processes\<close>

definition sample_round :: "u8 \<times> u8 \<times> 'a term_state_scheme \<Rightarrow> u8 \<times> u8 \<times> 'a term_state_scheme" where
  "sample_round = (\<lambda>(row, col, s).
     let color = vga_entry_color VGA_COLOR_LIGHT_RED VGA_COLOR_BLACK; buf = bytes_of ''text'';
         s = fold (\<lambda>i s. terminal_putentryat (of_char CHR '' '') color (of_nat i) (ucast row) s) [0..<29] s;
         s = fold (\<lambda>i s. terminal_putentryat (buf ! i) color (of_nat i + ucast col) (ucast row) s) [0..<4] s;
         row = row + 1
     in if row = 25 then (0, if col + 1 = 25 then 0 else col + 1, s) else (row, col, s))"

text \<open>\<open>buf\<close> is the address of the local buffer of five bytes.\<close>

definition sample2_round :: "u32 \<Rightarrow> u8 \<times> u8 \<times> 'a term_state_scheme \<Rightarrow> u8 \<times> u8 \<times> 'a term_state_scheme" where
  "sample2_round buf = (\<lambda>(color, row, s).
     let s = s\<lparr>mem := addr_to_string buf (ucast color) (mem s)\<rparr>;
         s = fold (\<lambda>i s. terminal_putentryat (mem s (buf + of_nat (4 - i))) color (VGA_WIDTH - of_nat i) (ucast row) s)
           [4, 3, 2, 1] s;
         row = row + 1
     in (color + 1, if row = 25 then 0 else row, s))"

definition sample3_round :: "u8 \<times> u8 \<times> 'a term_state_scheme \<Rightarrow> u8 \<times> u8 \<times> 'a term_state_scheme" where
  "sample3_round = (\<lambda>(color, row, s).
     let buf = bytes_of ''       '' @ [0];
         s = fold (\<lambda>i s. terminal_putentryat (buf ! i) color (40 + of_nat i) (ucast row) s) [7, 6, 5, 4, 3, 2, 1] s;
         row = row - 1
     in if row = - 1 then (color + 0x10, 25, s) else (color, row, s))"

fun test_jump_loop :: "nat \<Rightarrow> 'a term_state_scheme \<Rightarrow> 'a term_state_scheme" where
  "test_jump_loop 0 s = s"
| "test_jump_loop (Suc n) s = test_jump_loop n
     (terminal_putentryat (of_char CHR ''X'') (of_nat (Suc n)) (of_nat (Suc n mod 5)) (terminal_row s) s)"

definition test_jump :: "'a term_state_scheme \<Rightarrow> 'a term_state_scheme option" where
  "test_jump s = do {
     s \<leftarrow> terminal_writestring (lit (''before wait'' @ nl)) s;
     terminal_writestring (lit (nl @ ''after wait... returning'' @ nl)) (test_jump_loop 0x00FFFFFF s) }"

definition backstop_start :: "'a term_state_scheme \<Rightarrow> 'a term_state_scheme option" where
  "backstop_start s =
     terminal_writestring (lit ''  <- if this guy is blinking, all other processes have exited.'') (terminal_clear s)"

definition backstop_round :: "u8 \<times> 'a term_state_scheme \<Rightarrow> (u8 \<times> 'a term_state_scheme) option" where
  "backstop_round = (\<lambda>(idx, s). do {
     let colors = [vga_entry_color VGA_COLOR_LIGHT_GREEN VGA_COLOR_BLACK, vga_entry_color VGA_COLOR_BLACK VGA_COLOR_BLACK];
     s \<leftarrow> terminal_writestring (lit '''') s;
     let s = terminal_putentryat (of_char CHR ''X'') (colors ! unat idx) 0 0 s;
     Some ((idx + 1) mod 2, s) })"

subsection \<open>Boot\<close>

definition init_shell :: "u32 \<Rightarrow> 'a kernel_state_scheme \<Rightarrow> 'a kernel_state_scheme" where
  "init_shell root s = s\<lparr>current_dir := root\<rparr>"

text \<open>The processes that \<open>kernel_main\<close> creates.\<close>

definition init_processes :: "link_map \<Rightarrow> 'a kernel_state_scheme \<Rightarrow> 'a kernel_state_scheme option" where
  "init_processes l s = do {
     (ap, s) \<leftarrow> allocate 500 s;
     (ap2, s) \<leftarrow> allocate 500 s;
     (ap3, s) \<leftarrow> allocate 500 s;
     (_, s) \<leftarrow> init_process (terminal_backstop_addr l) ap s;
     (_, s) \<leftarrow> init_process (sample2_addr l) ap2 s;
     (_, s) \<leftarrow> init_process (sample3_addr l) ap3 s;
     (ap4, s) \<leftarrow> allocate 500 s;
     (_, s) \<leftarrow> init_process (test_jump_addr l) ap4 s;
     Some s }"

definition kernel_main :: "link_map \<Rightarrow> (u32 \<Rightarrow> 'a kernel_state_scheme \<Rightarrow> (i32 \<times> 'a kernel_state_scheme) option) \<Rightarrow>
    u32 \<Rightarrow> u32 \<Rightarrow> 'a kernel_state_scheme \<Rightarrow> 'a kernel_state_scheme option" where
  "kernel_main l init_mnt loc buf s = do {
     s \<leftarrow> init_terminal s;
     let s = init_kb (init_idt l s);
     s \<leftarrow> init_heap HEAP_LOWER_BOUND s;
     let (_, s) = ramfs_init_fd_system (enable_interrupts s);
     (root, s) \<leftarrow> init_fs init_mnt s;
     (_, s) \<leftarrow> init_stdio loc buf root (s\<lparr>system_root := root, current_dir := root\<rparr>);
     if current_dir s = 0 then terminal_writestring (lit ''Failed to initialize filesystem.'') s
     else do {
       s \<leftarrow> say [lit (''ShompOS initialized successfully!'' @ nl), lit (''Type 'help' for available commands'' @ nl),
         lit ''shompOS> ''] s;
       s \<leftarrow> init_processes l s;
       Some (enable_interrupts (init_pit PIT_DIVISOR s)) } }"

end
