(* ===== verification/Interrupts.thy ===== *)
theory Interrupts
  imports Kernel FsProps
begin

section \<open>Interrupts: the interrupt table after \<open>init_idt\<close>\<close>

text \<open>
  A gate holds its handler's address in two halves. The processor puts them together.
\<close>

definition gate_offset :: "IDT_entry \<Rightarrow> u32" where
  "gate_offset e = ucast (offset_lowerbits e) OR push_bit 16 (ucast (offset_upperbits e))"

definition gate :: "u32 \<Rightarrow> u8 \<Rightarrow> IDT_entry" where
  "gate offset flags = \<lparr>offset_lowerbits = ucast (offset AND 0xFFFF), selector = KERNEL_CODE_SEGMENT_OFFSET, zero = 0,
     type_attr = flags, offset_upperbits = ucast (drop_bit 16 (offset AND 0xFFFF0000))\<rparr>"

lemma gate_offset_gate [simp]: "gate_offset (gate offset flags) = offset"
proof (rule bit_word_eqI)
  fix n assume n: "n < LENGTH(32)"
  have m: "(0xFFFF :: u32) = mask 16" "(0xFFFF0000 :: u32) = push_bit 16 (mask 16)" by (simp_all add: mask_eq_exp_minus_1)
  show "bit (gate_offset (gate offset flags)) n = bit offset n"
    using n unfolding gate_offset_def gate_def IDT_entry.simps m
    by (cases "n < 16") (auto simp: bit_simps)
qed

lemma gate_fields [simp]: "selector (gate offset flags) = 8" "type_attr (gate offset flags) = flags" "zero (gate offset flags) = 0"
  by (simp_all add: gate_def)

text \<open>The table as a function of the vector: which handler and which kind of gate.\<close>

definition vector_gate :: "link_map \<Rightarrow> nat \<Rightarrow> (u32 \<times> u8) option" where
  "vector_gate l v =
     (if v < 32 then Some (isr_stub_table l ! v, IDT_TRAP_GATE_32BIT)
      else if v = 0x20 then Some (clock_handler l, IDT_TRAP_GATE_32BIT)
      else if v = 0x21 then Some (keyboard_handler l, IDT_INTERRUPT_GATE_32BIT)
      else if v = 0x80 then Some (syscall_handler l, IDT_INTERRUPT_GATE_32BIT)
      else None)"

lemma idt_set_descriptor_gate: "IDT (idt_set_descriptor v offset flags s) = (IDT s)[unat v := gate offset flags]"
  by (simp add: idt_set_descriptor_def gate_def)

lemma ioport_out_IDT [simp]: "IDT (ioport_out p b s) = IDT s"
  by (simp add: ioport_out_def)

lemma fold_gates:
  fixes s :: "'a kernel_state_scheme" and f :: "nat \<Rightarrow> u32" and flags :: u8
  assumes "n \<le> 256" "length (IDT s) = 256"
  defines "F \<equiv> \<lambda>n. IDT (fold (\<lambda>i. idt_set_descriptor (of_nat i) (f i) flags) [0..<n] s)"
  shows "length (F n) = 256 \<and> (\<forall>v<256. F n ! v = (if v < n then gate (f v) flags else IDT s ! v))"
  using assms(1)
proof (induction n)
  case 0
  then show ?case by (simp add: F_def assms(2))
next
  case (Suc n)
  have u: "unat (of_nat n :: u8) = n" using Suc.prems by (simp add: unat_of_nat take_bit_nat_eq_self)
  have F: "F (Suc n) = (F n)[n := gate (f n) flags]" by (simp add: F_def idt_set_descriptor_gate u)
  show ?case using Suc unfolding F by (auto simp: nth_list_update)
qed

text \<open>
  After \<open>init_idt\<close> the interrupt table sends each of the 32 exceptions to its stub, vector
  0x20 to the clock handler, 0x21 to the keyboard handler and 0x80 to the system call handler:
  the address the processor puts together from the two halves of the gate is the handler's,
  with the kernel's code segment and the right kind of gate. All other gates are as they were.
\<close>

lemma init_idt_gates:
  assumes "length (IDT s) = 256"
  shows "let t = IDT (init_idt l s) in length t = 256 \<and>
    (\<forall>v<256. case vector_gate l v of
        Some (handler, kind) \<Rightarrow> gate_offset (t ! v) = handler \<and> selector (t ! v) = 8 \<and> type_attr (t ! v) = kind
      | None \<Rightarrow> t ! v = IDT s ! v)"
proof -
  define s1 where "s1 = fold (\<lambda>i. idt_set_descriptor (of_nat i) (isr_stub_table l ! i) IDT_TRAP_GATE_32BIT) [0..<EXCEPTIONS_SIZE] s"
  have t: "IDT (init_idt l s) = (IDT s1)[0x80 := gate (syscall_handler l) IDT_INTERRUPT_GATE_32BIT,
      0x21 := gate (keyboard_handler l) IDT_INTERRUPT_GATE_32BIT, 0x20 := gate (clock_handler l) IDT_TRAP_GATE_32BIT]"
    unfolding init_idt_def Let_def s1_def [symmetric] by (simp add: idt_set_descriptor_gate)
  have s1: "length (IDT s1) = 256"
    "v < 256 \<Longrightarrow> IDT s1 ! v = (if v < 32 then gate (isr_stub_table l ! v) IDT_TRAP_GATE_32BIT else IDT s ! v)" for v
    using fold_gates [OF _ assms, of EXCEPTIONS_SIZE "\<lambda>i. isr_stub_table l ! i" IDT_TRAP_GATE_32BIT]
    unfolding s1_def by simp_all
  have "IDT (init_idt l s) ! v = (if v = 0x20 then gate (clock_handler l) IDT_TRAP_GATE_32BIT
      else if v = 0x21 then gate (keyboard_handler l) IDT_INTERRUPT_GATE_32BIT
      else if v = 0x80 then gate (syscall_handler l) IDT_INTERRUPT_GATE_32BIT
      else if v < 32 then gate (isr_stub_table l ! v) IDT_TRAP_GATE_32BIT else IDT s ! v)" if "v < 256" for v
    using that s1 unfolding t by (simp add: nth_list_update)
  moreover have "length (IDT (init_idt l s)) = 256" unfolding t using s1(1) by simp
  ultimately show ?thesis unfolding Let_def by (auto simp: vector_gate_def)
qed

definition no_gate :: IDT_entry where
  "no_gate = \<lparr>offset_lowerbits = 0, selector = 0, zero = 0, type_attr = 0, offset_upperbits = 0\<rparr>"

definition reset_kernel :: kernel_state where
  "reset_kernel = boot_kernel\<lparr>IDT := replicate 256 no_gate\<rparr>"

end
