(* ===== verification/ProcTable.thy ===== *)
theory ProcTable
  imports Process
begin

section \<open>ProcTable: the invariant of the process table\<close>

text \<open>
  \<open>proc_inv\<close>: eight slots, PIDs unique among the processes that are not stopped
  and at most \<open>MAX_PID\<close>, and only the process of \<open>active_pid\<close> may be ACTIVE. Every
  operation keeps it. \<open>get_next_PID\<close> returns, with a PID no process has.
\<close>

definition live :: "'a proc_state_scheme \<Rightarrow> nat \<Rightarrow> bool" where
  "live s i \<longleftrightarrow> i < MAX_PROCESS \<and> status (proc_table s ! i) \<noteq> STOPPED"

definition live_pids :: "'a proc_state_scheme \<Rightarrow> u32 set" where
  "live_pids s = (\<lambda>i. proc_PID (proc_table s ! i)) ` {i. live s i}"

definition proc_inv :: "'a proc_state_scheme \<Rightarrow> bool" where
  "proc_inv s \<longleftrightarrow> length (proc_table s) = MAX_PROCESS \<and>
     inj_on (\<lambda>i. proc_PID (proc_table s ! i)) {i. live s i} \<and>
     (\<forall>pid\<in>live_pids s. pid \<le> MAX_PID) \<and>
     (\<forall>i<MAX_PROCESS. status (proc_table s ! i) = ACTIVE \<longrightarrow> proc_PID (proc_table s ! i) = active_pid s)"

lemma proc_invD:
  assumes "proc_inv s"
  shows "length (proc_table s) = MAX_PROCESS"
    and "\<And>i j. live s i \<Longrightarrow> live s j \<Longrightarrow> proc_PID (proc_table s ! i) = proc_PID (proc_table s ! j) \<Longrightarrow> i = j"
    and "\<And>i. live s i \<Longrightarrow> proc_PID (proc_table s ! i) \<le> MAX_PID"
    and "\<And>i. i < MAX_PROCESS \<Longrightarrow> status (proc_table s ! i) = ACTIVE \<Longrightarrow>
      proc_PID (proc_table s ! i) = active_pid s"
  using assms unfolding proc_inv_def inj_on_def live_pids_def by blast+

lemma proc_invI:
  assumes "length (proc_table s) = MAX_PROCESS"
    and "\<And>i j. live s i \<Longrightarrow> live s j \<Longrightarrow> proc_PID (proc_table s ! i) = proc_PID (proc_table s ! j) \<Longrightarrow> i = j"
    and "\<And>i. live s i \<Longrightarrow> proc_PID (proc_table s ! i) \<le> MAX_PID"
    and "\<And>i. i < MAX_PROCESS \<Longrightarrow> status (proc_table s ! i) = ACTIVE \<Longrightarrow>
      proc_PID (proc_table s ! i) = active_pid s"
  shows "proc_inv s"
  using assms unfolding proc_inv_def inj_on_def live_pids_def by blast

text \<open>The invariant speaks of the table and \<open>active_pid\<close> only.\<close>

lemma proc_inv_cong:
  "proc_inv s \<Longrightarrow> proc_table s' = proc_table s \<Longrightarrow> active_pid s' = active_pid s \<Longrightarrow> proc_inv s'"
  unfolding proc_inv_def live_pids_def live_def by simp

subsection \<open>Looking processes up\<close>

lemma get_process_None: "get_process PID s = None \<longleftrightarrow> PID \<notin> live_pids s"
  by (auto simp: get_process_def find_None_iff live_pids_def live_def)

lemma get_process_Some:
  "get_process PID s = Some i \<Longrightarrow> live s i \<and> proc_PID (proc_table s ! i) = PID"
  by (auto simp: get_process_def find_Some_iff live_def)

lemma get_process_live:
  assumes "proc_inv s" "live s i" "proc_PID (proc_table s ! i) = PID"
  shows "get_process PID s = Some i"
proof -
  have "PID \<in> live_pids s" using assms(2,3) unfolding live_pids_def by blast
  then obtain j where j: "get_process PID s = Some j" using get_process_None [of PID s] by auto
  then have "i = j" using get_process_Some [OF j] assms(3) by (intro proc_invD(2) [OF assms(1,2)]) simp_all
  with j show ?thesis by simp
qed

lemma reserve_slot_Some:
  "reserve_proc_table_slot s = Some i \<Longrightarrow> i < MAX_PROCESS \<and> status (proc_table s ! i) = STOPPED"
  by (auto simp: reserve_proc_table_slot_def find_Some_iff)

lemma reserve_slot_None:
  "reserve_proc_table_slot s = None \<longleftrightarrow> (\<forall>i<MAX_PROCESS. live s i)"
  by (auto simp: reserve_proc_table_slot_def find_None_iff live_def)

subsection \<open>Fresh PIDs\<close>

lemma card_live_pids: "finite (live_pids s)" "card (live_pids s) \<le> MAX_PROCESS"
proof -
  have sub: "{i. live s i} \<subseteq> {..<MAX_PROCESS}" by (auto simp: live_def)
  then have fin: "finite {i. live s i}" by (rule finite_subset) simp
  then show "finite (live_pids s)" unfolding live_pids_def by (rule finite_imageI)
  have "card (live_pids s) \<le> card {i. live s i}" unfolding live_pids_def by (rule card_image_le [OF fin])
  also have "\<dots> \<le> card {..<MAX_PROCESS}" using sub by (intro card_mono) simp_all
  finally show "card (live_pids s) \<le> MAX_PROCESS" by simp
qed

text \<open>The \<open>k\<close>-th PID tried after \<open>n\<close>, cycling through \<open>1 .. MAX_PID\<close>.\<close>

definition nth_pid :: "nat \<Rightarrow> nat \<Rightarrow> nat" where
  "nth_pid n k = (n + k) mod unat MAX_PID + 1"

lemma nth_pid_le: "nth_pid n k \<le> unat MAX_PID"
  using mod_less_divisor [of "unat MAX_PID" "n + k"] unfolding nth_pid_def by simp

lemma nth_pid_shift: "nth_pid (nth_pid n 0) k = nth_pid n (Suc k)"
proof -
  have "nth_pid n 0 + k = n mod unat MAX_PID + Suc k" unfolding nth_pid_def by simp
  then show ?thesis unfolding nth_pid_def by (simp only: mod_add_left_eq)
qed

lemma nth_pid_inj:
  assumes "k \<le> j" "j < unat MAX_PID" "nth_pid n k = nth_pid n j"
  shows "k = j"
proof -
  have "(n + j) mod unat MAX_PID = (n + k) mod unat MAX_PID" using assms(3) unfolding nth_pid_def by simp
  then have "unat MAX_PID dvd n + j - (n + k)" using assms(1) by (subst (asm) mod_eq_dvd_iff_nat) simp_all
  moreover have "n + j - (n + k) < unat MAX_PID" using assms(2) by simp
  ultimately have "n + j - (n + k) = 0" using nat_dvd_not_less by blast
  with assms(1) show ?thesis by simp
qed

text \<open>Nine different PIDs cannot all be taken.\<close>

lemma fresh_nth_pid: "\<exists>k\<le>8. of_nat (nth_pid n k) \<notin> live_pids s"
proof (rule ccontr)
  assume "\<not> ?thesis"
  then have sub: "(\<lambda>k. of_nat (nth_pid n k)) ` {..8} \<subseteq> live_pids s" by auto
  have "inj_on (\<lambda>k. of_nat (nth_pid n k) :: u32) {..8}"
  proof (rule inj_onI)
    fix k j assume kj: "k \<in> {..8}" "j \<in> {..8}" "W (nth_pid n k) = W (nth_pid n j)"
    have lt: "nth_pid n i < 2 ^ 32" for i using nth_pid_le [of n i] by simp
    have eq: "nth_pid n k = nth_pid n j" by (rule iffD1 [OF of_nat_u32_eq [OF lt lt] kj(3)])
    show "k = j"
    proof (cases "k \<le> j")
      case True
      show ?thesis by (rule nth_pid_inj [OF True _ eq]) (use kj(2) in simp)
    next
      case False
      then have "j \<le> k" by simp
      from nth_pid_inj [OF this _ eq [symmetric]] kj(1) show ?thesis by simp
    qed
  qed
  from card_image [OF this] card_mono [OF card_live_pids(1) sub] card_live_pids(2) [of s]
  show False by simp
qed

lemma next_pid_step:
  "unat (next_pid s) = n \<Longrightarrow> n \<le> unat MAX_PID \<Longrightarrow>
    (let s = s\<lparr>next_pid := next_pid s + 1\<rparr>
     in if next_pid s > MAX_PID then s\<lparr>next_pid := 1\<rparr> else s) = s\<lparr>next_pid := of_nat (nth_pid n 0)\<rparr>"
proof -
  assume n: "unat (next_pid s) = n" "n \<le> unat MAX_PID"
  have eq: "next_pid s = W n" using n(1) by (metis of_nat_unat_u32)
  have "W n + 1 = W (Suc n)" by simp
  moreover have "MAX_PID < W (Suc n) \<longleftrightarrow> n = 45323"
    using n(2) of_nat_u32_less [of 45323 "Suc n"] by auto
  ultimately have c: "MAX_PID < W n + 1 \<longleftrightarrow> n = 45323" by (simp only:)
  show ?thesis
  proof (cases "n = 45323")
    case True
    then have "nth_pid n 0 = 1" by (simp add: nth_pid_def)
    with True show ?thesis by (simp add: eq Let_def)
  next
    case False
    then have "nth_pid n 0 = Suc n" using n(2) by (simp add: nth_pid_def)
    with False c show ?thesis by (simp add: eq Let_def)
  qed
qed

lemma live_pids_next_pid [simp]: "live_pids (s\<lparr>next_pid := x\<rparr>) = live_pids s"
  by (simp add: live_pids_def live_def)

lemma get_process_next_pid [simp]: "get_process p (s\<lparr>next_pid := x\<rparr>) = get_process p s"
  by (simp add: get_process_def)

lemma get_next_PID_search:
  assumes "\<And>j. j < k \<Longrightarrow> of_nat (nth_pid n j) \<in> live_pids s" "of_nat (nth_pid n k) \<notin> live_pids s"
    and "unat (next_pid s) = n" "n \<le> unat MAX_PID"
  shows "get_next_PID s = Some (of_nat (nth_pid n k), s\<lparr>next_pid := of_nat (nth_pid n k)\<rparr>)"
  using assms
proof (induction k arbitrary: n s)
  case 0
  then have "get_process (W (nth_pid n 0)) s = None" by (simp add: get_process_None)
  then show ?case
    using next_pid_step [OF 0(3,4)] by (subst get_next_PID.simps) (simp add: Let_def)
next
  case (Suc k)
  let ?s = "s\<lparr>next_pid := W (nth_pid n 0)\<rparr>"
  have n0: "unat (W (nth_pid n 0)) = nth_pid n 0" using nth_pid_le [of n 0] by (intro unat_of_nat_u32) simp
  have "get_next_PID ?s = Some (W (nth_pid (nth_pid n 0) k), ?s\<lparr>next_pid := W (nth_pid (nth_pid n 0) k)\<rparr>)"
    using Suc.prems(1) [of "Suc _"] Suc.prems(2) n0 nth_pid_le [of n 0]
    by (intro Suc.IH) (simp_all add: nth_pid_shift)
  moreover have "get_process (W (nth_pid n 0)) s \<noteq> None" using Suc.prems(1) [of 0] get_process_None by auto
  ultimately show ?case
    using next_pid_step [OF Suc.prems(3,4)] by (subst get_next_PID.simps) (simp add: Let_def nth_pid_shift)
qed

text \<open>The state of the PID counter: before the first call, or a PID.\<close>

definition pid_counter_ok :: "'a proc_state_scheme \<Rightarrow> bool" where
  "pid_counter_ok s \<longleftrightarrow> next_pid s = - 1 \<or> next_pid s \<le> MAX_PID"

lemma get_next_PID_fresh:
  assumes "pid_counter_ok s"
  shows "\<exists>pid. get_next_PID s = Some (pid, s\<lparr>next_pid := pid\<rparr>) \<and> pid \<notin> live_pids s \<and> pid \<le> MAX_PID \<and>
    (pid = 0 \<longleftrightarrow> next_pid s = - 1 \<and> 0 \<notin> live_pids s)"
proof -
  have later: "\<exists>pid. get_next_PID s = Some (pid, s\<lparr>next_pid := pid\<rparr>) \<and> pid \<notin> live_pids s \<and>
      pid \<le> MAX_PID \<and> pid \<noteq> 0" if le: "next_pid s \<le> MAX_PID" for s :: "'a proc_state_scheme"
  proof -
    let ?n = "unat (next_pid s)"
    define k where "k = (LEAST k. of_nat (nth_pid ?n k) \<notin> live_pids s)"
    have k: "of_nat (nth_pid ?n k) \<notin> live_pids s"
      using fresh_nth_pid [of ?n s] unfolding k_def by (metis LeastI)
    have "of_nat (nth_pid ?n j) \<in> live_pids s" if "j < k" for j
      using not_less_Least [of j] that unfolding k_def by blast
    then have "get_next_PID s = Some (W (nth_pid ?n k), s\<lparr>next_pid := W (nth_pid ?n k)\<rparr>)"
      using k le by (intro get_next_PID_search) (simp_all add: word_le_nat_alt)
    moreover have "W (nth_pid ?n k) \<le> MAX_PID" "W (nth_pid ?n k) \<noteq> 0"
      using nth_pid_le [of ?n k] of_nat_u32_eq [of "nth_pid ?n k" 0]
      by (simp_all add: word_le_nat_alt unat_of_nat_u32) (simp add: nth_pid_def)
    ultimately show ?thesis using k by blast
  qed
  show ?thesis
  proof (cases "next_pid s = - 1")
    case False
    with later [of s] assms show ?thesis by (auto simp: pid_counter_ok_def)
  next
    case True
    show ?thesis
    proof (cases "0 \<in> live_pids s")
      case False
      then have "get_process 0 s = None" by (simp add: get_process_None)
      then show ?thesis using True False by (subst get_next_PID.simps) (simp add: Let_def)
    next
      case zero: True
      then have "get_process 0 s \<noteq> None" using get_process_None [of 0 s] by blast
      then have "get_next_PID s = get_next_PID (s\<lparr>next_pid := 0\<rparr>)"
        using True by (subst get_next_PID.simps) (simp add: Let_def)
      with later [of "s\<lparr>next_pid := 0\<rparr>"] zero show ?thesis by auto
    qed
  qed
qed

end
