(* ===== verification/ProcInv.thy ===== *)
theory ProcInv
  imports ProcTable
begin

section \<open>ProcInv: every operation of process.c keeps the invariant\<close>

text \<open>
  Frame lemmas for the pointer accesses, and the preservation of \<open>proc_inv\<close> by
  \<open>init_process\<close>, \<open>kill_process\<close>, \<open>switch_process\<close> and the scheduler, with
  what each does to the table.
\<close>

subsection \<open>What the accesses change\<close>

lemma proc_frame:
  "heap_frame s s' \<Longrightarrow> proc_table s' = proc_table s \<and> active_pid s' = active_pid s \<and>
     next_pid s' = next_pid s \<and> regs s' = regs s \<and> kill_process_addr s' = kill_process_addr s \<and>
     switch_from_queue_addr s' = switch_from_queue_addr s"
  by (cases s; cases s') (simp add: heap_frame_def)

lemma upd_slot_simps [simp]:
  "proc_table (upd_slot i f s) = (proc_table s)[i := f (proc_table s ! i)]"
  "active_pid (upd_slot i f s) = active_pid s" "mem (upd_slot i f s) = mem s"
  "next_pid (upd_slot i f s) = next_pid s"
  by (simp_all add: upd_slot_def)

lemma set_ESP_simps [simp]:
  "active_pid (set_ESP p v s) = active_pid s" "next_pid (set_ESP p v s) = next_pid s"
  "length (proc_table (set_ESP p v s)) = length (proc_table s)"
  by (simp_all add: set_ESP_def split: option.split)

text \<open>The context switch changes no field of the table but saved stack pointers.\<close>

definition same_sched :: "'a proc_state_scheme \<Rightarrow> 'a proc_state_scheme \<Rightarrow> bool" where
  "same_sched s s' \<longleftrightarrow> length (proc_table s') = length (proc_table s) \<and>
     active_pid s' = active_pid s \<and> next_pid s' = next_pid s \<and>
     (\<forall>i<length (proc_table s). proc_PID (proc_table s' ! i) = proc_PID (proc_table s ! i) \<and>
        status (proc_table s' ! i) = status (proc_table s ! i) \<and>
        wait_time (proc_table s' ! i) = wait_time (proc_table s ! i))"

lemma nth_upd: "i < length xs \<Longrightarrow> xs[j := v] ! i = (if i = j then v else xs ! i)"
  by (cases "i = j") simp_all

lemma same_sched_context_switch: "same_sched s (context_switch c n s)"
  by (auto simp: same_sched_def context_switch_def set_ESP_def upd_slot_def nth_upd Let_def
      split: option.split prod.split)

lemma live_same_sched: "same_sched s s' \<Longrightarrow> length (proc_table s) = MAX_PROCESS \<Longrightarrow> live s' i = live s i"
  by (auto simp: same_sched_def live_def)

lemma proc_inv_same_sched: "proc_inv s \<Longrightarrow> same_sched s s' \<Longrightarrow> proc_inv s'"
  by (rule proc_invI) (auto simp: live_same_sched proc_invD same_sched_def live_def dest: proc_invD)

subsection \<open>Switching\<close>

lemma same_sched_trans: "same_sched s t \<Longrightarrow> same_sched t u \<Longrightarrow> same_sched s u"
  by (simp add: same_sched_def)

text \<open>
  Switching to the live process in slot \<open>i\<close>: it becomes ACTIVE, the process that was
  ACTIVE becomes WAITING, and nothing else the scheduler looks at changes.
\<close>

definition switched_to :: "nat \<Rightarrow> 'a proc_state_scheme \<Rightarrow> 'a proc_state_scheme \<Rightarrow> bool" where
  "switched_to i s s' \<longleftrightarrow> length (proc_table s') = length (proc_table s) \<and>
     next_pid s' = next_pid s \<and> active_pid s' = proc_PID (proc_table s ! i) \<and>
     (\<forall>k<length (proc_table s). proc_PID (proc_table s' ! k) = proc_PID (proc_table s ! k) \<and>
        wait_time (proc_table s' ! k) = wait_time (proc_table s ! k) \<and>
        status (proc_table s' ! k) = (if k = i then ACTIVE
          else if status (proc_table s ! k) = ACTIVE then WAITING else status (proc_table s ! k)))"

lemma switched_to_live:
  "switched_to i s s' \<Longrightarrow> length (proc_table s) = MAX_PROCESS \<Longrightarrow> live s i \<Longrightarrow> live s' k = live s k"
  by (auto simp: switched_to_def live_def split: if_splits)

lemma proc_inv_switched_to:
  assumes I: "proc_inv s" and i: "live s i" and S: "switched_to i s s'"
  shows "proc_inv s'"
proof (rule proc_invI)
  note D = proc_invD [OF I]
  note L = switched_to_live [OF S D(1) i]
  have k: "proc_PID (proc_table s' ! k) = proc_PID (proc_table s ! k)" if "k < MAX_PROCESS" for k
    using S that D(1) by (simp add: switched_to_def)
  show "length (proc_table s') = MAX_PROCESS" using S D(1) by (simp add: switched_to_def)
  show "a = b" if "live s' a" "live s' b" "proc_PID (proc_table s' ! a) = proc_PID (proc_table s' ! b)" for a b
    using that D(2) [of a b] k [of a] k [of b] by (simp add: L) (simp add: live_def)
  show "proc_PID (proc_table s' ! a) \<le> MAX_PID" if "live s' a" for a
    using that D(3) [of a] k [of a] by (simp add: L) (simp add: live_def)
  show "proc_PID (proc_table s' ! a) = active_pid s'"
    if "a < MAX_PROCESS" "status (proc_table s' ! a) = ACTIVE" for a
    using that S D(1) by (auto simp: switched_to_def split: if_splits)
qed

lemma switched_to_same_sched: "switched_to i s t \<Longrightarrow> same_sched t u \<Longrightarrow> switched_to i s u"
  by (simp add: switched_to_def same_sched_def)

lemma switch_process_to:
  assumes I: "proc_inv s" and i: "live s i" and ne: "proc_PID (proc_table s ! i) \<noteq> active_pid s"
  shows "switched_to i s (switch_process (proc_PID (proc_table s ! i)) s)"
proof -
  note D = proc_invD [OF I]
  let ?PID = "proc_PID (proc_table s ! i)" and ?old = "get_process (active_pid s) s"
  have new: "get_process ?PID s = Some i" by (rule get_process_live [OF I i refl])
  have i8: "i < MAX_PROCESS" using i by (simp add: live_def)
  have old_ne: "?old \<noteq> Some i" using get_process_Some [of "active_pid s" s i] ne by auto
  let ?s1 = "if is_active ?old s then set_status ?old WAITING s else s"
  let ?s3 = "set_status (Some i) ACTIVE ?s1\<lparr>active_pid := ?PID\<rparr>"
  have active: "?old = Some k" if "k < MAX_PROCESS" "status (proc_table s ! k) = ACTIVE" for k
    using that D(4) [of k] by (intro get_process_live [OF I]) (simp_all add: live_def)
  have old8: "k < MAX_PROCESS" if "?old = Some k" for k
    using get_process_Some [OF that] by (simp add: live_def)
  have to: "switched_to i s ?s3"
  proof (cases ?old)
    case None
    then have "status (proc_table s ! k) \<noteq> ACTIVE" if "k < MAX_PROCESS" for k using active that by auto
    then show ?thesis using None i8 D(1)
      by (simp add: switched_to_def set_status_def nth_list_update)
  next
    case (Some j)
    then have "status (proc_table s ! k) \<noteq> ACTIVE" if "k < MAX_PROCESS" "k \<noteq> j" for k using active that by auto
    then show ?thesis using Some i8 D(1) old8 [OF Some] old_ne
      by (auto simp: switched_to_def set_status_def is_active_def nth_list_update)
  qed
  have eq: "switch_process ?PID s = context_switch ?old (Some i) ?s3"
    using old_ne by (simp add: switch_process_def new Let_def)
  show ?thesis unfolding eq by (rule switched_to_same_sched [OF to same_sched_context_switch])
qed

lemma switch_process_self:
  "proc_inv s \<Longrightarrow> live s i \<Longrightarrow> proc_PID (proc_table s ! i) = active_pid s \<Longrightarrow>
     switch_process (active_pid s) s = s"
  by (simp add: switch_process_def Let_def)

lemma proc_inv_switch_process:
  assumes I: "proc_inv s" and P: "PID \<in> live_pids s"
  shows "proc_inv (switch_process PID s)"
proof -
  obtain i where i: "live s i" "PID = proc_PID (proc_table s ! i)" using P unfolding live_pids_def by blast
  show ?thesis
  proof (cases "PID = active_pid s")
    case True
    with switch_process_self [OF I i(1)] i(2) I show ?thesis by simp
  next
    case False
    with switch_process_to [OF I i(1)] proc_inv_switched_to [OF I i(1)] i(2) show ?thesis by simp
  qed
qed

text \<open>
  Switching to a PID that no process has: the new process is the null pointer, the process that was
  ACTIVE becomes WAITING and no process is ACTIVE.
\<close>

lemma switch_process_none:
  assumes I: "proc_inv s" and P: "PID \<notin> live_pids s"
  shows "proc_inv (switch_process PID s)" "live (switch_process PID s) k = live s k"
    "k < MAX_PROCESS \<Longrightarrow> proc_PID (proc_table (switch_process PID s) ! k) = proc_PID (proc_table s ! k)"
    "next_pid (switch_process PID s) = next_pid s"
proof -
  note D = proc_invD [OF I]
  have new: "get_process PID s = None" using P by (simp add: get_process_None)
  let ?s' = "switch_process PID s"
  have "proc_inv ?s' \<and> (\<forall>k. live ?s' k = live s k) \<and>
    (\<forall>k<MAX_PROCESS. proc_PID (proc_table ?s' ! k) = proc_PID (proc_table s ! k)) \<and> next_pid ?s' = next_pid s"
  proof (cases "get_process (active_pid s) s")
    case None
    then show ?thesis using I new by (simp add: switch_process_def)
  next
    case (Some j)
    note j = get_process_Some [OF Some]
    then have j8: "j < MAX_PROCESS" by (simp add: live_def)
    let ?s1 = "if is_active (Some j) s then set_status (Some j) WAITING s else s"
    let ?t = "(set_status None ACTIVE ?s1)\<lparr>active_pid := PID\<rparr>"
    have run: "?s' = context_switch (Some j) None ?t" using Some new by (simp add: switch_process_def Let_def)
    have same: "same_sched ?t ?s'" unfolding run by (rule same_sched_context_switch)
    have t: "proc_table ?t = proc_table ?s1" "next_pid ?t = next_pid s" by (simp_all add: set_status_def)
    have st: "length (proc_table ?s1) = MAX_PROCESS" "\<And>k. k < MAX_PROCESS \<Longrightarrow> proc_PID (proc_table ?s1 ! k) = proc_PID (proc_table s ! k) \<and>
        status (proc_table ?s1 ! k) = (if k = j \<and> status (proc_table s ! j) = ACTIVE then WAITING else status (proc_table s ! k))"
      using D(1) j8 by (auto simp: set_status_def is_active_def nth_upd)
    have L: "live ?t k = live s k" for k using st(2) [of k] by (auto simp: live_def t split: if_splits)
    have none: "status (proc_table ?t ! k) \<noteq> ACTIVE" if k: "k < MAX_PROCESS" for k
    proof
      assume a: "status (proc_table ?t ! k) = ACTIVE"
      then have sk: "status (proc_table s ! k) = ACTIVE" "k \<noteq> j" using st(2) [OF k] by (auto simp: t split: if_splits)
      then have "live s k" "proc_PID (proc_table s ! k) = active_pid s" using k D(4) by (simp_all add: live_def)
      with D(2) [of k j] j sk(2) show False by simp
    qed
    have "proc_inv ?t"
    proof (rule proc_invI)
      show "length (proc_table ?t) = MAX_PROCESS" using st(1) by (simp only: t)
      show "a = b" if "live ?t a" "live ?t b" "proc_PID (proc_table ?t ! a) = proc_PID (proc_table ?t ! b)" for a b
        using that D(2) [of a b] st(2) [of a] st(2) [of b] unfolding L t by (simp add: live_def)
      show "proc_PID (proc_table ?t ! a) \<le> MAX_PID" if "live ?t a" for a
        using that D(3) [of a] st(2) [of a] unfolding L t by (simp add: live_def)
    qed (use none in blast)
    moreover from this have "length (proc_table ?t) = MAX_PROCESS" by (rule proc_invD(1))
    ultimately show ?thesis
      using proc_inv_same_sched [OF _ same] live_same_sched [OF same] same st(2) L t by (simp add: same_sched_def)
  qed
  then show "proc_inv ?s'" "live ?s' k = live s k" "next_pid ?s' = next_pid s"
    "k < MAX_PROCESS \<Longrightarrow> proc_PID (proc_table ?s' ! k) = proc_PID (proc_table s ! k)" by simp_all
qed

subsection \<open>Ending and starting processes\<close>

lemma proc_inv_stop:
  assumes I: "proc_inv s" and i: "i < MAX_PROCESS"
  shows "proc_inv (set_status (Some i) STOPPED s)"
proof (rule proc_invI)
  note D = proc_invD [OF I]
  let ?s = "set_status (Some i) STOPPED s"
  have L: "live ?s k \<longleftrightarrow> live s k \<and> k \<noteq> i" for k
    using i D(1) by (auto simp: live_def set_status_def nth_list_update)
  have P: "proc_PID (proc_table ?s ! k) = proc_PID (proc_table s ! k)" if "k < MAX_PROCESS" for k
    using that i D(1) by (simp add: set_status_def nth_list_update)
  show "length (proc_table ?s) = MAX_PROCESS" using D(1) by (simp add: set_status_def)
  show "a = b" if "live ?s a" "live ?s b" "proc_PID (proc_table ?s ! a) = proc_PID (proc_table ?s ! b)" for a b
    using that D(2) [of a b] P [of a] P [of b] unfolding L by (simp add: live_def)
  show "proc_PID (proc_table ?s ! a) \<le> MAX_PID" if "live ?s a" for a
    using that D(3) [of a] P [of a] unfolding L by (simp add: live_def)
  show "proc_PID (proc_table ?s ! a) = active_pid ?s"
    if "a < MAX_PROCESS" "status (proc_table ?s ! a) = ACTIVE" for a
    using that D(4) [of a] i D(1) by (auto simp: set_status_def nth_list_update split: if_splits)
qed

lemma kill_process_result:
  assumes "kill_process PID s = Some s'"
  shows "get_process PID s = None \<and> s' = s \<or>
    (\<exists>i. get_process PID s = Some i \<and> heap_frame (set_status (Some i) STOPPED s) s')"
  using assms unfolding kill_process_def Let_def
  by (auto simp: bind_eq_Some_conv split: option.splits dest!: free_heap_frame)

lemma proc_inv_kill_process:
  assumes I: "proc_inv s" and k: "kill_process PID s = Some s'"
  shows "proc_inv s'" "live_pids s' = live_pids s - {PID}"
proof -
  from kill_process_result [OF k]
  have "proc_inv s' \<and> live_pids s' = live_pids s - {PID}"
  proof (elim disjE exE conjE)
    assume "get_process PID s = None" "s' = s"
    with I show ?thesis by (simp add: get_process_None)
  next
    fix i assume g: "get_process PID s = Some i" and f: "heap_frame (set_status (Some i) STOPPED s) s'"
    note i = get_process_Some [OF g]
    then have i8: "i < MAX_PROCESS" by (simp add: live_def)
    from proc_frame [OF f] have t: "proc_table s' = proc_table (set_status (Some i) STOPPED s)"
      "active_pid s' = active_pid (set_status (Some i) STOPPED s)" by simp_all
    have "live s' j \<longleftrightarrow> live s j \<and> j \<noteq> i" for j
      unfolding live_def t using i8 proc_invD(1) [OF I] by (auto simp: set_status_def nth_upd split: if_splits)
    then have L: "{j. live s' j} = {j. live s j} - {i}" by blast
    have P: "proc_PID (proc_table s' ! j) = proc_PID (proc_table s ! j)" if "j \<in> {j. live s j} - {i}" for j
      unfolding t using that i8 proc_invD(1) [OF I] by (simp add: set_status_def nth_upd live_def)
    have inj: "inj_on (\<lambda>j. proc_PID (proc_table s ! j)) {j. live s j}" using I unfolding proc_inv_def by blast
    have "live_pids s' = (\<lambda>j. proc_PID (proc_table s ! j)) ` ({j. live s j} - {i})"
      unfolding live_pids_def L by (rule image_cong [OF refl P])
    also have "\<dots> = live_pids s - (\<lambda>j. proc_PID (proc_table s ! j)) ` {i}"
      unfolding live_pids_def using i by (intro inj_on_image_set_diff [OF inj]) simp_all
    finally have "live_pids s' = live_pids s - {PID}" using i by simp
    with proc_inv_cong [OF proc_inv_stop [OF I i8] t] show ?thesis by simp
  qed
  then show "proc_inv s'" "live_pids s' = live_pids s - {PID}" by simp_all
qed

text \<open>A new process: a fresh PID, a slot that was stopped, status SPAWNED.\<close>

lemma init_process_ok:
  fixes bottom :: u32
  assumes I: "proc_inv s" and c: "pid_counter_ok s" and slot: "reserve_proc_table_slot s = Some i"
  defines "blk \<equiv> bottom - HEADER_SIZE"
  defines "tos \<equiv> blk + shl1 (scale (mem s) blk) - 4"
  shows "\<exists>pid. pid \<notin> live_pids s \<and> pid \<le> MAX_PID \<and> (pid = 0 \<longleftrightarrow> next_pid s = - 1 \<and> 0 \<notin> live_pids s) \<and>
    init_process entry bottom s = Some (pid, s\<lparr>next_pid := pid,
      mem := write_down (mem s) tos
        (init_stack_words pid (switch_from_queue_addr s) (kill_process_addr s) entry tos),
      proc_table := (proc_table s)[i := \<lparr>proc_context =
          \<lparr>ctx_ESP = tos - 52, stack_top = tos, stack_bottom = bottom\<rparr>,
        proc_PID = pid, status = SPAWNED, entry_point = entry, wait_time = 0\<rparr>]\<rparr>)"
proof -
  obtain pid where p: "get_next_PID s = Some (pid, s\<lparr>next_pid := pid\<rparr>)" "pid \<notin> live_pids s"
    "pid \<le> MAX_PID" "pid = 0 \<longleftrightarrow> next_pid s = - 1 \<and> 0 \<notin> live_pids s"
    using get_next_PID_fresh [OF c] by blast
  have "reserve_proc_table_slot (s\<lparr>next_pid := pid\<rparr>) = Some i"
    using slot by (simp add: reserve_proc_table_slot_def)
  then have "init_process entry bottom s = Some (pid, s\<lparr>next_pid := pid,
      mem := write_down (mem s) tos
        (init_stack_words pid (switch_from_queue_addr s) (kill_process_addr s) entry tos),
      proc_table := (proc_table s)[i := \<lparr>proc_context =
          \<lparr>ctx_ESP = tos - 52, stack_top = tos, stack_bottom = bottom\<rparr>,
        proc_PID = pid, status = SPAWNED, entry_point = entry, wait_time = 0\<rparr>]\<rparr>)"
    using p(1) by (simp add: init_process_def Let_def set_process_def upd_slot_def blk_def tos_def)
  with p(2-4) show ?thesis by blast
qed

text \<open>Without a free slot a message is printed and the fields are written through the null pointer.\<close>

lemma init_process_full:
  assumes c: "pid_counter_ok s" and slot: "reserve_proc_table_slot s = None" and i: "init_process entry bottom s = Some (pid, s')"
  shows "proc_table s' = proc_table s" "active_pid s' = active_pid s" "next_pid s' \<le> MAX_PID"
proof -
  obtain n where p: "get_next_PID s = Some (n, s\<lparr>next_pid := n\<rparr>)" "n \<le> MAX_PID" using get_next_PID_fresh [OF c] by blast
  have r: "reserve_proc_table_slot (s\<lparr>next_pid := n\<rparr>) = None" using slot by (simp add: reserve_proc_table_slot_def)
  obtain t where t: "terminal_writestring (lit ''CANNOT RESERVE PROCESS'') (s\<lparr>next_pid := n\<rparr>) = Some t"
    using i by (auto simp: init_process_def p(1) r Let_def bind_eq_Some_conv)
  have "term_frame (s\<lparr>next_pid := n\<rparr>) t" by (rule term_frame_writestring [OF t])
  then have "heap_frame (s\<lparr>next_pid := n\<rparr>) t" by (rule heap_frame_term)
  from proc_frame [OF this] have f: "proc_table t = proc_table s" "active_pid t = active_pid s" "next_pid t = n" by simp_all
  show "proc_table s' = proc_table s" "active_pid s' = active_pid s" "next_pid s' \<le> MAX_PID"
    using i f p(2) by (auto simp: init_process_def p(1) r t Let_def set_process_def)
qed

lemma proc_inv_spawn:
  assumes I: "proc_inv s" and i: "i < MAX_PROCESS" "status (proc_table s ! i) = STOPPED"
    and p: "pid \<notin> live_pids s" "pid \<le> MAX_PID"
    and t: "proc_table s' = (proc_table s)[i := pr]" "active_pid s' = active_pid s"
    and pr: "proc_PID pr = pid" "status pr = SPAWNED"
  shows "proc_inv s'" "live_pids s' = insert pid (live_pids s)"
proof -
  note D = proc_invD [OF I]
  have L: "live s' k \<longleftrightarrow> live s k \<or> k = i" for k
    using i D(1) pr(2) by (auto simp: live_def t nth_upd split: if_splits)
  have ni: "\<not> live s i" using i by (simp add: live_def)
  have P: "proc_PID (proc_table s' ! k) = (if k = i then pid else proc_PID (proc_table s ! k))"
    if "k < MAX_PROCESS" for k
    using that D(1) pr(1) by (simp add: t nth_upd)
  have np: "proc_PID (proc_table s ! k) \<noteq> pid" if "live s k" for k using p(1) that by (auto simp: live_pids_def)
  have k8: "k < MAX_PROCESS" if "live s k" for k using that by (simp add: live_def)
  show "proc_inv s'"
  proof (rule proc_invI)
    show "length (proc_table s') = MAX_PROCESS" using D(1) by (simp add: t)
    show "a = b" if ll: "live s' a" "live s' b" and eq: "proc_PID (proc_table s' ! a) = proc_PID (proc_table s' ! b)" for a b
    proof (rule ccontr)
      assume ab: "a \<noteq> b"
      have ab8: "a < MAX_PROCESS" "b < MAX_PROCESS" using ll k8 i(1) unfolding L by blast+
      consider "a = i" "live s b" | "b = i" "live s a" | "a \<noteq> i" "b \<noteq> i" "live s a" "live s b"
        using ll ab unfolding L by blast
      then show False
      proof cases
        case 3
        with eq P [OF ab8(1)] P [OF ab8(2)] D(2) [of a b] ab show ?thesis by simp
      qed (use eq P [OF ab8(1)] P [OF ab8(2)] np ab in \<open>auto split: if_splits\<close>)
    qed
    show "proc_PID (proc_table s' ! a) \<le> MAX_PID" if "live s' a" for a
      using that D(3) [of a] P [of a] p(2) i(1) k8 [of a] unfolding L by auto
    show "proc_PID (proc_table s' ! a) = active_pid s'"
      if "a < MAX_PROCESS" "status (proc_table s' ! a) = ACTIVE" for a
      using that D(4) [of a] D(1) pr(2) i by (auto simp: t nth_upd split: if_splits)
  qed
  have "{k. live s' k} = insert i {k. live s k}" using L by auto
  then have "live_pids s' = insert (proc_PID (proc_table s' ! i))
      ((\<lambda>k. proc_PID (proc_table s' ! k)) ` {k. live s k})"
    unfolding live_pids_def by simp
  also have "(\<lambda>k. proc_PID (proc_table s' ! k)) ` {k. live s k} = live_pids s"
    unfolding live_pids_def by (rule image_cong) (use P k8 ni in auto)
  finally show "live_pids s' = insert pid (live_pids s)" using P [OF i(1)] by simp
qed

end
