(* ===== verification/ProcSwitch.thy ===== *)
theory ProcSwitch
  imports ProcInv
begin

section \<open>ProcSwitch: the context switch and the stack of a new process\<close>

text \<open>
  Words stored from an address downwards and read back; a process switched out
  and in again continues with its registers; a new process starts at its entry
  point with a stack that returns to \<open>kill_process\<close>.
\<close>

subsection \<open>Words stored downwards\<close>

lemma W_minus_4: "4 \<le> T \<Longrightarrow> W T - 4 = W (T - 4)"
  by (simp add: of_nat_diff)

lemma write_down_same_on:
  assumes "4 * length ws \<le> T + 4" "T + 4 \<le> 2 ^ 32"
  shows "same_on (- {T + 4 - 4 * length ws..<T + 4}) m (write_down m (W T) ws)"
  using assms
proof (induction ws arbitrary: m T)
  case (Cons w ws)
  let ?A = "- {T + 4 - 4 * length (w # ws)..<T + 4}"
  have "same_on ?A m (wr32 m (W T) w)" using Cons.prems by (intro same_on_wr32) auto
  moreover have "same_on ?A (wr32 m (W T) w) (write_down (wr32 m (W T) w) (W T - 4) ws)"
  proof (cases "ws = []")
    case False
    then have T: "4 \<le> T" using Cons.prems(1) by (cases ws) simp_all
    have "same_on (- {T - 4 + 4 - 4 * length ws..<T - 4 + 4}) (wr32 m (W T) w)
        (write_down (wr32 m (W T) w) (W (T - 4)) ws)"
      using Cons.prems T by (intro Cons.IH) simp_all
    then show ?thesis unfolding W_minus_4 [OF T] by (rule same_on_subset) (use T in auto)
  qed simp
  ultimately show ?case by (simp add: same_on_def)
qed simp

lemma write_down_nth:
  assumes "i < length ws" "4 * length ws \<le> T + 4" "T + 4 \<le> 2 ^ 32"
  shows "rd32 (write_down m (W T) ws) (W (T - 4 * i)) = ws ! i"
  using assms
proof (induction ws arbitrary: m T i)
  case (Cons w ws)
  show ?case
  proof (cases i)
    case 0
    show ?thesis
    proof (cases "ws = []")
      case True
      with 0 show ?thesis by (simp add: mem_simps)
    next
      case False
      then have T: "4 \<le> T" using Cons.prems(2) by (cases ws) simp_all
      have "same_on (- {T - 4 + 4 - 4 * length ws..<T - 4 + 4}) (wr32 m (W T) w)
          (write_down (wr32 m (W T) w) (W (T - 4)) ws)"
        using Cons.prems T by (intro write_down_same_on) simp_all
      then have "rd32 (write_down (wr32 m (W T) w) (W (T - 4)) ws) (W T) = rd32 (wr32 m (W T) w) (W T)"
        by (rule rd32_same_on) (use T Cons.prems(3) in auto)
      then show ?thesis using 0 T by (simp only: W_minus_4 write_down.simps mem_simps) simp
    qed
  next
    case (Suc j)
    then have T: "4 \<le> T" using Cons.prems(1,2) by simp
    have "rd32 (write_down (wr32 m (W T) w) (W (T - 4)) ws) (W (T - 4 - 4 * j)) = ws ! j"
      using Cons.prems T Suc by (intro Cons.IH) simp_all
    moreover have "T - 4 - 4 * j = T - 4 * i" using Suc by simp
    ultimately show ?thesis using Suc by (simp only: write_down.simps W_minus_4 [OF T] nth_Cons_Suc)
  qed
qed simp

subsection \<open>Saving and restoring\<close>

lemma fold_push:
  "fold push vs (c, m) = (c\<lparr>esp := esp c - 4 * of_nat (length vs)\<rparr>, write_down m (esp c - 4) vs)"
proof (induction vs arbitrary: c m)
  case (Cons v vs)
  have "esp c - 4 - 4 * of_nat (length vs) = esp c - 4 * of_nat (length (v # vs))"
    by (simp add: algebra_simps)
  moreover have "fold push (v # vs) (c, m) = fold push vs (c\<lparr>esp := esp c - 4\<rparr>, wr32 m (esp c - 4) v)"
    by (simp add: push_def)
  ultimately show ?case using Cons.IH [of "c\<lparr>esp := esp c - 4\<rparr>"] by simp
qed simp

lemma write_down_snoc:
  "write_down m a (ws @ [w]) = wr32 (write_down m a ws) (a - 4 * of_nat (length ws)) w"
  by (induction ws arbitrary: m a) (simp_all add: algebra_simps)

lemma save_context_eq:
  "save_context (c, m) = (c\<lparr>ebp := esp c - 4, esp := esp c - 40\<rparr>,
     write_down m (esp c - 4) [ebp c, eax c, ecx c, edx c, ebx c, esp c - 4, esp c - 4, esi c, edi c, eflags c])"
proof -
  let ?regs = "[eax c, ecx c, edx c, ebx c, esp c - 4, esp c - 4, esi c, edi c]"
  let ?c = "c\<lparr>esp := esp c - 4, ebp := esp c - 4\<rparr>" and ?m = "wr32 m (esp c - 4) (ebp c)"
  have "save_context (c, m) = push (eflags c) (fold push ?regs (?c, ?m))"
    unfolding save_context_def pushal_def fst_conv push_def [of "ebp c"] Let_def fold_push prod.case
    by (simp add: fold_push)
  also have "\<dots> = (?c\<lparr>esp := esp c - 40\<rparr>, wr32 (write_down ?m (esp c - 8) ?regs) (esp c - 40) (eflags c))"
    unfolding fold_push by (simp add: push_def)
  also have "wr32 (write_down ?m (esp c - 8) ?regs) (esp c - 40) (eflags c) =
      write_down m (esp c - 4) (ebp c # ?regs @ [eflags c])"
    unfolding write_down.simps write_down_snoc by simp
  finally show ?thesis by simp
qed

text \<open>
  Restoring a context that was saved with the stack pointer at \<open>E\<close>: every register has its
  value again, and execution continues at the return address, with it popped.
\<close>

lemma restore_saved:
  assumes E: "unat (esp c) = E" "40 \<le> E" "E + 4 \<le> 2 ^ 32"
    and m: "m' = snd (save_context (c, m))" and keep: "same_on {E - 40..<E + 4} m' m''"
  shows "restore_context (esp c - 40) m'' d = c\<lparr>esp := esp c + 4, eip := rd32 m (esp c)\<rparr>"
proof -
  let ?ws = "[ebp c, eax c, ecx c, edx c, ebx c, esp c - 4, esp c - 4, esi c, edi c, eflags c]"
  define T where "T = E - 4"
  define B where "B = E - 40"
  have T: "4 * length ?ws \<le> T + 4" "T + 4 \<le> 2 ^ 32" using E by (simp_all add: T_def)
  have eE: "esp c = W E" using E(1) by (metis of_nat_unat_u32)
  have e4: "esp c - 4 = W T" using E(2) unfolding eE T_def by (intro W_minus_4) simp
  have m': "m' = write_down m (W T) ?ws" by (simp add: m save_context_eq e4)
  have E_B: "E = B + 40" "T = B + 36" using E(2) by (simp_all add: B_def T_def)
  have rd: "rd32 m'' (W (B + 4 * j)) = ?ws ! (9 - j)" if "j \<le> 9" for j
  proof -
    have "rd32 m' (W (T - 4 * (9 - j))) = ?ws ! (9 - j)"
      unfolding m' using that T by (intro write_down_nth) simp_all
    moreover have "T - 4 * (9 - j) = B + 4 * j" using that E_B by simp
    ultimately have "rd32 m' (W (B + 4 * j)) = ?ws ! (9 - j)" by simp
    moreover have "rd32 m'' (W (B + 4 * j)) = rd32 m' (W (B + 4 * j))"
      by (rule rd32_same_on [OF keep]) (use that E_B E(3) in auto)
    ultimately show ?thesis by simp
  qed
  have ret: "rd32 m'' (W (B + 40)) = rd32 m (esp c)"
  proof -
    have "rd32 m'' (W (B + 40)) = rd32 m' (W (B + 40))"
      by (rule rd32_same_on [OF keep]) (use E_B E(3) in auto)
    also have "\<dots> = rd32 m (W (B + 40))"
      unfolding m' by (rule rd32_same_on [OF write_down_same_on [OF T]]) (use E_B E(3) in auto)
    finally show ?thesis by (simp add: eE E_B)
  qed
  have sp: "esp c - 40 = W B" by (simp add: eE E_B)
  have r: "rd32 m'' (W B) = eflags c" "rd32 m'' (W B + 4) = edi c" "rd32 m'' (W B + 8) = esi c"
    "rd32 m'' (W B + 12) = W B + 36" "rd32 m'' (W B + 20) = ebx c" "rd32 m'' (W B + 24) = edx c"
    "rd32 m'' (W B + 28) = ecx c" "rd32 m'' (W B + 32) = eax c" "rd32 m'' (W B + 36) = ebp c"
    using rd [of 0] rd [of 1] rd [of 2] rd [of 3] rd [of 5] rd [of 6] rd [of 7] rd [of 8] rd [of 9]
    by (simp_all add: eE E_B algebra_simps)
  have ret': "rd32 m'' (W B + 40) = rd32 m (W (B + 40))" using ret by (simp add: eE E_B)
  show ?thesis unfolding sp
    by (cases c) (use r ret' eE E_B in \<open>simp add: restore_context_def popal_def pop_def Let_def algebra_simps\<close>)
qed

subsection \<open>The first switch to a new process\<close>

text \<open>
  Restoring from the stack that \<open>init_process\<close> built with its top word at \<open>T\<close>: execution
  starts at the entry point, with interrupts enabled in the flags and \<open>kill_process\<close> as
  the return address; when that returns in turn, it finds the PID as its argument and
  \<open>switch_process_from_queue\<close> as its return address.
\<close>

lemma restore_new_words:
  fixes d :: cpu
  assumes T: "52 \<le> T" and rd: "\<And>k. k < 14 \<Longrightarrow> rd32 m (W (T - 4 * k)) = init_stack_words pid sfq kill entry (W T) ! k"
  defines "c \<equiv> restore_context (W T - 52) m d"
  shows "eip c = entry" "esp c = W T - 8" "eflags c = 0x202"
    and "rd32 m (W T - 8) = kill" "rd32 m (W T - 4) = sfq" "rd32 m (W T) = pid" "rd32 m (W T - 52 + 12) = W T - 52 + 36"
proof -
  define B where "B = T - 52"
  have TB: "T = B + 52" using T(1) by (simp add: B_def)
  have rd': "rd32 m (W (B + 4 * j)) = init_stack_words pid sfq kill entry (W T) ! (13 - j)" if "j \<le> 13" for j
  proof -
    have "T - 4 * (13 - j) = B + 4 * j" using that TB by simp
    then show ?thesis using rd [of "13 - j"] by simp
  qed
  have r: "rd32 m (W B) = 0x202" "rd32 m (12 + W B) = 36 + W B" "rd32 m (36 + W B) = 40 + W B"
    "rd32 m (40 + W B) = entry" "rd32 m (44 + W B) = kill" "rd32 m (48 + W B) = sfq"
    "rd32 m (52 + W B) = pid"
    using rd' [of 0] rd' [of 3] rd' [of 9] rd' [of 10] rd' [of 11] rd' [of 12] rd' [of 13]
    by (simp_all add: init_stack_words_def TB add.commute)
  show "rd32 m (W T - 8) = kill" "rd32 m (W T - 4) = sfq" "rd32 m (W T) = pid" "rd32 m (W T - 52 + 12) = W T - 52 + 36"
    using r by (simp_all add: TB add.commute)
  show "eip c = entry" "esp c = W T - 8" "eflags c = 0x202"
    unfolding c_def using r by (simp_all add: TB restore_context_def popal_def pop_def Let_def add.commute)
qed

lemma restore_new_process:
  fixes d :: cpu
  assumes T: "52 \<le> T" "T + 4 \<le> 2 ^ 32"
    and m: "m' = write_down m (W T) (init_stack_words pid sfq kill entry (W T))"
    and keep: "same_on {T - 52..<T + 4} m' m''"
  defines "c \<equiv> restore_context (W T - 52) m'' d"
  shows "eip c = entry" "esp c = W T - 8" "eflags c = 0x202"
    and "rd32 m'' (W T - 8) = kill" "rd32 m'' (W T - 4) = sfq" "rd32 m'' (W T) = pid"
proof -
  let ?ws = "init_stack_words pid sfq kill entry (W T)"
  have len: "length ?ws = 14" by (simp add: init_stack_words_def)
  have "rd32 m'' (W (T - 4 * k)) = ?ws ! k" if "k < 14" for k
  proof -
    have "rd32 m' (W (T - 4 * k)) = ?ws ! k" unfolding m by (rule write_down_nth) (use that T len in simp_all)
    moreover have "rd32 m'' (W (T - 4 * k)) = rd32 m' (W (T - 4 * k))"
      by (rule rd32_same_on [OF keep]) (use that T in auto)
    ultimately show ?thesis by simp
  qed
  note r = restore_new_words [OF T(1) this]
  show "eip c = entry" "esp c = W T - 8" "eflags c = 0x202" "rd32 m'' (W T - 8) = kill" "rd32 m'' (W T - 4) = sfq" "rd32 m'' (W T) = pid"
    using r(1-6) by (simp_all add: c_def)
qed

subsection \<open>Switching the CPU\<close>

lemma switch_process_cpu:
  fixes s :: "'a proc_state_scheme"
  assumes len: "length (proc_table s) = MAX_PROCESS"
    and j: "get_process (active_pid s) s = Some j" and i: "get_process PID s = Some i" and ne: "i \<noteq> j"
  defines "s' \<equiv> switch_process PID s" and "cm \<equiv> save_context (regs s, mem s)"
  shows "mem s' = snd cm" and "regs s' = restore_context (ctx_ESP (proc_context (proc_table s ! i))) (snd cm) (fst cm)"
    and "ctx_ESP (proc_context (proc_table s' ! j)) = esp (regs s) - 40"
proof -
  have i8: "i < length (proc_table s)" "j < length (proc_table s)"
    using get_process_Some [OF i] get_process_Some [OF j] len by (simp_all add: live_def)
  have e: "esp (fst cm) = esp (regs s) - 40" by (simp add: cm_def save_context_eq)
  define t where "t = (set_status (Some i) ACTIVE
    (if is_active (Some j) s then set_status (Some j) WAITING s else s))\<lparr>active_pid := PID\<rparr>"
  have t: "regs t = regs s" "mem t = mem s" "length (proc_table t) = length (proc_table s)"
    "ctx_ESP (proc_context (proc_table t ! i)) = ctx_ESP (proc_context (proc_table s ! i))"
    using i8 by (simp_all add: t_def set_status_def upd_slot_def nth_upd)
  have s': "s' = context_switch (Some j) (Some i) t"
    using i j ne by (simp add: s'_def switch_process_def t_def Let_def)
  obtain c m where cm: "cm = (c, m)" by force
  have "save_context (regs t, mem t) = (c, m)" using cm by (simp add: t cm_def)
  then have "s' = (set_ESP (Some j) (esp c) (t\<lparr>mem := m\<rparr>))\<lparr>regs := restore_context
      (get_ESP (Some i) (set_ESP (Some j) (esp c) (t\<lparr>mem := m\<rparr>))) m c\<rparr>"
    unfolding s' context_switch_def by (simp add: Let_def set_ESP_def upd_slot_def)
  then show "mem s' = snd cm" "regs s' = restore_context (ctx_ESP (proc_context (proc_table s ! i))) (snd cm) (fst cm)"
    "ctx_ESP (proc_context (proc_table s' ! j)) = esp (regs s) - 40"
    using i8 ne t e unfolding cm by (simp_all add: set_ESP_def get_ESP_def upd_slot_def nth_upd)
qed

text \<open>Without an active process the scheduler works on the null pointer: it stores at address 0.\<close>

lemma switch_process_null:
  fixes s :: "'a proc_state_scheme"
  assumes j: "get_process (active_pid s) s = None" and i: "get_process PID s = Some i"
  shows "rd32 (mem (switch_process PID s)) 0 = esp (regs s) - 40"
proof -
  define t where "t = (set_status (Some i) ACTIVE
    (if is_active None s then set_status None WAITING s else s))\<lparr>active_pid := PID\<rparr>"
  have r: "regs t = regs s" by (simp add: t_def set_status_def upd_slot_def)
  have "switch_process PID s = context_switch None (Some i) t"
    using i j by (simp add: switch_process_def t_def Let_def)
  then show ?thesis
    by (simp add: context_switch_def Let_def set_ESP_def r save_context_eq mem_simps split: prod.split)
qed

end
