(* ===== verification/Scheduler.thy ===== *)
theory Scheduler
  imports ProcInv
begin

section \<open>Scheduler: switch_process_from_queue picks the longest-waiting process\<close>

text \<open>
  What one call of the scheduler does to waiting times and \<open>active_pid\<close>, and that no
  process waits for ever: with eight slots, every process that stays runnable is
  picked within seven calls.
\<close>

subsection \<open>Aging\<close>

text \<open>The processes the scheduler ages: all but the backstop process, PID 0.\<close>

definition eligible :: "'a proc_state_scheme \<Rightarrow> nat \<Rightarrow> bool" where
  "eligible s i \<longleftrightarrow> live s i \<and> proc_PID (proc_table s ! i) \<noteq> 0"

definition wt :: "'a proc_state_scheme \<Rightarrow> nat \<Rightarrow> nat" where
  "wt s i = unat (wait_time (proc_table s ! i))"

text \<open>The state after \<open>n\<close> rounds: the eligible processes of the first \<open>n\<close> slots are older by one.\<close>

definition aged :: "nat \<Rightarrow> 'a proc_state_scheme \<Rightarrow> 'a proc_state_scheme \<Rightarrow> bool" where
  "aged n s t \<longleftrightarrow> length (proc_table t) = length (proc_table s) \<and> active_pid t = active_pid s \<and>
     next_pid t = next_pid s \<and> mem t = mem s \<and>
     (\<forall>k<length (proc_table s). proc_PID (proc_table t ! k) = proc_PID (proc_table s ! k) \<and>
        status (proc_table t ! k) = status (proc_table s ! k) \<and>
        wait_time (proc_table t ! k) = wait_time (proc_table s ! k) + (if k < n \<and> eligible s k then 1 else 0))"

text \<open>The process the rounds have picked so far: the backstop, or the first one that waited longest.\<close>

definition picked :: "nat \<Rightarrow> 'a proc_state_scheme \<Rightarrow> nat \<Rightarrow> nat \<Rightarrow> bool" where
  "picked n s z b \<longleftrightarrow> (b = z \<and> (\<forall>k<n. \<not> eligible s k)) \<or>
     (eligible s b \<and> b < n \<and> (\<forall>k<n. eligible s k \<longrightarrow> wt s k < wt s b \<or> wt s k = wt s b \<and> b \<le> k))"

lemma queue_round_aged:
  assumes len: "length (proc_table s) = MAX_PROCESS" and n: "n < MAX_PROCESS" and t: "aged n s t"
  shows "aged (Suc n) s (snd (queue_round n (p, t)))" and "fst (queue_round n (p, t)) = (if eligible s n \<and>
      get_wait (Some n) (snd (queue_round n (p, t))) > get_wait p (snd (queue_round n (p, t))) then Some n else p)"
proof -
  have e: "status (proc_table t ! n) \<noteq> STOPPED \<and> proc_PID (proc_table t ! n) \<noteq> 0 \<longleftrightarrow> eligible s n"
    using t n len by (simp add: aged_def eligible_def live_def)
  show "aged (Suc n) s (snd (queue_round n (p, t)))"
    using t n len e
    by (auto simp: queue_round_def aged_def set_wait_def nth_upd Let_def less_Suc_eq)
  show "fst (queue_round n (p, t)) = (if eligible s n \<and>
      get_wait (Some n) (snd (queue_round n (p, t))) > get_wait p (snd (queue_round n (p, t))) then Some n else p)"
    using e by (auto simp: queue_round_def Let_def)
qed

lemma queue_fold:
  assumes len: "length (proc_table s) = MAX_PROCESS" and n: "n \<le> MAX_PROCESS"
    and z: "z < MAX_PROCESS" "\<not> eligible s z" "wait_time (proc_table s ! z) = 0"
    and w: "\<And>k. eligible s k \<Longrightarrow> wt s k + 1 < 2 ^ 32"
  shows "\<exists>b t. fold queue_round [0..<n] (Some z, s) = (Some b, t) \<and> aged n s t \<and> picked n s z b"
  using n
proof (induction n)
  case 0
  then show ?case by (simp add: aged_def picked_def)
next
  case (Suc n)
  then obtain b t where t: "fold queue_round [0..<n] (Some z, s) = (Some b, t)" "aged n s t" "picked n s z b" by auto
  have n8: "n < MAX_PROCESS" using Suc.prems by simp
  define t' where "t' = snd (queue_round n (Some b, t))"
  note A = queue_round_aged [OF len n8 t(2), of "Some b", folded t'_def]
  have b8: "b < MAX_PROCESS" using t(3) z(1) by (auto simp: picked_def eligible_def live_def)
  have wn: "unat (wait_time (proc_table t' ! k)) = wt s k + (if k < Suc n \<and> eligible s k then 1 else 0)"
    if "k < MAX_PROCESS" for k
    using A(1) that len w [of k] unat_add_lem [of "wait_time (proc_table s ! k)" 1]
    by (auto simp: aged_def wt_def)
  have pick: "fst (queue_round n (Some b, t)) = (if eligible s n \<and>
      wt s b + (if b < Suc n \<and> eligible s b then 1 else 0) < wt s n + 1 then Some n else Some b)"
    using A(2) wn [OF n8] wn [OF b8] by (auto simp: get_wait_def word_less_nat_alt)
  have step: "fold queue_round [0..<Suc n] (Some z, s) = queue_round n (Some b, t)" using t(1) by simp
  show ?case
  proof (cases "eligible s n \<and> wt s b + (if b < Suc n \<and> eligible s b then 1 else 0) < wt s n + 1")
    case True
    then have "picked (Suc n) s z n"
      using t(3) by (auto simp: picked_def less_Suc_eq split: if_splits)
    moreover have "fst (queue_round n (Some b, t)) = Some n" using pick unfolding if_P [OF True] .
    ultimately show ?thesis using A(1) step
      by (intro exI [of _ n] exI [of _ t']) (simp add: t'_def prod_eq_iff)
  next
    case False
    have "wt s z = 0" using z(3) by (simp add: wt_def)
    then have "picked (Suc n) s z b"
      using t(3) False z(2) by (auto simp: picked_def less_Suc_eq split: if_splits)
    moreover have "fst (queue_round n (Some b, t)) = Some b" using pick unfolding if_not_P [OF False] .
    ultimately show ?thesis using A(1) step
      by (intro exI [of _ b] exI [of _ t']) (simp add: t'_def prod_eq_iff)
  qed
qed

text \<open>Without any assumption on the times, the pick is a live process and only times change.\<close>

lemma queue_fold_live:
  assumes z: "live s z" and n: "n \<le> MAX_PROCESS" and len: "length (proc_table s) = MAX_PROCESS"
  shows "\<exists>b t. fold queue_round [0..<n] (Some z, s) = (Some b, t) \<and> live s b \<and> aged n s t"
  using n
proof (induction n)
  case 0
  with z show ?case by (simp add: aged_def)
next
  case (Suc n)
  then obtain b t where t: "fold queue_round [0..<n] (Some z, s) = (Some b, t)" "live s b" "aged n s t" by auto
  have n8: "n < MAX_PROCESS" using Suc.prems by simp
  note A = queue_round_aged [OF len n8 t(3), of "Some b"]
  have "fst (queue_round n (Some b, t)) = Some n \<and> eligible s n \<or> fst (queue_round n (Some b, t)) = Some b"
    using A(2) by (metis (full_types))
  then obtain b' where "fst (queue_round n (Some b, t)) = Some b'" "live s b'" using t(2) by (auto simp: eligible_def)
  moreover have "fold queue_round [0..<Suc n] (Some z, s) = queue_round n (Some b, t)" using t(1) by simp
  ultimately show ?case using A(1)
    by (intro exI [of _ b'] exI [of _ "snd (queue_round n (Some b, t))"]) (simp add: prod_eq_iff)
qed

subsection \<open>One call\<close>

lemma aged_inv: "aged n s t \<Longrightarrow> proc_inv s \<Longrightarrow> proc_inv t"
  by (rule proc_invI) (auto simp: aged_def live_def proc_invD dest: proc_invD(2) proc_invD(3))

text \<open>
  The state after the call, when slot \<open>b\<close> was picked: its PID is the active one, its
  waiting time is 0, and the other processes are as after aging.
\<close>

definition dispatched :: "nat \<Rightarrow> 'a proc_state_scheme \<Rightarrow> 'a proc_state_scheme \<Rightarrow> bool" where
  "dispatched b s s' \<longleftrightarrow> proc_inv s' \<and> next_pid s' = next_pid s \<and>
     active_pid s' = proc_PID (proc_table s ! b) \<and>
     (\<forall>k<MAX_PROCESS. proc_PID (proc_table s' ! k) = proc_PID (proc_table s ! k) \<and>
        live s' k = live s k \<and> wait_time (proc_table s' ! k) =
          (if k = b then 0 else wait_time (proc_table s ! k) + (if eligible s k then 1 else 0)))"

lemma queue_dispatch:
  assumes I: "proc_inv s" and b: "live s b" and t: "aged MAX_PROCESS s t"
    and f: "fold queue_round [0..<MAX_PROCESS] (get_process 0 s, s) = (Some b, t)"
  shows "dispatched b s (switch_process_from_queue s)"
proof -
  note D = proc_invD [OF I]
  have b8: "b < MAX_PROCESS" using b by (simp add: live_def)
  let ?u = "set_wait (Some b) 0 t" and ?pid = "proc_PID (proc_table s ! b)"
  have tk: "proc_PID (proc_table t ! k) = proc_PID (proc_table s ! k)" "status (proc_table t ! k) = status (proc_table s ! k)"
    "wait_time (proc_table t ! k) = wait_time (proc_table s ! k) + (if eligible s k then 1 else 0)"
    if "k < MAX_PROCESS" for k using t that D(1) by (simp_all add: aged_def)
  have lt: "length (proc_table t) = MAX_PROCESS" "active_pid t = active_pid s" using t D(1) by (simp_all add: aged_def)
  have u: "proc_PID (proc_table ?u ! k) = proc_PID (proc_table s ! k)" "status (proc_table ?u ! k) = status (proc_table s ! k)"
    "wait_time (proc_table ?u ! k) = (if k = b then 0 else wait_time (proc_table s ! k) + (if eligible s k then 1 else 0))"
    if "k < MAX_PROCESS" for k using tk that lt by (auto simp: set_wait_def nth_upd)
  have lu: "length (proc_table ?u) = MAX_PROCESS" "active_pid ?u = active_pid s" "next_pid ?u = next_pid s"
    using lt t by (simp_all add: set_wait_def aged_def)
  have Lu: "live ?u k = live s k" for k using u(2) by (auto simp: live_def)
  have Iu: "proc_inv ?u"
  proof (rule proc_invI)
    show "x = y" if "live ?u x" "live ?u y" "proc_PID (proc_table ?u ! x) = proc_PID (proc_table ?u ! y)" for x y
      using that D(2) [of x y] u(1) [of x] u(1) [of y] unfolding Lu by (simp add: live_def)
    show "proc_PID (proc_table ?u ! x) \<le> MAX_PID" if "live ?u x" for x
      using that D(3) [of x] u(1) [of x] unfolding Lu by (simp add: live_def)
  qed (use D(4) u lu in auto)
  have run: "switch_process_from_queue s = (if ?pid \<noteq> active_pid s then switch_process ?pid ?u else ?u)"
    using f u(1) [OF b8] lu(2) by (simp add: switch_process_from_queue_def get_pid_def)
  show ?thesis
  proof (cases "?pid = active_pid s")
    case True
    then show ?thesis using run Iu u Lu lu by (simp add: dispatched_def)
  next
    case False
    have lb: "live ?u b" using b by (simp add: Lu)
    have pb: "proc_PID (proc_table ?u ! b) = ?pid" by (rule u(1) [OF b8])
    from switch_process_to [OF Iu lb] have S: "switched_to b ?u (switch_process ?pid ?u)"
      using False unfolding pb lu(2) by blast
    show ?thesis unfolding dispatched_def run if_P [OF False]
    proof (intro conjI allI impI)
      show "proc_inv (switch_process ?pid ?u)" by (rule proc_inv_switched_to [OF Iu lb S])
      show "active_pid (switch_process ?pid ?u) = ?pid" using S pb by (simp add: switched_to_def)
      show "next_pid (switch_process ?pid ?u) = next_pid s" using S lu(3) by (simp add: switched_to_def)
      fix k assume k: "k < MAX_PROCESS"
      show "live (switch_process ?pid ?u) k = live s k" using switched_to_live [OF S lu(1) lb] Lu by simp
      show "proc_PID (proc_table (switch_process ?pid ?u) ! k) = proc_PID (proc_table s ! k)"
        "wait_time (proc_table (switch_process ?pid ?u) ! k) =
          (if k = b then 0 else wait_time (proc_table s ! k) + (if eligible s k then 1 else 0))"
        using S k lu u by (simp_all add: switched_to_def)
    qed
  qed
qed

lemma proc_inv_queue:
  assumes I: "proc_inv s" and z: "0 \<in> live_pids s"
  shows "proc_inv (switch_process_from_queue s)" "live_pids (switch_process_from_queue s) = live_pids s"
    and "next_pid (switch_process_from_queue s) = next_pid s"
proof -
  obtain i where i: "get_process 0 s = Some i" using z get_process_None [of 0 s] by auto
  then have "live s i" using get_process_Some by blast
  from queue_fold_live [OF this le_refl proc_invD(1) [OF I]] obtain b t where
    "fold queue_round [0..<MAX_PROCESS] (get_process 0 s, s) = (Some b, t)" "live s b" "aged MAX_PROCESS s t"
    unfolding i by blast
  from queue_dispatch [OF I this(2,3,1)] have d: "dispatched b s (switch_process_from_queue s)" .
  then show "proc_inv (switch_process_from_queue s)" "next_pid (switch_process_from_queue s) = next_pid s"
    by (simp_all add: dispatched_def)
  have "{k. live (switch_process_from_queue s) k} = {k. live s k}" using d by (auto simp: dispatched_def live_def)
  then show "live_pids (switch_process_from_queue s) = live_pids s"
    unfolding live_pids_def by (rule image_cong) (use d in \<open>auto simp: dispatched_def live_def\<close>)
qed

subsection \<open>No starvation\<close>

text \<open>The processes the scheduler would pick before slot \<open>i\<close>.\<close>

definition ahead :: "'a proc_state_scheme \<Rightarrow> nat \<Rightarrow> nat set" where
  "ahead s i = {j. eligible s j \<and> j \<noteq> i \<and> (wt s i < wt s j \<or> wt s j = wt s i \<and> j < i)}"

text \<open>The backstop has PID 0 and waiting time 0, and the times of the others are below a bound.\<close>

definition queue_ok :: "nat \<Rightarrow> 'a proc_state_scheme \<Rightarrow> bool" where
  "queue_ok w s \<longleftrightarrow> proc_inv s \<and>
     (\<exists>z. live s z \<and> proc_PID (proc_table s ! z) = 0 \<and> wait_time (proc_table s ! z) = 0) \<and>
     (\<forall>k. eligible s k \<longrightarrow> wt s k + w < 2 ^ 32)"

lemma finite_ahead: "finite (ahead s i)" "ahead s i \<subseteq> {..<MAX_PROCESS} - {i}"
proof -
  show "ahead s i \<subseteq> {..<MAX_PROCESS} - {i}" by (auto simp: ahead_def eligible_def live_def)
  then show "finite (ahead s i)" by (rule finite_subset) simp
qed

lemma card_ahead:
  assumes Q: "queue_ok w s" and i: "eligible s i"
  shows "card (ahead s i) \<le> 6"
proof -
  obtain z where z: "live s z" "proc_PID (proc_table s ! z) = 0" using Q by (auto simp: queue_ok_def)
  have "z \<notin> ahead s i" "z \<noteq> i" using z i by (auto simp: ahead_def eligible_def)
  then have sub: "ahead s i \<subseteq> {..<MAX_PROCESS} - {i, z}" using finite_ahead(2) [of s i] by blast
  have "card (ahead s i) \<le> card ({..<MAX_PROCESS} - {i, z})" by (rule card_mono [OF _ sub]) simp
  also have "\<dots> = 6" using \<open>z \<noteq> i\<close> i z(1) by (simp add: card_Diff_subset eligible_def live_def)
  finally show ?thesis .
qed

lemma queue_step:
  assumes Q: "queue_ok (Suc w) s"
  shows "\<exists>b. dispatched b s (switch_process_from_queue s) \<and> queue_ok w (switch_process_from_queue s) \<and>
    (\<forall>i. eligible s i \<longrightarrow> eligible s b \<and> (b = i \<or> b \<in> ahead s i)) \<and>
    ((\<forall>i. \<not> eligible s i) \<longrightarrow> proc_PID (proc_table s ! b) = 0)"
proof -
  let ?s = "switch_process_from_queue s"
  have I: "proc_inv s" using Q by (simp add: queue_ok_def)
  note D = proc_invD [OF I]
  obtain z where z: "live s z" "proc_PID (proc_table s ! z) = 0" "wait_time (proc_table s ! z) = 0"
    using Q by (auto simp: queue_ok_def)
  have z8: "z < MAX_PROCESS" "\<not> eligible s z" using z by (simp_all add: live_def eligible_def)
  have g: "get_process 0 s = Some z" by (rule get_process_live [OF I z(1,2)])
  have w: "wt s k + 1 < 2 ^ 32" if "eligible s k" for k
  proof -
    have "wt s k + Suc w < 2 ^ 32" using Q that unfolding queue_ok_def by blast
    then show ?thesis by linarith
  qed
  from queue_fold [OF D(1) le_refl z8 z(3) w] obtain b t where
    f: "fold queue_round [0..<MAX_PROCESS] (get_process 0 s, s) = (Some b, t)" "aged MAX_PROCESS s t"
      "picked MAX_PROCESS s z b" unfolding g by blast
  have b: "live s b" using f(3) z(1) by (auto simp: picked_def eligible_def)
  have d: "dispatched b s ?s" by (rule queue_dispatch [OF I b f(2,1)])
  have E: "eligible ?s k = eligible s k" for k
    using d by (auto simp: eligible_def dispatched_def live_def)
  have wk: "wt ?s k \<le> wt s k + 1" if "eligible s k" for k
  proof -
    have "k < MAX_PROCESS" using that by (simp add: eligible_def live_def)
    then have "wait_time (proc_table ?s ! k) = (if k = b then 0 else wait_time (proc_table s ! k) + 1)"
      using d that by (simp add: dispatched_def)
    then show ?thesis using w [OF that] unat_add_lem [of "wait_time (proc_table s ! k)" 1]
      by (auto simp: wt_def)
  qed
  have "queue_ok w ?s" unfolding queue_ok_def
  proof (intro conjI exI [of _ z] allI impI)
    show "proc_inv ?s" "live ?s z" "proc_PID (proc_table ?s ! z) = 0" "wait_time (proc_table ?s ! z) = 0"
      using d z z8 by (auto simp: dispatched_def)
    fix k assume "eligible ?s k"
    then have k: "eligible s k" by (simp add: E)
    then have "wt s k + Suc w < 2 ^ 32" using Q unfolding queue_ok_def by blast
    with wk [OF k] show "wt ?s k + w < 2 ^ 32" by linarith
  qed
  moreover have "eligible s b \<and> (b = i \<or> b \<in> ahead s i)" if "eligible s i" for i
  proof -
    have "i < MAX_PROCESS" using that by (simp add: eligible_def live_def)
    then have "eligible s b" "wt s i < wt s b \<or> wt s i = wt s b \<and> b \<le> i"
      using f(3) that unfolding picked_def by blast+
    then show ?thesis by (auto simp: ahead_def)
  qed
  moreover have "proc_PID (proc_table s ! b) = 0" if "\<forall>i. \<not> eligible s i"
    using f(3) that z(2) by (auto simp: picked_def)
  ultimately show ?thesis using d by blast
qed

lemma ahead_step:
  assumes Q: "queue_ok (Suc w) s" and d: "dispatched b s s'" and i: "eligible s i" and b: "eligible s b" "b \<noteq> i"
  shows "ahead s' i \<subseteq> ahead s i - {b}" "eligible s' i"
proof -
  have w: "wt s k + 1 < 2 ^ 32" if "eligible s k" for k
  proof -
    have "wt s k + Suc w < 2 ^ 32" using Q that unfolding queue_ok_def by blast
    then show ?thesis by linarith
  qed
  have E: "eligible s' k = eligible s k" for k using d by (auto simp: eligible_def dispatched_def live_def)
  show "eligible s' i" using i by (simp add: E)
  have wk: "wt s' k = (if k = b then 0 else wt s k + 1)" if "eligible s k" for k
  proof -
    have "k < MAX_PROCESS" using that by (simp add: eligible_def live_def)
    then have "wait_time (proc_table s' ! k) = (if k = b then 0 else wait_time (proc_table s ! k) + 1)"
      using d that by (simp add: dispatched_def)
    then show ?thesis using w [OF that] unat_add_lem [of "wait_time (proc_table s ! k)" 1]
      by (auto simp: wt_def)
  qed
  show "ahead s' i \<subseteq> ahead s i - {b}"
    using wk [OF i] b by (auto simp: ahead_def E wk split: if_splits)
qed

lemma no_starvation:
  assumes "queue_ok (Suc n) s" "eligible s i" "card (ahead s i) \<le> n"
  shows "\<exists>k\<le>n. active_pid ((switch_process_from_queue ^^ Suc k) s) = proc_PID (proc_table s ! i)"
  using assms
proof (induction n arbitrary: s)
  case 0
  then have "ahead s i = {}" using finite_ahead(1) [of s i] by simp
  with queue_step [OF 0(1)] 0(2) have "dispatched i s (switch_process_from_queue s)" by blast
  then show ?case by (simp add: dispatched_def)
next
  case (Suc n)
  let ?s = "switch_process_from_queue s"
  obtain b where b: "dispatched b s ?s" "queue_ok (Suc n) ?s" "eligible s b" "b = i \<or> b \<in> ahead s i"
    using queue_step [OF Suc.prems(1)] Suc.prems(2) by blast
  show ?case
  proof (cases "b = i")
    case True
    with b(1) show ?thesis by (intro exI [of _ 0]) (simp add: dispatched_def)
  next
    case False
    note A = ahead_step [OF Suc.prems(1) b(1) Suc.prems(2) b(3) False]
    have "card (ahead ?s i) \<le> card (ahead s i - {b})"
      using finite_ahead(1) [of s i] by (intro card_mono [OF _ A(1)]) simp
    also have "\<dots> \<le> n" using b(4) False Suc.prems(3) finite_ahead(1) [of s i] by simp
    finally obtain k where k: "k \<le> n"
      "active_pid ((switch_process_from_queue ^^ Suc k) ?s) = proc_PID (proc_table ?s ! i)"
      using Suc.IH [OF b(2) A(2)] by blast
    moreover have "proc_PID (proc_table ?s ! i) = proc_PID (proc_table s ! i)"
      using b(1) Suc.prems(2) by (simp add: dispatched_def eligible_def live_def)
    moreover have "(switch_process_from_queue ^^ Suc k) ?s = (switch_process_from_queue ^^ Suc (Suc k)) s"
      by (simp only: funpow_Suc_right o_def)
    ultimately show ?thesis by (intro exI [of _ "Suc k"]) simp
  qed
qed

text \<open>The backstop starves as long as there is another process.\<close>

lemma backstop_waits:
  assumes "queue_ok (Suc n) s" "eligible s i"
  shows "active_pid ((switch_process_from_queue ^^ Suc n) s) \<noteq> 0"
  using assms
proof (induction n arbitrary: s)
  case (0 s)
  with queue_step [OF 0(1)] obtain b where "dispatched b s (switch_process_from_queue s)" "eligible s b" by blast
  then show ?case by (simp add: dispatched_def eligible_def)
next
  case (Suc n)
  let ?s = "switch_process_from_queue s"
  obtain b where b: "dispatched b s ?s" "queue_ok (Suc n) ?s" using queue_step [OF Suc.prems(1)] by blast
  have "eligible ?s i" using b(1) Suc.prems(2) by (auto simp: eligible_def dispatched_def live_def)
  have "(switch_process_from_queue ^^ Suc (Suc n)) s = (switch_process_from_queue ^^ Suc n) ?s"
    by (simp only: funpow_Suc_right o_def)
  with Suc.IH [OF b(2) \<open>eligible ?s i\<close>] show ?case by (simp del: funpow.simps)
qed

subsection \<open>The life of the process table\<close>

text \<open>
  The steps that change the table once \<open>kernel_main\<close> has set it up: a process is created, whether
  or not a slot is free, a process is killed, the timer calls the scheduler, or other code runs
  that leaves the table and \<open>active_pid\<close> alone. \<open>K\<close> has the PIDs that may be killed: the code
  does not refuse to kill PID 0.
\<close>

inductive table_step :: "u32 set \<Rightarrow> 'a proc_state_scheme \<Rightarrow> 'a proc_state_scheme \<Rightarrow> bool" for K where
  spawn: "init_process entry bottom s = Some (pid, s') \<Longrightarrow> table_step K s s'"
| kill: "PID \<in> K \<Longrightarrow> kill_process PID s = Some s' \<Longrightarrow> table_step K s s'"
| tick: "table_step K s (switch_process_from_queue s)"
| other: "proc_table s' = proc_table s \<Longrightarrow> active_pid s' = active_pid s \<Longrightarrow> next_pid s' = next_pid s \<Longrightarrow>
    table_step K s s'"

text \<open>What every reachable state satisfies; \<open>sched_inv\<close> also says that the backstop is there.\<close>

definition table_inv :: "'a proc_state_scheme \<Rightarrow> bool" where
  "table_inv s \<longleftrightarrow> proc_inv s \<and> pid_counter_ok s"

definition sched_inv :: "'a proc_state_scheme \<Rightarrow> bool" where
  "sched_inv s \<longleftrightarrow> proc_inv s \<and> pid_counter_ok s \<and> 0 \<in> live_pids s"

lemma kill_process_next_pid: "kill_process PID s = Some s' \<Longrightarrow> next_pid s' = next_pid s"
  using kill_process_result [of PID s s'] proc_frame [of _ s']
  by (auto simp: set_status_def upd_slot_def split: option.splits)

lemma init_process_step:
  assumes I: "proc_inv s" and c: "pid_counter_ok s" and r: "reserve_proc_table_slot s \<noteq> None"
    and i: "init_process entry bottom s = Some (pid, s')"
  shows "proc_inv s'" "pid_counter_ok s'" "live_pids s' = insert pid (live_pids s)" "pid \<notin> live_pids s"
proof -
  obtain j where j: "reserve_proc_table_slot s = Some j" using r by auto
  note slot = reserve_slot_Some [OF j]
  obtain m pr where s': "pid \<notin> live_pids s" "pid \<le> MAX_PID" "proc_PID pr = pid" "status pr = SPAWNED"
    "s' = s\<lparr>next_pid := pid, mem := m, proc_table := (proc_table s)[j := pr]\<rparr>"
    using init_process_ok [OF I c j, of entry bottom] i by force
  have t: "proc_table s' = (proc_table s)[j := pr]" "active_pid s' = active_pid s" by (simp_all add: s'(5))
  from slot have sl: "j < MAX_PROCESS" "status (proc_table s ! j) = STOPPED" by auto
  show "proc_inv s'" "live_pids s' = insert pid (live_pids s)"
    using proc_inv_spawn [OF I sl s'(1,2) t s'(3,4)] by simp_all
  show "pid_counter_ok s'" using s'(2) by (simp add: pid_counter_ok_def s'(5))
  show "pid \<notin> live_pids s" by (rule s'(1))
qed

text \<open>The scheduler without a backstop: it starts from the null pointer.\<close>

lemma queue_fold_any:
  assumes len: "length (proc_table s) = MAX_PROCESS" and n: "n \<le> MAX_PROCESS"
  shows "\<exists>b t. fold queue_round [0..<n] (None, s) = (b, t) \<and> (\<forall>z. b = Some z \<longrightarrow> live s z) \<and> aged n s t"
  using n
proof (induction n)
  case 0
  then show ?case by (simp add: aged_def)
next
  case (Suc n)
  then obtain b t where t: "fold queue_round [0..<n] (None, s) = (b, t)" "\<forall>z. b = Some z \<longrightarrow> live s z" "aged n s t" by auto
  have n8: "n < MAX_PROCESS" using Suc.prems by simp
  note A = queue_round_aged [OF len n8 t(3), of b]
  have "\<forall>z. fst (queue_round n (b, t)) = Some z \<longrightarrow> live s z"
    using A(2) t(2) by (auto simp: eligible_def split: if_splits)
  moreover have "fold queue_round [0..<Suc n] (None, s) = queue_round n (b, t)" using t(1) by simp
  ultimately show ?case using A(1) by (metis prod.collapse)
qed

lemma proc_inv_switch_any:
  assumes "proc_inv s"
  shows "proc_inv (switch_process PID s)" "live_pids (switch_process PID s) = live_pids s" "next_pid (switch_process PID s) = next_pid s"
proof -
  have "proc_inv (switch_process PID s) \<and> live_pids (switch_process PID s) = live_pids s \<and> next_pid (switch_process PID s) = next_pid s"
  proof (cases "PID \<in> live_pids s")
    case True
    then obtain i where i: "live s i" "PID = proc_PID (proc_table s ! i)" unfolding live_pids_def by blast
    show ?thesis
    proof (cases "PID = active_pid s")
      case True
      with switch_process_self [OF assms i(1)] i(2) assms show ?thesis by simp
    next
      case False
      then have S: "switched_to i s (switch_process PID s)" using switch_process_to [OF assms i(1)] i(2) by simp
      have "live_pids (switch_process PID s) = live_pids s"
        unfolding live_pids_def switched_to_live [OF S proc_invD(1) [OF assms] i(1)]
        by (rule image_cong [OF refl]) (use S proc_invD(1) [OF assms] in \<open>simp add: switched_to_def live_def\<close>)
      then show ?thesis using proc_inv_switched_to [OF assms i(1) S] S by (simp add: switched_to_def)
    qed
  next
    case False
    note n = switch_process_none [OF assms False]
    have "live_pids (switch_process PID s) = live_pids s"
      unfolding live_pids_def n(2) by (rule image_cong [OF refl]) (use n(3) in \<open>simp add: live_def\<close>)
    with n(1,4) show ?thesis by simp
  qed
  then show "proc_inv (switch_process PID s)" "live_pids (switch_process PID s) = live_pids s" "next_pid (switch_process PID s) = next_pid s"
    by simp_all
qed

lemma queue_keeps:
  assumes I: "proc_inv s"
  shows "proc_inv (switch_process_from_queue s)" "live_pids (switch_process_from_queue s) = live_pids s"
    "next_pid (switch_process_from_queue s) = next_pid s"
proof -
  let ?s' = "switch_process_from_queue s"
  have "proc_inv ?s' \<and> live_pids ?s' = live_pids s \<and> next_pid ?s' = next_pid s"
  proof (cases "0 \<in> live_pids s")
    case False
    then have g: "get_process 0 s = None" by (simp add: get_process_None)
    obtain b t where f: "fold queue_round [0..<MAX_PROCESS] (None, s) = (b, t)" "\<forall>z. b = Some z \<longrightarrow> live s z"
      "aged MAX_PROCESS s t" using queue_fold_any [OF proc_invD(1) [OF I] order_refl] by blast
    show ?thesis
    proof (cases b)
      case None
      let ?u = "set_wait None 0 t"
      have u: "proc_inv ?u" using proc_inv_cong [OF aged_inv [OF f(3) I], of ?u] by (simp add: set_wait_def)
      have L: "live t k = live s k" for k using f(3) proc_invD(1) [OF I] by (auto simp: aged_def live_def)
      have "live_pids t = live_pids s" unfolding live_pids_def L
        by (rule image_cong [OF refl]) (use f(3) proc_invD(1) [OF I] in \<open>simp add: aged_def live_def\<close>)
      then have "live_pids ?u = live_pids s" by (simp add: live_pids_def live_def set_wait_def)
      moreover have "next_pid ?u = next_pid s" using f(3) by (simp add: aged_def set_wait_def)
      moreover have "?s' = (if get_pid None ?u \<noteq> active_pid ?u then switch_process (get_pid None ?u) ?u else ?u)"
        using f(1) None by (simp add: switch_process_from_queue_def g Let_def)
      ultimately show ?thesis using u proc_inv_switch_any [OF u] by simp
    next
      case (Some z)
      have d: "dispatched z s ?s'" by (rule queue_dispatch [OF I _ f(3)]) (use f(1,2) Some g in simp_all)
      have L: "live ?s' k = live s k" for k using d by (cases "k < MAX_PROCESS") (simp_all add: dispatched_def, simp add: live_def)
      have "live_pids ?s' = live_pids s" unfolding live_pids_def L
        by (rule image_cong [OF refl]) (use d in \<open>simp add: dispatched_def live_def\<close>)
      with d show ?thesis by (simp add: dispatched_def)
    qed
  qed (use proc_inv_queue [OF I] in simp)
  then show "proc_inv ?s'" "live_pids ?s' = live_pids s" "next_pid ?s' = next_pid s" by simp_all
qed

lemma table_step_keeps:
  assumes "table_step K s s'" "table_inv s"
  shows "table_inv s'" "live_pids s - K \<subseteq> live_pids s'"
proof -
  have I: "proc_inv s" "pid_counter_ok s" using assms(2) by (simp_all add: table_inv_def)
  have "table_inv s' \<and> live_pids s - K \<subseteq> live_pids s'"
    using assms(1)
  proof cases
    case (spawn entry bottom pid)
    show ?thesis
    proof (cases "reserve_proc_table_slot s = None")
      case True
      note f = init_process_full [OF I(2) True spawn]
      have "live_pids s' = live_pids s" by (simp add: live_pids_def live_def f)
      then show ?thesis using proc_inv_cong [OF I(1) f(1,2)] f(3) by (simp add: table_inv_def pid_counter_ok_def)
    next
      case False
      from init_process_step [OF I False spawn] show ?thesis by (auto simp: table_inv_def)
    qed
  next
    case (kill PID)
    with proc_inv_kill_process [OF I(1) kill(2)] kill_process_next_pid [OF kill(2)] I(2) show ?thesis
      by (auto simp: table_inv_def pid_counter_ok_def)
  next
    case tick
    with queue_keeps [OF I(1)] I(2) show ?thesis by (simp add: table_inv_def pid_counter_ok_def)
  next
    case other
    then have "live_pids s' = live_pids s" by (simp add: live_pids_def live_def)
    with other proc_inv_cong [OF I(1) other(1,2)] I(2) show ?thesis by (simp add: table_inv_def pid_counter_ok_def)
  qed
  then show "table_inv s'" "live_pids s - K \<subseteq> live_pids s'" by simp_all
qed

interpretation table: invariant_steps "table_step K" table_inv for K
  by unfold_locales (rule table_step_keeps(1))

lemma sched_inv_table: "sched_inv s \<longleftrightarrow> table_inv s \<and> 0 \<in> live_pids s"
  by (simp add: sched_inv_def table_inv_def)

text \<open>A live process that is not among those that may be killed stays.\<close>

lemma table_steps_live:
  assumes "(table_step K)\<^sup>*\<^sup>* s s'" "table_inv s" "PID \<in> live_pids s" "PID \<notin> K"
  shows "PID \<in> live_pids s'"
  using assms(1)
proof (induction rule: rtranclp_induct)
  case (step t u)
  with table_step_keeps(2) [OF step.hyps(2) table.reaches [OF step.hyps(1) assms(2)]] assms(4) show ?case by blast
qed (rule assms(3))

lemma sched_inv_step: "table_step {} s s' \<Longrightarrow> sched_inv s \<Longrightarrow> sched_inv s'"
  unfolding sched_inv_table using table_step_keeps [of "{}" s s'] by blast

end
