(* ===== verification/ProcHeap.thy ===== *)
theory ProcHeap
  imports ProcSwitch Scheduler Allocator
begin

section \<open>ProcHeap: processes and the heap their stacks live in\<close>

text \<open>
  A process's stack is a live block of the heap: setting it up writes only inside the
  block, and killing the process gives the block back.
\<close>

lemma heap_rel_scale:
  assumes R: "heap_rel s L" and a: "L a = Some k"
  shows "scale (mem s) (W a) = of_nat k"
proof -
  obtain B F where C: "heap_core (mem s) (unat (free_list s)) (unat (current_brk s)) B F {}"
    and L: "L = live_map B F" using R unfolding heap_rel_def by blast
  have "B a = Some k" using a L by (simp add: live_map_Some)
  then show ?thesis by (rule heap_coreD(4) [OF C])
qed

text \<open>The top word of a stack in a block of scale \<open>k\<close> is the block's last word.\<close>

lemma stack_top_word:
  fixes s :: "'a heap_state_scheme"
  assumes R: "heap_rel s L" and a: "L a = Some k"
  shows "W (a + 9) - HEADER_SIZE + shl1 (scale (mem s) (W (a + 9) - HEADER_SIZE)) - 4 = W (a + 2 ^ k - 4)"
proof -
  have k: "4 \<le> k" "k \<le> 15" using heap_rel_block [OF R a] by simp_all
  have e: "W (a + 9) - HEADER_SIZE = W a" by simp
  have "(16 :: nat) \<le> 2 ^ k" using power_increasing [of 4 k "2 :: nat"] k by simp
  then show ?thesis
    unfolding e heap_rel_scale [OF R a] shl1_of_nat [OF k(2)] of_nat_add_u32 by (intro W_minus_4) simp
qed

lemma init_process_heap:
  fixes s :: "'a proc_state_scheme"
  assumes I: "proc_inv s" and c: "pid_counter_ok s" and slot: "reserve_proc_table_slot s = Some i"
    and R: "heap_rel s L" and a: "L a = Some k" and k: "7 \<le> k"
  defines "T \<equiv> a + 2 ^ k - 4"
  shows "\<exists>pid s'. init_process entry (W (a + 9)) s = Some (pid, s') \<and> pid \<notin> live_pids s \<and>
    (pid = 0 \<longleftrightarrow> next_pid s = - 1 \<and> 0 \<notin> live_pids s) \<and> heap_rel s' L \<and>
    mem s' = write_down (mem s) (W T) (init_stack_words pid (switch_from_queue_addr s) (kill_process_addr s) entry (W T)) \<and>
    proc_table s' = (proc_table s)[i := \<lparr>proc_context = \<lparr>ctx_ESP = W T - 52, stack_top = W T, stack_bottom = W (a + 9)\<rparr>,
        proc_PID = pid, status = SPAWNED, entry_point = entry, wait_time = 0\<rparr>] \<and>
    same_on (- {a + 9..<a + 2 ^ k}) (mem s) (mem s') \<and> s' = s\<lparr>next_pid := pid, mem := mem s', proc_table := proc_table s'\<rparr>"
proof -
  have p: "(128 :: nat) \<le> 2 ^ k" using power_increasing [of 7 k "2 :: nat"] k by simp
  have T: "56 \<le> T + 4" "T + 4 = a + 2 ^ k" "T + 4 \<le> 2 ^ 32" "T + 4 - 56 \<ge> a + 9"
    using p payload_range(4) [OF R a] by (simp_all add: T_def)
  obtain pid where i: "pid \<notin> live_pids s" "pid = 0 \<longleftrightarrow> next_pid s = - 1 \<and> 0 \<notin> live_pids s"
    "init_process entry (W (a + 9)) s = Some (pid, s\<lparr>next_pid := pid,
      mem := write_down (mem s) (W T)
        (init_stack_words pid (switch_from_queue_addr s) (kill_process_addr s) entry (W T)),
      proc_table := (proc_table s)[i := \<lparr>proc_context =
          \<lparr>ctx_ESP = W T - 52, stack_top = W T, stack_bottom = W (a + 9)\<rparr>,
        proc_PID = pid, status = SPAWNED, entry_point = entry, wait_time = 0\<rparr>]\<rparr>)" (is "_ = Some (_, ?s')")
    using init_process_ok [OF I c slot, of entry "W (a + 9)", unfolded stack_top_word [OF R a], folded T_def] by blast
  let ?ws = "init_stack_words pid (switch_from_queue_addr s) (kill_process_addr s) entry (W T)"
  have len: "4 * length ?ws = 56" by (simp add: init_stack_words_def)
  have same_on: "same_on (- {T + 4 - 4 * length ?ws..<T + 4}) (mem s) (mem ?s')"
    using write_down_same_on [of ?ws T "mem s"] T(1,3) unfolding len by simp
  then have own: "same_on (- {a + 9..<a + 2 ^ k}) (mem s) (mem ?s')"
    by (rule same_on_subset) (use T(2,4) len in auto)
  have "same_on (- kept (free_list s) L) (mem s) (mem ?s')"
  proof (rule same_on_subset [OF same_on])
    have "{T + 4 - 56..<T + 4} \<subseteq> kept (free_list s) L" unfolding kept_def T(2) using a T(2,4) by auto
    then show "- kept (free_list s) L \<subseteq> - {T + 4 - 4 * length ?ws..<T + 4}" unfolding len by blast
  qed
  then have "heap_rel ?s' L" by (rule heap_rel_cong [OF R]) simp_all
  with i own show ?thesis by (intro exI [of _ pid] exI [of _ ?s']) simp
qed

lemma kill_process_heap:
  fixes s :: "'a proc_state_scheme"
  assumes g: "get_process PID s = Some i" and R: "heap_rel s L" and a: "L a = Some k"
    and st: "stack_bottom (proc_context (proc_table s ! i)) = W (a + 9)"
  shows "\<exists>s'. kill_process PID s = Some s' \<and> heap_rel s' (L(a := None)) \<and>
    same_on (kept (free_list s) (L(a := None))) (mem s) (mem s')"
proof -
  let ?s = "set_status (Some i) STOPPED s"
  have m: "mem ?s = mem s" "free_list ?s = free_list s" "current_brk ?s = current_brk s"
    by (simp_all add: set_status_def upd_slot_def)
  have "heap_rel ?s L" by (rule heap_rel_cong [OF R]) (simp_all add: m)
  from free_spec [OF this a] obtain s' where s': "free (W (a + 9)) ?s = Some (0, s')"
    "heap_rel s' (L(a := None))" "same_on (kept (free_list s) (L(a := None))) (mem s) (mem s')"
    unfolding m by blast
  have "stack_bottom (proc_context (proc_table ?s ! i)) = W (a + 9)"
    using st by (cases "i < length (proc_table s)") (simp_all add: set_status_def upd_slot_def nth_upd list_update_beyond not_less)
  then have "kill_process PID s = Some s'" unfolding kill_process_def g using s'(1) by (simp add: Let_def)
  with s' show ?thesis by blast
qed

end
