(* ===== verification/ProcProps.thy ===== *)
theory ProcProps
  imports ProcHeap HeapProps
begin

section \<open>ProcProps: the properties of processes and the scheduler\<close>

text \<open>
  The claims about process/process.c and context_switch.S. The witnesses use the
  empty table of the boot with one heap block for a stack, or a table with
  the backstop process and two others.
\<close>

subsection \<open>Concrete states\<close>

definition slot_of :: "u32 \<Rightarrow> process_status \<Rightarrow> u32 \<Rightarrow> process_struct" where
  "slot_of pid st sp = \<lparr>proc_context = \<lparr>ctx_ESP = sp, stack_top = 0, stack_bottom = 0\<rparr>,
     proc_PID = pid, status = st, entry_point = 0, wait_time = 0\<rparr>"

definition boot_table :: proc_state where
  "boot_table = \<lparr>mem = (\<lambda>_. 0), terminal_row = 0, terminal_column = 0, terminal_color = 7,
     terminal_buffer = (\<lambda>_. 0), free_list = 0x100000, current_brk = 0,
     proc_table = replicate 8 (slot_of 0 STOPPED 0), active_pid = - 1, next_pid = - 1,
     regs = \<lparr>eax = 0, ecx = 0, edx = 0, ebx = 0, esp = 0x8000, ebp = 0x9000, esi = 0, edi = 0, eflags = 0x202, eip = 0\<rparr>,
     kill_process_addr = 0x101000, switch_from_queue_addr = 0x102000\<rparr>"

text \<open>
  The backstop in slot 0, the active process in slot 1 and a spawned one in slot 2, whose
  saved frame is at 0x7000: the word stored is its saved EBP.
\<close>

definition busy :: proc_state where
  "busy = boot_table\<lparr>proc_table := [slot_of 0 WAITING 0x6000, slot_of 1 ACTIVE 0x8000, slot_of 2 SPAWNED 0x7000]
      @ replicate 5 (slot_of 0 STOPPED 0), active_pid := 1, next_pid := 2,
    mem := wr32 (\<lambda>_. 0) 0x700C 0x7024\<rparr>"

lemma boot_table_inv: "proc_inv boot_table" "live_pids boot_table = {}" "pid_counter_ok boot_table"
    "reserve_proc_table_slot boot_table = Some 0"
proof -
  have l: "\<not> live boot_table i" for i by (auto simp: live_def boot_table_def slot_of_def)
  then show "live_pids boot_table = {}" by (simp add: live_pids_def)
  show "proc_inv boot_table"
    by (rule proc_invI) (use l in \<open>auto simp: boot_table_def slot_of_def\<close>)
  show "pid_counter_ok boot_table" by (simp add: pid_counter_ok_def boot_table_def)
  have "[0..<8] = 0 # [1..<8]" by (simp add: upt_rec)
  then show "reserve_proc_table_slot boot_table = Some 0"
    by (simp add: reserve_proc_table_slot_def boot_table_def slot_of_def)
qed

lemma busy_nth: "proc_table busy ! 0 = slot_of 0 WAITING 0x6000" "proc_table busy ! 1 = slot_of 1 ACTIVE 0x8000"
    "proc_table busy ! 2 = slot_of 2 SPAWNED 0x7000" "2 < i \<Longrightarrow> i < 8 \<Longrightarrow> proc_table busy ! i = slot_of 0 STOPPED 0"
  by (simp_all add: busy_def nth_Cons')

lemma live_busy: "live busy i \<longleftrightarrow> i \<in> {0, 1, 2}"
proof (cases "i \<in> {0, 1, 2}")
  case True
  then show ?thesis using busy_nth(1-3) by (auto simp: live_def slot_of_def)
next
  case False
  then show ?thesis using busy_nth(4) [of i] by (auto simp: live_def slot_of_def)
qed

lemma busy_pid: "proc_PID (proc_table busy ! 0) = 0" "proc_PID (proc_table busy ! 1) = 1"
    "proc_PID (proc_table busy ! Suc 0) = 1" "proc_PID (proc_table busy ! 2) = 2"
  using busy_nth(1-3) by (simp_all add: slot_of_def)

lemma busy_inv: "proc_inv busy" "active_pid busy = 1" "next_pid busy = 2"
proof -
  show "proc_inv busy"
  proof (rule proc_invI)
    show "length (proc_table busy) = MAX_PROCESS" by (simp add: busy_def)
    show "i = j" if "live busy i" "live busy j" "proc_PID (proc_table busy ! i) = proc_PID (proc_table busy ! j)" for i j
      using that busy_pid by (auto simp: live_busy)
    show "proc_PID (proc_table busy ! i) \<le> MAX_PID" if "live busy i" for i
      using that busy_pid by (auto simp: live_busy)
    show "proc_PID (proc_table busy ! i) = active_pid busy"
      if "i < MAX_PROCESS" "status (proc_table busy ! i) = ACTIVE" for i
    proof -
      have "live busy i" using that by (simp add: live_def)
      then have "i = 1" using that(2) busy_nth(1-3) by (auto simp: live_busy slot_of_def)
      then show ?thesis using busy_pid by (simp add: busy_def)
    qed
  qed
qed (simp_all add: busy_def)

lemma busy_get: "get_process 0 busy = Some 0" "get_process 1 busy = Some 1" "get_process 2 busy = Some 2"
  using get_process_live [OF busy_inv(1)] busy_pid by (auto simp: live_busy)

lemma busy_pids: "live_pids busy = {0, 1, 2}"
  unfolding live_pids_def live_busy using busy_pid by auto

lemma busy_queue: "queue_ok 100 busy"
  unfolding queue_ok_def
proof (intro conjI allI impI)
  show "\<exists>z. live busy z \<and> proc_PID (proc_table busy ! z) = 0 \<and> wait_time (proc_table busy ! z) = 0"
    by (intro exI [of _ 0]) (simp add: live_busy busy_nth(1) slot_of_def)
  show "wt busy k + 100 < 2 ^ 32" if "eligible busy k" for k
    using that busy_nth(1-3) by (auto simp: eligible_def live_busy wt_def slot_of_def)
qed (rule busy_inv)

text \<open>The boot with one block allocated for a stack.\<close>

lemma boot_stack:
  "\<exists>s a k. proc_inv s \<and> pid_counter_ok s \<and> reserve_proc_table_slot s = Some 0 \<and> live_pids s = {} \<and>
     heap_rel (s :: proc_state) [a \<mapsto> k] \<and> 7 \<le> k"
proof -
  have fl: "unat (free_list boot_table) + 128 \<le> heap_base" by (simp add: boot_table_def heap_base_def)
  obtain s where s: "heap_rel s Map.empty" "unat (current_brk s) = heap_base + 2 ^ 15"
    "s = boot_table\<lparr>mem := mem s, current_brk := W (heap_base + 2 ^ 15)\<rparr>"
    using init_heap_core [OF fl] by blast
  have "(500 :: nat) + 9 \<le> 2 ^ 15" by simp
  from allocate_spec [OF s(1) _ this] s(2) obtain s1 a k where
    s1: "allocate (W 500) s = Some (W (a + 9), s1)" "500 + 9 \<le> (2 :: nat) ^ k" "heap_rel s1 [a \<mapsto> k]"
    by (auto simp: heap_base_def)
  have k: "7 \<le> k"
  proof (rule ccontr)
    assume "\<not> 7 \<le> k"
    then have "(2 :: nat) ^ k \<le> 2 ^ 6" by (intro power_increasing) simp_all
    with s1(2) show False by simp
  qed
  have "heap_frame boot_table s" by (subst s(3)) (simp add: frame_simps)
  then have "heap_frame boot_table s1" using allocate_heap_frame [OF s1(1)] by (rule heap_frame_trans)
  from proc_frame [OF this] have t: "proc_table s1 = proc_table boot_table" "active_pid s1 = active_pid boot_table"
    "next_pid s1 = next_pid boot_table" by simp_all
  have "proc_inv s1" by (rule proc_inv_cong [OF boot_table_inv(1) t(1,2)])
  moreover have "pid_counter_ok s1" using boot_table_inv(3) by (simp add: pid_counter_ok_def t)
  moreover have "live_pids s1 = {}" using boot_table_inv(2) by (simp add: live_pids_def live_def t)
  moreover have "reserve_proc_table_slot s1 = Some 0"
    using boot_table_inv(4) by (simp add: reserve_proc_table_slot_def t)
  ultimately show ?thesis using s1(3) k by blast
qed

subsection \<open>The table\<close>

text \<open>
  C19: \<open>get_next_PID\<close> returns on every table, with a PID that no process has and that is at
  most MAX_PID; PID 0 is given out by the very first call only.
\<close>

theorem next_pid_fresh:
  assumes "pid_counter_ok s"
  shows "\<exists>pid. get_next_PID s = Some (pid, s\<lparr>next_pid := pid\<rparr>) \<and> pid \<notin> live_pids s \<and> pid \<le> MAX_PID \<and>
    (pid = 0 \<longleftrightarrow> next_pid s = - 1 \<and> 0 \<notin> live_pids s)"
  by (rule get_next_PID_fresh [OF assms])

lemma next_pid_fresh_witness: "\<exists>pid s'. get_next_PID busy = Some (pid, s') \<and> pid \<notin> {0, 1, 2}"
proof -
  have "pid_counter_ok busy" by (simp add: pid_counter_ok_def busy_inv)
  from next_pid_fresh [OF this] show ?thesis unfolding busy_pids by blast
qed



text \<open>
  C9: a new process starts at its entry point: once the scheduler restores the context
  that \<open>init_process\<close> set up, the CPU is at the entry point with interrupts enabled, and its
  stack holds \<open>kill_process\<close> as the return address, then \<open>switch_process_from_queue\<close> as that
  one's return address, and the process's own PID as its argument.
\<close>

theorem new_process_starts:
  fixes s :: "'a proc_state_scheme" and d :: cpu
  assumes "proc_inv s" "pid_counter_ok s" "reserve_proc_table_slot s = Some i"
    and "heap_rel s L" "L a = Some k" "7 \<le> k"
    and "init_process entry (of_nat (a + 9)) s = Some (pid, s')"
    and "same_on {a + 9..<a + 2 ^ k} (mem s') m"
  shows "let c = restore_context (ctx_ESP (proc_context (proc_table s' ! i))) m d
    in eip c = entry \<and> eflags c = 0x202 \<and> rd32 m (esp c) = kill_process_addr s \<and>
      rd32 m (esp c + 4) = switch_from_queue_addr s \<and> rd32 m (esp c + 8) = pid"
proof -
  define T where "T = a + 2 ^ k - 4"
  have p: "(128 :: nat) \<le> 2 ^ k" using power_increasing [of 7 k "2 :: nat"] assms(6) by simp
  have T: "52 \<le> T" "T + 4 \<le> 2 ^ 32" "a + 9 \<le> T - 52" "T + 4 = a + 2 ^ k"
    using p payload_range(4) [OF assms(4,5)] by (simp_all add: T_def)
  have m: "mem s' = write_down (mem s) (W T)
      (init_stack_words pid (switch_from_queue_addr s) (kill_process_addr s) entry (W T))"
    and t: "proc_table s' = (proc_table s)[i := \<lparr>proc_context = \<lparr>ctx_ESP = W T - 52, stack_top = W T,
        stack_bottom = W (a + 9)\<rparr>, proc_PID = pid, status = SPAWNED, entry_point = entry, wait_time = 0\<rparr>]"
    using init_process_heap [OF assms(1-6), of entry, folded T_def] assms(7) by auto
  have "same_on {T - 52..<T + 4} (mem s') m"
    by (rule same_on_subset [OF assms(8)]) (use T(3,4) in auto)
  note N = restore_new_process(1-3) [OF T(1,2) m this, where d = d] restore_new_process(4-6) [OF T(1,2) m this]
  have "i < length (proc_table s)" using reserve_slot_Some [OF assms(3)] proc_invD(1) [OF assms(1)] by simp
  then have "ctx_ESP (proc_context (proc_table s' ! i)) = W T - 52" by (simp add: t)
  with N show ?thesis by (simp add: Let_def)
qed

lemma new_process_starts_witness:
  "\<exists>(s :: proc_state) p pid s'. init_process 0x1234 p s = Some (pid, s') \<and>
     eip (restore_context (ctx_ESP (proc_context (proc_table s' ! 0))) (mem s') (regs s)) = 0x1234"
proof -
  obtain s :: proc_state and a k where s: "proc_inv s" "pid_counter_ok s" "reserve_proc_table_slot s = Some 0"
    "heap_rel s [a \<mapsto> k]" "7 \<le> k" using boot_stack by blast
  have a: "[a \<mapsto> k] a = Some k" by simp
  obtain pid s' where i: "init_process 0x1234 (W (a + 9)) s = Some (pid, s')"
    using init_process_heap [OF s(1-4) a s(5), of "0x1234"] by blast
  from new_process_starts [OF s(1-4) a s(5) i same_on_refl, where d = "regs s"] i show ?thesis
    by (auto simp: Let_def)
qed

text \<open>
  C13: killing a process takes exactly its PID out of the table and returns its stack to
  the heap; no other live block's bytes change.
\<close>

theorem kill_process_releases:
  fixes s :: "'a proc_state_scheme"
  assumes "proc_inv s" "get_process PID s = Some i" "heap_rel s L" "L a = Some k"
    and "stack_bottom (proc_context (proc_table s ! i)) = of_nat (a + 9)"
  shows "\<exists>s'. kill_process PID s = Some s' \<and> proc_inv s' \<and> live_pids s' = live_pids s - {PID} \<and>
    heap_rel s' (L(a := None)) \<and> same_on (kept (free_list s) (L(a := None))) (mem s) (mem s')"
  using kill_process_heap [OF assms(2-5)] proc_inv_kill_process [OF assms(1), of PID] by blast

lemma kill_process_releases_witness:
  "\<exists>(s :: proc_state) s' pid. kill_process pid s = Some s' \<and> live_pids s = {pid} \<and> live_pids s' = {} \<and>
     heap_rel s' Map.empty"
proof -
  obtain s :: proc_state and a k where s: "proc_inv s" "pid_counter_ok s" "reserve_proc_table_slot s = Some 0"
    "heap_rel s [a \<mapsto> k]" "7 \<le> k" and e: "live_pids s = {}" using boot_stack by blast
  have a: "[a \<mapsto> k] a = Some k" by simp
  obtain pid s' where i: "init_process 0x1234 (W (a + 9)) s = Some (pid, s')" "heap_rel s' [a \<mapsto> k]"
    "proc_table s' = (proc_table s)[0 := \<lparr>proc_context = \<lparr>ctx_ESP = W (a + 2 ^ k - 4) - 52,
        stack_top = W (a + 2 ^ k - 4), stack_bottom = W (a + 9)\<rparr>, proc_PID = pid,
        status = SPAWNED, entry_point = 0x1234, wait_time = 0\<rparr>]"
    using init_process_heap [OF s(1-4) a s(5), of "0x1234"] by blast
  have "reserve_proc_table_slot s \<noteq> None" using s(3) by simp
  note S = init_process_step [OF s(1,2) this i(1)]
  have len: "0 < length (proc_table s)" using proc_invD(1) [OF s(1)] by simp
  have sl: "live s' 0" "proc_PID (proc_table s' ! 0) = pid" "stack_bottom (proc_context (proc_table s' ! 0)) = W (a + 9)"
    using len by (simp_all add: live_def i(3))
  from kill_process_releases [OF S(1) get_process_live [OF S(1) sl(1,2)] i(2) a sl(3)]
  obtain s'' where "kill_process pid s' = Some s''" "live_pids s'' = live_pids s' - {pid}"
    "heap_rel s'' ([a \<mapsto> k](a := None))" by blast
  then show ?thesis using S(3) e by (intro exI [of _ s'] exI [of _ s''] exI [of _ pid]) simp
qed

text \<open>
  C6: in every state that creating processes (whether or not a slot is free), killing any
  process and calling the scheduler lead to, in any order, the live processes' PIDs are unique
  and within bounds, and at most one process is ACTIVE, the one of \<open>active_pid\<close>. A live process
  stays in the table unless a step kills it; so the backstop is there as long as nothing kills
  PID 0, which \<open>kill_process\<close> does not refuse to do.
\<close>

theorem process_table_invariant:
  assumes "(table_step K)\<^sup>*\<^sup>* s s'" "table_inv s"
  shows "(\<forall>i<8. \<forall>j<8. status (proc_table s' ! i) \<noteq> STOPPED \<and> status (proc_table s' ! j) \<noteq> STOPPED \<and>
      proc_PID (proc_table s' ! i) = proc_PID (proc_table s' ! j) \<longrightarrow> i = j) \<and>
    (\<forall>i<8. status (proc_table s' ! i) \<noteq> STOPPED \<longrightarrow> proc_PID (proc_table s' ! i) \<le> MAX_PID) \<and>
    (\<forall>i<8. \<forall>j<8. status (proc_table s' ! i) = ACTIVE \<and> status (proc_table s' ! j) = ACTIVE \<longrightarrow>
       i = j \<and> proc_PID (proc_table s' ! i) = active_pid s') \<and>
    (\<forall>PID. get_process PID s \<noteq> None \<and> PID \<notin> K \<longrightarrow> get_process PID s' \<noteq> None)"
proof -
  have "table_inv s'" by (rule table.reaches [OF assms])
  then have I: "proc_inv s'" by (simp add: table_inv_def)
  note D = proc_invD [OF I]
  have "i = j \<and> proc_PID (proc_table s' ! i) = active_pid s'" if "i < 8" "j < 8"
    "status (proc_table s' ! i) = ACTIVE" "status (proc_table s' ! j) = ACTIVE" for i j
    using that D(2) [of i j] D(4) [of i] D(4) [of j] by (simp add: live_def)
  moreover have "get_process PID s' \<noteq> None" if "get_process PID s \<noteq> None" "PID \<notin> K" for PID
    using table_steps_live [OF assms, of PID] that by (simp add: get_process_None)
  ultimately show ?thesis using D(2,3) by (simp add: live_def)
qed

text \<open>The backstop is killed, and the scheduler is called without one.\<close>

lemma process_table_invariant_witness:
  "\<exists>s'. kill_process 0 busy = Some s' \<and> get_process 1 (switch_process_from_queue s') \<noteq> None \<and>
     get_process 2 (switch_process_from_queue s') \<noteq> None"
proof -
  have "stack_bottom (proc_context (proc_table (set_status (Some 0) STOPPED busy) ! 0)) = 0"
    using proc_invD(1) [OF busy_inv(1)] by (simp add: set_status_def busy_nth(1) slot_of_def)
  then obtain s' where k: "kill_process 0 busy = Some s'"
    by (simp add: kill_process_def busy_get(1) free_def Let_def)
  have "table_step {0} busy s'" by (rule table_step.kill [OF _ k]) simp
  then have "(table_step {0})\<^sup>*\<^sup>* busy s'" by (rule r_into_rtranclp)
  then have "(table_step {0})\<^sup>*\<^sup>* busy (switch_process_from_queue s')"
    by (rule rtranclp.rtrancl_into_rtrancl) (rule table_step.tick)
  moreover have "table_inv busy" by (simp add: table_inv_def busy_inv pid_counter_ok_def)
  ultimately have "\<forall>PID. get_process PID busy \<noteq> None \<and> PID \<notin> {0} \<longrightarrow> get_process PID (switch_process_from_queue s') \<noteq> None"
    using process_table_invariant by blast
  moreover have "get_process 1 busy \<noteq> None" "get_process 2 busy \<noteq> None" by (simp_all only: get_process_None busy_pids) simp_all
  ultimately show ?thesis using k by (intro exI [of _ s']) (simp del: not_None_eq)
qed

subsection \<open>Switching and scheduling\<close>

text \<open>
  \<open>switch_process\<close> to another live process makes it the one ACTIVE process, demotes the one
  that was ACTIVE to WAITING and changes no other status, PID or waiting time.
\<close>

lemma switch_process_statuses:
  assumes "proc_inv s" "get_process PID s = Some i" "PID \<noteq> active_pid s"
  shows "switched_to i s (switch_process PID s) \<and> proc_inv (switch_process PID s)"
proof -
  note i = get_process_Some [OF assms(2)]
  have "switched_to i s (switch_process PID s)"
    using switch_process_to [OF assms(1) conjunct1 [OF i]] i assms(3) by simp
  with proc_inv_switched_to [OF assms(1) conjunct1 [OF i]] show ?thesis by blast
qed

lemma switch_process_statuses_witness:
  "status (proc_table (switch_process 2 busy) ! 2) = ACTIVE \<and> status (proc_table (switch_process 2 busy) ! 1) = WAITING"
proof -
  have "2 \<noteq> active_pid busy" by (simp add: busy_inv)
  from switch_process_statuses [OF busy_inv(1) busy_get(3) this]
  have "\<forall>k<length (proc_table busy). status (proc_table (switch_process 2 busy) ! k) =
    (if k = 2 then ACTIVE else if status (proc_table busy ! k) = ACTIVE then WAITING else status (proc_table busy ! k))"
    unfolding switched_to_def by blast
  moreover have "length (proc_table busy) = 8" by (simp add: busy_def)
  ultimately show ?thesis using busy_nth(2) by (simp add: slot_of_def)
qed

text \<open>
  C8: a process that is switched out and later switched in again goes on where it
  called \<open>context_switch\<close>, with every register as it was, whatever ran in between,
  provided its stack has been left alone.
\<close>

theorem switch_out_and_in:
  fixes s s2 :: "'a proc_state_scheme"
  assumes "length (proc_table s) = 8" "get_process (active_pid s) s = Some j" "get_process PID s = Some i" "i \<noteq> j"
    and "40 \<le> unat (esp (regs s))" "unat (esp (regs s)) + 4 \<le> 2 ^ 32"
    and "length (proc_table s2) = 8" "get_process (active_pid s2) s2 = Some i2" "i2 \<noteq> j"
    and "get_process (active_pid s) s2 = Some j"
    and "proc_context (proc_table s2 ! j) = proc_context (proc_table (switch_process PID s) ! j)"
    and "same_on {unat (esp (regs s)) - 40..<unat (esp (regs s)) + 4} (mem (switch_process PID s))
      (mem (switch_process (active_pid s) s2))"
  shows "regs (switch_process (active_pid s) s2) =
    (regs s)\<lparr>esp := esp (regs s) + 4, eip := rd32 (mem s) (esp (regs s))\<rparr>"
proof -
  let ?c = "regs s" and ?s2 = "switch_process (active_pid s) s2"
  note out = switch_process_cpu [OF assms(1-4)]
  have "j \<noteq> i2" using assms(9) by simp
  note into = switch_process_cpu [OF assms(7,8,10) this]
  have "regs ?s2 = restore_context (esp ?c - 40) (mem ?s2) (fst (save_context (regs s2, mem s2)))"
    unfolding into(1,2) assms(11) out(3) ..
  also have "\<dots> = ?c\<lparr>esp := esp ?c + 4, eip := rd32 (mem s) (esp ?c)\<rparr>"
    by (rule restore_saved [OF refl assms(5,6) out(1) assms(12)])
  finally show ?thesis .
qed

lemma esp_restore: "esp (restore_context sp m c) = rd32 m (sp + 12) + 8"
  by (simp add: restore_context_def popal_def pop_def Let_def add.commute)

lemma switch_out_and_in_witness:
  "regs (switch_process 1 (switch_process 2 busy)) =
    (regs busy)\<lparr>esp := esp (regs busy) + 4, eip := rd32 (mem busy) (esp (regs busy))\<rparr>"
proof -
  let ?s = "switch_process 2 busy"
  have b: "active_pid busy = 1" "esp (regs busy) = 0x8000" "mem busy = wr32 (\<lambda>_. 0) 0x700C 0x7024"
    "length (proc_table busy) = 8"
    by (simp_all add: busy_def boot_table_def)
  have "2 \<noteq> active_pid busy" by (simp add: b)
  from switch_process_to [OF busy_inv(1), of 2] have S: "switched_to 2 busy ?s"
    using busy_pid(4) by (simp add: live_busy b)
  have I: "proc_inv ?s" by (rule proc_inv_switched_to [OF busy_inv(1) _ S]) (simp add: live_busy)
  have l: "live ?s k = live busy k" for k by (rule switched_to_live [OF S]) (simp_all add: b live_busy)
  have p: "proc_PID (proc_table ?s ! k) = proc_PID (proc_table busy ! k)" if "k < 8" for k
    using S that b by (simp add: switched_to_def)
  have a: "active_pid ?s = 2" using S busy_pid(4) by (simp add: switched_to_def)
  have j: "get_process (active_pid busy) busy = Some 1" using busy_get by (simp add: b)
  have "(2 :: nat) \<noteq> 1" by simp
  note cpu = switch_process_cpu [OF b(4) j busy_get(3) this]
  have g: "get_process (active_pid ?s) ?s = Some 2" "get_process (active_pid busy) ?s = Some 1"
    unfolding a b(1) by (rule get_process_live [OF I]; simp add: l live_busy p busy_pid)+
  have len: "length (proc_table ?s) = 8" using proc_invD(1) [OF I] .
  have W_hex: "(0x700C :: u32) = W 0x700C" "(0x7FFC :: u32) = W 0x7FFC" by simp_all
  define ws where "ws = [ebp (regs busy), eax (regs busy), ecx (regs busy), edx (regs busy), ebx (regs busy),
      0x7FFC, 0x7FFC, esi (regs busy), edi (regs busy), eflags (regs busy)]"
  have "mem ?s = write_down (mem busy) (W 0x7FFC) ws"
    unfolding cpu(1) by (simp add: save_context_eq b(2) ws_def)
  moreover have "length ws = 10" by (simp add: ws_def)
  ultimately have "same_on (- {0x7FD8..<0x8000}) (mem busy) (mem ?s)"
    using write_down_same_on [of ws "0x7FFC" "mem busy"] by simp
  then have "rd32 (mem ?s) (W 0x700C) = rd32 (mem busy) (W 0x700C)" by (rule rd32_same_on) auto
  then have "rd32 (mem ?s) 0x700C = 0x7024" unfolding W_hex(1) [symmetric] b by (simp add: mem_simps)
  then have e2: "esp (regs ?s) = 0x702C"
    unfolding cpu(2) cpu(1) [symmetric] using busy_nth(3) by (simp add: esp_restore slot_of_def)
  have "(1 :: nat) \<noteq> 2" by simp
  note cpu2 = switch_process_cpu [OF len g(1) g(2) this]
  have "same_on (- {0x7004..<0x702C}) (mem ?s) (mem (switch_process (active_pid busy) ?s))"
    unfolding cpu2(1) save_context_eq snd_conv e2
    using write_down_same_on [of "[ebp (regs ?s), eax (regs ?s), ecx (regs ?s), edx (regs ?s),
      ebx (regs ?s), 0x7028, 0x7028, esi (regs ?s), edi (regs ?s), eflags (regs ?s)]" "0x7028" "mem ?s"] by simp
  then have "same_on {unat (esp (regs busy)) - 40..<unat (esp (regs busy)) + 4} (mem ?s)
      (mem (switch_process (active_pid busy) ?s))"
    by (rule same_on_subset) (auto simp: b)
  from switch_out_and_in [OF b(4) j busy_get(3) _ _ _ len g(1) _ g(2) refl this] b show ?thesis
    by simp
qed

text \<open>
  When no process is active yet (\<open>active_pid\<close> is -1 until the first switch) or the active one
  was killed, \<open>switch_process\<close> works on a null \<open>old_proc\<close>: it saves the stack pointer at address 0.
\<close>

lemma switch_process_writes_null:
  fixes s :: "'a proc_state_scheme"
  assumes "get_process (active_pid s) s = None" "get_process PID s = Some i"
  shows "rd32 (mem (switch_process PID s)) 0 = esp (regs s) - 40"
  by (rule switch_process_null [OF assms])

lemma switch_process_writes_null_witness:
  "rd32 (mem (switch_process 0 (busy\<lparr>active_pid := - 1\<rparr>))) 0 = 0x7FD8"
proof -
  have "get_process p (busy\<lparr>active_pid := - 1\<rparr>) = get_process p busy" for p
    by (simp add: get_process_def)
  moreover have "get_process (- 1) busy = None" by (simp add: get_process_None busy_pids)
  ultimately show ?thesis
    using switch_process_writes_null [of "busy\<lparr>active_pid := - 1\<rparr>" 0 0] busy_get(1)
    by (simp add: busy_def boot_table_def)
qed

text \<open>
  C20: one call of the scheduler picks, among the live processes other than the backstop, the one
  that has waited longest, the first such in the table; the backstop only runs when there is
  no other. The pick's waiting time is reset, the others have waited one round more.
\<close>

theorem scheduler_picks_longest_waiting:
  assumes "queue_ok (Suc w) s"
  shows "\<exists>b. dispatched b s (switch_process_from_queue s) \<and> queue_ok w (switch_process_from_queue s) \<and>
    (\<forall>i. eligible s i \<longrightarrow> eligible s b \<and> (b = i \<or> b \<in> ahead s i)) \<and>
    ((\<forall>i. \<not> eligible s i) \<longrightarrow> proc_PID (proc_table s ! b) = 0)"
  by (rule queue_step [OF assms])

lemma busy_eligible: "eligible busy i \<longleftrightarrow> i \<in> {1, 2}"
  using busy_pid by (auto simp: eligible_def live_busy)

lemma scheduler_picks_longest_waiting_witness: "active_pid (switch_process_from_queue busy) = 1"
proof -
  have "queue_ok (Suc 99) busy" using busy_queue by simp
  from scheduler_picks_longest_waiting [OF this] obtain b where b: "dispatched b busy (switch_process_from_queue busy)"
    "b = 1 \<or> b \<in> ahead busy 1" using busy_eligible [of 1] by blast
  have "ahead busy 1 = {}" using busy_nth(2,3) by (auto simp: ahead_def busy_eligible wt_def slot_of_def)
  with b show ?thesis using busy_pid(2) by (simp add: dispatched_def)
qed

text \<open>
  C7: no process starves but the backstop: every live process with a PID other than 0 becomes
  the active one within seven calls of the scheduler, as long as none is created or killed
  in between and no waiting time wraps (\<open>queue_ok 7\<close> says that none is within 7 of its bound).
  As long as there is such a process, none of these calls makes the backstop active.
\<close>

theorem no_process_starves:
  assumes "queue_ok 7 s" "eligible s i"
  shows "(\<exists>k\<in>{1..7}. active_pid ((switch_process_from_queue ^^ k) s) = proc_PID (proc_table s ! i)) \<and>
    (\<forall>k\<in>{1..7}. active_pid ((switch_process_from_queue ^^ k) s) \<noteq> 0)"
proof
  have Q: "queue_ok (Suc 6) s" using assms(1) by simp
  obtain k where "k \<le> 6" "active_pid ((switch_process_from_queue ^^ Suc k) s) = proc_PID (proc_table s ! i)"
    using no_starvation [OF Q assms(2) card_ahead [OF Q assms(2)]] by blast
  then show "\<exists>k\<in>{1..7}. active_pid ((switch_process_from_queue ^^ k) s) = proc_PID (proc_table s ! i)"
    by (intro bexI [of _ "Suc k"]) simp_all
  show "\<forall>k\<in>{1..7}. active_pid ((switch_process_from_queue ^^ k) s) \<noteq> 0"
  proof
    fix k :: nat assume "k \<in> {1..7}"
    then obtain n where n: "k = Suc n" "Suc n \<le> 7" by (cases k) simp_all
    have "queue_ok (Suc n) s" using assms(1) n(2) unfolding queue_ok_def by fastforce
    from backstop_waits [OF this assms(2)] show "active_pid ((switch_process_from_queue ^^ k) s) \<noteq> 0" unfolding n(1) .
  qed
qed

lemma no_process_starves_witness:
  "\<exists>k\<in>{1..7}. active_pid ((switch_process_from_queue ^^ k) busy) = 2"
proof -
  have "queue_ok 7 busy" using busy_queue unfolding queue_ok_def by fastforce
  moreover have "eligible busy 2" by (simp add: busy_eligible)
  ultimately show ?thesis using no_process_starves [of busy 2] busy_pid(4) by simp
qed

end
