(* ===== verification/Shell.thy ===== *)
theory Shell
  imports KeyLine
begin

section \<open>Shell: from the Enter key to the command\<close>

text \<open>
  The command line is split at its first space and the first word selects the action.
  \<open>shell_table\<close> lists the words and what the code does for each.
\<close>

definition shell_table :: "string \<Rightarrow> u32 \<Rightarrow> (u8 list \<times> ('a kernel_state_scheme \<Rightarrow> 'a kernel_state_scheme option)) list" where
  "shell_table cd_usage args = map (\<lambda>(w, f). (bytes_of w, f))
     [(''clear'', \<lambda>s. Some (terminal_clear s)),
      (''ls'', \<lambda>s. ramfs_ls (current_dir s) s),
      (''pwd'', \<lambda>s. ramfs_pwd (current_dir s) s),
      (''cat'', with_args args ''Usage: cat <filename>'' (\<lambda>s. ramfs_cat (current_dir s) (Mem args) s)),
      (''touch'', with_args args ''Usage: touch <filename>'' (\<lambda>s. ramfs_touch (current_dir s) (Mem args) s)),
      (''mkdir'', with_args args ''Usage: mkdir <dirname>'' (\<lambda>s. ramfs_mkdir (current_dir s) (Mem args) s)),
      (''rm'', with_args args ''Usage: rm <filename>'' (\<lambda>s. ramfs_rm (current_dir s) (Mem args) s)),
      (''help'', say help_text),
      (''cd'', with_args args cd_usage (change_dir args)),
      (''run'', with_args args ''Usage: rm <filename>'' (\<lambda>s. ramfs_run (current_dir s) (Mem args) s))]"

definition shell_action :: "string \<Rightarrow> u32 \<Rightarrow> u32 \<Rightarrow> u8 list \<Rightarrow> 'a kernel_state_scheme \<Rightarrow> 'a kernel_state_scheme option" where
  "shell_action cd_usage cmd args w =
     (case map_of (shell_table cd_usage args) w of Some run \<Rightarrow> run
      | None \<Rightarrow> if w = [] then Some else say [lit ''Unknown command: '', Mem cmd, lit nl])"

subsection \<open>Splitting and dispatch\<close>

lemma takeWhile_cut: "a \<in> set xs \<Longrightarrow> xs = takeWhile (\<lambda>x. x \<noteq> a) xs @ a # drop (Suc (length (takeWhile (\<lambda>x. x \<noteq> a) xs))) xs"
  by (induction xs) auto

lemma split_at_space_cstr:
  assumes "cstr m (Mem a) bs"
  shows "split_at_space a m =
    (let w = takeWhile (\<lambda>c. c \<noteq> 0x20) bs
     in if 0x20 \<in> set bs then Some (a + of_nat (length w) + 1, m(a + of_nat (length w) := 0)) else Some (0, m))"
  using assms
proof (induction bs arbitrary: a)
  case Nil
  then show ?case by (subst split_at_space.simps) (simp add: cstr_Nil)
next
  case (Cons c bs)
  show ?case
  proof (cases "c = 0x20")
    case False
    have "split_at_space a m = split_at_space (a + 1) m"
      by (subst split_at_space.simps) (use Cons.prems False in \<open>simp add: cstr_Cons\<close>)
    then show ?thesis using Cons.IH [of "a + 1"] Cons.prems False by (simp add: cstr_Cons Let_def add.assoc)
  qed (use Cons.prems in \<open>subst split_at_space.simps, simp add: cstr_Cons\<close>)
qed

lemma if_cmd_word:
  assumes "cstr (mem s) (Mem cmd) w" "0 \<notin> set (bytes_of word)"
  shows "if_cmd cmd word yes no s = (if w = bytes_of word then yes s else no s)"
  using strcmp_cstr [OF assms(1) cstr_lit [OF assms(2)]] str_order_eq_0 [of w "bytes_of word"]
    strcmp_eq_0 [OF assms(1) cstr_lit [OF assms(2)]] by (simp add: if_cmd_def)

lemma run_command_action:
  assumes w: "cstr (mem s) (Mem cmd) w"
  shows "run_command cd_usage cmd args s = shell_action cd_usage cmd args w s"
proof -
  have z: "0 \<notin> set (bytes_of word)" if "word \<in> set [''clear'', ''ls'', ''pwd'', ''cat'', ''touch'', ''mkdir'', ''rm'', ''help'', ''cd'', ''run'']"
    for word using that by (auto simp: bytes_of_def)
  have "mem s cmd \<noteq> 0 \<longleftrightarrow> w \<noteq> []" using w by (cases w) (simp_all add: cstr_Nil cstr_Cons)
  then show ?thesis
    unfolding run_command_def shell_action_def shell_table_def
    by (simp add: if_cmd_word [OF w z])
qed

lemma handle_command_splits:
  fixes s :: "'a kernel_state_scheme"
  assumes c: "cstr (mem s) (Mem cmd) line" and b: "unat cmd + length line < 2 ^ 32"
  defines "w \<equiv> takeWhile (\<lambda>c. c \<noteq> 0x20) line"
  obtains args m where "handle_command cmd s = shell_action ''Usage: rm <filename>'' cmd args w (s\<lparr>mem := m\<rparr>)"
    "cstr m (Mem cmd) w" "if w = line then args = 0 else args \<noteq> 0 \<and> cstr m (Mem args) (drop (Suc (length w)) line)"
    "\<forall>a. m a \<noteq> mem s a \<longrightarrow> (\<exists>i<length line. a = cmd + of_nat i)"
proof (cases "0x20 \<in> set line")
  case False
  then have "w = line" by (auto simp: w_def takeWhile_eq_all_conv)
  moreover have "split_at_space cmd (mem s) = Some (0, mem s)" using split_at_space_cstr [OF c] False by simp
  ultimately show thesis using that [of 0 "mem s"] c run_command_action [of s cmd w] by (simp add: handle_command_def)
next
  case True
  let ?m = "(mem s)(cmd + of_nat (length w) := 0)" and ?args = "cmd + of_nat (length w) + 1"
  define r where "r = drop (Suc (length w)) line"
  have line: "line = w @ 0x20 # r" unfolding w_def r_def by (rule takeWhile_cut [OF True])
  then have lw: "length w < length line" "w \<noteq> line" by simp_all
  have b': "unat cmd + length (w @ 0x20 # r) < 2 ^ 32" using b by (simp add: line)
  note C = cstr_cut [OF c [unfolded line] b']
  have a: "?args = of_nat (unat cmd + length w + 1)" by simp
  have "unat cmd + length w + 1 < 2 ^ 32" using b lw(1) by simp
  then have "?args \<noteq> 0" unfolding a using of_nat_u32_eq [of "unat cmd + length w + 1" 0] by simp
  moreover have "split_at_space cmd (mem s) = Some (?args, ?m)"
    using split_at_space_cstr [OF c] True by (simp add: w_def Let_def)
  moreover have "run_command ''Usage: rm <filename>'' cmd ?args (s\<lparr>mem := ?m\<rparr>) =
      shell_action ''Usage: rm <filename>'' cmd ?args w (s\<lparr>mem := ?m\<rparr>)"
    by (rule run_command_action) (simp add: C(1))
  moreover have "\<forall>a. ?m a \<noteq> mem s a \<longrightarrow> (\<exists>i<length line. a = cmd + of_nat i)" using lw(1) by auto
  ultimately show thesis using that [of ?args ?m] C lw unfolding r_def by (simp add: handle_command_def)
qed

subsection \<open>Enter\<close>

text \<open>
  C12: Pressing Enter runs the line that was typed: the handler ends the line with a null byte,
  passes the newline on to descriptors 0 and 1, splits the line at its first space and performs
  the action which the table lists for the first word on the rest as its argument (or prints
  that the command is unknown, or the usage when the argument is missing), then empties the
  line and prints the prompt. The split writes only inside the command buffer.
\<close>

theorem enter_runs_line:
  fixes s :: "'a kernel_state_scheme"
  assumes "key_ready (Suc n) loc s" "0 \<notin> set (snd (line_of s))" "snd (line_of s) \<noteq> []" "current_dir s \<noteq> 0"
  shows "let line = snd (line_of s); w = takeWhile (\<lambda>c. c \<noteq> 0x20) line in
    \<exists>args t. key_enter s = do {
        u \<leftarrow> shell_action ''Usage: rm <filename>'' (cmd_buffer s) args w t;
        terminal_writestring (lit ''shompOS> '') (u\<lparr>cmd_pos := 0\<rparr>) } \<and>
      cstr (mem t) (Mem (cmd_buffer s)) w \<and>
      (if w = line then args = 0 else args \<noteq> 0 \<and> cstr (mem t) (Mem args) (drop (Suc (length w)) line)) \<and>
      stdin_open n t"
proof -
  note m = assms(1) [unfolded key_ready_def] and k = assms(1) [unfolded key_ready_def key_memory_def]
  define b q where "b = unat (cmd_buffer s)" and "q = unat (cmd_pos s)"
  define line where "line = snd (line_of s)"
  have bl: "b + 64 \<le> 2 ^ 32" "q < 64" "{b..<b + 64} \<subseteq> low_bytes s" unfolding b_def q_def using k by blast+
  have B: "cmd_buffer s = W b" "cmd_pos s = W q" by (simp_all add: b_def q_def)
  have line: "line = rd_bytes (mem s) (W b) q" "length line = q"
    by (simp_all add: line_def line_of_def B(1) q_def [symmetric])
  let ?s = "s\<lparr>mem := (mem s)(W (b + q) := 0)\<rparr>"
  have S: "same_on (- {b..<b + 64}) (mem s) ((mem s)(W (b + q) := 0))" by (rule same_on_upd) (use bl in auto)
  have S1: "stdin_open (Suc n) ?s" by (rule stdin_open_put [OF conjunct2 [OF m] S bl(3)])
  have bq: "unat (W (b + q) :: u32) = b + q" "unat (W q :: u32) = q" using bl by (intro unat_of_nat_u32; simp)+
  have z: "0 \<notin> set line" using assms(2) by (simp add: line_def)
  have "same_on {b..<b + q} (mem s) ((mem s)(W (b + q) := 0))" by (rule same_on_upd) (use bl in auto)
  then have "rd_bytes (mem ?s) (W b) q = line" using rd_bytes_same_on [of "{b..<b + q}" "mem s" "mem ?s" b q] bl line(1) by simp
  then have c1: "cstr (mem ?s) (Mem (W b)) line"
    by (intro cstr_rd_bytes [OF z]) (simp add: line(2) rd_bytes_Suc)
  obtain t1 where t1: "ramfs_write STDIN_FILENO (lit nl) 1 ?s = Some (1, t1)" "stdin_open n t1"
    "same_on (low_bytes ?s) (mem ?s) (mem t1)" "heap_frame ?s t1"
    by (rule stdin_write [OF S1, of "lit nl"]) (simp_all add: lit_def)
  have "cstr (mem t1) (lit nl) [0x0A]" using cstr_lit [of nl "mem t1"] by (simp add: bytes_of_def)
  then obtain r t2 where t2: "ramfs_write STDOUT_FILENO (lit nl) 1 t1 = Some (r, t2)" "term_frame t1 t2"
    by (rule stdout_write)
  let ?t = "terminal_putchar 0x0A t2"
  have F: "term_frame t1 ?t" using t2(2) term_frame_trans by blast
  note h = term_frame_heap [OF F]
  have f: "heap_state.more ?t = heap_state.more s" using t1(4) by (simp add: h(4) heap_frame_def)
  have e: "cmd_buffer ?t = W b" "cmd_pos ?t = W q" "current_dir ?t = current_dir s"
    using kernel_more [OF f] f by (simp_all add: B) (cases ?t; cases s; simp)
  have L: "low_bytes ?t = low_bytes s" using t1(4) by (simp add: heap_frame_def low_bytes_def h(2))
  have ub: "unat (W b :: u32) = b" using bl by (intro unat_of_nat_u32) simp
  have "readable (low_bytes ?s) (Mem (W b)) (Suc (length line))"
  proof -
    have "{b..<b + Suc q} \<subseteq> {b..<b + 64}" "low_bytes ?s = low_bytes s" "b + Suc q \<le> 2 ^ 32"
      using bl by (auto simp: low_bytes_def)
    with bl(3) have "{b..<b + Suc q} \<subseteq> low_bytes ?s" "b + Suc q \<le> 2 ^ 32" by blast+
    then show ?thesis by (simp add: ub line(2))
  qed
  then have c2: "cstr (mem ?t) (Mem (W b)) line" unfolding h(1) by (rule cstr_same_on [OF t1(3) _ c1])
  have "unat (W b :: u32) + length line < 2 ^ 32" using bl by (simp add: ub line(2))
  with c2 obtain args mm where H: "handle_command (W b) ?t =
      shell_action ''Usage: rm <filename>'' (W b) args (takeWhile (\<lambda>c. c \<noteq> 0x20) line) (?t\<lparr>mem := mm\<rparr>)"
    "cstr mm (Mem (W b)) (takeWhile (\<lambda>c. c \<noteq> 0x20) line)"
    "if takeWhile (\<lambda>c. c \<noteq> 0x20) line = line then args = 0
     else args \<noteq> 0 \<and> cstr mm (Mem args) (drop (Suc (length (takeWhile (\<lambda>c. c \<noteq> 0x20) line))) line)"
    "\<forall>a. mm a \<noteq> mem ?t a \<longrightarrow> (\<exists>i<length line. a = W b + of_nat i)"
    by (rule handle_command_splits)
  have "same_on (- {b..<b + 64}) (mem ?t) mm"
    unfolding same_on_def
  proof (intro ballI impI, rule ccontr)
    fix x assume x: "x \<in> - {b..<b + 64}" "x < 2 ^ 32" "mm (W x) \<noteq> mem ?t (W x)"
    then obtain i where "i < q" "(W x :: u32) = W (b + i)" using H(4) by (auto simp: line(2))
    then show False using of_nat_u32_eq [of x "b + i"] x(1,2) bl by auto
  qed
  then have "stdin_open n (?t\<lparr>mem := mm\<rparr>)"
    by (rule stdin_open_put [rotated]) (use bl(3) t1(2) L in \<open>simp_all add: h(8)\<close>)
  moreover have "key_enter s = do { u \<leftarrow> handle_command (W b) ?t; terminal_writestring (lit ''shompOS> '') (u\<lparr>cmd_pos := 0\<rparr>) }"
  proof -
    have q0: "W q > (0 :: u32)" using assms(3) line(2) bq(2) by (auto simp: line_def word_less_nat_alt)
    have s0: "s\<lparr>mem := (mem s)(cmd_buffer s + cmd_pos s := 0)\<rparr> = ?s" by (simp add: B)
    show ?thesis unfolding key_enter_def Let_def s0 t1(1) bind.simps Option.bind_lunit prod.case t2(1) e
      using q0 assms(4) by simp
  qed
  ultimately show ?thesis using H unfolding Let_def line_def [symmetric] B by (intro exI [of _ args] exI [of _ "?t\<lparr>mem := mm\<rparr>"]) simp
qed

lemma enter_runs_line_witness:
  "\<exists>(s :: kernel_state) args t. key_enter s = do {
       u \<leftarrow> shell_action ''Usage: rm <filename>'' (cmd_buffer s) args (bytes_of ''x'') t;
       terminal_writestring (lit ''shompOS> '') (u\<lparr>cmd_pos := 0\<rparr>) } \<and>
     cstr (mem t) (Mem (cmd_buffer s)) (bytes_of ''x'')"
proof -
  obtain s :: kernel_state where s: "key_ready (Suc 69) 0x1000 s" "line_of s = (no_mods, bytes_of ''x'')" "current_dir s \<noteq> 0"
    using boot_keys by (auto simp: eval_nat_numeral)
  have l: "0 \<notin> set (snd (line_of s))" "snd (line_of s) \<noteq> []" unfolding s(2) by (simp_all add: bytes_of_def)
  have w: "takeWhile (\<lambda>c. c \<noteq> 0x20) (snd (line_of s)) = bytes_of ''x''" unfolding s(2) by (simp add: bytes_of_def)
  from enter_runs_line [OF s(1) l s(3)] show ?thesis unfolding Let_def w by blast
qed

end
