(* ===== verification/Boot.thy ===== *)
theory Boot
  imports Stdio Interrupts ProcProps Shell
begin

section \<open>Boot: the state that \<open>kernel_main\<close> leaves\<close>

text \<open>
  The composition of the parts: \<open>kernel_main\<close> sets up the console, the interrupt table, the heap,
  the file system and the processes one after the other; the specifications of the parts give
  the state in which the timer's first interrupt finds the kernel. \<open>init_mnt\<close>, which the build
  generates from the directory mnt/, is a parameter; \<open>fills_root\<close> is what the boot needs of it.
\<close>

subsection \<open>The process table while processes are created\<close>

text \<open>\<open>entries\<close> are the entry points and the stacks of the processes created so far, in order.\<close>

definition spawned :: "(u32 \<times> nat) list \<Rightarrow> 'a proc_state_scheme \<Rightarrow> bool" where
  "spawned entries s \<longleftrightarrow> length (proc_table s) = 8 \<and> length entries \<le> 8 \<and> next_pid s = W (length entries) - 1 \<and>
     active_pid s = - 1 \<and>
     (\<forall>i<8. if i < length entries
        then proc_PID (proc_table s ! i) = W i \<and> status (proc_table s ! i) = SPAWNED \<and>
          entry_point (proc_table s ! i) = fst (entries ! i) \<and> wait_time (proc_table s ! i) = 0 \<and>
          stack_bottom (proc_context (proc_table s ! i)) = W (snd (entries ! i))
        else status (proc_table s ! i) = STOPPED)"

lemma spawned_cong:
  "spawned es s \<Longrightarrow> proc_table s' = proc_table s \<Longrightarrow> next_pid s' = next_pid s \<Longrightarrow> active_pid s' = active_pid s \<Longrightarrow> spawned es s'"
  by (simp add: spawned_def)

lemma spawned_live:
  assumes "spawned es s"
  shows "live s i \<longleftrightarrow> i < length es" "live_pids s = W ` {..<length es}"
proof -
  show l: "live s i \<longleftrightarrow> i < length es" for i
    using assms by (cases "i < length es") (auto simp: spawned_def live_def)
  have "proc_PID (proc_table s ! i) = W i" if "i < length es" for i using assms that by (simp add: spawned_def)
  then show "live_pids s = W ` {..<length es}" unfolding live_pids_def l by (auto simp: image_def)
qed

lemma small_pid: "i < 8 \<Longrightarrow> j < 8 \<Longrightarrow> (W i :: u32) = W j \<longleftrightarrow> i = j"
  by (rule of_nat_u32_eq) simp_all

lemma spawned_inv:
  assumes S: "spawned es s"
  shows "proc_inv s" "pid_counter_ok s" "length es < 8 \<Longrightarrow> reserve_proc_table_slot s = Some (length es)"
proof -
  note l = spawned_live [OF S]
  have pid: "proc_PID (proc_table s ! i) = W i" "status (proc_table s ! i) = SPAWNED" if "i < length es" for i
    using S that by (simp_all add: spawned_def)
  have n: "length es \<le> 8" using S by (simp add: spawned_def)
  show "proc_inv s"
  proof (rule proc_invI)
    show "length (proc_table s) = MAX_PROCESS" using S by (simp add: spawned_def)
    show "i = j" if "live s i" "live s j" "proc_PID (proc_table s ! i) = proc_PID (proc_table s ! j)" for i j
      using that n small_pid [of i j] by (simp add: l pid)
    show "proc_PID (proc_table s ! i) \<le> MAX_PID" if "live s i" for i
      using that n of_nat_u32_less [of "unat MAX_PID" i] by (simp add: l pid not_less [symmetric])
    show "proc_PID (proc_table s ! i) = active_pid s" if "i < MAX_PROCESS" "status (proc_table s ! i) = ACTIVE" for i
      using that S by (cases "i < length es") (simp_all add: spawned_def)
  qed
  have "W (length es) - 1 = (- 1 :: u32) \<or> W (length es) - 1 \<le> MAX_PID"
    using n by (cases es) (auto simp: word_le_nat_alt unat_of_nat_u32)
  then show "pid_counter_ok s" using S by (simp add: pid_counter_ok_def spawned_def)
  show "reserve_proc_table_slot s = Some (length es)" if "length es < 8"
    unfolding reserve_proc_table_slot_def find_Some_iff
    by (rule exI [of _ "length es"]) (use S that in \<open>auto simp: spawned_def\<close>)
qed

lemma spawned_next_pid:
  assumes S: "spawned es s" and n: "length es < 8"
  shows "get_next_PID s = Some (W (length es), s\<lparr>next_pid := W (length es)\<rparr>)"
proof -
  have p: "next_pid s + 1 = W (length es)" using S by (simp add: spawned_def)
  have "W (length es) \<le> MAX_PID" using n by (simp add: word_le_nat_alt unat_of_nat_u32)
  then have m: "\<not> W (length es) > MAX_PID" by simp
  have "W (length es) \<notin> live_pids s" using spawned_live(2) [OF S] small_pid n by auto
  then have "W (length es) \<notin> live_pids (s\<lparr>next_pid := W (length es)\<rparr>)" by (simp add: live_pids_def live_def)
  then have "get_process (W (length es)) (s\<lparr>next_pid := W (length es)\<rparr>) = None" by (simp add: get_process_None)
  with m show ?thesis by (subst get_next_PID.simps) (simp add: p)
qed


text \<open>The file system is apart from a process's stack.\<close>

definition boot_kept :: "'a fs_state_scheme \<Rightarrow> 'a fs_state_scheme \<Rightarrow> bool" where
  "boot_kept s s' \<longleftrightarrow> free_list s' = free_list s \<and> fd_table s' = fd_table s \<and> fs_state.more s' = fs_state.more s"

lemma boot_kept_trans [trans]: "boot_kept s t \<Longrightarrow> boot_kept t u \<Longrightarrow> boot_kept s u"
  by (simp add: boot_kept_def)

lemma heap_frame_boot: "heap_frame s s' \<Longrightarrow> boot_kept s s'"
  by (cases s; cases s') (simp add: heap_frame_def boot_kept_def)

text \<open>
  Each stack is a heap object of at least 500 bytes that belongs to no file or directory, and
  holds what \<open>init_process\<close> wrote for the entry point, up to its top word at \<open>T\<close>.
\<close>

definition ready :: "'a proc_state_scheme \<Rightarrow> nat \<Rightarrow> u32 \<Rightarrow> nat \<Rightarrow> bool" where
  "ready s i e T \<longleftrightarrow> ctx_ESP (proc_context (proc_table s ! i)) = W T - 52 \<and>
     (\<forall>k<14. rd32 (mem s) (W (T - 4 * k)) = init_stack_words (W i) (switch_from_queue_addr s) (kill_process_addr s) e (W T) ! k)"

definition own_stacks :: "(u32 \<times> nat) list \<Rightarrow> 'a proc_state_scheme \<Rightarrow> (nat \<rightharpoonup> nat) \<Rightarrow> (nat \<rightharpoonup> node) \<Rightarrow> bool" where
  "own_stacks es s P N \<longleftrightarrow> (\<forall>i<length es. snd (es ! i) \<notin> owned foot N \<and>
     (\<exists>c\<ge>500. P (snd (es ! i)) = Some c \<and> ready s i (fst (es ! i)) (snd (es ! i) + c - 4)))"

lemma ready_kept:
  assumes "ready s i e T" "56 \<le> T + 4" "T + 4 \<le> 2 ^ 32" "same_on {T + 4 - 56..<T + 4} (mem s) (mem s')"
    and "proc_context (proc_table s' ! i) = proc_context (proc_table s ! i)"
    and "switch_from_queue_addr s' = switch_from_queue_addr s" "kill_process_addr s' = kill_process_addr s"
  shows "ready s' i e T"
proof -
  have "rd32 (mem s') (W (T - 4 * k)) = rd32 (mem s) (W (T - 4 * k))" if "k < 14" for k
    by (rule rd32_same_on [OF assms(4)]) (use that assms(2,3) in auto)
  with assms show ?thesis by (simp add: ready_def)
qed

lemma own_stacks_kept:
  fixes s s' :: "'a proc_state_scheme"
  assumes O: "own_stacks es s P N" and R: "fs_rel s P N"
    and P: "\<And>p. p \<in> snd ` set es \<Longrightarrow> P' p = P p" and m: "same_on (extent P (snd ` set es)) (mem s) (mem s')"
    and c: "\<And>i. i < length es \<Longrightarrow> proc_context (proc_table s' ! i) = proc_context (proc_table s ! i)"
    and f: "switch_from_queue_addr s' = switch_from_queue_addr s" "kill_process_addr s' = kill_process_addr s"
  shows "own_stacks es s' P' N"
  unfolding own_stacks_def
proof (intro allI impI conjI)
  fix i assume i: "i < length es"
  then have e: "snd (es ! i) \<in> snd ` set es" by simp
  obtain d where d: "500 \<le> d" "P (snd (es ! i)) = Some d" "ready s i (fst (es ! i)) (snd (es ! i) + d - 4)" "snd (es ! i) \<notin> owned foot N"
    using O i unfolding own_stacks_def by blast
  show "snd (es ! i) \<notin> owned foot N" by (rule d(4))
  have T: "snd (es ! i) + d - 4 + 4 = snd (es ! i) + d" "snd (es ! i) + d \<le> 2 ^ 32" using d(1) fs_range [OF R d(2)] by simp_all
  have "same_on {snd (es ! i) + d - 56..<snd (es ! i) + d} (mem s) (mem s')"
    by (rule same_on_subset [OF m subset_trans [OF _ in_extent [where P = P, OF e d(2)]]]) (use d(1) in auto)
  then have "ready s' i (fst (es ! i)) (snd (es ! i) + d - 4)"
    by (intro ready_kept [OF d(3)]) (use T d(1) c [OF i] f in simp_all)
  then show "\<exists>c\<ge>500. P' (snd (es ! i)) = Some c \<and> ready s' i (fst (es ! i)) (snd (es ! i) + c - 4)"
    using d(1,2) P [OF e] by auto
qed

lemma spawn:
  fixes s :: "'a fs_state_scheme"
  assumes S: "spawned es s" and n: "length es < 8" and R: "fs_rel s P N" and p: "P p = Some c" "500 \<le> c" "p \<notin> owned foot N"
    and O: "own_stacks es s P N" and new: "p \<notin> snd ` set es"
  obtains s' where "init_process e (W p) s = Some (W (length es), s')" "spawned (es @ [(e, p)]) s'" "fs_rel s' P N"
    "current_brk s' = current_brk s" "boot_kept s s'"
    "own_stacks (es @ [(e, p)]) s' P N"
proof -
  obtain L a k where R': "heap_rel s L" and P: "P = payloads L" and a: "p = a + 9" "L a = Some k" "c = 2 ^ k - 9"
    using fs_relD(1) [OF R] p(1) unfolding heap_objects_def by (auto simp: payloads_Some)
  define T where "T = a + 2 ^ k - 4"
  have T: "56 \<le> T + 4" "T + 4 = p + c" "T + 4 \<le> 2 ^ 32" "p \<le> T + 4 - 56"
    using p(2) payload_range(1,2,4) [OF R' a(2)] a by (simp_all add: T_def)
  note I = spawned_inv [OF S]
  obtain pid where i: "init_process e (W p) s = Some (pid, s\<lparr>next_pid := pid,
      mem := write_down (mem s) (W T) (init_stack_words pid (switch_from_queue_addr s) (kill_process_addr s) e (W T)),
      proc_table := (proc_table s)[length es := \<lparr>proc_context = \<lparr>ctx_ESP = W T - 52, stack_top = W T, stack_bottom = W p\<rparr>,
        proc_PID = pid, status = SPAWNED, entry_point = e, wait_time = 0\<rparr>]\<rparr>)" (is "_ = Some (_, ?t)")
    using init_process_ok [OF I(1,2) I(3) [OF n], of e "W p", unfolded a(1) stack_top_word [OF R' a(2)], folded T_def a(1)] by blast
  have pid: "pid = W (length es)" using i spawned_next_pid [OF S n] by (auto simp: init_process_def Let_def split: bind_splits if_splits)
  let ?ws = "init_stack_words pid (switch_from_queue_addr s) (kill_process_addr s) e (W T)"
  have len: "4 * length ?ws = 56" by (simp add: init_stack_words_def)
  have "same_on (- {T + 4 - 56..<T + 4}) (mem s) (mem ?t)"
    using write_down_same_on [of ?ws T "mem s"] T(1,3) unfolding len by simp
  then have "same_on (- {p..<p + c}) (mem s) (mem ?t)" by (rule same_on_subset) (use T(2,4) in auto)
  moreover have "{p..<p + c} \<subseteq> heap_stable s P" by (rule heap.payload [OF fs_relD(1) [OF R] p(1)])
  moreover have "{p..<p + c} \<inter> extent P (owned foot N) = {}" using fs.extent_apart [OF fs_relD(1) [OF R] p(1,3)] by blast
  moreover note own = calculation(1)
  ultimately have "fs_rel (s\<lparr>mem := mem ?t\<rparr>) P N" by (intro fs_put_outside [OF R])
  then have "fs_rel ?t P N" by (simp add: fs_rel_def owns_def heap_objects_def heap_rel_def)
  moreover have "spawned (es @ [(e, p)]) ?t"
    unfolding spawned_def by (use S n pid in \<open>auto simp: spawned_def nth_list_update nth_append less_Suc_eq\<close>)
  moreover have "own_stacks (es @ [(e, p)]) ?t P N"
  proof -
    have "extent P (snd ` set es) \<inter> {p..<p + c} = {}" using fs.extent_apart [OF fs_relD(1) [OF R] p(1) new] .
    then have "same_on (extent P (snd ` set es)) (mem s) (mem ?t)" by (intro same_on_subset [OF own]) blast
    then have "own_stacks es ?t P N" by (intro own_stacks_kept [OF O R refl]) simp_all
    moreover have "rd32 (mem ?t) (W (T - 4 * j)) = ?ws ! j" if "j < 14" for j
      using write_down_nth [of j ?ws T "mem s"] that T(1,3) len by simp
    then have "ready ?t (length es) e (p + c - 4)"
      using T(2) S n by (simp add: ready_def pid spawned_def flip: T(2))
    ultimately show ?thesis using p by (auto simp: own_stacks_def nth_append less_Suc_eq)
  qed
  ultimately show thesis using that i by (simp add: pid boot_kept_def)
qed

lemma new_stack:
  fixes s :: "'a fs_state_scheme"
  assumes S: "spawned es s" and R: "fs_rel s P N" "room (Suc n) s" and O: "own_stacks es s P N"
  obtains p c s' where "allocate 500 s = Some (W p, s')" "P p = None" "p \<notin> owned foot N" "500 \<le> c"
    "spawned es s'" "fs_rel s' (P(p \<mapsto> c)) N" "room n s'" "boot_kept s s'"
    "own_stacks es s' (P(p \<mapsto> c)) N"
proof -
  have n: "(0 :: nat) < 500" "(500 :: nat) \<le> 32759" by simp_all
  show thesis
  proof (rule fs_alloc [OF R(1) n])
    fix p c s' assume a: "allocate (W 500) s = Some (W p, s')" "P p = None" "p \<notin> owned foot N" "500 \<le> c"
      "fs_rel s' (P(p \<mapsto> c)) N" "quiet (heap_stable s P) s s'" "spends 1 s s'"
    have f: "heap_frame s s'" using a(6) by (simp add: quiet_def)
    have "spawned es s'" by (rule spawned_cong [OF S]) (simp_all add: proc_frame [OF f])
    moreover have "room n s'" by (rule room_spends [OF a(7) R(2)]) simp
    moreover have "own_stacks es s' (P(p \<mapsto> c)) N"
    proof (rule own_stacks_kept [OF O R(1)])
      show "(P(p \<mapsto> c)) q = P q" if "q \<in> snd ` set es" for q
        using O a(2) that unfolding own_stacks_def by (fastforce simp: in_set_conv_nth)
      show "same_on (extent P (snd ` set es)) (mem s) (mem s')"
        using a(6) extent_heap_stable unfolding quiet_def by (blast intro: same_on_subset)
    qed (simp_all add: proc_frame [OF f])
    ultimately show thesis using that [of p s' c] a heap_frame_boot [OF f] by simp
  next
    assume "\<not> room 1 s"
    then show thesis using room_mono [OF R(2), of 1] by simp
  qed
qed

lemma init_processes_spec:
  fixes s :: "'a kernel_state_scheme"
  assumes S: "spawned [] s" and R: "fs_rel s P N" "room 4 s"
  obtains s' P' p1 p2 p3 p4 where "init_processes l s = Some s'" "boot_kept s s'" "fs_rel s' P' N"
    "spawned [(terminal_backstop_addr l, p1), (sample2_addr l, p2), (sample3_addr l, p3), (test_jump_addr l, p4)] s'"
    "distinct [p1, p2, p3, p4]" "own_stacks [(terminal_backstop_addr l, p1), (sample2_addr l, p2), (sample3_addr l, p3), (test_jump_addr l, p4)] s' P' N"
proof -
  let ?b = "terminal_backstop_addr l" and ?e2 = "sample2_addr l" and ?e3 = "sample3_addr l" and ?e4 = "test_jump_addr l"
  have O: "own_stacks [] s P N" by (simp add: own_stacks_def)
  obtain p1 c1 s1 where 1: "allocate 500 s = Some (W p1, s1)" "P p1 = None" "p1 \<notin> owned foot N" "500 \<le> c1"
    "spawned [] s1" "fs_rel s1 (P(p1 \<mapsto> c1)) N" "room 3 s1" "boot_kept s s1" "own_stacks [] s1 (P(p1 \<mapsto> c1)) N"
    by (rule new_stack [OF S R(1) _ O, of 3]) (use R(2) in \<open>simp_all add: eval_nat_numeral\<close>)
  let ?P1 = "P(p1 \<mapsto> c1)"
  obtain p2 c2 s2 where 2: "allocate 500 s1 = Some (W p2, s2)" "?P1 p2 = None" "p2 \<notin> owned foot N" "500 \<le> c2"
    "spawned [] s2" "fs_rel s2 (?P1(p2 \<mapsto> c2)) N" "room 2 s2" "boot_kept s1 s2" "own_stacks [] s2 (?P1(p2 \<mapsto> c2)) N"
    by (rule new_stack [OF 1(5,6) _ 1(9), of 2]) (use 1(7) in \<open>simp_all add: eval_nat_numeral\<close>)
  let ?P2 = "?P1(p2 \<mapsto> c2)"
  obtain p3 c3 s3 where 3: "allocate 500 s2 = Some (W p3, s3)" "?P2 p3 = None" "p3 \<notin> owned foot N" "500 \<le> c3"
    "spawned [] s3" "fs_rel s3 (?P2(p3 \<mapsto> c3)) N" "room 1 s3" "boot_kept s2 s3" "own_stacks [] s3 (?P2(p3 \<mapsto> c3)) N"
    by (rule new_stack [OF 2(5,6) _ 2(9), of 1]) (use 2(7) in \<open>simp_all add: eval_nat_numeral\<close>)
  let ?P3 = "?P2(p3 \<mapsto> c3)"
  have q: "?P3 p1 = Some c1" "?P3 p2 = Some c2" "?P3 p3 = Some c3" using 2(2) 3(2) by (auto split: if_splits)
  have d3: "distinct [p1, p2, p3]" using 2(2) 3(2) by (auto split: if_splits)
  obtain t1 where t1: "init_process ?b (W p1) s3 = Some (0, t1)" "spawned [(?b, p1)] t1"
    "fs_rel t1 ?P3 N" "current_brk t1 = current_brk s3" "boot_kept s3 t1" "own_stacks [(?b, p1)] t1 ?P3 N"
    by (rule spawn [OF 3(5) _ 3(6) q(1) 1(4,3) 3(9), where e = "?b"]) simp_all
  obtain t2 where t2: "init_process ?e2 (W p2) t1 = Some (1, t2)" "spawned [(?b, p1), (?e2, p2)] t2"
    "fs_rel t2 ?P3 N" "current_brk t2 = current_brk t1" "boot_kept t1 t2" "own_stacks [(?b, p1), (?e2, p2)] t2 ?P3 N"
    by (rule spawn [OF t1(2) _ t1(3) q(2) 2(4,3) t1(6), where e = "?e2"]) (use d3 in simp_all)
  obtain t3 where t3: "init_process ?e3 (W p3) t2 = Some (2, t3)" "spawned [(?b, p1), (?e2, p2), (?e3, p3)] t3"
    "fs_rel t3 ?P3 N" "current_brk t3 = current_brk t2" "boot_kept t2 t3" "own_stacks [(?b, p1), (?e2, p2), (?e3, p3)] t3 ?P3 N"
    by (rule spawn [OF t2(2) _ t2(3) q(3) 3(4,3) t2(6), where e = "?e3"]) (use d3 in simp_all)
  have "room (Suc 0) t3" using 3(7) t1(4) t2(4) t3(4) by (simp add: room_def)
  from new_stack [OF t3(2,3) this t3(6)] obtain p4 c4 s4 where
    4: "allocate 500 t3 = Some (W p4, s4)" "?P3 p4 = None" "p4 \<notin> owned foot N" "500 \<le> c4"
    "spawned [(?b, p1), (?e2, p2), (?e3, p3)] s4" "fs_rel s4 (?P3(p4 \<mapsto> c4)) N" "room 0 s4" "boot_kept t3 s4"
    "own_stacks [(?b, p1), (?e2, p2), (?e3, p3)] s4 (?P3(p4 \<mapsto> c4)) N" .
  have d: "distinct [p1, p2, p3, p4]" using d3 4(2) by (auto split: if_splits)
  obtain t4 where t4: "init_process ?e4 (W p4) s4 = Some (3, t4)" "spawned [(terminal_backstop_addr l, p1), (sample2_addr l, p2), (sample3_addr l, p3), (test_jump_addr l, p4)] t4"
    "fs_rel t4 (?P3(p4 \<mapsto> c4)) N" "boot_kept s4 t4" "own_stacks [(terminal_backstop_addr l, p1), (sample2_addr l, p2), (sample3_addr l, p3), (test_jump_addr l, p4)] t4 (?P3(p4 \<mapsto> c4)) N"
    by (rule spawn [OF 4(5) _ 4(6) fun_upd_same 4(4,3) 4(9), where e = "?e4"]) (use d in simp_all)
  have "init_processes l s = Some t4"
    unfolding init_processes_def by (simp add: 1(1) 2(1) 3(1) t1(1) t2(1) t3(1) 4(1) t4(1))
  moreover have "boot_kept s t4"
    using 1(8) 2(8) 3(8) t1(5) t2(5) t3(5) 4(8) t4(4) by (simp add: boot_kept_def)
  ultimately show thesis using that [of t4 "?P3(p4 \<mapsto> c4)" p1 p2 p3 p4] t4(2,3,5) d by simp
qed

subsection \<open>Console and devices\<close>

lemma init_terminal_returns:
  obtains t where "init_terminal s = Some t" "mem t = mem s" "term_state.more t = term_state.more s"
proof -
  define R where "R = (\<lambda>(s :: 'a term_state_scheme) t. mem t = mem s \<and> term_state.more t = term_state.more s)"
  define cell where "cell = (\<lambda>y x (s :: 'a term_state_scheme). let index = of_nat y * VGA_WIDTH + of_nat x
      in s\<lparr>terminal_buffer := (terminal_buffer s)(index := vga_entry (of_char CHR '' '') (terminal_color s))\<rparr>)"
  have step: "R s (cell y x s)" for y x :: nat and s by (simp add: R_def cell_def Let_def)
  have row: "R s (fold (cell y) xs s)" for y xs s by (rule fold_preserves [where R = R]) (use step in \<open>simp_all add: R_def\<close>)
  have F: "R s (fold (\<lambda>y. fold (cell y) xs) ys s)" for xs ys s by (rule fold_preserves [where R = R]) (use row in \<open>simp_all add: R_def\<close>)
  let ?s = "s\<lparr>terminal_row := 0, terminal_column := 0, terminal_color := vga_entry_color VGA_COLOR_LIGHT_GREY VGA_COLOR_BLACK\<rparr>"
  define u where "u = fold (\<lambda>y. fold (cell y) [0..<80]) [0..<25] ?s"
  have "R ?s u" unfolding u_def by (rule F)
  then have u: "mem u = mem s" "term_state.more u = term_state.more s" unfolding R_def by simp_all
  obtain t where t: "terminal_writestring (lit ''shompOS>'') u = Some t" "term_frame u t"
    using writestring_lit [of "''shompOS>''" u] by (auto simp: bytes_of_def)
  show thesis
  proof (rule that)
    show "init_terminal s = Some t" unfolding init_terminal_def Let_def using t(1) unfolding u_def cell_def Let_def .
    show "mem t = mem s" "term_state.more t = term_state.more s" using u t(2) by (simp_all add: term_frame_def)
  qed
qed

text \<open>Setting up the devices changes only the kernel's own part of the state.\<close>

lemma truncate_upd [simp]:
  "fs_state.truncate (s\<lparr>IDT := x\<rparr>) = fs_state.truncate s" "fs_state.truncate (s\<lparr>IDTR := y\<rparr>) = fs_state.truncate s"
  "fs_state.truncate (s\<lparr>io_trace := z\<rparr>) = fs_state.truncate s" "fs_state.truncate (s\<lparr>IF := i\<rparr>) = fs_state.truncate s"
  by (simp_all add: fs_state.truncate_def)

lemma truncate_fields:
  assumes "fs_state.truncate s = fs_state.truncate t"
  shows "mem s = mem t" "free_list s = free_list t" "current_brk s = current_brk t" "proc_table s = proc_table t"
    "active_pid s = active_pid t" "next_pid s = next_pid t" "fd_table s = fd_table t"
    "kill_process_addr s = kill_process_addr t" "switch_from_queue_addr s = switch_from_queue_addr t"
  using assms by (simp_all add: fs_state.truncate_def)

lemma truncate_fold:
  assumes "\<And>x t. fs_state.truncate (f x t) = fs_state.truncate t"
  shows "fs_state.truncate (fold f xs t) = fs_state.truncate t"
  by (rule fold_preserves [where R = "\<lambda>s t. fs_state.truncate t = fs_state.truncate s"]) (simp_all add: assms)

lemma init_devices:
  "fs_state.truncate (init_kb (init_idt l s)) = fs_state.truncate s"
  "IDT (init_kb (init_idt l s)) = IDT (init_idt l s)"
proof -
  have o: "fs_state.truncate (ioport_out p b t) = fs_state.truncate t" for p b and t :: "'a kernel_state_scheme"
    by (simp add: ioport_out_def)
  have d: "fs_state.truncate (idt_set_descriptor v a k t) = fs_state.truncate t" for v a k and t :: "'a kernel_state_scheme"
    by (simp add: idt_set_descriptor_def)
  have oo: "fs_state.truncate ((\<lambda>(p, b). ioport_out p b) q t) = fs_state.truncate t" for q and t :: "'a kernel_state_scheme"
    by (cases q) (simp add: o)
  have dd: "fs_state.truncate (fold (\<lambda>i. idt_set_descriptor (of_nat i) (isr_stub_table l ! i) k) xs t) = fs_state.truncate t" for k xs and t :: "'a kernel_state_scheme"
    by (rule truncate_fold) (rule d)
  show "fs_state.truncate (init_kb (init_idt l s)) = fs_state.truncate s"
    unfolding init_kb_def o init_idt_def Let_def truncate_upd by (simp only: truncate_fold [of "\<lambda>(p, b). ioport_out p b", OF oo] d dd)
  show "IDT (init_kb (init_idt l s)) = IDT (init_idt l s)" by (simp add: init_kb_def)
qed

lemma init_pit_keeps:
  "fs_state.truncate (init_pit n s) = fs_state.truncate s" "IDT (init_pit n s) = IDT s"
  "current_dir (init_pit n s) = current_dir s" "system_root (init_pit n s) = system_root s"
  by (simp_all add: init_pit_def ioport_out_def ioport_in_def Let_def split: prod.split)

subsection \<open>The boot\<close>

text \<open>
  \<open>init_mnt\<close> returns 0 on an empty root, with well-formed contents below the root, at most 900
  entries there and none with a name that \<open>init_stdio\<close> uses; it changes nothing else.
\<close>

definition fills_root :: "(u32 \<Rightarrow> 'a kernel_state_scheme \<Rightarrow> (i32 \<times> 'a kernel_state_scheme) option) \<Rightarrow> bool" where
  "fills_root init_mnt \<longleftrightarrow> (\<forall>s P root np. fs_rel s P [root \<mapsto> root_node np] \<longrightarrow> room 1000 s \<longrightarrow>
     (\<exists>s' P' N' xs. init_mnt (of_nat root) s = Some (0, s') \<and> stdio_state 40 root xs s' P' N' \<and> length xs < 900 \<and>
        (\<forall>nm\<in>{''stdin'', ''stdout'', ''stderr'', ''FD-test''}. map_of xs (bytes_of nm) = None) \<and>
        fd_table s' = fd_table s \<and> low_kept s s'))"

lemma others_kept_spawned: "others_kept s s' \<Longrightarrow> spawned es s \<Longrightarrow> spawned es s'"
  by (simp add: others_kept_def spawned_cong)

lemma kernel_fields:
  fixes s s' :: "'a kernel_state_scheme"
  assumes "fs_state.more s' = fs_state.more s"
  shows "IDT s' = IDT s" "current_dir s' = current_dir s" "system_root s' = system_root s"
  using assms by (cases s; cases s'; simp)+

lemma term_frame_fields:
  fixes s s' :: "'a kernel_state_scheme"
  assumes "term_frame s s'"
  shows "others_kept s s'" "fd_table s' = fd_table s" "fs_rel s' P N = fs_rel s P N" "room n s' = room n s"
  using heap_frame_others [OF heap_frame_term [OF assms]] term_frame_heap [OF assms] kernel_fd_table by auto

text \<open>The heap and the file system from an uninitialised state.\<close>

lemma boot_storage:
  fixes s :: "'a kernel_state_scheme"
  assumes f: "unat (free_list s) + 128 \<le> heap_base" and M: "fills_root init_mnt"
  obtains s1 s2 s3 P N root xs where "init_heap HEAP_LOWER_BOUND s = Some s1" "ramfs_init_fd_system (enable_interrupts s1) = (0, s2)"
    "init_fs init_mnt s2 = Some (of_nat root, s3)" "stdio_state 40 root xs s3 P N" "length xs < 900"
    "\<forall>nm\<in>{''stdin'', ''stdout'', ''stderr'', ''FD-test''}. map_of xs (bytes_of nm) = None"
    "fd_table s3 = replicate MAX_FDS 0" "others_kept (s\<lparr>IF := True\<rparr>) s3" "W root \<noteq> 0"
proof -
  obtain s1 where 1: "init_heap HEAP_LOWER_BOUND s = Some s1" "heap_rel s1 Map.empty" "unat (current_brk s1) = heap_base + 2 ^ 15"
    "s1 = s\<lparr>mem := mem s1, current_brk := W (heap_base + 2 ^ 15)\<rparr>"
    using init_heap_core [OF f] by blast
  let ?s2 = "s1\<lparr>IF := True, fd_table := replicate MAX_FDS 0, fd_count := 0\<rparr>"
  have 2: "ramfs_init_fd_system (enable_interrupts s1) = (0, ?s2)" by (simp add: ramfs_init_fd_system_def enable_interrupts_def)
  have R2: "fs_rel ?s2 Map.empty Map.empty" using fs_rel_empty [OF 1(2)]
    by (simp add: fs_rel_def owns_def heap_objects_def heap_rel_def)
  have r2: "room 1002 ?s2" using 1(3) by (simp add: room_def heap_base_def)
  have o2: "others_kept (s\<lparr>IF := True\<rparr>) ?s2" by (subst 1(4), cases s) (simp add: others_kept_def)
  have "room 2 ?s2" by (rule room_mono [OF r2]) simp
  then obtain d np P s3 where 3: "ramfs_create_root ?s2 = Some (W d, s3)" "fs_rel s3 P [d \<mapsto> root_node np]"
    "quiet (heap_stable ?s2 Map.empty) ?s2 s3" "spends 2 ?s2 s3"
    using ramfs_create_root_spec [OF R2] by metis
  have "room 1000 s3" by (rule room_spends [OF 3(4) r2]) simp
  with M 3(2) obtain s4 P4 N4 xs where 4: "init_mnt (of_nat d) s3 = Some (0, s4)" "stdio_state 40 d xs s4 P4 N4" "length xs < 900"
    "\<forall>nm\<in>{''stdin'', ''stdout'', ''stderr'', ''FD-test''}. map_of xs (bytes_of nm) = None"
    "fd_table s4 = fd_table s3" "low_kept s3 s4" unfolding fills_root_def by blast
  have d: "W d \<noteq> 0" using ptr_nonzero [OF 3(2), of "Some d"] by (simp add: ptr_def)
  have "others_kept (s\<lparr>IF := True\<rparr>) s4"
    using o2 quiet_others [OF 3(3)] 4(6) others_kept_trans unfolding low_kept_def by blast
  moreover have "fd_table s4 = replicate MAX_FDS 0" using quiet_fd_table [OF 3(3)] 4(5) by simp
  moreover have "init_fs init_mnt ?s2 = Some (W d, s4)" using d by (simp add: init_fs_def 3(1) 4(1))
  ultimately show thesis using that 1(1) 2 4(2-4) d by blast
qed

lemma say_greeting:
  fixes s :: "'a kernel_state_scheme"
  obtains s' where "say [lit (''ShompOS initialized successfully!'' @ nl), lit (''Type 'help' for available commands'' @ nl),
      lit ''shompOS> ''] s = Some s'" "term_frame s s'"
proof -
  let ?a = "''ShompOS initialized successfully!'' @ nl" and ?b = "''Type 'help' for available commands'' @ nl" and ?c = "''shompOS> ''"
  have z: "0 \<notin> set (bytes_of ?a)" "0 \<notin> set (bytes_of ?b)" "0 \<notin> set (bytes_of ?c)" by (simp_all add: bytes_of_def)
  have l: "length ?a < 2 ^ 32" "length ?b < 2 ^ 32" "length ?c < 2 ^ 32" by simp_all
  obtain s1 where 1: "terminal_writestring (lit ?a) s = Some s1" "term_frame s s1" using writestring_lit [OF z(1) l(1)] by blast
  obtain s2 where 2: "terminal_writestring (lit ?b) s1 = Some s2" "term_frame s1 s2" using writestring_lit [OF z(2) l(2)] by blast
  obtain s3 where 3: "terminal_writestring (lit ?c) s2 = Some s3" "term_frame s2 s3" using writestring_lit [OF z(3) l(3)] by blast
  show thesis
    by (rule that [of s3]) (use 1 2 3 term_frame_trans in \<open>simp, blast\<close>)
qed

lemma boot_devices:
  fixes s :: "'a kernel_state_scheme"
  assumes S: "spawned [] s" and I: "length (IDT s) = 256"
  obtains t where "init_terminal s = Some t" "spawned [] (init_kb (init_idt l t))" "free_list (init_kb (init_idt l t)) = free_list s"
    "IDT (init_kb (init_idt l t)) = IDT (init_idt l t)" "length (IDT t) = 256"
proof -
  obtain t where t: "init_terminal s = Some t" "mem t = mem s" "term_state.more t = term_state.more s"
    by (rule init_terminal_returns)
  have e: "free_list t = free_list s" "proc_table t = proc_table s" "active_pid t = active_pid s" "next_pid t = next_pid s" "IDT t = IDT s"
    using t(3) by (cases s; cases t; simp)+
  note d = truncate_fields [OF init_devices(1) [of l t]]
  have "spawned [] (init_kb (init_idt l t))" by (rule spawned_cong [OF S]) (simp_all add: d e)
  then show thesis by (rule that [OF t(1)]) (use I in \<open>simp_all add: d e init_devices(2)\<close>)
qed

text \<open>The devices, the storage and the standard files; then the processes and the timer.\<close>

lemma kernel_main_spec:
  fixes s :: "'a kernel_state_scheme"
  assumes S: "spawned [] s" and I: "length (IDT s) = 256" and f: "unat (free_list s) + 128 \<le> heap_base"
    and b: "{b..<b + 80} \<subseteq> low_bytes s" and M: "fills_root init_mnt"
  obtains s' root P N es p1 p2 p3 p4 and t :: "'a kernel_state_scheme" where "kernel_main l init_mnt loc (W b) s = Some s'" "IF s'" "length (IDT t) = 256"
    "IDT s' = IDT (init_idt l t)" "current_dir s' = W root" "system_root s' = W root" "fs_rel s' P N" "tree_ok N" "is_dir N root"
    "open_table es s'" "length es = 4"
    "spawned [(terminal_backstop_addr l, p1), (sample2_addr l, p2), (sample3_addr l, p3), (test_jump_addr l, p4)] s'"
    "distinct [p1, p2, p3, p4]" "own_stacks [(terminal_backstop_addr l, p1), (sample2_addr l, p2), (sample3_addr l, p3), (test_jump_addr l, p4)] s' P N"
    "low_bytes s' = low_bytes s" "(\<forall>(i, nm, fl)\<in>set [(0, ''stdin'', O_RDWR OR O_APPEND), (1, ''stdout'', O_WRONLY), (2, ''stderr'', O_WRONLY),
        (3, ''FD-test'', O_RDWR OR O_APPEND)].
      \<exists>f pos. file_in N root (bytes_of nm) = Some f \<and> N (es ! i) = Some (Fd i f pos fl))"
proof -
  obtain t where t: "init_terminal s = Some t" "spawned [] (init_kb (init_idt l t))" "free_list (init_kb (init_idt l t)) = free_list s"
    "IDT (init_kb (init_idt l t)) = IDT (init_idt l t)" "length (IDT t) = 256"
    by (rule boot_devices [OF S I])
  let ?t = "init_kb (init_idt l t)"
  have "unat (free_list ?t) + 128 \<le> heap_base" using f t(3) by simp
  then obtain s1 s2 s3 P N root xs where h: "init_heap HEAP_LOWER_BOUND ?t = Some s1"
    "ramfs_init_fd_system (enable_interrupts s1) = (0, s2)" "init_fs init_mnt s2 = Some (W root, s3)"
    "stdio_state 40 root xs s3 P N" "length xs < 900"
    "\<forall>nm\<in>{''stdin'', ''stdout'', ''stderr'', ''FD-test''}. map_of xs (bytes_of nm) = None"
    "fd_table s3 = replicate MAX_FDS 0" "others_kept (?t\<lparr>IF := True\<rparr>) s3" "(W root :: u32) \<noteq> 0"
    by (rule boot_storage [OF _ M])
  let ?s3 = "s3\<lparr>system_root := W root, current_dir := W root\<rparr>"
  have st: "fs_rel ?s3 P N" "tree_ok N" "dir_lists N root xs" "room 40 ?s3" "fd_table ?s3 = replicate MAX_FDS 0"
    using h(4,7) by (simp_all add: stdio_state_def fs_rel_def owns_def heap_objects_def heap_rel_def room_def)
  have low: "low_bytes ?s3 = low_bytes s" using others_kept_low [OF h(8)] t(3) by (simp add: low_bytes_def)
  with b have "{b..<b + 80} \<subseteq> low_bytes ?s3" by simp
  from init_stdio_spec [OF st(1-4) h(5) st(5) h(6) this, of loc] obtain s4 P4 N4 es where
    4: "init_stdio loc (W b) (W root) ?s3 = Some (0, s4)" "fs_rel s4 P4 N4" "tree_ok N4" "open_table es s4" "length es = 4"
      "is_dir N4 root" "room 11 s4" "others_kept ?s3 s4"
      "(\<forall>(i, nm, fl)\<in>set [(0, ''stdin'', O_RDWR OR O_APPEND), (1, ''stdout'', O_WRONLY), (2, ''stderr'', O_WRONLY),
        (3, ''FD-test'', O_RDWR OR O_APPEND)].
      \<exists>f pos. file_in N4 root (bytes_of nm) = Some f \<and> N4 (es ! i) = Some (Fd i f pos fl))" by blast
  obtain s5 where 5: "say [lit (''ShompOS initialized successfully!'' @ nl), lit (''Type 'help' for available commands'' @ nl),
      lit ''shompOS> ''] s4 = Some s5" "term_frame s4 s5" by (rule say_greeting)
  note tf = term_frame_fields [OF 5(2)]
  have "spawned [] (?t\<lparr>IF := True\<rparr>)" by (rule spawned_cong [OF t(2)]) simp_all
  then have "spawned [] s3" by (rule others_kept_spawned [OF h(8)])
  then have "spawned [] ?s3" by (rule spawned_cong) simp_all
  then have "spawned [] s5" using others_kept_spawned [OF 4(8)] others_kept_spawned [OF tf(1)] by blast
  moreover have "fs_rel s5 P4 N4" "room 4 s5" using 4(2) room_mono [OF 4(7), of 4] by (simp_all add: tf)
  ultimately obtain s6 P6 p1 p2 p3 p4 where 6: "init_processes l s5 = Some s6" "boot_kept s5 s6" "fs_rel s6 P6 N4"
    "spawned [(terminal_backstop_addr l, p1), (sample2_addr l, p2), (sample3_addr l, p3), (test_jump_addr l, p4)] s6"
    "distinct [p1, p2, p3, p4]" "own_stacks [(terminal_backstop_addr l, p1), (sample2_addr l, p2), (sample3_addr l, p3), (test_jump_addr l, p4)] s6 P6 N4" by (rule init_processes_spec)
  let ?s' = "enable_interrupts (init_pit PIT_DIVISOR s6)"
  have T: "fs_state.truncate ?s' = fs_state.truncate s6" by (simp add: enable_interrupts_def init_pit_keeps)
  note e = truncate_fields [OF T]
  have k3: "IDT s3 = IDT (init_idt l t)" using kernel_fields(1) [of s3 "?t\<lparr>IF := True\<rparr>"] h(8) t(4) by (simp add: others_kept_def)
  have k4: "IDT s4 = IDT ?s3" "current_dir s4 = W root" "system_root s4 = W root"
    using kernel_fields [of s4 ?s3] 4(8) by (simp_all add: others_kept_def)
  have k6: "IDT s6 = IDT s4" "current_dir s6 = W root" "system_root s6 = W root"
    using kernel_fields [of s6 s5] kernel_fields [of s5 s4] 6(2) tf(1) k4 by (simp_all add: others_kept_def boot_kept_def)
  show thesis
  proof (rule that [of ?s' t root P6 N4 es p1 p2 p3 p4])
    show "kernel_main l init_mnt loc (W b) s = Some ?s'"
      by (simp only: kernel_main_def t(1) h(1-3,9) 4(1) k4(2) 5(1) 6(1) Let_def prod.case Option.bind_lunit bind.simps if_False)
    show "fs_rel ?s' P6 N4" using 6(3) by (simp add: fs_rel_def owns_def heap_objects_def heap_rel_def e)
    show "open_table es ?s'" using 4(4) 6(2) tf(2) by (simp add: open_table_def e boot_kept_def)
    show "spawned [(terminal_backstop_addr l, p1), (sample2_addr l, p2), (sample3_addr l, p3), (test_jump_addr l, p4)] ?s'"
      by (rule spawned_cong [OF 6(4)]) (simp_all add: e)
    show "own_stacks [(terminal_backstop_addr l, p1), (sample2_addr l, p2), (sample3_addr l, p3), (test_jump_addr l, p4)] ?s' P6 N4"
      using 6(6) by (simp add: own_stacks_def ready_def e)
    have "low_bytes s4 = low_bytes ?s3" "low_bytes s5 = low_bytes s4" using others_kept_low 4(8) tf(1) by blast+
    then show "low_bytes ?s' = low_bytes s" using low 6(2) by (simp add: low_bytes_def boot_kept_def e)
    show "(\<forall>(i, nm, fl)\<in>set [(0, ''stdin'', O_RDWR OR O_APPEND), (1, ''stdout'', O_WRONLY), (2, ''stderr'', O_WRONLY),
        (3, ''FD-test'', O_RDWR OR O_APPEND)].
      \<exists>f pos. file_in N4 root (bytes_of nm) = Some f \<and> N4 (es ! i) = Some (Fd i f pos fl))" by (rule 4(9))
  qed (use t(5) 4(1-8) k3 k4 k6 6(5) in \<open>simp_all add: enable_interrupts_def init_pit_keeps\<close>)
qed

lemma spawned_scheduler:
  assumes S: "spawned es s" and n: "es \<noteq> []"
  shows "sched_inv s" "queue_ok 7 s"
proof -
  have l: "0 < length es" "length es \<le> 8" using S n by (simp_all add: spawned_def)
  have P: "proc_PID (proc_table s ! i) = W i" "wait_time (proc_table s ! i) = 0" if "i < length es" for i
    using S l that by (simp_all add: spawned_def)
  note I = spawned_inv [OF S] and L = spawned_live [OF S]
  have "0 \<in> live_pids s" unfolding L(2) using l by force
  with I show "sched_inv s" by (simp add: sched_inv_def)
  have "live s 0 \<and> proc_PID (proc_table s ! 0) = 0 \<and> wait_time (proc_table s ! 0) = 0" using L(1) P [of 0] l by simp
  moreover have "wt s k + 7 < 2 ^ 32" if "eligible s k" for k using that L(1) P by (simp add: eligible_def wt_def)
  ultimately show "queue_ok 7 s" using I(1) unfolding queue_ok_def by blast
qed

text \<open>
  C3: the boot. From the state in which the boot loader leaves the kernel (an empty process
  table, the variables' initial values, the heap's list heads and the buffer \<open>buf\<close> below the
  heap), with an \<open>init_mnt\<close> that fills the root directory, \<open>kernel_main\<close> reaches its endless loop.
  There the interrupts are enabled and every vector leads to its handler; the root directory
  is the current one of a well-formed file system; the descriptors 0 to 3, and no others, are
  open, on the files stdin, stdout, stderr and FD-test of the root directory, with their access
  flags; and the table
  holds exactly the four processes with PIDs 0 to 3, spawned, each on a
  stack of its own that is a heap object of at least 500 bytes and holds the words from which
  the first switch to the process starts it at its entry point, in a state
  from which the scheduler's invariant holds and no process starves.
\<close>

theorem kernel_boots:
  fixes s :: "'a kernel_state_scheme"
  assumes "spawned [] s" "length (IDT s) = 256" "unat (free_list s) + 128 \<le> heap_base"
    and "{b..<b + 80} \<subseteq> low_bytes s" "fills_root init_mnt"
  shows "\<exists>s' root P N es p1 p2 p3 p4. kernel_main l init_mnt loc (of_nat b) s = Some s' \<and> IF s' \<and>
    (\<forall>v<256. case vector_gate l v of None \<Rightarrow> True
       | Some (handler, kind) \<Rightarrow> gate_offset (IDT s' ! v) = handler \<and> type_attr (IDT s' ! v) = kind) \<and>
    current_dir s' = of_nat root \<and> system_root s' = of_nat root \<and> fs_rel s' P N \<and> tree_ok N \<and> is_dir N root \<and>
    open_table es s' \<and> length es = 4 \<and>
    (\<forall>(i, nm, fl)\<in>set [(0, ''stdin'', O_RDWR OR O_APPEND), (1, ''stdout'', O_WRONLY), (2, ''stderr'', O_WRONLY),
        (3, ''FD-test'', O_RDWR OR O_APPEND)].
      \<exists>f pos. file_in N root (bytes_of nm) = Some f \<and> N (es ! i) = Some (Fd i f pos fl)) \<and>
    spawned [(terminal_backstop_addr l, p1), (sample2_addr l, p2), (sample3_addr l, p3), (test_jump_addr l, p4)] s' \<and>
    distinct [p1, p2, p3, p4] \<and> own_stacks [(terminal_backstop_addr l, p1), (sample2_addr l, p2), (sample3_addr l, p3), (test_jump_addr l, p4)] s' P N \<and>
    live_pids s' = {0, 1, 2, 3} \<and> sched_inv s' \<and> queue_ok 7 s'"
proof -
  obtain s' root P N es p1 p2 p3 p4 and t :: "'a kernel_state_scheme" where k: "kernel_main l init_mnt loc (W b) s = Some s'" "IF s'" "length (IDT t) = 256"
    "IDT s' = IDT (init_idt l t)" "current_dir s' = W root" "system_root s' = W root" "fs_rel s' P N" "tree_ok N" "is_dir N root"
    "open_table es s'" "length es = 4"
    "spawned [(terminal_backstop_addr l, p1), (sample2_addr l, p2), (sample3_addr l, p3), (test_jump_addr l, p4)] s'"
    "distinct [p1, p2, p3, p4]" "own_stacks [(terminal_backstop_addr l, p1), (sample2_addr l, p2), (sample3_addr l, p3), (test_jump_addr l, p4)] s' P N"
    "low_bytes s' = low_bytes s" "(\<forall>(i, nm, fl)\<in>set [(0, ''stdin'', O_RDWR OR O_APPEND), (1, ''stdout'', O_WRONLY), (2, ''stderr'', O_WRONLY),
        (3, ''FD-test'', O_RDWR OR O_APPEND)].
      \<exists>f pos. file_in N root (bytes_of nm) = Some f \<and> N (es ! i) = Some (Fd i f pos fl))"
    by (rule kernel_main_spec [OF assms])
  have "\<forall>v<256. case vector_gate l v of None \<Rightarrow> True
      | Some (handler, kind) \<Rightarrow> gate_offset (IDT s' ! v) = handler \<and> type_attr (IDT s' ! v) = kind"
    using init_idt_gates [OF k(3), of l] unfolding k(4) Let_def by (fastforce split: option.splits)
  moreover have "live_pids s' = {0, 1, 2, 3}"
    unfolding spawned_live(2) [OF k(12)] by (simp add: numeral_eq_Suc lessThan_Suc insert_commute)
  ultimately show ?thesis using k spawned_scheduler [OF k(12)] by blast
qed

text \<open>An \<open>init_mnt\<close> that makes one file.\<close>

definition mnt_one :: "u32 \<Rightarrow> kernel_state \<Rightarrow> (i32 \<times> kernel_state) option" where
  "mnt_one root s = do {
     (f, s) \<leftarrow> ramfs_create_file root (lit ''motd'') (lit []) 0 s;
     Some (if f = 0 then - 1 else 0, s) }"

lemma mnt_one_fills: "fills_root mnt_one"
  unfolding fills_root_def
proof (intro allI impI)
  fix s :: kernel_state and P root np assume R: "fs_rel s P [root \<mapsto> root_node np]" "room 1000 s"
  have S: "stdio_state 1000 root [] s P [root \<mapsto> root_node np]"
    using R tree_ok_root(1) by (simp add: stdio_state_def dir_lists_def)
  have nm: "0 \<notin> set (bytes_of ''motd'')" "length ''motd'' < 100" "length ([] :: (u8 list \<times> nat) list) < 1000" "40 + 4 \<le> (1000 :: nat)"
    by (simp_all add: bytes_of_def)
  from S nm(4,1-3) obtain f s' P' N' where c: "ramfs_create_file (W root) (lit ''motd'') (lit []) 0 s = Some (W f, s')" "(W f :: u32) \<noteq> 0"
    "stdio_state 40 root ([] @ [(bytes_of ''motd'', f)]) s' P' N'" "fd_table s' = fd_table s" "low_kept s s'"
    by (rule stdio_create)
  have "mnt_one (W root) s = Some (0, s')" using c(1,2) by (simp add: mnt_one_def)
  with c(3-5) show "\<exists>s' P' N' xs. mnt_one (of_nat root) s = Some (0, s') \<and> stdio_state 40 root xs s' P' N' \<and> length xs < 900 \<and>
        (\<forall>nm\<in>{''stdin'', ''stdout'', ''stderr'', ''FD-test''}. map_of xs (bytes_of nm) = None) \<and>
        fd_table s' = fd_table s \<and> low_kept s s'"
    by (intro exI [of _ s'] exI [of _ P'] exI [of _ N'] exI [of _ "[] @ [(bytes_of ''motd'', f)]"]) (simp add: bytes_of_def)
qed

definition loaded_kernel :: kernel_state where
  "loaded_kernel = reset_kernel\<lparr>proc_table := replicate 8 (slot_of 0 STOPPED 0)\<rparr>"

lemma kernel_boots_witness:
  "\<forall>l. \<exists>s'. kernel_main l mnt_one 0x3000 (of_nat 0x1000) loaded_kernel = Some s' \<and> live_pids s' = {0, 1, 2, 3}"
proof
  fix l
  have "spawned [] loaded_kernel" by (simp add: spawned_def loaded_kernel_def reset_kernel_def boot_kernel_def slot_of_def)
  moreover have "length (IDT loaded_kernel) = 256" by (simp add: loaded_kernel_def reset_kernel_def)
  moreover have f: "free_list loaded_kernel = 0x100000" by (simp add: loaded_kernel_def reset_kernel_def boot_kernel_def)
  then have "unat (free_list loaded_kernel) + 128 \<le> heap_base" by (simp add: heap_base_def)
  moreover have "{0x1000..<0x1000 + 80} \<subseteq> low_bytes loaded_kernel" using f by (auto simp: low_bytes_def heap_base_def)
  ultimately show "\<exists>s'. kernel_main l mnt_one 0x3000 (of_nat 0x1000) loaded_kernel = Some s' \<and> live_pids s' = {0, 1, 2, 3}"
    using kernel_boots [OF _ _ _ _ mnt_one_fills, of loaded_kernel "0x1000" l "0x3000"] by blast
qed

end
