(* ===== verification/Multitask.thy ===== *)
theory Multitask
  imports Boot
begin

section \<open>Multitask: every process has a processor and a stack of its own\<close>

text \<open>
  The composition of the scheduler, the context switch, the heap and the file system. An
  abstract machine gives each process registers and a stack that only it changes, and has a tree
  of files that only the shell's commands change; the kernel, which has one processor and one
  memory, implements it. The processes' code is any code that stays on its own stack and on the
  screen, and commands of the shell on files.
\<close>

subsection \<open>The abstract machine\<close>

text \<open>The slot that executes, and each live slot's registers and stack from its stack pointer up.\<close>

type_synonym machines = "nat \<times> (nat \<rightharpoonup> cpu \<times> u8 list)"

definition top_word :: "u8 list \<Rightarrow> u32" where
  "top_word xs = ucast (xs ! 0) OR push_bit 8 (ucast (xs ! 1)) OR push_bit 16 (ucast (xs ! 2)) OR push_bit 24 (ucast (xs ! 3))"

text \<open>Execution, a return from the call of the scheduler that hands over to another process, and one that does not.\<close>

inductive machines_step :: "machines \<Rightarrow> machines \<Rightarrow> bool" where
  execute: "V j = Some cx \<Longrightarrow> machines_step (j, V) (j, V(j \<mapsto> cx'))"
| hand_over: "V j = Some (c, xs) \<Longrightarrow> 4 \<le> length xs \<Longrightarrow> V b \<noteq> None \<Longrightarrow> b \<noteq> j \<Longrightarrow>
    machines_step (j, V) (b, V(j \<mapsto> (c\<lparr>esp := esp c + 4, eip := top_word xs\<rparr>, drop 4 xs)))"
| go_on: "machines_step (j, V) (j, V)"

text \<open>Beside the processes, the files: a step is one of the processes or of the tree.\<close>

inductive system_step :: "machines \<times> (nat \<rightharpoonup> node) \<Rightarrow> machines \<times> (nat \<rightharpoonup> node) \<Rightarrow> bool" where
  process: "machines_step M M' \<Longrightarrow> system_step (M, N) (M', N)"
| command: "tree_step N N' \<Longrightarrow> system_step (M, N) (M, N')"

subsection \<open>The kernel's steps\<close>

text \<open>
  A timer interrupt, at a moment when 40 bytes of the stack are left for the context switch
  below the return address, code of the process that runs, or a file command, run by that
  process. \<open>S\<close> has the lowest address and the size of each slot's stack, \<open>root\<close> is the root
  directory.
\<close>

type_synonym stacks = "nat \<Rightarrow> nat \<times> nat"

definition running :: "'a proc_state_scheme \<Rightarrow> nat option" where
  "running s = get_process (active_pid s) s"

inductive machine_step :: "nat \<Rightarrow> stacks \<Rightarrow> 'a kernel_state_scheme \<Rightarrow> 'a kernel_state_scheme \<Rightarrow> bool" for root S where
  tick: "running s = Some j \<Longrightarrow> S j = (p, n) \<Longrightarrow> p + 40 \<le> unat (esp (regs s)) \<Longrightarrow> unat (esp (regs s)) + 4 \<le> p + n \<Longrightarrow>
    machine_step root S s (handle_clock_interrupt s)"
| run: "running s = Some j \<Longrightarrow> S j = (p, n) \<Longrightarrow> term_frame (s\<lparr>regs := regs s', mem := mem s'\<rparr>) s' \<Longrightarrow>
    same_on (- {p..<p + n}) (mem s) (mem s') \<Longrightarrow> p \<le> unat (esp (regs s')) \<Longrightarrow> unat (esp (regs s')) \<le> p + n \<Longrightarrow>
    machine_step root S s s'"
| file_command: "running s = Some j \<Longrightarrow> fs_step root s s' \<Longrightarrow> machine_step root S s s'"

subsection \<open>The abstraction\<close>

text \<open>A process that does not run has the registers that a context switch to it would load.\<close>

definition virtual_cpu :: "'a proc_state_scheme \<Rightarrow> nat \<Rightarrow> cpu" where
  "virtual_cpu s i = (if running s = Some i then regs s else restore_context (get_ESP (Some i) s) (mem s) (regs s))"

definition virtual_stack :: "stacks \<Rightarrow> 'a proc_state_scheme \<Rightarrow> nat \<Rightarrow> u8 list" where
  "virtual_stack S s i = (let sp = esp (virtual_cpu s i) in rd_bytes (mem s) sp (fst (S i) + snd (S i) - unat sp))"

definition machines_of :: "stacks \<Rightarrow> 'a proc_state_scheme \<Rightarrow> machines" where
  "machines_of S s = (the (running s), \<lambda>i. if live s i then Some (virtual_cpu s i, virtual_stack S s i) else None)"

text \<open>
  The invariant: the stacks of the live processes are different heap objects that no file or
  directory owns, and a process that does not run has a context switch's frame on its own.
\<close>

definition parked :: "memory \<Rightarrow> u32 \<Rightarrow> bool" where
  "parked m sp \<longleftrightarrow> unat sp + 44 \<le> 2 ^ 32 \<and> rd32 m (sp + 12) = sp + 36"

definition stack_ok :: "stacks \<Rightarrow> 'a proc_state_scheme \<Rightarrow> nat \<Rightarrow> bool" where
  "stack_ok S s i \<longleftrightarrow> (if running s = Some i
     then fst (S i) \<le> unat (esp (regs s)) \<and> unat (esp (regs s)) \<le> fst (S i) + snd (S i)
     else parked (mem s) (get_ESP (Some i) s) \<and> fst (S i) \<le> unat (get_ESP (Some i) s) \<and>
       unat (get_ESP (Some i) s) + 44 \<le> fst (S i) + snd (S i))"

definition multi_ok :: "stacks \<Rightarrow> (nat \<rightharpoonup> nat) \<Rightarrow> (nat \<rightharpoonup> node) \<Rightarrow> 'a kernel_state_scheme \<Rightarrow> bool" where
  "multi_ok S P N s \<longleftrightarrow> fs_rel s P N \<and> sched_inv s \<and> running s \<noteq> None \<and> inj_on (fst \<circ> S) {i. live s i} \<and>
     (\<forall>i. live s i \<longrightarrow> P (fst (S i)) = Some (snd (S i)) \<and> fst (S i) \<notin> owned foot N \<and> stack_ok S s i)"

subsection \<open>Frames\<close>

lemma restore_parked:
  assumes "parked m sp" "same_on {unat sp..<unat sp + 44} m m'"
  shows "restore_context sp m' d' = restore_context sp m d" "esp (restore_context sp m d) = sp + 44" "parked m' sp"
proof -
  have sp: "sp = W (unat sp)" by simp
  have r: "rd32 m' (sp + W k) = rd32 m (sp + W k)" if "k \<le> 40" for k
  proof -
    have "rd32 m' (W (unat sp + k)) = rd32 m (W (unat sp + k))"
      by (rule rd32_same_on [OF assms(2)]) (use that assms(1) in \<open>auto simp: parked_def\<close>)
    then show ?thesis by (simp add: add.commute)
  qed
  have rs: "rd32 m' sp = rd32 m sp" "rd32 m' (sp + 4) = rd32 m (sp + 4)" "rd32 m' (sp + 8) = rd32 m (sp + 8)"
    "rd32 m' (sp + 12) = rd32 m (sp + 12)" "rd32 m' (sp + 20) = rd32 m (sp + 20)" "rd32 m' (sp + 24) = rd32 m (sp + 24)"
    "rd32 m' (sp + 28) = rd32 m (sp + 28)" "rd32 m' (sp + 32) = rd32 m (sp + 32)" "rd32 m' (sp + 36) = rd32 m (sp + 36)"
    "rd32 m' (sp + 40) = rd32 m (sp + 40)"
    using r [of 0] r [of 4] r [of 8] r [of 12] r [of 20] r [of 24] r [of 28] r [of 32] r [of 36] r [of 40] by simp_all
  have e: "rd32 m (sp + 12) = sp + 36" using assms(1) by (simp add: parked_def)
  show "parked m' sp" using assms(1) rs(4) by (simp add: parked_def)
  show "restore_context sp m' d' = restore_context sp m d" "esp (restore_context sp m d) = sp + 44"
    by (simp_all add: restore_context_def popal_def pop_def Let_def add.assoc rs e)
qed

lemma top_word: "4 \<le> n \<Longrightarrow> top_word (rd_bytes m a n) = rd32 m a"
  by (simp add: top_word_def rd32_def)

lemma drop_rd_bytes: "drop k (rd_bytes m a n) = rd_bytes m (a + W k) (n - k)"
  by (rule nth_equalityI) (simp_all add: add.assoc)

subsection \<open>What the scheduler changes\<close>

text \<open>Aging leaves all but the waiting times alone.\<close>

definition same_but_waits :: "'a proc_state_scheme \<Rightarrow> 'a proc_state_scheme \<Rightarrow> bool" where
  "same_but_waits s t \<longleftrightarrow> (\<exists>T. t = s\<lparr>proc_table := T\<rparr>) \<and> length (proc_table t) = length (proc_table s) \<and>
     (\<forall>k<length (proc_table s). proc_context (proc_table t ! k) = proc_context (proc_table s ! k) \<and>
        proc_PID (proc_table t ! k) = proc_PID (proc_table s ! k) \<and> status (proc_table t ! k) = status (proc_table s ! k))"

lemma same_but_waits_set_wait: "same_but_waits s t \<Longrightarrow> same_but_waits s (set_wait (Some i) w t)"
  unfolding same_but_waits_def by (auto simp: set_wait_def upd_slot_def nth_upd)

lemma same_but_waits_fold: "same_but_waits s t \<Longrightarrow> same_but_waits s (snd (fold queue_round is (p, t)))"
proof (induction "is" arbitrary: p t)
  case (Cons i "is")
  have "same_but_waits s (snd (queue_round i (p, t)))"
    using same_but_waits_set_wait [OF Cons.prems] Cons.prems by (simp add: queue_round_def Let_def)
  from Cons.IH [OF this, of "fst (queue_round i (p, t))"] show ?case by simp
qed simp

lemma same_but_waits_refl: "same_but_waits s s"
  by (auto simp: same_but_waits_def intro: exI [of _ "proc_table s"])

lemma same_but_waits_fields:
  assumes "same_but_waits s t"
  shows "active_pid t = active_pid s" "mem t = mem s" "regs t = regs s" "next_pid t = next_pid s"
    "length (proc_table t) = length (proc_table s)"
  using assms by (auto simp: same_but_waits_def)

lemma same_but_waits_live:
  assumes "same_but_waits s t" "length (proc_table s) = MAX_PROCESS"
  shows "live t = live s" "get_process PID t = get_process PID s"
proof -
  show "live t = live s" using assms by (auto simp: fun_eq_iff same_but_waits_def live_def)
  show "get_process PID t = get_process PID s"
    unfolding get_process_def by (rule find_cong) (use assms in \<open>auto simp: same_but_waits_def\<close>)
qed

text \<open>The context switch touches the contexts, the registers and the stack only.\<close>

lemma switch_process_fields:
  fixes s :: "'a proc_state_scheme"
  assumes len: "length (proc_table s) = MAX_PROCESS"
    and j: "get_process (active_pid s) s = Some j" and i: "get_process PID s = Some i" and ne: "i \<noteq> j"
  defines "s' \<equiv> switch_process PID s"
  shows "\<exists>T. s' = s\<lparr>active_pid := PID, proc_table := T, regs := regs s', mem := mem s'\<rparr> \<and> length T = MAX_PROCESS \<and>
    (\<forall>k<MAX_PROCESS. proc_context (T ! k) = (if k = j then (proc_context (proc_table s ! j))\<lparr>ctx_ESP := esp (regs s) - 40\<rparr>
       else proc_context (proc_table s ! k)))"
proof -
  have i8: "i < MAX_PROCESS" "j < MAX_PROCESS" using get_process_Some [OF i] get_process_Some [OF j] by (simp_all add: live_def)
  define t where "t = (set_status (Some i) ACTIVE
    (if is_active (Some j) s then set_status (Some j) WAITING s else s))\<lparr>active_pid := PID\<rparr>"
  obtain T where T: "t = s\<lparr>active_pid := PID, proc_table := T\<rparr>" "length T = MAX_PROCESS"
    "\<forall>k<MAX_PROCESS. proc_context (T ! k) = proc_context (proc_table s ! k)"
    by (rule that [of "proc_table t"]) (use len in \<open>auto simp: t_def set_status_def upd_slot_def nth_upd\<close>)
  have s': "s' = context_switch (Some j) (Some i) t"
    using i j ne by (simp add: s'_def switch_process_def t_def Let_def)
  let ?T = "T[j := (T ! j)\<lparr>proc_context := (proc_context (T ! j))\<lparr>ctx_ESP := esp (regs s) - 40\<rparr>\<rparr>]"
  have "s' = s\<lparr>active_pid := PID, proc_table := ?T, regs := regs s', mem := mem s'\<rparr>"
    unfolding s' context_switch_def save_context_eq Let_def prod.case by (simp add: T(1) set_ESP_def upd_slot_def)
  then show ?thesis
    by (intro exI [of _ ?T] conjI) (use T(2,3) i8 in \<open>auto simp: nth_upd\<close>)
qed

text \<open>
  One call of the scheduler: it picks a live process \<open>b\<close> and, if that is not the one that runs,
  switches to it from a state in which only waiting times have changed.
\<close>

lemma scheduler_pick:
  fixes s :: "'a proc_state_scheme"
  assumes I: "sched_inv s"
  obtains b u where "live s b" "same_but_waits s u" "sched_inv (switch_process_from_queue s)"
    "running (switch_process_from_queue s) = Some b" "live (switch_process_from_queue s) = live s"
    "switch_process_from_queue s = (if proc_PID (proc_table s ! b) = active_pid s then u else switch_process (proc_PID (proc_table s ! b)) u)"
proof -
  have PI: "proc_inv s" and z: "0 \<in> live_pids s" using I by (simp_all add: sched_inv_def)
  note D = proc_invD [OF PI]
  obtain i where i: "get_process 0 s = Some i" using z get_process_None [of 0 s] by auto
  then have "live s i" using get_process_Some by blast
  from queue_fold_live [OF this le_refl D(1)] obtain b t where
    f: "fold queue_round [0..<MAX_PROCESS] (get_process 0 s, s) = (Some b, t)" and b: "live s b" and a: "aged MAX_PROCESS s t"
    unfolding i by blast
  let ?u = "set_wait (Some b) 0 t" and ?s' = "switch_process_from_queue s"
  have "same_but_waits s t" using same_but_waits_fold [OF same_but_waits_refl, of s "[0..<MAX_PROCESS]" "get_process 0 s"] by (simp add: f)
  then have u: "same_but_waits s ?u" by (rule same_but_waits_set_wait)
  have d: "dispatched b s ?s'" by (rule queue_dispatch [OF PI b a f])
  have b8: "b < MAX_PROCESS" using b by (simp add: live_def)
  have pid: "get_pid (Some b) ?u = proc_PID (proc_table s ! b)" using u b8 D(1) by (simp add: get_pid_def same_but_waits_def)
  then have run: "?s' = (if proc_PID (proc_table s ! b) = active_pid s then ?u else switch_process (proc_PID (proc_table s ! b)) ?u)"
    using f same_but_waits_fields(1) [OF u] by (simp add: switch_process_from_queue_def)
  have L: "live ?s' = live s"
  proof
    show "live ?s' k = live s k" for k using d by (cases "k < MAX_PROCESS") (simp_all add: dispatched_def, simp add: live_def)
  qed
  have S: "sched_inv ?s'" using sched_inv_step [OF table_step.tick I] .
  have "running ?s' = Some b" unfolding running_def
    by (rule get_process_live) (use d b b8 L in \<open>simp_all add: dispatched_def\<close>)
  with that b u S L run show thesis by blast
qed

lemma scheduler_call:
  fixes s :: "'a proc_state_scheme"
  assumes I: "sched_inv s" and j: "running s = Some j"
  obtains b u where "live s b" "same_but_waits s u" "sched_inv (switch_process_from_queue s)"
    "running (switch_process_from_queue s) = Some b" "live (switch_process_from_queue s) = live s"
    "switch_process_from_queue s = (if b = j then u else switch_process (proc_PID (proc_table s ! b)) u)"
proof -
  obtain b u where b: "live s b" "same_but_waits s u" "sched_inv (switch_process_from_queue s)"
    "running (switch_process_from_queue s) = Some b" "live (switch_process_from_queue s) = live s"
    "switch_process_from_queue s = (if proc_PID (proc_table s ! b) = active_pid s then u else switch_process (proc_PID (proc_table s ! b)) u)"
    by (rule scheduler_pick [OF I])
  have "live s j \<and> proc_PID (proc_table s ! j) = active_pid s" using get_process_Some [OF j [unfolded running_def]] .
  then have "proc_PID (proc_table s ! b) = active_pid s \<longleftrightarrow> b = j" using I proc_invD(2) [of s b j] b(1) by (auto simp: sched_inv_def)
  with that b show thesis by simp
qed

subsection \<open>The steps keep the invariant and are steps of the abstract machine\<close>

lemma object_below_end: "fs_rel s P N \<Longrightarrow> P p = Some c \<Longrightarrow> p + c < 2 ^ 32"
proof -
  assume R: "fs_rel s P N" and p: "P p = Some c"
  obtain L where L: "heap_rel s L" "P = payloads L" using fs_relD(1) [OF R] unfolding heap_objects_def by blast
  then obtain a k where a: "p = a + 9" "L a = Some k" "c = 2 ^ k - 9" using p by (auto simp: payloads_Some)
  then show ?thesis using heap_rel_block(5) [OF L(1) a(2)] payload_range(2) [OF L(1) a(2)] unat_u32_lt [of "current_brk s"] by simp
qed

lemma multi_okD:
  assumes "multi_ok S P N s"
  shows "fs_rel s P N" "sched_inv s" "proc_inv s" "length (proc_table s) = MAX_PROCESS"
    and "\<And>i. live s i \<Longrightarrow> P (fst (S i)) = Some (snd (S i))" "\<And>i. live s i \<Longrightarrow> fst (S i) \<notin> owned foot N"
    and "\<And>i. live s i \<Longrightarrow> stack_ok S s i"
    and "\<And>i k. live s i \<Longrightarrow> live s k \<Longrightarrow> i \<noteq> k \<Longrightarrow> {fst (S i)..<fst (S i) + snd (S i)} \<inter> {fst (S k)..<fst (S k) + snd (S k)} = {}"
    and "\<And>i. live s i \<Longrightarrow> fst (S i) + snd (S i) < 2 ^ 32"
proof -
  show R: "fs_rel s P N" and I: "sched_inv s" and P: "\<And>i. live s i \<Longrightarrow> P (fst (S i)) = Some (snd (S i))"
    and "\<And>i. live s i \<Longrightarrow> fst (S i) \<notin> owned foot N" "\<And>i. live s i \<Longrightarrow> stack_ok S s i"
    using assms unfolding multi_ok_def by simp_all
  show "fst (S i) + snd (S i) < 2 ^ 32" if "live s i" for i by (rule object_below_end [OF R P [OF that]])
  show "proc_inv s" using I by (simp add: sched_inv_def)
  then show "length (proc_table s) = MAX_PROCESS" by (rule proc_invD(1))
  fix i k assume l: "live s i" "live s k" and ne: "i \<noteq> k"
  have "inj_on (fst \<circ> S) {i. live s i}" using assms by (simp add: multi_ok_def)
  then have "fst (S i) \<noteq> fst (S k)" using inj_on_eq_iff [of _ _ i k] l ne by fastforce
  then show "{fst (S i)..<fst (S i) + snd (S i)} \<inter> {fst (S k)..<fst (S k) + snd (S k)} = {}"
    by (rule heap.objects_apart [OF fs_relD(1) [OF R] P [OF l(1)] P [OF l(2)]])
qed

lemma running_live: "running s = Some j \<Longrightarrow> live s j"
  using get_process_Some unfolding running_def by blast

text \<open>A process that does not run keeps its registers and its stack when its stack is not written.\<close>

lemma parked_kept:
  assumes M: "multi_ok S P N s" and k: "live s k" "running s \<noteq> Some k"
    and K: "same_on {fst (S k)..<fst (S k) + snd (S k)} (mem s) m'"
  defines "c \<equiv> virtual_cpu s k"
  shows "restore_context (get_ESP (Some k) s) m' d = c" "parked m' (get_ESP (Some k) s)"
    and "rd_bytes m' (esp c) (fst (S k) + snd (S k) - unat (esp c)) = virtual_stack S s k"
proof -
  let ?sp = "get_ESP (Some k) s"
  have o: "parked (mem s) ?sp" "fst (S k) \<le> unat ?sp" "unat ?sp + 44 \<le> fst (S k) + snd (S k)"
    using multi_okD(7) [OF M k(1)] k(2) by (simp_all add: stack_ok_def)
  have F: "same_on {unat ?sp..<unat ?sp + 44} (mem s) m'" by (rule same_on_subset [OF K]) (use o in auto)
  note r = restore_parked [OF o(1) F]
  show c: "restore_context ?sp m' d = c" "parked m' ?sp" using r k(2) by (simp_all add: c_def virtual_cpu_def)
  have e: "esp c = ?sp + 44" using r(2) k(2) by (simp add: c_def virtual_cpu_def)
  have top: "fst (S k) + snd (S k) < 2 ^ 32" by (rule multi_okD(9) [OF M k(1)])
  have "esp c = W (unat ?sp + 44)" by (simp add: e)
  moreover from this have "unat (esp c) = unat ?sp + 44" using unat_of_nat_u32 [of "unat ?sp + 44"] o(3) top by simp
  ultimately show "rd_bytes m' (esp c) (fst (S k) + snd (S k) - unat (esp c)) = virtual_stack S s k"
    unfolding virtual_stack_def Let_def c_def [symmetric] using o top
    by (simp only:) (rule rd_bytes_same_on [OF K], auto)
qed

lemma other_stack:
  assumes M: "multi_ok S P N s" and k: "live s k" and j: "live s j" "j \<noteq> k"
    and m: "same_on (- {fst (S j)..<fst (S j) + snd (S j)}) (mem s) m'"
  shows "same_on {fst (S k)..<fst (S k) + snd (S k)} (mem s) m'"
  by (rule same_on_subset [OF m]) (use multi_okD(8) [OF M k j(1)] j(2) in auto)

text \<open>What a step of process \<open>j\<close> leaves to the others, the next one to run included.\<close>

lemma others_kept:
  assumes M: "multi_ok S P N s" and j: "running s = Some j" and k: "live s k" "k \<noteq> j"
    and m: "same_on (- {fst (S j)..<fst (S j) + snd (S j)}) (mem s) (mem s')"
    and e: "get_ESP (Some k) s' = get_ESP (Some k) s" and b: "running s' = Some k \<Longrightarrow> regs s' = virtual_cpu s k"
  shows "virtual_cpu s' k = virtual_cpu s k" "virtual_stack S s' k = virtual_stack S s k" "stack_ok S s' k"
proof -
  have r: "running s \<noteq> Some k" using j k(2) by simp
  note K = parked_kept [OF M k(1) r other_stack [OF M k(1) running_live [OF j] k(2) [symmetric] m]]
  have o: "parked (mem s) (get_ESP (Some k) s)" "fst (S k) \<le> unat (get_ESP (Some k) s)"
    "unat (get_ESP (Some k) s) + 44 \<le> fst (S k) + snd (S k)"
    using multi_okD(7) [OF M k(1)] r by (simp_all add: stack_ok_def)
  show c: "virtual_cpu s' k = virtual_cpu s k"
    using b K(1) [of "regs s'"] by (simp add: virtual_cpu_def [of s'] e)
  show "virtual_stack S s' k = virtual_stack S s k" using K(3) by (simp add: virtual_stack_def [of S s'] c Let_def)
  show "stack_ok S s' k"
  proof (cases "running s' = Some k")
    case True
    have "esp (regs s') = get_ESP (Some k) s + 44"
      using restore_parked(2) [OF o(1) same_on_refl] r by (simp add: b [OF True] virtual_cpu_def)
    then have "esp (regs s') = W (unat (get_ESP (Some k) s) + 44)" by simp
    then have "unat (esp (regs s')) = unat (get_ESP (Some k) s) + 44"
      using unat_of_nat_u32 [of "unat (get_ESP (Some k) s) + 44"] o(3) multi_okD(9) [OF M k(1)] by simp
    then show ?thesis using True o by (simp add: stack_ok_def)
  qed (use K(2) o e in \<open>simp add: stack_ok_def\<close>)
qed

lemma fs_rel_same:
  "fs_rel s P N \<Longrightarrow> mem s' = mem s \<Longrightarrow> free_list s' = free_list s \<Longrightarrow> current_brk s' = current_brk s \<Longrightarrow> fs_rel s' P N"
  by (simp add: fs_rel_def owns_def heap_objects_def heap_rel_def)

lemma step_ok:
  assumes M: "multi_ok S P N s" and j: "running s = Some j"
    and m: "same_on (- {fst (S j)..<fst (S j) + snd (S j)}) (mem s) (mem s')"
    and e: "\<And>k. live s k \<Longrightarrow> k \<noteq> j \<Longrightarrow> get_ESP (Some k) s' = get_ESP (Some k) s"
    and b: "running s' = Some b" "b \<noteq> j \<Longrightarrow> regs s' = virtual_cpu s b" "live s b"
    and f: "live s' = live s" "free_list s' = free_list s" "current_brk s' = current_brk s" "sched_inv s'" "stack_ok S s' j"
  shows "multi_ok S P N s'"
    and "machines_of S s' = (b, (snd (machines_of S s))(j \<mapsto> (virtual_cpu s' j, virtual_stack S s' j)))"
proof -
  note D = multi_okD [OF M] and jl = running_live [OF j]
  have K: "virtual_cpu s' k = virtual_cpu s k \<and> virtual_stack S s' k = virtual_stack S s k \<and> stack_ok S s' k"
    if "live s k" "k \<noteq> j" for k
    using others_kept [OF M j that m e [OF that]] b that by auto
  have "fs_rel (s\<lparr>mem := mem s'\<rparr>) P N"
    by (rule fs_put_outside [OF D(1) m])
      (use heap.payload [OF fs_relD(1) [OF D(1)] D(5) [OF jl]] fs.extent_apart [OF fs_relD(1) [OF D(1)] D(5,6) [OF jl]] in blast)+
  then have R: "fs_rel s' P N" by (rule fs_rel_same) (simp_all add: f)
  have "stack_ok S s' k" if "live s k" for k using K that f(5) by (cases "k = j") simp_all
  then show "multi_ok S P N s'" using R b(1) f(1,4) M unfolding multi_ok_def by simp
  show "machines_of S s' = (b, (snd (machines_of S s))(j \<mapsto> (virtual_cpu s' j, virtual_stack S s' j)))"
    using K b(1) f(1) jl by (auto simp: machines_of_def fun_eq_iff)
qed

lemma run_ok:
  assumes M: "multi_ok S P N s" and j: "running s = Some j" "S j = (p, n)"
    and tf: "term_frame (s\<lparr>regs := regs s', mem := mem s'\<rparr>) s'" and m: "same_on (- {p..<p + n}) (mem s) (mem s')"
    and e: "p \<le> unat (esp (regs s'))" "unat (esp (regs s')) \<le> p + n"
  shows "multi_ok S P N s'" "machines_step (machines_of S s) (machines_of S s')"
proof -
  note f = term_frame_state [OF tf]
  have F: "proc_table s' = proc_table s" "active_pid s' = active_pid s" "next_pid s' = next_pid s"
    "free_list s' = free_list s" "current_brk s' = current_brk s" by (subst f, simp)+
  have L: "live s' = live s" by (simp add: fun_eq_iff live_def F)
  have r: "running s' = Some j" using j(1) by (simp add: running_def get_process_def F)
  have I: "sched_inv s'" by (rule sched_inv_step [OF table_step.other multi_okD(2) [OF M]]) (simp_all add: F)
  have E: "get_ESP (Some k) s' = get_ESP (Some k) s" for k by (simp add: get_ESP_def F)
  have o: "stack_ok S s' j" using e j(2) by (simp add: stack_ok_def r)
  have m': "same_on (- {fst (S j)..<fst (S j) + snd (S j)}) (mem s) (mem s')" using m j(2) by simp
  note st = step_ok [OF M j(1) m' E r _ running_live [OF j(1)] L F(4,5) I o]
  show "multi_ok S P N s'" by (rule st(1)) simp
  have "machines_of S s' = (j, (snd (machines_of S s))(j \<mapsto> (virtual_cpu s' j, virtual_stack S s' j)))" by (rule st(2)) simp
  moreover have "machines_of S s = (j, snd (machines_of S s))" using j(1) by (simp add: machines_of_def)
  moreover have "snd (machines_of S s) j = Some (virtual_cpu s j, virtual_stack S s j)"
    using running_live [OF j(1)] by (simp add: machines_of_def)
  ultimately show "machines_step (machines_of S s) (machines_of S s')" using machines_step.execute by metis
qed

text \<open>A file command runs between two moments of a process; no stack and no register changes.\<close>

lemma command_ok:
  fixes s s' :: "'a kernel_state_scheme"
  assumes M: "multi_ok S P N s" and T: "tree_ok N" "is_dir N root" and c: "fs_step root s s'"
  obtains P' N' where "multi_ok S P' N' s'" "tree_step N N'" "machines_of S s' = machines_of S s"
proof -
  note D = multi_okD [OF M]
  obtain P' N' where k: "fs_rel s' P' N'" "tree_step N N'" "apart_kept P N P' N'" "unowned_kept P N s s'"
    using fs_step_kept [OF c D(1) T] unfolding fs_kept_def by blast
  then have m: "same_on (extent P (- owned foot N)) (mem s) (mem s')" and f: "fs_frame s s'" by (simp_all add: unowned_kept_def)
  have F: "proc_table s' = proc_table s" "active_pid s' = active_pid s" "next_pid s' = next_pid s" "regs s' = regs s"
    using f by (cases s; cases s'; simp add: fs_frame_def heap_frame_def)+
  have L: "live s' = live s" by (simp add: fun_eq_iff live_def F)
  have r: "running s' = running s" by (simp add: running_def get_process_def F)
  have E: "get_ESP (Some i) s' = get_ESP (Some i) s" for i by (simp add: get_ESP_def F)
  have K: "same_on {fst (S i)..<fst (S i) + snd (S i)} (mem s) (mem s')" if i: "live s i" for i
    by (rule same_on_subset [OF m in_extent [where P = P, OF _ D(5) [OF i]]]) (use D(6) [OF i] in simp)
  have V: "virtual_cpu s' i = virtual_cpu s i \<and> virtual_stack S s' i = virtual_stack S s i \<and> stack_ok S s' i" if i: "live s i" for i
  proof (cases "running s = Some i")
    case True
    then have "virtual_cpu s' i = virtual_cpu s i" "stack_ok S s' i" using D(7) [OF i] by (simp_all add: virtual_cpu_def stack_ok_def r F)
    moreover have "fst (S i) \<le> unat (esp (regs s))" using D(7) [OF i] True by (simp add: stack_ok_def)
    then have "rd_bytes (mem s') (esp (regs s)) (fst (S i) + snd (S i) - unat (esp (regs s))) =
        rd_bytes (mem s) (esp (regs s)) (fst (S i) + snd (S i) - unat (esp (regs s)))"
      using rd_bytes_same_on [where a = "unat (esp (regs s))" and n = "fst (S i) + snd (S i) - unat (esp (regs s))", OF K [OF i]]
        D(9) [OF i] unat_u32_lt [of "esp (regs s)"] by (cases "unat (esp (regs s)) \<le> fst (S i) + snd (S i)") auto
    ultimately show ?thesis using True by (simp add: virtual_stack_def virtual_cpu_def r F Let_def)
  next
    case False
    note q = parked_kept [OF M i False K [OF i]]
    have v: "virtual_cpu s' i = virtual_cpu s i" using q(1) False by (simp add: virtual_cpu_def [of s'] r E)
    moreover have "stack_ok S s' i" using q(2) D(7) [OF i] False by (simp add: stack_ok_def r E)
    ultimately show ?thesis using q(3) by (simp add: virtual_stack_def [of S s'] Let_def)
  qed
  have "sched_inv s'" by (rule sched_inv_step [OF table_step.other D(2)]) (simp_all add: F)
  moreover have "P' (fst (S i)) = Some (snd (S i)) \<and> fst (S i) \<notin> owned foot N'" if "live s i" for i
    using k(3) D(5,6) [OF that] by (simp add: apart_kept_def)
  ultimately have "multi_ok S P' N' s'" using M V k(1) by (simp add: multi_ok_def L r)
  moreover have "machines_of S s' = machines_of S s" using V by (auto simp: machines_of_def r L fun_eq_iff)
  ultimately show thesis using that k(2) by blast
qed

lemma saved_frame:
  assumes E: "unat (esp c) = E" "40 \<le> E" "E + 4 < 2 ^ 32"
  shows "same_on (- {E - 40..<E}) m (snd (save_context (c, m)))" "parked (snd (save_context (c, m))) (esp c - 40)"
    and "unat (esp c - 40) = E - 40"
proof -
  define ws where "ws = [ebp c, eax c, ecx c, edx c, ebx c, esp c - 4, esp c - 4, esi c, edi c, eflags c]"
  have len: "length ws = 10" "ws ! 6 = esp c - 4" by (simp_all add: ws_def)
  have eE: "esp c = W E" using E(1) by (metis of_nat_unat_u32)
  have e4: "esp c - 4 = W (E - 4)" using E(2) unfolding eE by (intro W_minus_4) simp
  have w: "snd (save_context (c, m)) = write_down m (W (E - 4)) ws" unfolding save_context_eq snd_conv ws_def e4 ..
  show "same_on (- {E - 40..<E}) m (snd (save_context (c, m)))"
    using write_down_same_on [of ws "E - 4" m] E(2,3) len(1) by (simp add: w)
  have e40: "esp c - 40 = W (E - 40)" using E(2) by (simp add: eE of_nat_diff)
  show u: "unat (esp c - 40) = E - 40" using unat_of_nat_u32 [of "E - 40"] E(3) unfolding e40 by simp
  have "rd32 (write_down m (W (E - 4)) ws) (W (E - 4 - 4 * 6)) = ws ! 6"
    by (rule write_down_nth) (use E len(1) in simp_all)
  moreover have "W (E - 4 - 4 * 6) = esp c - 40 + 12" using E(2) by (simp add: eE of_nat_diff)
  ultimately have "rd32 (snd (save_context (c, m))) (esp c - 40 + 12) = esp c - 40 + 36" by (simp add: w len(2))
  then show "parked (snd (save_context (c, m))) (esp c - 40)" using u E by (simp add: parked_def)
qed

lemma multi_ok_same:
  fixes s t :: "'a kernel_state_scheme"
  assumes "proc_table t = proc_table s" "active_pid t = active_pid s" "next_pid t = next_pid s" "mem t = mem s"
    "regs t = regs s" "free_list t = free_list s" "current_brk t = current_brk s"
  shows "running t = running s" "machines_of S t = machines_of S s" "multi_ok S P N s \<Longrightarrow> multi_ok S P N t"
proof -
  have L: "live t = live s" by (simp add: fun_eq_iff live_def assms)
  show r: "running t = running s" by (simp add: running_def get_process_def assms)
  have v: "virtual_cpu t i = virtual_cpu s i" for i by (simp add: virtual_cpu_def r get_ESP_def assms)
  have "virtual_stack S t i = virtual_stack S s i" for i by (simp add: virtual_stack_def v assms)
  then show "machines_of S t = machines_of S s" by (auto simp: machines_of_def r L v fun_eq_iff)
  assume M: "multi_ok S P N s"
  have "sched_inv t" by (rule sched_inv_step [OF table_step.other multi_okD(2) [OF M]]) (simp_all add: assms)
  moreover have "fs_rel t P N" by (rule fs_rel_same [OF multi_okD(1) [OF M]]) (simp_all add: assms)
  moreover have "stack_ok S t i = stack_ok S s i" for i by (simp add: stack_ok_def r get_ESP_def assms)
  ultimately show "multi_ok S P N t" using M by (simp add: multi_ok_def r L)
qed

lemma machines_running:
  "running s = Some j \<Longrightarrow> machines_of S s = (j, snd (machines_of S s)) \<and>
     snd (machines_of S s) j = Some (virtual_cpu s j, virtual_stack S s j)"
  using running_live [of s j] by (simp add: machines_of_def)

text \<open>A stack after the return address has been popped.\<close>

lemma returned_stack:
  fixes s s' :: "'a kernel_state_scheme"
  assumes j: "running s = Some j" "S j = (p, n)" and E: "unat (esp (regs s)) = E" "E + 4 \<le> p + n" "p + n < 2 ^ 32"
    and v: "virtual_cpu s' j = (regs s)\<lparr>esp := esp (regs s) + 4, eip := x\<rparr>"
  shows "same_on (- {..<E}) (mem s) (mem s') \<Longrightarrow> virtual_stack S s' j = drop 4 (virtual_stack S s j)"
    and "4 \<le> length (virtual_stack S s j)" "top_word (virtual_stack S s j) = rd32 (mem s) (esp (regs s))"
proof -
  have eE: "esp (regs s) = W E" using E(1) by (metis of_nat_unat_u32)
  have q: "virtual_stack S s j = rd_bytes (mem s) (W E) (p + n - E)"
    using j E(1) by (simp add: virtual_stack_def virtual_cpu_def eE Let_def)
  have k: "4 \<le> p + n - E" using E(2) by simp
  show "4 \<le> length (virtual_stack S s j)" using k by (simp add: q)
  show "top_word (virtual_stack S s j) = rd32 (mem s) (esp (regs s))" using top_word [OF k] by (simp add: q eE)
  assume m: "same_on (- {..<E}) (mem s) (mem s')"
  have a: "esp (regs s) + 4 = W (E + 4)" by (simp add: eE)
  have "unat (W (E + 4) :: u32) = E + 4" using unat_of_nat_u32 [of "E + 4"] E(2,3) by simp
  then have "virtual_stack S s' j = rd_bytes (mem s') (W (E + 4)) (p + n - (E + 4))"
    using j(2) by (simp add: virtual_stack_def v a Let_def del: of_nat_add)
  also have "\<dots> = rd_bytes (mem s) (W (E + 4)) (p + n - (E + 4))"
    by (rule rd_bytes_same_on [OF m]) (use E(2,3) in auto)
  finally show "virtual_stack S s' j = drop 4 (virtual_stack S s j)" by (simp add: q drop_rd_bytes)
qed

lemma hand_over_switch:
  fixes s :: "'a kernel_state_scheme"
  assumes I: "proc_inv s" and j: "running s = Some j" and b: "live s b" and ne: "b \<noteq> j"
    and u: "same_but_waits s u" and s': "s' = switch_process (proc_PID (proc_table s ! b)) u"
  defines "cm \<equiv> save_context (regs s, mem s)"
  shows "mem s' = snd cm" "regs s' = restore_context (get_ESP (Some b) s) (snd cm) (fst cm)"
    and "get_ESP (Some j) s' = esp (regs s) - 40" "\<And>k. live s k \<Longrightarrow> k \<noteq> j \<Longrightarrow> get_ESP (Some k) s' = get_ESP (Some k) s"
    and "free_list s' = free_list s" "current_brk s' = current_brk s"
proof -
  have len: "length (proc_table s) = MAX_PROCESS" by (rule proc_invD(1) [OF I])
  note uf = same_but_waits_fields [OF u] and ul = same_but_waits_live [OF u len]
  obtain T where uT: "u = s\<lparr>proc_table := T\<rparr>" using u by (auto simp: same_but_waits_def)
  have ctx: "proc_context (proc_table u ! k) = proc_context (proc_table s ! k)" if "k < MAX_PROCESS" for k
    using u that len by (simp add: same_but_waits_def)
  have gj: "get_process (active_pid u) u = Some j" using j by (simp add: ul(2) uf(1) running_def)
  have gb: "get_process (proc_PID (proc_table s ! b)) u = Some b"
    unfolding ul(2) by (rule get_process_live [OF I b refl])
  have lu: "length (proc_table u) = MAX_PROCESS" using uf(5) len by simp
  note cpu = switch_process_cpu [OF lu gj gb ne, folded s', unfolded uf, folded cm_def]
  show "mem s' = snd cm" by (rule cpu(1))
  show "regs s' = restore_context (get_ESP (Some b) s) (snd cm) (fst cm)"
    using cpu(2) ctx [of b] b by (simp add: get_ESP_def live_def)
  obtain T' where T': "s' = u\<lparr>active_pid := proc_PID (proc_table s ! b), proc_table := T', regs := regs s', mem := mem s'\<rparr>"
    "\<And>k. k < MAX_PROCESS \<Longrightarrow> proc_context (T' ! k) = (if k = j then (proc_context (proc_table u ! j))\<lparr>ctx_ESP := esp (regs s) - 40\<rparr>
       else proc_context (proc_table u ! k))"
    using switch_process_fields [OF lu gj gb ne, folded s'] uf(3) by auto
  have t: "proc_table s' = T'" by (subst T'(1)) simp
  show "free_list s' = free_list s" "current_brk s' = current_brk s" by (subst T'(1), simp add: uT)+
  show "get_ESP (Some k) s' = get_ESP (Some k) s" if "live s k" "k \<noteq> j" for k
    using that T'(2) [of k] ctx [of k] by (simp add: get_ESP_def t live_def)
  show "get_ESP (Some j) s' = esp (regs s) - 40" using T'(2) [of j] running_live [OF j] by (simp add: get_ESP_def t live_def)
qed

lemma hand_over_ok:
  fixes s :: "'a kernel_state_scheme"
  assumes M: "multi_ok S P N s" and j: "running s = Some j" "S j = (p, n)"
    and e: "p + 40 \<le> unat (esp (regs s))" "unat (esp (regs s)) + 4 \<le> p + n"
    and b: "live s b" and ne: "b \<noteq> j" and u: "same_but_waits s u" and s': "s' = switch_process (proc_PID (proc_table s ! b)) u"
    and S': "sched_inv s'" "running s' = Some b" "live s' = live s"
  shows "multi_ok S P N s'" "machines_step (machines_of S s) (machines_of S s')"
proof -
  note D = multi_okD [OF M] and jl = running_live [OF j(1)]
  note h = hand_over_switch [OF D(3) j(1) b ne u s']
  define E where "E = unat (esp (regs s))"
  have E: "unat (esp (regs s)) = E" "40 \<le> E" "E + 4 < 2 ^ 32" "p + 40 \<le> E" "E + 4 \<le> p + n"
    using e multi_okD(9) [OF M jl] j(2) by (simp_all add: E_def)
  note sf = saved_frame(1,2) [OF E(1-3), of "mem s", folded h(1)] saved_frame(3) [OF E(1-3)]
  have m: "same_on (- {fst (S j)..<fst (S j) + snd (S j)}) (mem s) (mem s')"
    by (rule same_on_subset [OF sf(1)]) (use E(4,5) j(2) in auto)
  have rn: "running s \<noteq> Some b" "running s' \<noteq> Some j" using ne j(1) S'(2) by simp_all
  have rb: "regs s' = virtual_cpu s b"
    unfolding h(2) h(1) [symmetric] by (rule parked_kept(1) [OF M b rn(1) other_stack [OF M b jl _ m]]) (use ne in simp)
  have vj: "virtual_cpu s' j = (regs s)\<lparr>esp := esp (regs s) + 4, eip := rd32 (mem s) (esp (regs s))\<rparr>"
    unfolding virtual_cpu_def if_not_P [OF rn(2)] h(1,3)
    by (rule restore_saved [OF E(1,2) _ _ same_on_refl]) (use E(3) in simp_all)
  have o: "stack_ok S s' j" using sf(2,3) E(2,4,5) j(2) rn(2) by (simp add: stack_ok_def h(3))
  note st = step_ok [OF M j(1) m h(4) S'(2) rb b S'(3) h(5,6) S'(1) o]
  note vs = returned_stack [where s' = s' and S = S and j = j and x = "rd32 (mem s) (esp (regs s))",
      OF j E(1,5) multi_okD(9) [OF M jl, unfolded j(2) fst_conv snd_conv] vj]
  have low: "same_on (- {..<E}) (mem s) (mem s')" by (rule same_on_subset [OF sf(1)]) auto
  have "machines_step (j, snd (machines_of S s)) (b, (snd (machines_of S s))(j \<mapsto> (virtual_cpu s' j, virtual_stack S s' j)))"
    unfolding vj vs(1) [OF low] vs(3) [symmetric]
    by (rule machines_step.hand_over) (use machines_running [OF j(1), of S] j(1) b ne vs(2) in \<open>simp_all add: virtual_cpu_def machines_of_def\<close>)
  then show "multi_ok S P N s'" "machines_step (machines_of S s) (machines_of S s')"
    using st machines_running [OF j(1), of S] by simp_all
qed

lemma schedule_ok:
  fixes s :: "'a kernel_state_scheme"
  assumes M: "multi_ok S P N s" and j: "running s = Some j" "S j = (p, n)"
    and e: "p + 40 \<le> unat (esp (regs s))" "unat (esp (regs s)) + 4 \<le> p + n"
  defines "s' \<equiv> switch_process_from_queue s"
  shows "multi_ok S P N s'" "machines_step (machines_of S s) (machines_of S s')"
proof -
  note D = multi_okD [OF M] and jl = running_live [OF j(1)]
  have j8: "j < MAX_PROCESS" using jl by (simp add: live_def)
  obtain b u where b: "live s b" and u: "same_but_waits s u" and S': "sched_inv s'" "running s' = Some b" "live s' = live s"
    and run: "s' = (if b = j then u else switch_process (proc_PID (proc_table s ! b)) u)"
    unfolding s'_def by (rule scheduler_call [OF D(2) j(1)])
  note uf = same_but_waits_fields [OF u] and ul = same_but_waits_live [OF u D(4)]
  obtain T where uT: "u = s\<lparr>proc_table := T\<rparr>" using u by (auto simp: same_but_waits_def)
  have ctx: "proc_context (proc_table u ! k) = proc_context (proc_table s ! k)" if "k < MAX_PROCESS" for k
    using u that D(4) by (simp add: same_but_waits_def)
  have "multi_ok S P N s' \<and> machines_step (machines_of S s) (machines_of S s')"
  proof (cases "b = j")
    case True
    then have s': "s' = u" using run by simp
    have E: "get_ESP (Some k) s' = get_ESP (Some k) s" if "live s k" for k
      using that ctx [of k] by (simp add: get_ESP_def s' live_def)
    have o: "stack_ok S s' j" using D(7) [OF jl] S'(2) j(1) True uf by (simp add: stack_ok_def s')
    have v: "virtual_cpu s' j = virtual_cpu s j" "virtual_stack S s' j = virtual_stack S s j"
      using S'(2) j(1) True uf by (simp_all add: virtual_cpu_def virtual_stack_def s')
    have g: "free_list s' = free_list s" "current_brk s' = current_brk s" by (simp_all add: s' uT)
    have "multi_ok S P N s'" "machines_of S s' = (b, (snd (machines_of S s))(j \<mapsto> (virtual_cpu s' j, virtual_stack S s' j)))"
      using step_ok [OF M j(1) _ E S'(2) _ b S'(3) g S'(1) o] True by (simp_all add: s' uf)
    moreover from this(2) have "machines_of S s' = machines_of S s"
      using machines_running [OF j(1), of S] True by (simp add: v fun_upd_idem)
    ultimately show ?thesis using machines_step.go_on [of j "snd (machines_of S s)"] machines_running [OF j(1), of S] by simp
  next
    case False
    then have "s' = switch_process (proc_PID (proc_table s ! b)) u" using run by simp
    from hand_over_ok [OF M j e b False u this S'] show ?thesis by simp
  qed
  then show "multi_ok S P N s'" "machines_step (machines_of S s) (machines_of S s')" by simp_all
qed

subsection \<open>The first switch\<close>

text \<open>
  At the first timer interrupt no process is active: \<open>switch_process\<close> works on the null pointer and
  writes two words of what \<open>process_struct\<close> would be at address 0, and the frame is left on the
  stack of \<open>kernel_main\<close>.
\<close>

lemma first_switch:
  fixes s :: "'a proc_state_scheme"
  assumes len: "length (proc_table s) = MAX_PROCESS" and j: "get_process (active_pid s) s = None"
    and i: "get_process PID s = Some i" and E: "unat (esp (regs s)) = E" "40 \<le> E" "E + 4 < 2 ^ 32"
  defines "s' \<equiv> switch_process PID s"
  shows "same_on (- ({..<28} \<union> {E - 40..<E})) (mem s) (mem s')"
    and "\<exists>c. regs s' = restore_context (get_ESP (Some i) s) (mem s') c"
    and "\<And>k. k < MAX_PROCESS \<Longrightarrow> proc_context (proc_table s' ! k) = proc_context (proc_table s ! k)"
    and "\<exists>T. s' = s\<lparr>proc_table := T, active_pid := PID, regs := regs s', mem := mem s'\<rparr>"
proof -
  have i8: "i < length (proc_table s)" using get_process_Some [OF i] len by (simp add: live_def)
  define s1 where "s1 = (if is_active None s then set_status None WAITING s else s)"
  define t where "t = (set_status (Some i) ACTIVE s1)\<lparr>active_pid := PID\<rparr>"
  have s1: "s1 = s\<lparr>mem := mem s1\<rparr>" "same_on (- {16..<20}) (mem s) (mem s1)"
  proof -
    have "same_on (- {16..<16 + 4}) (mem s) (wr32 (mem s) (W 16) v)" for v by (rule same_on_wr32) auto
    then show "s1 = s\<lparr>mem := mem s1\<rparr>" "same_on (- {16..<20}) (mem s) (mem s1)" by (simp_all add: s1_def set_status_def)
  qed
  let ?T = "(proc_table s)[i := (proc_table s ! i)\<lparr>status := ACTIVE\<rparr>]"
  have t: "t = s\<lparr>proc_table := ?T, active_pid := PID, mem := mem s1\<rparr>"
    unfolding t_def by (subst s1(1)) (simp add: set_status_def upd_slot_def)
  have s': "s' = context_switch None (Some i) t" using i j by (simp add: s'_def switch_process_def t_def s1_def Let_def)
  define m where "m = snd (save_context (regs s, mem s1))"
  have cs: "save_context (regs t, mem t) = (fst (save_context (regs s, mem s1)), m)" by (simp add: t m_def)
  have e: "get_ESP (Some i) (t\<lparr>mem := x\<rparr>) = get_ESP (Some i) s" for x using i8 by (simp add: t get_ESP_def)
  let ?m = "wr32 m 0 (esp (regs s) - 40)" and ?c = "fst (save_context (regs s, mem s1))"
  have r: "s' = t\<lparr>mem := ?m, regs := restore_context (get_ESP (Some i) s) ?m ?c\<rparr>"
    unfolding s' context_switch_def cs Let_def prod.case by (simp add: set_ESP_def e) (simp add: save_context_eq)
  have m': "mem s' = ?m" by (subst r) simp
  show "\<exists>c. regs s' = restore_context (get_ESP (Some i) s) (mem s') c" unfolding m' by (subst r) (auto intro: exI [of _ ?c])
  have p: "proc_table s' = ?T" by (subst r) (simp add: t)
  then show "proc_context (proc_table s' ! k) = proc_context (proc_table s ! k)" if "k < MAX_PROCESS" for k
    using that i8 by (simp add: nth_list_update)
  show "\<exists>T. s' = s\<lparr>proc_table := T, active_pid := PID, regs := regs s', mem := mem s'\<rparr>"
    by (intro exI [of _ ?T]) (subst (1) r, simp add: t m', subst r, simp)
  let ?A = "- ({..<28} \<union> {E - 40..<E})"
  have "same_on ?A (mem s) (mem s1)" by (rule same_on_subset [OF s1(2)]) auto
  also have "same_on ?A (mem s1) m" unfolding m_def by (rule same_on_subset [OF saved_frame(1) [OF E]]) auto
  also have "same_on ?A m ?m"
  proof -
    have "?A \<inter> {0..<0 + 4} = {}" by auto
    from same_on_wr32 [OF _ this, of m] show ?thesis by simp
  qed
  finally show "same_on ?A (mem s) (mem s')" by (simp only: m')
qed

text \<open>A process that \<open>init_process\<close> has prepared and that has not run yet.\<close>

definition starts_at :: "'a proc_state_scheme \<Rightarrow> nat \<Rightarrow> u32 \<Rightarrow> cpu \<times> u8 list \<Rightarrow> bool" where
  "starts_at s i e = (\<lambda>(c, xs). eip c = e \<and> eflags c = 0x202 \<and> length xs = 12 \<and> top_word xs = kill_process_addr s \<and>
     top_word (drop 4 xs) = switch_from_queue_addr s \<and> top_word (drop 8 xs) = W i)"

lemma ready_starts:
  fixes s :: "'a kernel_state_scheme"
  assumes r: "ready s i e (p + c - 4)" and c: "500 \<le> c" "p + c < 2 ^ 32" and S: "S i = (p, c)"
    and v: "running s = Some i \<Longrightarrow> \<exists>d. regs s = restore_context (get_ESP (Some i) s) (mem s) d"
  shows "stack_ok S s i" "starts_at s i e (virtual_cpu s i, virtual_stack S s i)"
proof -
  define T where "T = p + c - 4"
  have T: "52 \<le> T" "T + 4 = p + c" using c by (simp_all add: T_def)
  have E: "get_ESP (Some i) s = W T - 52" and rd: "\<And>k. k < 14 \<Longrightarrow> rd32 (mem s) (W (T - 4 * k)) =
      init_stack_words (W i) (switch_from_queue_addr s) (kill_process_addr s) e (W T) ! k"
    using r by (simp_all add: ready_def get_ESP_def T_def)
  note w = restore_new_words [OF T(1) rd]
  obtain d where d: "virtual_cpu s i = restore_context (W T - 52) (mem s) d"
    using v E by (cases "running s = Some i") (auto simp: virtual_cpu_def)
  have a: "W T - 8 = W (T - 8)" "W T - 52 = W (T - 52)" using T(1) by (simp_all add: of_nat_diff)
  have u: "unat (W T - 8 :: u32) = T - 8" "unat (W T - 52 :: u32) = T - 52"
    using unat_of_nat_u32 [of "T - 8"] unat_of_nat_u32 [of "T - 52"] T(2) c(2) unfolding a by simp_all
  show "stack_ok S s i"
  proof (cases "running s = Some i")
    case True
    then have "esp (regs s) = W T - 8" using d w(2) [of d] by (simp add: virtual_cpu_def)
    then show ?thesis using True S T u c(1) by (simp add: stack_ok_def) arith
  next
    case False
    then show ?thesis using S T u c w(7) by (simp add: stack_ok_def E parked_def) arith
  qed
  have q: "virtual_stack S s i = rd_bytes (mem s) (W T - 8) 12"
    using S T(1) by (simp add: virtual_stack_def d w(2) Let_def u flip: T(2))
  have "top_word (rd_bytes (mem s) (W T - 8) 12) = kill_process_addr s" by (subst top_word) (simp_all add: w)
  moreover have "top_word (drop 4 (rd_bytes (mem s) (W T - 8) 12)) = switch_from_queue_addr s"
    unfolding drop_rd_bytes by (subst top_word) (use w(5) in simp_all)
  moreover have "top_word (drop 8 (rd_bytes (mem s) (W T - 8) 12)) = W i"
    unfolding drop_rd_bytes by (subst top_word) (use w(6) in simp_all)
  ultimately show "starts_at s i e (virtual_cpu s i, virtual_stack S s i)"
    unfolding q by (simp add: starts_at_def d w)
qed

lemma no_process_active:
  assumes S: "spawned es s"
  shows "get_process (active_pid s) s = None"
    and "i < length es \<Longrightarrow> proc_PID (proc_table s ! i) \<noteq> active_pid s"
proof -
  have l8: "length es \<le> 8" "active_pid s = - 1" using S by (simp_all add: spawned_def)
  have small: "W i \<noteq> (- 1 :: u32)" if "i < length es" for i
  proof -
    have "unat (W i :: u32) = i" using that l8(1) unat_of_nat_u32 [of i] by simp
    moreover have "unat (- 1 :: u32) = 2 ^ 32 - 1" by (simp add: unsigned_minus_1_eq_mask mask_eq_exp_minus_1)
    ultimately show ?thesis using that l8(1) by fastforce
  qed
  show "get_process (active_pid s) s = None"
    unfolding l8(2) get_process_None spawned_live(2) [OF S] using small by force
  show "i < length es \<Longrightarrow> proc_PID (proc_table s ! i) \<noteq> active_pid s" using S l8 small by (simp add: spawned_def)
qed

text \<open>The first timer interrupt dispatches one of the processes and leaves files and stacks alone.\<close>

lemma first_tick:
  fixes s :: "'a kernel_state_scheme"
  assumes S: "spawned es s" "es \<noteq> []" and R: "fs_rel s P N" and O: "own_stacks es s P N"
    and low: "{..<28} \<subseteq> low_bytes s" and E: "unat (esp (regs s)) = E" "40 \<le> E" "{E - 40..<E} \<subseteq> low_bytes s"
  defines "s' \<equiv> switch_process_from_queue s"
  obtains b d where "sched_inv s'" "running s' = Some b" "live s' = live s" "fs_rel s' P N" "own_stacks es s' P N"
    "regs s' = restore_context (get_ESP (Some b) s') (mem s') d"
    "switch_from_queue_addr s' = switch_from_queue_addr s" "kill_process_addr s' = kill_process_addr s"
proof -
  have I: "sched_inv s" by (rule spawned_scheduler(1) [OF S])
  then have PI: "proc_inv s" by (simp add: sched_inv_def)
  note len = proc_invD(1) [OF PI]
  obtain b u where b: "live s b" "same_but_waits s u" "sched_inv s'" "running s' = Some b" "live s' = live s"
    "s' = (if proc_PID (proc_table s ! b) = active_pid s then u else switch_process (proc_PID (proc_table s ! b)) u)"
    unfolding s'_def by (rule scheduler_pick [OF I])
  have bl: "b < length es" "b < MAX_PROCESS" using b(1) spawned_live(1) [OF S(1), of b] by (simp_all add: live_def)
  have s': "s' = switch_process (proc_PID (proc_table s ! b)) u" using b(6) no_process_active(2) [OF S(1) bl(1)] by simp
  note uf = same_but_waits_fields [OF b(2)] and ul = same_but_waits_live [OF b(2) len]
  have none: "get_process (active_pid u) u = None" unfolding ul(2) uf(1) by (rule no_process_active(1) [OF S(1)])
  have gb: "get_process (proc_PID (proc_table s ! b)) u = Some b" unfolding ul(2) by (rule get_process_live [OF PI b(1) refl])
  have "E - 1 \<in> low_bytes s" using E(2,3) by auto
  then have E4: "E + 4 < 2 ^ 32" by (auto simp: low_bytes_def heap_base_def)
  have lu: "length (proc_table u) = MAX_PROCESS" using uf(5) len by simp
  have Eu: "unat (esp (regs u)) = E" using E(1) uf(3) by simp
  note f = first_switch [OF lu none gb Eu E(2) E4, folded s', unfolded uf]
  obtain T where uT: "u = s\<lparr>proc_table := T\<rparr>" using b(2) by (auto simp: same_but_waits_def)
  obtain T' pid where T': "s' = u\<lparr>proc_table := T', active_pid := pid, regs := regs s', mem := mem s'\<rparr>" using f(4) by blast
  have g: "free_list s' = free_list s" "current_brk s' = current_brk s"
    "switch_from_queue_addr s' = switch_from_queue_addr s" "kill_process_addr s' = kill_process_addr s"
    by (subst T', simp add: uT)+
  have ctx: "proc_context (proc_table s' ! k) = proc_context (proc_table s ! k)" if "k < MAX_PROCESS" for k
    using f(3) [OF that] b(2) that len by (simp add: same_but_waits_def)
  let ?B = "{..<28} \<union> {E - 40..<E}"
  have "?B \<subseteq> low_bytes s" using low E(3) by simp
  then have B: "?B \<subseteq> heap_stable s P" "?B \<inter> extent P A = {}" for A using low_stable low_apart [OF R] by blast+
  have "fs_rel (s\<lparr>mem := mem s'\<rparr>) P N" by (rule fs_put_outside [OF R f(1) B])
  then have R': "fs_rel s' P N" by (rule fs_rel_same) (simp_all add: g)
  have "extent P (snd ` set es) \<subseteq> - ?B" using B(2) [of "snd ` set es"] by blast
  from own_stacks_kept [OF O R refl same_on_subset [OF f(1) this]] have "own_stacks es s' P N"
    using ctx S(1) g by (simp add: spawned_def)
  moreover have "get_ESP (Some b) s' = get_ESP (Some b) u" using f(3) [OF bl(2)] by (simp add: get_ESP_def)
  ultimately show thesis using that b(3-5) R' f(2) g(3,4) by auto
qed

lemma first_tick_ok:
  fixes s :: "'a kernel_state_scheme"
  assumes S: "spawned es s" "es \<noteq> []" "distinct (map snd es)" and A: "fs_rel s P N" "own_stacks es s P N"
    "{..<28} \<subseteq> low_bytes s" "unat (esp (regs s)) = E" "40 \<le> E" "{E - 40..<E} \<subseteq> low_bytes s"
  defines "s' \<equiv> switch_process_from_queue s" and "K \<equiv> \<lambda>i. (snd (es ! i), the (P (snd (es ! i))))"
  shows "multi_ok K P N s'" "live s' i \<longleftrightarrow> i < length es"
    and "\<And>i. i < length es \<Longrightarrow> 500 \<le> snd (K i) \<and> (\<exists>cx. snd (machines_of K s') i = Some cx \<and> starts_at s i (fst (es ! i)) cx)"
proof -
  obtain b d where b: "sched_inv s'" "running s' = Some b" "live s' = live s" "fs_rel s' P N" "own_stacks es s' P N"
    "regs s' = restore_context (get_ESP (Some b) s') (mem s') d"
    "switch_from_queue_addr s' = switch_from_queue_addr s" "kill_process_addr s' = kill_process_addr s"
    unfolding s'_def by (rule first_tick [OF S(1,2) A])
  have st: "500 \<le> snd (K i) \<and> P (fst (K i)) = Some (snd (K i)) \<and> fst (K i) \<notin> owned foot N \<and> stack_ok K s' i \<and>
      starts_at s' i (fst (es ! i)) (virtual_cpu s' i, virtual_stack K s' i)" if i: "i < length es" for i
  proof -
    obtain c where c: "500 \<le> c" "P (snd (es ! i)) = Some c" "snd (es ! i) \<notin> owned foot N"
      "ready s' i (fst (es ! i)) (snd (es ! i) + c - 4)" using b(5) i unfolding own_stacks_def by blast
    have K: "K i = (snd (es ! i), c)" by (simp add: K_def c(2))
    have v: "\<exists>d. regs s' = restore_context (get_ESP (Some i) s') (mem s') d" if "running s' = Some i"
      using b(2,6) that by auto
    show ?thesis using ready_starts [where S = K and i = i, OF c(4,1) object_below_end [OF A(1) c(2)] K v] c(1-3) by (simp add: K)
  qed
  show L: "live s' i \<longleftrightarrow> i < length es" for i using spawned_live(1) [OF S(1)] b(3) by simp
  have "inj_on (fst \<circ> K) {i. live s' i}"
    using S(3) by (auto simp: inj_on_def K_def L distinct_conv_nth)
  then show "multi_ok K P N s'" using b(1,2,4) st by (simp add: multi_ok_def L)
  show "500 \<le> snd (K i) \<and> (\<exists>cx. snd (machines_of K s') i = Some cx \<and> starts_at s i (fst (es ! i)) cx)" if "i < length es" for i
    using st [OF that] that by (simp add: machines_of_def L starts_at_def b(7,8))
qed

subsection \<open>From the boot to the first process\<close>

definition started :: "link_map \<Rightarrow> 'a proc_state_scheme \<Rightarrow> stacks \<Rightarrow> machines \<Rightarrow> bool" where
  "started l s S M \<longleftrightarrow> (\<forall>i<4. 500 \<le> snd (S i) \<and> (\<exists>cx. snd M i = Some cx \<and>
     starts_at s i ([terminal_backstop_addr l, sample2_addr l, sample3_addr l, test_jump_addr l] ! i) cx))"

text \<open>
  The code of \<open>kernel_main\<close> runs on the boot stack from \<open>lo\<close> to \<open>hi\<close> until the first timer interrupt.
\<close>

lemma boot_multi_ok:
  fixes s :: "'a kernel_state_scheme"
  assumes A: "spawned [] s" "length (IDT s) = 256" "unat (free_list s) + 128 \<le> heap_base"
    "{b..<b + 80} \<subseteq> low_bytes s" "fills_root init_mnt"
    and low: "{..<28} \<subseteq> low_bytes s" "{lo..<hi} \<subseteq> low_bytes s"
  obtains s' S P N root where "kernel_main l init_mnt loc (W b) s = Some s'" "system_root s' = W root" "tree_ok N" "is_dir N root"
    "\<forall>r m t. lo + 40 \<le> unat (esp r) \<and> unat (esp r) \<le> hi \<and> same_on (- {lo..<hi}) (mem s') m \<and>
       t = handle_clock_interrupt (s'\<lparr>regs := r, mem := m\<rparr>) \<longrightarrow>
       multi_ok S P N t \<and> (\<forall>i. live t i \<longrightarrow> i < 4) \<and> started l s' S (machines_of S t)"
proof -
  obtain s' root P N es p1 p2 p3 p4 and t :: "'a kernel_state_scheme" where k: "kernel_main l init_mnt loc (W b) s = Some s'" "IF s'" "length (IDT t) = 256"
    "IDT s' = IDT (init_idt l t)" "current_dir s' = W root" "system_root s' = W root" "fs_rel s' P N" "tree_ok N" "is_dir N root"
    "open_table es s'" "length es = 4"
    "spawned [(terminal_backstop_addr l, p1), (sample2_addr l, p2), (sample3_addr l, p3), (test_jump_addr l, p4)] s'"
    "distinct [p1, p2, p3, p4]" "own_stacks [(terminal_backstop_addr l, p1), (sample2_addr l, p2), (sample3_addr l, p3), (test_jump_addr l, p4)] s' P N"
    "low_bytes s' = low_bytes s"
    by (rule kernel_main_spec [OF A])
  let ?es = "[(terminal_backstop_addr l, p1), (sample2_addr l, p2), (sample3_addr l, p3), (test_jump_addr l, p4)]"
  let ?K = "\<lambda>i. (snd (?es ! i), the (P (snd (?es ! i))))"
  show thesis
  proof (rule that [OF k(1,6,8,9)], intro allI impI)
    fix r m u assume "lo + 40 \<le> unat (esp r) \<and> unat (esp r) \<le> hi \<and> same_on (- {lo..<hi}) (mem s') m \<and>
       u = handle_clock_interrupt (s'\<lparr>regs := r, mem := m\<rparr>)"
    then have e: "lo + 40 \<le> unat (esp r)" "unat (esp r) \<le> hi" and m: "same_on (- {lo..<hi}) (mem s') m"
      and u: "u = handle_clock_interrupt (s'\<lparr>regs := r, mem := m\<rparr>)" by simp_all
    let ?t = "ioport_out PIC1_COMMAND_PORT 0x20 (s'\<lparr>regs := r, mem := m\<rparr>)"
    have t: "regs ?t = r" "mem ?t = m" "proc_table ?t = proc_table s'" "next_pid ?t = next_pid s'" "active_pid ?t = active_pid s'"
      "free_list ?t = free_list s'" "current_brk ?t = current_brk s'"
      "switch_from_queue_addr ?t = switch_from_queue_addr s'" "kill_process_addr ?t = kill_process_addr s'"
      by (simp_all add: ioport_out_def)
    have L: "low_bytes ?t = low_bytes s" using k(15) by (simp add: low_bytes_def t)
    have B: "{lo..<hi} \<subseteq> heap_stable s' P" "{lo..<hi} \<inter> extent P X = {}" for X
      using low(2) k(15) low_stable [of s' P] low_apart [OF k(7)] by blast+
    have "fs_rel (s'\<lparr>mem := m\<rparr>) P N" by (rule fs_put_outside [OF k(7) m B])
    then have R: "fs_rel ?t P N" by (rule fs_rel_same) (simp_all add: t)
    have S: "spawned ?es ?t" by (rule spawned_cong [OF k(12)]) (simp_all add: t)
    have "extent P (snd ` set ?es) \<subseteq> - {lo..<hi}" using B(2) [of "snd ` set ?es"] by blast
    then have "same_on (extent P (snd ` set ?es)) (mem s') (mem ?t)" unfolding t by (rule same_on_subset [OF m])
    then have O: "own_stacks ?es ?t P N" by (rule own_stacks_kept [OF k(14,7) refl]) (simp_all add: t)
    have "{unat (esp r) - 40..<unat (esp r)} \<subseteq> {lo..<hi}" using e by auto
    then have E: "40 \<le> unat (esp r)" "{unat (esp r) - 40..<unat (esp r)} \<subseteq> low_bytes ?t" using e(1) low(2) unfolding L by auto
    have d: "distinct (map snd ?es)" using k(13) by simp
    note F = first_tick_ok [OF S _ d R O _ _ _ E(2), unfolded t L]
    have "multi_ok ?K P N u" unfolding u handle_clock_interrupt_def by (rule F(1)) (use low(1) E(1) in simp_all)
    moreover have "live u i \<longrightarrow> i < 4" for i
      unfolding u handle_clock_interrupt_def using F(2) [of i] low(1) E(1) by simp
    moreover have "500 \<le> snd (?K i) \<and> (\<exists>cx. snd (machines_of ?K u) i = Some cx \<and>
        starts_at s' i ([terminal_backstop_addr l, sample2_addr l, sample3_addr l, test_jump_addr l] ! i) cx)" if "i < 4" for i
    proof -
      have "500 \<le> snd (?K i) \<and> (\<exists>cx. snd (machines_of ?K u) i = Some cx \<and> starts_at ?t i (fst (?es ! i)) cx)"
        unfolding u handle_clock_interrupt_def by (rule F(3)) (use low(1) E(1) that in simp_all)
      moreover have "fst (?es ! i) = [terminal_backstop_addr l, sample2_addr l, sample3_addr l, test_jump_addr l] ! i"
        using that by (auto simp: numeral_eq_Suc less_Suc_eq)
      ultimately show ?thesis by (simp add: starts_at_def t)
    qed
    ultimately show "multi_ok ?K P N u \<and> (\<forall>i. live u i \<longrightarrow> i < 4) \<and> started l s' ?K (machines_of ?K u)"
      unfolding started_def by blast
  qed
qed

text \<open>Every step of the kernel is a step of the abstract machine.\<close>

lemma machine_step_ok:
  fixes s s' :: "'a kernel_state_scheme"
  assumes M: "multi_ok S P N s" and T: "tree_ok N" "is_dir N root" and st: "machine_step root S s s'"
  obtains P' N' where "multi_ok S P' N' s'" "tree_ok N'" "is_dir N' root" "system_step (machines_of S s, N) (machines_of S s', N')"
  using st
proof cases
  case (tick j p n)
  let ?t = "ioport_out PIC1_COMMAND_PORT 0x20 s"
  have f: "running ?t = running s" "machines_of S ?t = machines_of S s" "regs ?t = regs s" "multi_ok S P N ?t"
    using multi_ok_same [of ?t s] M by (simp_all add: ioport_out_def)
  note q = schedule_ok [OF f(4) tick(2) [folded f(1)] tick(3-5) [folded f(3)]]
  then have "multi_ok S P N s'" "machines_step (machines_of S s) (machines_of S s')"
    using tick(1) by (simp_all add: handle_clock_interrupt_def f(2))
  then show thesis using that T system_step.process by blast
next
  case (run j p n)
  from run_ok [OF M run] show thesis using that T system_step.process by blast
next
  case (file_command j)
  obtain P' N' where c: "multi_ok S P' N' s'" "tree_step N N'" "machines_of S s' = machines_of S s"
    by (rule command_ok [OF M T file_command(2)])
  with that tree_step_ok [OF c(2) T] system_step.command [OF c(2)] show thesis by metis
qed

text \<open>The tree of files and the machines that the kernel's state implements.\<close>

definition holds_system :: "nat \<Rightarrow> stacks \<Rightarrow> 'a kernel_state_scheme \<Rightarrow> machines \<times> (nat \<rightharpoonup> node) \<Rightarrow> bool" where
  "holds_system root S s x \<longleftrightarrow> (\<exists>P. multi_ok S P (snd x) s) \<and> tree_ok (snd x) \<and> is_dir (snd x) root \<and> fst x = machines_of S s"

interpretation machine: simulation "machine_step root S" system_step "holds_system root S" for root S
proof
  show "\<exists>y. holds_system root S t y \<and> system_step x y"
    if st: "machine_step root S s t" and h: "holds_system root S s x" for s t :: "'a kernel_state_scheme" and x
  proof -
    obtain P N where x: "multi_ok S P N s" "tree_ok N" "is_dir N root" "x = (machines_of S s, N)"
      using h by (cases x) (auto simp: holds_system_def)
    obtain P' N' where "multi_ok S P' N' t" "tree_ok N'" "is_dir N' root" "system_step (machines_of S s, N) (machines_of S t, N')"
      by (rule machine_step_ok [OF x(1-3) st])
    then show ?thesis unfolding x(4) by (intro exI [of _ "(machines_of S t, N')"]) (auto simp: holds_system_def)
  qed
qed

subsection \<open>The properties\<close>

text \<open>
  C4: The kernel gives every process a processor and a stack of its own, beside a tree of files.
  Whatever the processes execute on their stacks and the screen, whenever the timer interrupts
  them and whichever file commands run in between, each step is a step of the system in which
  registers and stack of a process change by its own execution only, and the files by commands
  only: a process that is switched out keeps both until it is dispatched again and goes on by
  returning from the call of the scheduler, and no command's allocation takes its stack.
\<close>

theorem processes_isolated:
  assumes "multi_ok S P N s" "tree_ok N" "is_dir N root" "(machine_step root S)\<^sup>*\<^sup>* s s'"
  shows "\<exists>P' N'. multi_ok S P' N' s' \<and> tree_ok N' \<and> is_dir N' root \<and>
    system_step\<^sup>*\<^sup>* (machines_of S s, N) (machines_of S s', N')"
proof -
  have "holds_system root S s (machines_of S s, N)" using assms(1-3) by (auto simp: holds_system_def)
  from machine.runs [OF assms(4) this] show ?thesis unfolding holds_system_def by (metis prod.collapse)
qed

text \<open>A state of four processes: the boot of the example kernel and one timer interrupt.\<close>

lemma loaded_low: "b + n \<le> 0x100000 \<Longrightarrow> {b..<b + n} \<subseteq> low_bytes loaded_kernel"
  by (auto simp: low_bytes_def heap_base_def loaded_kernel_def reset_kernel_def boot_kernel_def)

lemma loaded_boots:
  "spawned [] loaded_kernel" "length (IDT loaded_kernel) = 256" "unat (free_list loaded_kernel) + 128 \<le> heap_base"
  by (simp_all add: spawned_def loaded_kernel_def reset_kernel_def boot_kernel_def slot_of_def heap_base_def)

lemma processes_isolated_witness:
  "\<exists>S P N root (t :: kernel_state) t' j N'. multi_ok S P N t \<and> running t = Some j \<and> machine_step root S t t' \<and>
     system_step\<^sup>*\<^sup>* (machines_of S t, N) (machines_of S t', N')"
proof -
  have low: "{0x1000..<0x1000 + 80} \<subseteq> low_bytes loaded_kernel" "{..<28} \<subseteq> low_bytes loaded_kernel" "{0x2000..<0x3000} \<subseteq> low_bytes loaded_kernel"
    using loaded_low [of "0x1000" 80] loaded_low [of 0 28] loaded_low [of "0x2000" "0x1000"] by (simp_all add: lessThan_atLeast0)
  obtain l :: link_map where True by simp
  obtain s' S P N root where b: "kernel_main l mnt_one 0x3000 (W 0x1000) loaded_kernel = Some s'"
    "system_root s' = W root" "tree_ok N" "is_dir N root"
    "\<forall>r m t. 0x2000 + 40 \<le> unat (esp r) \<and> unat (esp r) \<le> 0x3000 \<and> same_on (- {0x2000..<0x3000}) (mem s') m \<and>
       t = handle_clock_interrupt (s'\<lparr>regs := r, mem := m\<rparr>) \<longrightarrow>
       multi_ok S P N t \<and> (\<forall>i. live t i \<longrightarrow> i < 4) \<and> started l s' S (machines_of S t)"
    by (rule boot_multi_ok [where l = l and loc = "0x3000", OF loaded_boots low(1) mnt_one_fills low(2,3)])
  define t where "t = handle_clock_interrupt (s'\<lparr>regs := (regs s')\<lparr>esp := 0x3000\<rparr>, mem := mem s'\<rparr>)"
  have t: "multi_ok S P N t" "\<And>i. live t i \<Longrightarrow> i < 4" "\<And>i. i < 4 \<Longrightarrow> 500 \<le> snd (S i) \<and> (\<exists>cx. snd (machines_of S t) i = Some cx \<and>
      length (snd cx) = 12)"
    using b(5) [rule_format, of "(regs s')\<lparr>esp := 0x3000\<rparr>" "mem s'" t] by (auto simp: t_def started_def starts_at_def split: prod.splits)
  obtain j where j: "running t = Some j" using t(1) by (auto simp: multi_ok_def)
  obtain p n where S: "S j = (p, n)" by (cases "S j")
  have j4: "j < 4" using t(2) running_live [OF j] by blast
  have "length (virtual_stack S t j) = 12" using t(3) [OF j4] machines_running [OF j, of S] by auto
  then have "p + n - unat (esp (regs t)) = 12" using j S by (simp add: virtual_stack_def virtual_cpu_def Let_def)
  moreover have "500 \<le> n" using t(3) [OF j4] S by simp
  ultimately have "machine_step root S t (handle_clock_interrupt t)" using machine_step.tick [of t j S p n root] j S by simp
  with processes_isolated [OF t(1) b(3,4) r_into_rtranclp, OF this] t(1) j show ?thesis by blast
qed

text \<open>
  C5: The boot ends in four isolated processes. After \<open>kernel_main\<close>, at the first timer interrupt
  with 40 bytes left on the boot stack, each of the four processes has a processor and a stack
  of its own, about to execute its entry point with interrupts enabled, on a stack of three
  words: the addresses of \<open>kill_process\<close> and \<open>switch_process_from_queue\<close>, to which it returns
  when it ends, and its PID.
\<close>

theorem boot_starts_processes:
  fixes s :: "'a kernel_state_scheme"
  assumes "spawned [] s" "length (IDT s) = 256" "unat (free_list s) + 128 \<le> heap_base"
    and "{b..<b + 80} \<subseteq> low_bytes s" "fills_root init_mnt" "{..<28} \<subseteq> low_bytes s" "{lo..<hi} \<subseteq> low_bytes s"
  shows "\<exists>s' S P N root. kernel_main l init_mnt loc (of_nat b) s = Some s' \<and>
    system_root s' = of_nat root \<and> tree_ok N \<and> is_dir N root \<and>
    (\<forall>r m t. lo + 40 \<le> unat (esp r) \<and> unat (esp r) \<le> hi \<and> same_on (- {lo..<hi}) (mem s') m \<and>
       t = handle_clock_interrupt (s'\<lparr>regs := r, mem := m\<rparr>) \<longrightarrow>
       multi_ok S P N t \<and> (\<forall>i. live t i \<longrightarrow> i < 4) \<and> started l s' S (machines_of S t))"
  by (rule boot_multi_ok [OF assms, of l loc]) blast

lemma boot_starts_processes_witness:
  "\<forall>l. \<exists>s' S P N root. kernel_main l mnt_one 0x3000 (of_nat 0x1000) loaded_kernel = Some s' \<and> is_dir N root \<and>
     multi_ok S P N (handle_clock_interrupt (s'\<lparr>regs := (regs s')\<lparr>esp := 0x3000\<rparr>\<rparr>))"
proof
  fix l
  have low: "{0x1000..<0x1000 + 80} \<subseteq> low_bytes loaded_kernel" "{..<28} \<subseteq> low_bytes loaded_kernel" "{0x2000..<0x3000} \<subseteq> low_bytes loaded_kernel"
    using loaded_low [of "0x1000" 80] loaded_low [of 0 28] loaded_low [of "0x2000" "0x1000"] by (simp_all add: lessThan_atLeast0)
  from boot_starts_processes [OF loaded_boots low(1) mnt_one_fills low(2,3), of l "0x3000"] obtain s' S P N root where
    b: "kernel_main l mnt_one 0x3000 (of_nat 0x1000) loaded_kernel = Some s'" "is_dir N root"
    "\<forall>r m t. 0x2000 + 40 \<le> unat (esp r) \<and> unat (esp r) \<le> 0x3000 \<and> same_on (- {0x2000..<0x3000}) (mem s') m \<and>
       t = handle_clock_interrupt (s'\<lparr>regs := r, mem := m\<rparr>) \<longrightarrow>
       multi_ok S P N t \<and> (\<forall>i. live t i \<longrightarrow> i < 4) \<and> started l s' S (machines_of S t)" by blast
  have "multi_ok S P N (handle_clock_interrupt (s'\<lparr>regs := (regs s')\<lparr>esp := 0x3000\<rparr>\<rparr>))"
    using b(3) [rule_format, of "(regs s')\<lparr>esp := 0x3000\<rparr>" "mem s'"] by simp
  with b(1,2) show "\<exists>s' S P N root. kernel_main l mnt_one 0x3000 (of_nat 0x1000) loaded_kernel = Some s' \<and> is_dir N root \<and>
     multi_ok S P N (handle_clock_interrupt (s'\<lparr>regs := (regs s')\<lparr>esp := 0x3000\<rparr>\<rparr>))" by blast
qed

end
