(* ===== verification/Commands.thy ===== *)
theory Commands
  imports FsProps RamfsExec
begin

section \<open>Commands: what touch, rm and mkdir do to a directory's listing (fs/ramfs_executables.c)\<close>

text \<open>
  A directory's listing is the names of its files and of its subdirectories, in order. The
  commands change it as operations on lists of names do; that is proved from the
  specifications of the operations of ramfs.c which the commands call.
\<close>

subsection \<open>Listings\<close>

definition label :: "(nat \<rightharpoonup> node) \<Rightarrow> nat \<Rightarrow> u8 list" where
  "label N x = (case N x of None \<Rightarrow> [] | Some n \<Rightarrow> (case name_of n of None \<Rightarrow> [] | Some nm \<Rightarrow> nm))"

definition listing :: "(nat \<rightharpoonup> node) \<Rightarrow> nat \<Rightarrow> u8 list list \<times> u8 list list" where
  "listing N d = (map (label N) (files N d), map (label N) (subdirs N d))"

lemma called_label: "named N x \<Longrightarrow> called N nm x \<longleftrightarrow> label N x = nm"
  by (auto simp: named_def called_def label_def)

lemma label_eq: "N x = Some n \<Longrightarrow> name_of n = Some nm \<Longrightarrow> label N x = nm"
  by (simp add: label_def)

text \<open>A name's first position in a listing.\<close>

lemma position_of_listed:
  assumes "\<forall>x\<in>set xs. named N x"
  shows "position_of N nm xs = None \<longleftrightarrow> nm \<notin> set (map (label N) xs)"
  using assms by (auto simp: position_of_None called_label)

lemma remove_listed:
  assumes n: "\<forall>x\<in>set xs. named N x" and d: "distinct xs" and p: "position_of N nm xs = Some i"
  shows "map (label N) (remove1 (xs ! i) xs) = remove1 nm (map (label N) xs)"
proof -
  have i: "i < length xs" "called N nm (xs ! i)" using position_of_SomeD [OF p] by simp_all
  have before: "\<not> called N nm (xs ! j)" if "j < i" for j
    using p that by (auto simp: position_of_def find_Some_iff nth_upt)
  have "nm \<notin> set (map (label N) (take i xs))"
  proof
    assume "nm \<in> set (map (label N) (take i xs))"
    then obtain j where j: "j < i" "label N (xs ! j) = nm" using i(1) by (auto simp: in_set_conv_nth)
    then show False using before [OF j(1)] n i(1) called_label [of N "xs ! j" nm] by (simp add: nth_mem)
  qed
  moreover have "label N (xs ! i) = nm" using n i by (simp add: called_label)
  moreover have "map (label N) xs = map (label N) (take i xs) @ label N (xs ! i) # map (label N) (drop (Suc i) xs)"
    by (subst id_take_nth_drop [OF i(1)]) simp
  ultimately show ?thesis by (simp add: remove1_split [OF i(1) d] remove1_append)
qed

text \<open>Listings after the three changes to the tree.\<close>

definition others_listed :: "nat \<Rightarrow> (nat \<rightharpoonup> node) \<Rightarrow> (nat \<rightharpoonup> node) \<Rightarrow> bool" where
  "others_listed d N N' \<longleftrightarrow> is_dir N' d \<and> (\<forall>e. e \<noteq> d \<longrightarrow> is_dir N e \<longrightarrow> is_dir N' e \<and> listing N' e = listing N e)"

lemma labels_kept:
  assumes "f \<notin> set xs" "\<And>x. x \<noteq> f \<Longrightarrow> label N' x = label N x"
  shows "map (label N') xs = map (label N) xs"
  by (rule map_cong [OF refl]) (use assms in metis)

text \<open>One node comes or goes and only \<open>d\<close> lists it.\<close>

lemma listing_change:
  assumes D: "N d = Some (Dir np nm par fa fs da ds)" and f: "f \<noteq> d" "\<not> is_dir N f"
    and out: "\<forall>e. e \<noteq> d \<longrightarrow> f \<notin> set (files N e) \<and> f \<notin> set (subdirs N e)"
    and N': "N' = N(f := v, d \<mapsto> Dir np nm par fa' fs' da' ds')"
  shows "others_listed d N N'" "x \<noteq> f \<Longrightarrow> label N' x = label N x"
    "listing N' d = (map (label N') fs', map (label N') ds')"
proof -
  have l: "label N' x = label N x" if "x \<noteq> f" for x using that D by (simp add: N' label_def)
  then show "x \<noteq> f \<Longrightarrow> label N' x = label N x" .
  have "is_dir N' e \<and> listing N' e = listing N e" if e: "e \<noteq> d" "is_dir N e" for e
  proof -
    have ef: "e \<noteq> f" using e f by auto
    then have "files N' e = files N e" "subdirs N' e = subdirs N e" using e(1) by (simp_all add: N' files_def subdirs_def)
    moreover have "map (label N') (files N e) = map (label N) (files N e)" "map (label N') (subdirs N e) = map (label N) (subdirs N e)"
      using out e(1) labels_kept [where f = f and N' = N', OF _ l] by blast+
    ultimately show ?thesis using e ef by (simp add: listing_def N' is_dir_def)
  qed
  then show "others_listed d N N'" by (simp add: others_listed_def N' is_dir_def)
  show "listing N' d = (map (label N') fs', map (label N') ds')" by (simp add: listing_def N')
qed

lemma listing_add_file:
  assumes T: "tree_ok N" and D: "N d = Some (Dir np nm par fa fs da ds)" and f: "N f = None"
    and N': "N' = N(f \<mapsto> File fnp fnm dp bs, d \<mapsto> Dir np nm par y (fs @ [f]) da ds)"
  shows "listing N' d = (map (label N) fs @ [fnm], map (label N) ds)" "others_listed d N N'"
proof -
  have df: "f \<noteq> d" "\<not> is_dir N f" using D f by (auto simp: is_dir_def)
  note n = not_listed [OF T f]
  note c = listing_change [OF D df _ N']
  show "others_listed d N N'" by (rule c(1)) (use n in simp)
  have "f \<notin> set fs" "f \<notin> set ds" using n [of d] D by simp_all
  then have "map (label N') fs = map (label N) fs" "map (label N') ds = map (label N) ds"
    using labels_kept [where f = f and N = N and N' = N'] c(2) n by blast+
  moreover have "label N' f = fnm" using df by (simp add: N' label_def)
  ultimately show "listing N' d = (map (label N) fs @ [fnm], map (label N) ds)" using c(3) n by simp
qed

lemma listing_add_dir:
  assumes T: "tree_ok N" and D: "N d = Some (Dir np nm par fa fs da ds)" and f: "N f = None"
    and N': "N' = N(f \<mapsto> Dir enp enm d 0 [] 0 [], d \<mapsto> Dir np nm par fa fs y (ds @ [f]))"
  shows "listing N' d = (map (label N) fs, map (label N) ds @ [enm])" "others_listed d N N'"
proof -
  have df: "f \<noteq> d" "\<not> is_dir N f" using D f by (auto simp: is_dir_def)
  note n = not_listed [OF T f]
  note c = listing_change [OF D df _ N']
  show "others_listed d N N'" by (rule c(1)) (use n in simp)
  have "f \<notin> set fs" "f \<notin> set ds" using n [of d] D by simp_all
  then have "map (label N') fs = map (label N) fs" "map (label N') ds = map (label N) ds"
    using labels_kept [where f = f and N = N and N' = N'] c(2) n by blast+
  moreover have "label N' f = enm" using df by (simp add: N' label_def)
  ultimately show "listing N' d = (map (label N) fs, map (label N) ds @ [enm])" using c(3) n by simp
qed

lemma listing_remove:
  assumes T: "tree_ok N" and D: "N d = Some (Dir np nm par fa fs da ds)" and p: "position_of N fnm fs = Some i"
    and N': "N' = N(fs ! i := None, d \<mapsto> Dir np nm par y (remove1 (fs ! i) fs) da ds)"
  shows "listing N' d = (remove1 fnm (map (label N) fs), map (label N) ds)" "others_listed d N N'"
proof -
  let ?f = "fs ! i"
  have F: "files N d = fs" "subdirs N d = ds" using D by simp_all
  have i: "?f \<in> set fs" using position_of_SomeD [OF p] by simp
  then have fn: "file_node N ?f" using tree_okD(2) [OF T, of ?f d] F by simp
  then have df: "?f \<noteq> d" "\<not> is_dir N ?f" using D by (auto simp: file_node_def is_dir_def)
  have sub: "?f \<notin> set (subdirs N e)" for e using tree_okD(3) [OF T, of ?f e] fn by (auto simp: file_node_def dir_in_def)
  have "?f \<notin> set (files N e)" if "e \<noteq> d" for e using tree_okD(4) [OF T that] i F by auto
  with sub have out: "\<forall>e. e \<noteq> d \<longrightarrow> ?f \<notin> set (files N e) \<and> ?f \<notin> set (subdirs N e)" by blast
  note c = listing_change [OF D df out N']
  show "others_listed d N N'" by (rule c(1))
  have dist: "distinct fs" using tree_okD(1) [OF T, of d] F by simp
  have "map (label N') (remove1 ?f fs) = map (label N) (remove1 ?f fs)"
    by (rule labels_kept [where f = ?f]) (use dist c(2) in simp_all)
  moreover have "map (label N') ds = map (label N) ds" by (rule labels_kept [where f = ?f]) (use sub [of d] F c(2) in simp_all)
  moreover have "\<forall>x\<in>set fs. named N x" using tree_named(1) [OF T, of d] F by simp
  ultimately show "listing N' d = (remove1 fnm (map (label N) fs), map (label N) ds)"
    using c(3) remove_listed [OF _ dist p] by simp
qed

subsection \<open>Arguments and messages\<close>

lemma text_at_step:
  assumes "text_at s p (c # bs)"
  shows "text_at s (padd p 1) bs"
proof -
  have c: "cstr (mem s) p (c # bs)" and r: "readable (low_bytes s) p (Suc (Suc (length bs)))" and l: "Suc (length bs) < 32759"
    using assms by (simp_all add: text_at_def)
  have "padd p 1 \<noteq> Mem 0"
  proof (cases p)
    case (Mem a)
    then have "unat a < heap_base" using r by (auto simp: low_bytes_def subset_iff)
    then have "unat (a + 1) = Suc (unat a)" by (simp add: unat_word_ariths heap_base_def)
    then show ?thesis using Mem by (auto simp: unat_eq_zero)
  qed simp
  then show ?thesis using c l readable_step [OF r] by (simp add: text_at_def cstr_Cons)
qed

lemma skip_spaces_text:
  assumes "text_at s p bs"
  obtains q where "skip_spaces (mem s) p = Some q" "text_at s q (dropWhile (\<lambda>c. c = 0x20) bs)"
  using assms
proof (induction bs arbitrary: p thesis)
  case Nil
  then have "ld (mem s) p = 0" by (simp add: text_at_def cstr_Nil)
  then show ?case using Nil by (subst (asm) (1) skip_spaces.simps) (auto intro: Nil.prems(1) simp: skip_spaces.simps)
next
  case (Cons c bs)
  have c: "ld (mem s) p = c" using Cons.prems(2) by (simp add: text_at_def cstr_Cons)
  show ?case
  proof (cases "c = 0x20")
    case True
    from Cons.IH [OF _ text_at_step [OF Cons.prems(2)]] obtain q where
      "skip_spaces (mem s) (padd p 1) = Some q" "text_at s q (dropWhile (\<lambda>c. c = 0x20) bs)" by blast
    then show ?thesis using Cons.prems(1) [of q] c True by (simp add: skip_spaces.simps [of "mem s" p])
  next
    case False
    then show ?thesis using Cons.prems(1) [of p] Cons.prems(2) c by (simp add: skip_spaces.simps [of "mem s" p])
  qed
qed

lemma text_at_term: "term_frame s s' \<Longrightarrow> text_at s' p bs = text_at s p bs"
  by (subst term_frame_state, assumption) (simp add: text_at_def low_bytes_def)

lemma say_text:
  fixes s :: "'a fs_state_scheme"
  assumes t: "text_at s p bs" and a: "0 \<notin> set (bytes_of a)" "length a < 2 ^ 32" and b: "0 \<notin> set (bytes_of b)" "length b < 2 ^ 32"
  obtains s' where "say [lit a, p, lit b] s = Some s'" "term_frame s s'"
proof -
  obtain s1 where 1: "terminal_writestring (lit a) s = Some s1" "term_frame s s1" using writestring_lit [OF a] by blast
  have "cstr (mem s1) p bs" "length bs < 2 ^ 32" using t [folded text_at_term [OF 1(2)]] by (simp_all add: text_at_def)
  from terminal_writestring_cstr [OF this] obtain s2 where 2: "terminal_writestring p s1 = Some s2" by blast
  obtain s3 where 3: "terminal_writestring (lit b) s2 = Some s3" "term_frame s2 s3" using writestring_lit [OF b] by blast
  have "term_frame s s3" using 1(2) term_frame_writestring [OF 2] 3(2) term_frame_trans by blast
  then show thesis using that [of s3] 1(1) 2 3(1) by simp
qed

lemma fs_rel_term: "term_frame s s' \<Longrightarrow> fs_rel s' P N = fs_rel s P N"
  by (subst term_frame_state, assumption) (simp add: fs_rel_def owns_def heap_objects_def heap_rel_def)

subsection \<open>The commands\<close>

datatype command = Touch "u8 list" | Rm "u8 list" | Mkdir "u8 list"

primrec argument :: "command \<Rightarrow> u8 list" where
  "argument (Touch a) = a" | "argument (Rm a) = a" | "argument (Mkdir a) = a"

text \<open>What each does to a listing; \<open>touch\<close> drops leading spaces.\<close>

fun command_spec :: "command \<Rightarrow> u8 list list \<times> u8 list list \<Rightarrow> u8 list list \<times> u8 list list" where
  "command_spec (Touch a) (fs, ds) =
     (let nm = dropWhile (\<lambda>c. c = 0x20) a in (if nm = [] \<or> nm \<in> set fs then fs else fs @ [nm], ds))"
| "command_spec (Rm a) (fs, ds) = (remove1 a fs, ds)"
| "command_spec (Mkdir a) (fs, ds) = (fs, if a \<in> set ds then ds else ds @ [a])"

primrec perform :: "command \<Rightarrow> u32 \<Rightarrow> cptr \<Rightarrow> 'a fs_state_scheme \<Rightarrow> 'a fs_state_scheme option" where
  "perform (Touch a) d p s = ramfs_touch d p s"
| "perform (Rm a) d p s = ramfs_rm d p s"
| "perform (Mkdir a) d p s = ramfs_mkdir d p s"

text \<open>A state in which the command's result is the given listing.\<close>

definition lists_after :: "nat \<Rightarrow> (nat \<rightharpoonup> node) \<Rightarrow> 'a fs_state_scheme \<Rightarrow> u8 list list \<times> u8 list list \<Rightarrow> bool" where
  "lists_after d N s' l \<longleftrightarrow> (\<exists>P' N'. fs_rel s' P' N' \<and> tree_ok N' \<and> listing N' d = l \<and> others_listed d N N')"

lemma lists_after_term: "term_frame s s' \<Longrightarrow> lists_after d N s' l = lists_after d N s l"
  by (simp add: lists_after_def fs_rel_term)

lemma lists_afterI:
  "term_frame s s' \<Longrightarrow> fs_rel s P' N' \<Longrightarrow> tree_ok N' \<Longrightarrow> others_listed d N N' \<Longrightarrow> listing N' d = l \<Longrightarrow> lists_after d N s' l"
  unfolding lists_after_def by (metis fs_rel_term)

lemma lists_after_same: "fs_rel s P N \<Longrightarrow> tree_ok N \<Longrightarrow> is_dir N d \<Longrightarrow> l = listing N d \<Longrightarrow> lists_after d N s l"
  unfolding lists_after_def others_listed_def by blast

lemma dir_listing: "N d = Some (Dir np nm par fa fs da ds) \<Longrightarrow> listing N d = (map (label N) fs, map (label N) ds)"
  by (simp add: listing_def)

lemma rm_listing:
  fixes s :: "'a fs_state_scheme"
  assumes R: "fs_rel s P N" and T: "tree_ok N" and D: "N d = Some (Dir np nm par fa fs da ds)" and t: "text_at s p a"
    and len: "4 * length fs \<le> 32759"
  obtains s' where "ramfs_rm (W d) p s = Some s'" "lists_after d N s' (command_spec (Rm a) (listing N d))"
proof -
  note h = dir_node [OF R D] and n = tree_named(1) [OF T, of d, unfolded files_Dir(1) [where N = N, OF D]]
  note t' = text_atD [OF t]
  have d0: "W d \<noteq> 0" by (rule W_nonzero [OF h(1)]) simp
  have fl: "find_named (mem s) (dir_files (mem s) (W d)) p 0 (unat (file_count (mem s) (W d))) = Some (position_of N a fs)"
    using find_named_array [OF R h(4) t'(1) n] by (simp add: dir_fields [OF fs_relD(2) [OF R D]])
  show thesis
  proof (cases "position_of N a fs")
    case None
    obtain s' where s': "say [lit ''File not found: '', p, lit nl] s = Some s'" "term_frame s s'"
      by (rule say_text [OF t, of "''File not found: ''" nl]) (simp_all add: bytes_of_def)
    have "a \<notin> set (map (label N) fs)" using None position_of_listed [OF n] by simp
    then have "lists_after d N s' (command_spec (Rm a) (listing N d))"
      unfolding lists_after_term [OF s'(2)] by (intro lists_after_same [OF R T]) (simp_all add: is_dir_def D dir_listing [where N = N, OF D] remove1_idem)
    then show thesis using that s'(1) d0 t'(4) fl None by (simp add: ramfs_rm_def)
  next
    case (Some i)
    obtain fnp dp bs y P' s1 where c: "ramfs_delete_file (W d) p s = Some s1"
      "fs_rel s1 P' (N(fs ! i := None, d \<mapsto> Dir np nm par y (remove1 (fs ! i) fs) da ds))"
      "quiet (heap_stable s (P(fnp := None, dp := None, fs ! i := None, d := None, fa := None))) s s1"
      by (rule ramfs_delete_file_spec [OF R T D t'(1,4) Some len])
    let ?N = "N(fs ! i := None, d \<mapsto> Dir np nm par y (remove1 (fs ! i) fs) da ds)"
    have "text_at s1 p a" by (rule text_at_quiet [OF t quiet_tokI [OF c(3)]])
    then obtain s' where s': "say [lit ''Removed file: '', p, lit nl] s1 = Some s'" "term_frame s1 s'"
      by (rule say_text [of _ _ _ "''Removed file: ''" nl]) (simp_all add: bytes_of_def)
    have "tree_ok ?N" by (rule tree_ok_remove_nth [OF T D]) (use position_of_SomeD [OF Some] in simp)
    then have "lists_after d N s' (command_spec (Rm a) (listing N d))"
      by (rule lists_afterI [OF s'(2) c(2) _ listing_remove(2) [OF T D Some refl]])
        (simp only: listing_remove(1) [OF T D Some refl] dir_listing [where N = N, OF D] command_spec.simps)
    then show thesis using that s'(1) d0 t'(4) fl Some c(1) by (simp add: ramfs_rm_def)
  qed
qed

lemma mkdir_listing:
  fixes s :: "'a fs_state_scheme"
  assumes R: "fs_rel s P N" and T: "tree_ok N" and D: "N d = Some (Dir np nm par fa fs da ds)" and t: "text_at s p a"
    and rm: "room 3 s" and len: "4 * Suc (length ds) \<le> 32759"
  obtains s' where "ramfs_mkdir (W d) p s = Some s'" "lists_after d N s' (command_spec (Mkdir a) (listing N d))"
proof -
  note h = dir_node [OF R D] and n = tree_named(2) [OF T, of d, unfolded files_Dir(2) [where N = N, OF D]]
  note t' = text_atD [OF t] and L = dir_listing [where N = N, OF D]
  have d0: "W d \<noteq> 0" by (rule W_nonzero [OF h(1)]) simp
  have fl: "find_named (mem s) (dir_subdirs (mem s) (W d)) p 0 (unat (subdir_count (mem s) (W d))) = Some (position_of N a ds)"
    using find_named_array [OF R h(5) t'(1) n] by (simp add: dir_fields [OF fs_relD(2) [OF R D]])
  show thesis
  proof (cases "position_of N a ds")
    case (Some i)
    obtain s' where s': "say [lit ''Directory already exists: '', p, lit nl] s = Some s'" "term_frame s s'"
      by (rule say_text [OF t, of "''Directory already exists: ''" nl]) (simp_all add: bytes_of_def)
    have "a \<in> set (map (label N) ds)" using Some position_of_listed [OF n, of a] by simp
    then have "lists_after d N s' (command_spec (Mkdir a) (listing N d))"
      unfolding lists_after_term [OF s'(2)] L command_spec.simps by (intro lists_after_same [OF R T]) (simp_all add: is_dir_def D L)
    then show thesis using that s'(1) d0 t'(4) fl Some by (simp add: ramfs_mkdir_def)
  next
    case None
    obtain e enp y P' s1 where c: "ramfs_create_dir (W d) p s = Some (W e, s1)" "N e = None"
      "fs_rel s1 P' (N(e \<mapsto> Dir enp a d 0 [] 0 [], d \<mapsto> Dir np nm par fa fs y (ds @ [e])))"
      "quiet (heap_stable s (P(d := None, da := None))) s s1"
      by (rule ramfs_create_dir_spec [OF R D rm t'(1-4) len])
    let ?N = "N(e \<mapsto> Dir enp a d 0 [] 0 [], d \<mapsto> Dir np nm par fa fs y (ds @ [e]))"
    have e0: "W e \<noteq> 0" using ptr_nonzero [OF c(3), of "Some e"] by (simp add: ptr_def)
    have "text_at s1 p a" by (rule text_at_quiet [OF t quiet_tokI [OF c(4)]])
    then obtain s' where s': "say [lit ''Created directory: '', p, lit nl] s1 = Some s'" "term_frame s1 s'"
      by (rule say_text [of _ _ _ "''Created directory: ''" nl]) (simp_all add: bytes_of_def)
    have "a \<notin> set (map (label N) ds)" using None position_of_listed [OF n] by simp
    then have "lists_after d N s' (command_spec (Mkdir a) (listing N d))"
      by (intro lists_afterI [OF s'(2) c(3) tree_ok_add_dir [OF T D c(2)] listing_add_dir(2) [OF T D c(2) refl]])
        (simp only: listing_add_dir(1) [OF T D c(2) refl] L command_spec.simps if_False)
    then show thesis using that s'(1) d0 e0 t'(4) fl None c(1) by (simp add: ramfs_mkdir_def)
  qed
qed

lemma touch_listing:
  fixes s :: "'a fs_state_scheme"
  assumes R: "fs_rel s P N" and T: "tree_ok N" and D: "N d = Some (Dir np nm par fa fs da ds)" and t: "text_at s p a"
    and rm: "room 4 s" and len: "4 * Suc (length fs) \<le> 32759"
  obtains s' where "ramfs_touch (W d) p s = Some s'" "lists_after d N s' (command_spec (Touch a) (listing N d))"
proof -
  note h = dir_node [OF R D] and n = tree_named(1) [OF T, of d, unfolded files_Dir(1) [where N = N, OF D]]
  note L = dir_listing [where N = N, OF D]
  have d0: "W d \<noteq> 0" by (rule W_nonzero [OF h(1)]) simp
  define b where "b = dropWhile (\<lambda>c. c = 0x20) a"
  obtain q where q: "skip_spaces (mem s) p = Some q" "text_at s q b" using skip_spaces_text [OF t] by (auto simp: b_def)
  note q' = text_atD [OF q(2)]
  have sl: "strlen (mem s) q = Some (W (length b))" by (rule strlen_cstr [OF q'(1)])
  have b0: "W (length b) = 0 \<longleftrightarrow> b = []" using of_nat_u32_eq [of "length b" 0] q'(3) by simp
  have fl: "find_named (mem s) (dir_files (mem s) (W d)) q 0 (unat (file_count (mem s) (W d))) = Some (position_of N b fs)"
    using find_named_array [OF R h(4) q'(1) n] by (simp add: dir_fields [OF fs_relD(2) [OF R D]])
  have same: "lists_after d N s' (command_spec (Touch a) (listing N d))" if "b = [] \<or> b \<in> set (map (label N) fs)" "term_frame s s'" for s'
    unfolding lists_after_term [OF that(2)] L command_spec.simps b_def [symmetric] Let_def
    by (intro lists_after_same [OF R T]) (use that(1) in \<open>auto simp: is_dir_def D L\<close>)
  have go: "ramfs_touch (W d) p s = (if b = [] then terminal_writestring (lit (''Usage: touch <filename>'' @ nl)) s
      else if position_of N b fs \<noteq> None then terminal_writestring (lit (''File already exists'' @ nl)) s
      else do {
        (f, s) \<leftarrow> ramfs_create_file (W d) q (lit []) 1 s;
        if f \<noteq> 0 then say [lit ''Created file: '', q, lit nl] s
        else terminal_writestring (lit (''Failed to create file'' @ nl)) s })"
    using d0 text_atD(4) [OF t] by (simp add: ramfs_touch_def q(1) sl b0 fl del: say.simps)
  consider "b = []" | "b \<noteq> []" "position_of N b fs \<noteq> None" | "b \<noteq> []" "position_of N b fs = None" by blast
  then show thesis
  proof cases
    case 1
    have "0 \<notin> set (bytes_of (''Usage: touch <filename>'' @ nl))" by (simp add: bytes_of_def)
    then obtain s' where "terminal_writestring (lit (''Usage: touch <filename>'' @ nl)) s = Some s'" "term_frame s s'"
      using writestring_lit by fastforce
    then show thesis using that same go 1 by simp
  next
    case 2
    have "0 \<notin> set (bytes_of (''File already exists'' @ nl))" by (simp add: bytes_of_def)
    then obtain s' where s': "terminal_writestring (lit (''File already exists'' @ nl)) s = Some s'" "term_frame s s'"
      using writestring_lit by fastforce
    have "b \<in> set (map (label N) fs)" using 2(2) position_of_listed [OF n, of b] by simp
    then show thesis using that same [OF _ s'(2)] go 2 s'(1) by simp
  next
    case 3
    have dat: "readable (heap_stable s P) (lit []) (length [0 :: u8])" "rd_chars (mem s) (lit []) (length [0 :: u8]) = [0]" "lit [] \<noteq> Mem 0"
      by (simp_all add: lit_def rd_chars_def bytes_of_def)
    have one: "length [0 :: u8] \<le> 32759" by simp
    from R D q' dat len one show thesis
    proof (rule ramfs_create_file_spec)
      fix f fnp dp y P' s1 assume c: "ramfs_create_file (W d) q (lit []) (W (length [0 :: u8])) s = Some (W f, s1)" "N f = None"
        "fs_rel s1 P' (N(f \<mapsto> File fnp b dp [0], d \<mapsto> Dir np nm par y (fs @ [f]) da ds))"
        "quiet (heap_stable s (P(d := None, fa := None))) s s1"
      have f0: "W f \<noteq> 0" using ptr_nonzero [OF c(3), of "Some f"] by (simp add: ptr_def)
      have "text_at s1 q b" by (rule text_at_quiet [OF q(2) quiet_tokI [OF c(4)]])
      then obtain s' where s': "say [lit ''Created file: '', q, lit nl] s1 = Some s'" "term_frame s1 s'"
        by (rule say_text [of _ _ _ "''Created file: ''" nl]) (simp_all add: bytes_of_def)
      have "b \<notin> set (map (label N) fs)" using 3(2) position_of_listed [OF n] by simp
      then have "lists_after d N s' (command_spec (Touch a) (listing N d))"
        using 3(1)
        by (intro lists_afterI [OF s'(2) c(3) tree_ok_add_file [OF T D c(2)] listing_add_file(2) [OF T D c(2) refl]])
          (simp only: listing_add_file(1) [OF T D c(2) refl] L command_spec.simps b_def [symmetric] Let_def simp_thms if_False)
      moreover have "ramfs_touch (W d) p s = Some s'" unfolding go using 3 c(1) f0 s'(1) by (simp del: say.simps)
      ultimately show thesis by (intro that)
    next
      assume "\<not> room 4 s"
      then show thesis using rm by simp
    qed
  qed
qed

subsection \<open>The property\<close>

text \<open>
  C11: The shell's touch, rm and mkdir refine operations on a directory's listing: touch appends
  the name (without leading spaces) unless it is empty or there already, rm removes the first
  file of the name, mkdir appends a subdirectory unless there is one; each returns after its
  message, the listing of no other directory changes, and the tree stays well-formed.
\<close>

theorem commands_update_listing:
  fixes s :: "'a fs_state_scheme"
  assumes "fs_rel s P N" "tree_ok N" "N d = Some (Dir np nm par fa fs da ds)" "text_at s p (argument c)" "room 4 s"
    and "length fs < 8000" "length ds < 8000"
  shows "\<exists>s' P' N'. perform c (of_nat d) p s = Some s' \<and> fs_rel s' P' N' \<and> tree_ok N' \<and>
    listing N' d = command_spec c (listing N d) \<and>
    (\<forall>e. e \<noteq> d \<longrightarrow> is_dir N e \<longrightarrow> is_dir N' e \<and> listing N' e = listing N e)"
proof -
  note a = assms(1-3)
  have len: "4 * length fs \<le> 32759" "4 * Suc (length fs) \<le> 32759" "4 * Suc (length ds) \<le> 32759" "room 3 s"
    using assms(6,7) room_mono [OF assms(5), of 3] by simp_all
  have "\<exists>s'. perform c (W d) p s = Some s' \<and> lists_after d N s' (command_spec c (listing N d))"
  proof (cases c)
    case (Touch arg)
    then have t: "text_at s p arg" using assms(4) by simp
    show ?thesis unfolding Touch perform.simps by (rule touch_listing [OF a t assms(5) len(2)]) blast
  next
    case (Rm arg)
    then have t: "text_at s p arg" using assms(4) by simp
    show ?thesis unfolding Rm perform.simps by (rule rm_listing [OF a t len(1)]) blast
  next
    case (Mkdir arg)
    then have t: "text_at s p arg" using assms(4) by simp
    show ?thesis unfolding Mkdir perform.simps by (rule mkdir_listing [OF a t len(4,3)]) blast
  qed
  then show ?thesis unfolding lists_after_def others_listed_def by blast
qed

lemma commands_update_listing_witness:
  "\<exists>(s :: kernel_state) d s' P' N'. perform (Touch (bytes_of ''  a'')) (of_nat d) (lit ''  a'') s = Some s' \<and>
     fs_rel s' P' N' \<and> listing N' d = ([bytes_of ''a''], [])"
proof -
  obtain s :: kernel_state and P d np where s: "fs_rel s P [d \<mapsto> root_node np]" "room 90 s" using boot_root by blast
  let ?N = "[d \<mapsto> root_node np]" and ?c = "Touch (bytes_of ''  a'')"
  have D: "?N d = Some (root_node np)" by simp
  have "0 \<notin> set (bytes_of ''  a'')" by (simp add: bytes_of_def)
  then have t: "text_at s (lit ''  a'') (argument ?c)" unfolding argument.simps by (rule text_at_lit) simp
  have r: "room 4 s" by (rule room_mono [OF s(2)]) simp
  have l: "length ([] :: nat list) < 8000" by simp
  have "command_spec ?c (listing ?N d) = ([bytes_of ''a''], [])" by (simp add: listing_def files_def subdirs_def bytes_of_def)
  with commands_update_listing [OF s(1) tree_ok_root(1) D t r l l] show ?thesis by metis
qed

end
