(* ===== verification/ElfProps.thy ===== *)
theory ElfProps
  imports Elf
begin

section \<open>ElfProps: what the ELF loader computes\<close>

text \<open>
  The first pass over the program headers yields the range of addresses the segments occupy;
  the second copies a segment and clears the rest of its memory.
\<close>

subsection \<open>The span of the segments\<close>

definition seg_lo :: "Elf32_Phdr \<Rightarrow> nat" where
  "seg_lo h = unat (p_vaddr h)"

definition seg_hi :: "Elf32_Phdr \<Rightarrow> nat" where
  "seg_hi h = unat (p_vaddr h) + unat (p_memsz h)"

lemma unat_add_lt: "unat a + unat b < 2 ^ 32 \<Longrightarrow> unat (a + b :: u32) = unat a + unat b"
  by (simp add: unat_word_ariths)

text \<open>The two steps of a round: lowering the start keeps the end, raising the end keeps the start.\<close>

definition raise_end :: "u32 \<Rightarrow> u32 \<times> u32 \<Rightarrow> u32 \<times> u32" where
  "raise_end e = (\<lambda>(sz, mn). if e > mn + sz then (e - mn, mn) else (sz, mn))"

lemma span_round_eq:
  "span_round h (sz, mn) = (if skipped h then (sz, mn) else raise_end (p_vaddr h + p_memsz h)
     (if p_vaddr h < mn then (if sz > 0 then sz + (mn - p_vaddr h) else p_memsz h, p_vaddr h) else (sz, mn)))"
  by (simp add: span_round_def raise_end_def)

lemma raise_end:
  assumes "unat mn + unat sz < 2 ^ 32" "unat mn \<le> unat e" "raise_end e (sz, mn) = (sz', mn')"
  shows "mn' = mn" "unat mn + unat sz' = max (unat mn + unat sz) (unat e)"
proof -
  have z: "unat (mn + sz) = unat mn + unat sz" "unat (e - mn) = unat e - unat mn"
    using assms(1,2) by (simp_all add: unat_add_lt unat_sub word_le_nat_alt)
  show "mn' = mn" "unat mn + unat sz' = max (unat mn + unat sz) (unat e)"
    using assms(2,3) z by (auto simp: raise_end_def word_less_nat_alt max_def split: if_splits)
qed

text \<open>
  The headers that count are those of the segments to load and, whatever their type, those
  without memory. A header without memory moves the start, but the end only while it is the
  highest address.
\<close>

definition counted :: "Elf32_Phdr \<Rightarrow> bool" where
  "counted h \<longleftrightarrow> p_type h = PROGRAM_TYPE_LOAD \<or> p_memsz h = 0"

lemma skipped_counted: "skipped h \<longleftrightarrow> \<not> counted h"
  by (auto simp: skipped_def counted_def word_gt_0)

definition span_is :: "Elf32_Phdr list \<Rightarrow> u32 \<times> u32 \<Rightarrow> bool" where
  "span_is hs = (\<lambda>(sz, mn). if hs = [] then sz = 0 \<and> mn = - 1
     else unat mn = Min (seg_lo ` set hs) \<and> unat mn + unat sz \<in> seg_hi ` set hs \<and>
       (\<forall>h\<in>set hs. p_memsz h \<noteq> 0 \<longrightarrow> seg_hi h \<le> unat mn + unat sz))"

lemma span_isD:
  assumes "span_is hs (sz, mn)" "hs \<noteq> []"
  shows "unat mn = Min (seg_lo ` set hs)" "unat mn + unat sz \<in> seg_hi ` set hs"
    "\<forall>h\<in>set hs. p_memsz h \<noteq> 0 \<longrightarrow> seg_hi h \<le> unat mn + unat sz"
  using assms(1) unfolding span_is_def prod.case if_not_P [OF assms(2)] by blast+

lemma span_is_first:
  assumes h: "counted h" "seg_hi h < 2 ^ 32"
  shows "span_is [h] (span_round h (0, - 1))"
proof -
  let ?v = "p_vaddr h" and ?k = "p_memsz h"
  have e: "unat (?v + ?k) = unat ?v + unat ?k" using h(2) by (simp add: seg_hi_def unat_add_lt)
  have m: "unat (- 1 :: u32) = 2 ^ 32 - 1" by (simp add: unsigned_minus_1_eq_mask mask_eq_exp_minus_1)
  have "span_round h (0, - 1) = (?k, ?v)"
  proof (cases "?v < - 1")
    case True
    then show ?thesis using h(1) by (simp add: span_round_eq skipped_counted raise_end_def)
  next
    case False
    then have v: "?v = - 1" using unat_u32_lt [of ?v] m by (simp add: word_less_nat_alt word_unat_eq_iff)
    then have "?k = 0" using h(2) m by (simp add: seg_hi_def unat_eq_0)
    then show ?thesis using v h(1) by (simp add: span_round_eq skipped_counted raise_end_def)
  qed
  then show ?thesis by (simp add: span_is_def seg_lo_def seg_hi_def)
qed

lemma span_is_round:
  assumes s: "span_is hs (sz, mn)" and hs: "hs \<noteq> []" "\<forall>h\<in>set hs. seg_hi h < 2 ^ 32" and h: "counted h" "seg_hi h < 2 ^ 32"
  shows "span_is (hs @ [h]) (span_round h (sz, mn))"
proof -
  let ?v = "p_vaddr h" and ?k = "p_memsz h"
  have e: "unat (?v + ?k) = seg_hi h" using h(2) by (simp add: seg_hi_def unat_add_lt)
  note m = span_isD [OF s hs(1)]
  have b: "unat mn + unat sz < 2 ^ 32" using m(2) hs(2) by auto
  obtain sz1 mn1 where r: "raise_end (?v + ?k) (if ?v < mn then (if sz > 0 then sz + (mn - ?v) else ?k, ?v) else (sz, mn)) = (sz1, mn1)"
    by force
  have run: "span_round h (sz, mn) = (sz1, mn1)" using r h(1) by (simp add: span_round_eq skipped_counted)
  have lo: "seg_lo h \<le> seg_hi h" "unat ?v = seg_lo h" "seg_hi h = seg_lo h + unat ?k" by (simp_all add: seg_lo_def seg_hi_def)
  have nonempty: "Min (seg_lo ` set (hs @ [h])) = min (unat mn) (seg_lo h)" using m(1) hs(1) by (simp add: min.commute)
  consider (keep) "\<not> ?v < mn" | (lower) "?v < mn" "sz > 0" | (restart) "?v < mn" "sz = 0" by (auto simp: word_gt_0)
  then have ends: "unat mn1 = min (unat mn) (seg_lo h) \<and>
    (unat mn1 + unat sz1 = max (unat mn + unat sz) (seg_hi h) \<or> sz = 0 \<and> unat mn1 + unat sz1 = seg_hi h)"
  proof cases
    case keep
    then have le: "unat mn \<le> seg_lo h" by (simp add: lo(2) [symmetric] word_less_nat_alt)
    then show ?thesis using raise_end [of mn sz "?v + ?k" sz1 mn1] b r keep e lo(1) by simp
  next
    case lower
    then have lt: "seg_lo h < unat mn" by (simp add: lo(2) [symmetric] word_less_nat_alt)
    have "unat (mn - ?v) = unat mn - seg_lo h" using lower(1) by (simp add: unat_sub order_less_imp_le lo(2))
    then have "unat (sz + (mn - ?v)) = unat sz + unat mn - seg_lo h" using b lt by (subst unat_add_lt) simp_all
    then show ?thesis using raise_end [of ?v "sz + (mn - ?v)" "?v + ?k" sz1 mn1] b r lower e lo(1,2) lt by (simp add: add.commute)
  next
    case restart
    then have lt: "seg_lo h < unat mn" by (simp add: lo(2) [symmetric] word_less_nat_alt)
    have hi: "unat ?v + unat ?k = seg_hi h" by (simp add: seg_hi_def)
    have q: "raise_end (?v + ?k) (?k, ?v) = (sz1, mn1)" using r restart by simp
    have l1: "unat ?v + unat ?k < 2 ^ 32" using h(2) by (simp only: hi)
    have l2: "unat ?v \<le> unat (?v + ?k)" using lo(1) by (simp only: lo(2) e)
    note q = raise_end [OF l1 l2 q, unfolded hi e]
    then show ?thesis using lt restart(2) lo(2) q by simp
  qed
  have "unat mn + unat sz < seg_hi h'" if "sz = 0" "h' \<in> set hs" "p_memsz h' \<noteq> 0" for h'
  proof -
    have "unat mn \<le> seg_lo h'" unfolding m(1) using that(2) by simp
    moreover have "seg_lo h' < seg_hi h'" using that(3) by (simp add: seg_lo_def seg_hi_def unat_gt_0)
    ultimately show ?thesis using that(1) by simp
  qed
  then have empties: "sz \<noteq> 0 \<or> (\<forall>h'\<in>set hs. p_memsz h' = 0)" using m(3) by fastforce
  have top: "unat mn1 + unat sz1 \<in> seg_hi ` set (hs @ [h])" using ends m(2) by (auto simp: max_def split: if_splits)
  have "seg_hi h' \<le> unat mn1 + unat sz1" if "h' \<in> set (hs @ [h])" "p_memsz h' \<noteq> 0" for h'
  proof (cases "h' = h")
    case False
    then have "h' \<in> set hs" using that(1) by simp
    then have "sz \<noteq> 0" "seg_hi h' \<le> unat mn + unat sz" using empties m(3) that(2) by auto
    then show ?thesis using ends by linarith
  qed (use ends in auto)
  then have "\<forall>h'\<in>set (hs @ [h]). p_memsz h' \<noteq> 0 \<longrightarrow> seg_hi h' \<le> unat mn1 + unat sz1" by blast
  moreover have "unat mn1 = Min (seg_lo ` set (hs @ [h]))" using ends nonempty by simp
  ultimately show ?thesis using top unfolding run span_is_def by simp
qed

lemma elf_span_is:
  assumes "\<forall>h\<in>set hs. counted h \<longrightarrow> seg_hi h < 2 ^ 32"
  shows "span_is (filter counted hs) (elf_span hs)"
  using assms
proof (induction hs rule: rev_induct)
  case Nil
  then show ?case by (simp add: elf_span_def span_is_def)
next
  case (snoc h hs)
  obtain sz mn where e: "elf_span hs = (sz, mn)" by force
  have run: "elf_span (hs @ [h]) = span_round h (sz, mn)" using e by (simp add: elf_span_def)
  have I: "span_is (filter counted hs) (sz, mn)" using snoc e by simp
  show ?case
  proof (cases "counted h")
    case False
    then show ?thesis using I run by (simp add: span_round_eq skipped_counted)
  next
    case True
    show ?thesis
    proof (cases "filter counted hs = []")
      case none: True
      then have "(sz, mn) = (0, - 1)" using I by (simp add: span_is_def)
      then show ?thesis using span_is_first [OF True] snoc.prems True run none by simp
    next
      case False
      then show ?thesis using span_is_round [OF I False _ True] snoc.prems True run by simp
    qed
  qed
qed

text \<open>
  C26: Which range of addresses the first pass of \<open>init_elf\<close> computes. If the segments to load,
  those of type LOAD, are not empty and end inside the address space, the range ends at their
  highest end, whatever the order of the headers. It starts at the lowest address of those
  segments and of all headers without memory, of whatever type: without such headers that is the
  lowest segment address; a GNU_STACK header, of size 0 at address 0, makes the range start at
  0. (A header without memory may not lie above the segments.)
\<close>

theorem elf_span_exact:
  assumes "\<forall>h\<in>set hs. p_type h = PROGRAM_TYPE_LOAD \<longrightarrow> p_memsz h \<noteq> 0 \<and> seg_hi h < 2 ^ 32"
    and "\<exists>h\<in>set hs. p_type h = PROGRAM_TYPE_LOAD"
    and "\<forall>h\<in>set hs. p_memsz h = 0 \<longrightarrow> seg_lo h \<le> Max (seg_hi ` {h\<in>set hs. p_type h = PROGRAM_TYPE_LOAD})"
  shows "let (sz, min_vaddr) = elf_span hs
    in unat min_vaddr = Min (seg_lo ` {h\<in>set hs. p_type h = PROGRAM_TYPE_LOAD \<or> p_memsz h = 0}) \<and>
      unat min_vaddr + unat sz = Max (seg_hi ` {h\<in>set hs. p_type h = PROGRAM_TYPE_LOAD})"
proof -
  let ?L = "{h\<in>set hs. p_type h = PROGRAM_TYPE_LOAD}"
  obtain sz mn where e: "elf_span hs = (sz, mn)" by force
  have C: "set (filter counted hs) = {h\<in>set hs. p_type h = PROGRAM_TYPE_LOAD \<or> p_memsz h = 0}" by (auto simp: counted_def)
  have "seg_hi h < 2 ^ 32" if "h \<in> set hs" "counted h" for h
    using that assms(1) unat_u32_lt [of "p_vaddr h"] by (cases "p_memsz h = 0") (auto simp: counted_def seg_hi_def)
  then have S: "span_is (filter counted hs) (sz, mn)" using elf_span_is [of hs] e by simp
  have ne: "filter counted hs \<noteq> []" using assms(2) by (auto simp: filter_empty_conv counted_def)
  note s = span_isD [OF S ne]
  have fin: "finite (seg_hi ` ?L)" "seg_hi ` ?L \<noteq> {}" using assms(2) by auto
  have "seg_hi h \<le> unat mn + unat sz" if "h \<in> ?L" for h using s(3) assms(1) that unfolding C by blast
  then have "Max (seg_hi ` ?L) \<le> unat mn + unat sz" using fin by (simp add: Max_le_iff)
  moreover obtain h where h: "h \<in> set (filter counted hs)" "unat mn + unat sz = seg_hi h" using s(2) by auto
  have "seg_hi h \<le> Max (seg_hi ` ?L)"
  proof (cases "p_memsz h = 0")
    case True
    then show ?thesis using assms(3) h(1) by (simp add: seg_hi_def seg_lo_def)
  next
    case False
    then show ?thesis using h(1) fin(1) by (intro Max_ge) (auto simp: counted_def)
  qed
  ultimately show ?thesis using s(1) h(2) unfolding C by (simp add: e)
qed

definition phdr :: "u32 \<Rightarrow> u32 \<Rightarrow> u32 \<Rightarrow> Elf32_Phdr" where
  "phdr t v k = \<lparr>p_type = t, p_offset = 0, p_vaddr = v, p_paddr = v, p_filesz = k, p_memsz = k, p_flags = 0, p_align = 0\<rparr>"

text \<open>Two segments and a stack header.\<close>

lemma elf_span_exact_witness:
  "elf_span [phdr 1 0x3000 0x10, phdr 1 0x1000 0x100, phdr 0x6474E551 0 0] = (0x3010, 0)"
proof -
  let ?hs = "[phdr 1 0x3000 0x10, phdr 1 0x1000 0x100, phdr 0x6474E551 0 0]"
  have L: "{h \<in> set ?hs. p_type h = 1} = {phdr 1 0x3000 0x10, phdr 1 0x1000 0x100}"
    and C: "{h \<in> set ?hs. p_type h = 1 \<or> p_memsz h = 0} = set ?hs" by (auto simp: phdr_def)
  have "\<forall>h\<in>set ?hs. p_type h = 1 \<longrightarrow> p_memsz h \<noteq> 0 \<and> seg_hi h < 2 ^ 32" "\<exists>h\<in>set ?hs. p_type h = 1"
    "\<forall>h\<in>set ?hs. p_memsz h = 0 \<longrightarrow> seg_lo h \<le> Max (seg_hi ` {h\<in>set ?hs. p_type h = 1})"
    unfolding L by (simp_all add: phdr_def seg_hi_def seg_lo_def)
  note exact = elf_span_exact [OF this, unfolded L C]
  obtain sz mn where e: "elf_span ?hs = (sz, mn)" by force
  with exact have "unat mn = 0" "unat mn + unat sz = 0x3010" by (simp_all add: Let_def phdr_def seg_hi_def seg_lo_def)
  then have "mn = 0" "unat sz = unat (0x3010 :: u32)" by (simp_all add: unat_eq_0)
  with e show ?thesis by (simp only: word_unat_eq_iff [symmetric])
qed

text \<open>
  A header of another type without memory, such as the marker for the stack, is not skipped:
  the test lets it through. With its address 0 the range then begins at 0.
\<close>

lemma stack_header_counts: "elf_span [phdr 1 0x8048000 0x100, phdr 0x6474E551 0 0] = (0x8048100, 0)"
  by (simp add: elf_span_def span_round_def skipped_def phdr_def)

subsection \<open>Loading a segment\<close>

lemma load_segment_wr_bytes:
  assumes h: "\<not> skipped h" and d: "file_data m f + p_offset h = W src" "src + unat (p_filesz h) \<le> 2 ^ 32"
    and t: "tx + unat (p_filesz h) \<le> 2 ^ 32" "disj src (unat (p_filesz h)) tx (unat (p_filesz h))"
  shows "load_segment (W tx) f h m = wr_bytes (wr_bytes m (W tx) (rd_bytes m (W src) (unat (p_filesz h))))
    (W tx + p_filesz h) (replicate (unat (p_memsz h - p_filesz h)) 0)"
proof -
  have "memcpy m (W tx) (Mem (W src)) (W (unat (p_filesz h))) = wr_bytes m (W tx) (rd_bytes m (W src) (unat (p_filesz h)))"
    by (rule memcpy_disj) (use d(2) t unat_u32_lt [of "p_filesz h"] in auto)
  then show ?thesis by (simp add: load_segment_def h d(1) memset_wr_bytes Let_def)
qed

lemma wr_bytes_append:
  assumes "length xs + length ys \<le> 2 ^ 32"
  shows "wr_bytes (wr_bytes m a xs) (a + of_nat (length xs)) ys = wr_bytes m a (xs @ ys)"
  using assms
proof (induction xs arbitrary: m a)
  case (Cons x xs)
  then have l: "length xs < 2 ^ 32" "length (xs @ ys) < 2 ^ 32" by simp_all
  have e: "a + of_nat (length (x # xs)) = a + 1 + of_nat (length xs)" by (simp add: add.assoc)
  show ?case
    unfolding e append_Cons wr_bytes_Cons [OF l(1), symmetric] wr_bytes_Cons [OF l(2), symmetric]
    by (rule Cons.IH) (use Cons.prems in simp)
qed simp

lemma load_segment_image:
  assumes "\<not> skipped h" "p_filesz h \<le> p_memsz h" "file_data m f + p_offset h = of_nat src"
    and "src + unat (p_filesz h) \<le> 2 ^ 32" "tx + unat (p_memsz h) \<le> 2 ^ 32"
    and "disj src (unat (p_filesz h)) tx (unat (p_filesz h))"
  shows "let m' = load_segment (of_nat tx) f h m in
    rd_bytes m' (of_nat tx) (unat (p_memsz h)) =
      rd_bytes m (of_nat src) (unat (p_filesz h)) @ replicate (unat (p_memsz h) - unat (p_filesz h)) 0 \<and>
    same_on (- {tx..<tx + unat (p_memsz h)}) m m'"
proof -
  let ?bs = "rd_bytes m (W src) (unat (p_filesz h))" and ?zs = "replicate (unat (p_memsz h) - unat (p_filesz h)) (0 :: u8)"
  have l: "unat (p_filesz h) \<le> unat (p_memsz h)" using assms(2) by (simp add: word_le_nat_alt)
  have len: "length (?bs @ ?zs) = unat (p_memsz h)" using l by simp
  have fz: "p_filesz h = of_nat (length ?bs)" by simp
  have "load_segment (W tx) f h m = wr_bytes (wr_bytes m (W tx) ?bs) (W tx + p_filesz h) (replicate (unat (p_memsz h - p_filesz h)) 0)"
    by (rule load_segment_wr_bytes) (use assms l in auto)
  also have "\<dots> = wr_bytes (wr_bytes m (W tx) ?bs) (W tx + of_nat (length ?bs)) ?zs"
    using unat_sub [OF assms(2)] by simp
  also have "\<dots> = wr_bytes m (W tx) (?bs @ ?zs)" by (rule wr_bytes_append) (use assms(5) l in simp)
  finally have e: "load_segment (W tx) f h m = wr_bytes m (W tx) (?bs @ ?zs)" .
  have "rd_bytes (wr_bytes m (W tx) (?bs @ ?zs)) (W tx) (unat (p_memsz h)) = ?bs @ ?zs"
    by (rule rd_bytes_wr_bytes [OF len]) (use assms(5) in simp)
  moreover have "same_on (- {tx..<tx + unat (p_memsz h)}) m (wr_bytes m (W tx) (?bs @ ?zs))"
    by (rule same_on_wr_bytes) (use assms(5) len in auto)
  ultimately show ?thesis unfolding Let_def e by blast
qed

text \<open>
  C27: Loading one segment fills the text space with the segment's bytes of the file followed
  by zeros up to its size in memory, and changes no other byte.
\<close>

theorem segment_loaded:
  assumes "\<not> skipped h" "p_filesz h \<le> p_memsz h" "file_data m f + p_offset h = of_nat src"
    and "src + unat (p_filesz h) \<le> 2 ^ 32" "tx + unat (p_memsz h) \<le> 2 ^ 32"
    and "disj src (unat (p_filesz h)) tx (unat (p_filesz h))"
  shows "let m' = load_segment (of_nat tx) f h m in
    rd_bytes m' (of_nat tx) (unat (p_memsz h)) =
      rd_bytes m (of_nat src) (unat (p_filesz h)) @ replicate (unat (p_memsz h) - unat (p_filesz h)) 0 \<and>
    same_on (- {tx..<tx + unat (p_memsz h)}) m m'"
  by (rule load_segment_image [OF assms])

lemma segment_loaded_witness:
  "rd_bytes (load_segment (of_nat 0x2000) 0x100 (phdr 1 0 3\<lparr>p_memsz := 5\<rparr>) (\<lambda>a. ucast a)) (of_nat 0x2000) 5 =
    rd_bytes (\<lambda>a. ucast a) (of_nat 0x7060504) 3 @ [0, 0]"
proof -
  let ?h = "phdr 1 0 3\<lparr>p_memsz := 5\<rparr>" and ?m = "(\<lambda>a. ucast a) :: memory"
  have h: "\<not> skipped ?h" "p_filesz ?h \<le> p_memsz ?h" "p_filesz ?h = 3" "p_memsz ?h = 5" by (simp_all add: skipped_def phdr_def)
  have "file_data ?m 0x100 + p_offset ?h = of_nat 0x7060504"
    by (simp add: file_data_def rd32_def phdr_def)
  note l = segment_loaded [OF h(1,2) this, unfolded h(3,4), of "0x2000"]
  have "replicate (5 - 3) 0 = [0, 0 :: u8]" by (simp add: numeral_2_eq_2)
  with l show ?thesis by (simp add: disj_def Let_def)
qed

text \<open>
  Every segment is copied to the start of the text space: a second one overwrites the first.
\<close>

lemma take_rd_bytes: "k \<le> n \<Longrightarrow> take k (rd_bytes m a n) = rd_bytes m a k"
  by (simp add: rd_bytes_def take_map)

lemma second_segment_overwrites:
  assumes "\<not> skipped h" "p_filesz h \<le> p_memsz h" "file_data m' f + p_offset h = of_nat src"
    "src + unat (p_filesz h) \<le> 2 ^ 32" "tx + unat (p_memsz h) \<le> 2 ^ 32" "disj src (unat (p_filesz h)) tx (unat (p_filesz h))"
    and "m' = load_segment (of_nat tx) f h1 m"
  shows "rd_bytes (load_segment (of_nat tx) f h m') (of_nat tx) (unat (p_filesz h)) = rd_bytes m' (of_nat src) (unat (p_filesz h))"
proof -
  let ?k = "unat (p_filesz h)" and ?m = "load_segment (W tx) f h m'"
  have l: "?k \<le> unat (p_memsz h)" using assms(2) by (simp add: word_le_nat_alt)
  have "rd_bytes ?m (W tx) ?k = take ?k (rd_bytes ?m (W tx) (unat (p_memsz h)))" by (rule take_rd_bytes [OF l, symmetric])
  also have "\<dots> = rd_bytes m' (W src) ?k" using load_segment_image [OF assms(1-6)] by (simp add: Let_def)
  finally show ?thesis .
qed

end
