(* ===== verification/Syscalls.thy ===== *)
theory Syscalls
  imports Kernel ProcSwitch FsProps
begin

section \<open>Syscalls: the path of a system call (mnt/inc/syscalls.c, syscalls.S, kernel/boot.S, syscall_table.S)\<close>

text \<open>
  A user program calls a wrapper of mnt/inc/syscalls.c, which calls the assembly routine
  \<open>do_syscall\<close>; this loads the registers and raises interrupt 0x80; the handler in boot.S
  pushes the registers as parameters and calls the function that the table lists. Calls and
  interrupts push what the processor and the C calling convention push: the return addresses
  \<open>ra\<close> (in the wrapper), \<open>ri\<close> (behind the int instruction) and \<open>rh\<close> (in the handler) are parameters,
  and so is \<open>run\<close>, the execution of the function at an address up to its return.
\<close>

subsection \<open>Stack operations on the state\<close>

definition pushes :: "u32 list \<Rightarrow> 'a proc_state_scheme \<Rightarrow> 'a proc_state_scheme" where
  "pushes vs s = (let (c, m) = fold push vs (regs s, mem s) in s\<lparr>regs := c, mem := m\<rparr>)"

definition pops :: "(u32 \<Rightarrow> cpu \<Rightarrow> cpu) list \<Rightarrow> 'a proc_state_scheme \<Rightarrow> 'a proc_state_scheme" where
  "pops loads s = s\<lparr>regs := fold (\<lambda>load. pop load (mem s)) loads (regs s)\<rparr>"

abbreviation (input) "to_eax \<equiv> \<lambda>v c. c\<lparr>eax := v\<rparr>"
abbreviation (input) "to_ebx \<equiv> \<lambda>v c. c\<lparr>ebx := v\<rparr>"
abbreviation (input) "to_ecx \<equiv> \<lambda>v c. c\<lparr>ecx := v\<rparr>"
abbreviation (input) "to_edx \<equiv> \<lambda>v c. c\<lparr>edx := v\<rparr>"
abbreviation (input) "to_esi \<equiv> \<lambda>v c. c\<lparr>esi := v\<rparr>"
abbreviation (input) "to_edi \<equiv> \<lambda>v c. c\<lparr>edi := v\<rparr>"
abbreviation (input) "to_ebp \<equiv> \<lambda>v c. c\<lparr>ebp := v\<rparr>"
abbreviation (input) "to_eip \<equiv> \<lambda>v c. c\<lparr>eip := v\<rparr>"
abbreviation (input) "to_eflags \<equiv> \<lambda>v c. c\<lparr>eflags := v\<rparr>"
abbreviation (input) "dropped \<equiv> \<lambda>(v :: u32) (c :: cpu). c"

subsection \<open>The handler\<close>

text \<open>The interrupt gate pushes the flags, the code segment and the return address, and clears IF.\<close>

definition enter_gate :: "u32 \<Rightarrow> 'a proc_state_scheme \<Rightarrow> 'a proc_state_scheme" where
  "enter_gate ri s =
     (let s = pushes [eflags (regs s), 8, ri] s
      in s\<lparr>regs := (regs s)\<lparr>eflags := eflags (regs s) AND NOT 0x200\<rparr>\<rparr>)"

text \<open>\<open>syscall_handler\<close>, up to the call and after it.\<close>

definition handler_calls :: "u32 \<Rightarrow> u32 \<Rightarrow> 'a proc_state_scheme \<Rightarrow> u32 \<times> 'a proc_state_scheme" where
  "handler_calls table rh s =
     (let s = pushes [eflags (regs s)] s;
          s = s\<lparr>regs := (regs s)\<lparr>eflags := eflags (regs s) AND NOT 0x400\<rparr>\<rparr>;
          c = regs s;
          s = pushes [ebp c, edi c, esi c, edx c, ecx c, ebx c] s;
          f = rd32 (mem s) (table + eax (regs s) * 4);
          s = s\<lparr>regs := (regs s)\<lparr>ebx := table, eax := f\<rparr>\<rparr>
      in (f, pushes [rh] s))"

definition handler_returns :: "'a proc_state_scheme \<Rightarrow> 'a proc_state_scheme" where
  "handler_returns s = pops [to_ebx, to_ecx, to_edx, to_esi, to_edi, to_ebp, to_eflags, to_eip, dropped, to_eflags] s"

subsection \<open>do_syscall and its callers\<close>

definition do_syscall_loads :: "'a proc_state_scheme \<Rightarrow> 'a proc_state_scheme" where
  "do_syscall_loads s =
     (let c = regs s;
          s = pushes [ebp c, edi c, esi c, ebx c] s;
          m = mem s; sp = esp (regs s)
      in s\<lparr>regs := (regs s)\<lparr>eax := rd32 m (sp + 20), ebx := rd32 m (sp + 24), ecx := rd32 m (sp + 28),
           edx := rd32 m (sp + 32), esi := rd32 m (sp + 36), edi := rd32 m (sp + 40), ebp := rd32 m (sp + 44)\<rparr>\<rparr>)"

definition do_syscall ::
  "(u32 \<Rightarrow> 'a proc_state_scheme \<Rightarrow> 'a proc_state_scheme option) \<Rightarrow> u32 \<Rightarrow> u32 \<Rightarrow> u32 \<Rightarrow> 'a proc_state_scheme \<Rightarrow> 'a proc_state_scheme option" where
  "do_syscall run table ri rh s = do {
     let s = enter_gate ri (do_syscall_loads s);
     let (f, s) = handler_calls table rh s;
     s \<leftarrow> run f s;
     Some (pops [to_ebx, to_esi, to_edi, to_ebp, to_eip] (handler_returns s)) }"

text \<open>The call in a wrapper: the arguments are pushed from the last to the first and dropped after it.\<close>

definition syscall_with ::
  "(u32 \<Rightarrow> 'a proc_state_scheme \<Rightarrow> 'a proc_state_scheme option) \<Rightarrow> u32 \<Rightarrow> u32 \<Rightarrow> u32 \<Rightarrow> u32 \<Rightarrow> u32 list \<Rightarrow>
    'a proc_state_scheme \<Rightarrow> 'a proc_state_scheme option" where
  "syscall_with run table ra ri rh args s = do {
     s \<leftarrow> do_syscall run table ri rh (pushes (rev args @ [ra]) s);
     Some (s\<lparr>regs := (regs s)\<lparr>esp := esp (regs s) + 4 * of_nat (length args)\<rparr>\<rparr>) }"

definition exit_args :: "u32 \<Rightarrow> u32 list" where
  "exit_args error_code = [1, error_code, 0, 0, 0, 0, 0]"

definition read_args :: "u32 \<Rightarrow> u32 \<Rightarrow> u32 \<Rightarrow> u32 list" where
  "read_args fd buf count = [3, fd, buf, count, 0, 0, 0]"

definition write_args :: "u32 \<Rightarrow> u32 \<Rightarrow> u32 \<Rightarrow> u32 list" where
  "write_args fd buf count = [4, fd, buf, count, 0, 0, 0]"

definition open_args :: "u32 \<Rightarrow> u32 \<Rightarrow> u32 \<Rightarrow> u32 list" where
  "open_args filename flags mode = [5, filename, flags, mode, 0, 0, 0]"

definition close_args :: "u32 \<Rightarrow> u32 list" where
  "close_args fd = [6, fd, 0, 0, 0, 0, 0]"

text \<open>The test program: \<open>exit (2)\<close>, and 0 as the result of \<open>main\<close>.\<close>

definition test_main ::
  "(u32 \<Rightarrow> 'a proc_state_scheme \<Rightarrow> 'a proc_state_scheme option) \<Rightarrow> u32 \<Rightarrow> u32 \<Rightarrow> u32 \<Rightarrow> u32 \<Rightarrow>
    'a proc_state_scheme \<Rightarrow> (i32 \<times> 'a proc_state_scheme) option" where
  "test_main run table ra ri rh s = do {
     s \<leftarrow> syscall_with run table ra ri rh (exit_args 2) s;
     Some (0, s) }"

text \<open>The table has one function, at index 1.\<close>

definition sys_table :: "u32 \<Rightarrow> u32 list" where
  "sys_table exit_addr = [0, exit_addr] @ replicate 382 0"

text \<open>\<open>syscall_exit\<close> as compiled: the parameter is above the return address; \<open>r\<close> is left in eax.\<close>

definition run_syscall_exit :: "u32 \<Rightarrow> 'a proc_state_scheme \<Rightarrow> 'a proc_state_scheme option" where
  "run_syscall_exit r s = do {
     s \<leftarrow> syscall_exit (rd32 (mem s) (esp (regs s) + 4)) s;
     Some (pops [to_eip] (s\<lparr>regs := (regs s)\<lparr>eax := r\<rparr>\<rparr>)) }"

subsection \<open>Proofs\<close>

lemma pushes_eq:
  "pushes vs s = s\<lparr>regs := (regs s)\<lparr>esp := esp (regs s) - 4 * of_nat (length vs)\<rparr>, mem := write_down (mem s) (esp (regs s) - 4) vs\<rparr>"
  by (simp add: pushes_def fold_push)

lemma write_down_append:
  "write_down m a (xs @ ys) = write_down (write_down m a xs) (a - 4 * of_nat (length xs)) ys"
  by (induction xs arbitrary: m a) (simp_all add: algebra_simps)

text \<open>Reading the \<open>i\<close>-th word pushed.\<close>

lemma pushed_word:
  assumes "unat sp = E" "4 * length ws \<le> E" "i < length ws"
  shows "rd32 (write_down m (sp - 4) ws) (sp - (4 + 4 * of_nat i)) = ws ! i"
proof -
  have sp: "sp = W E" using assms(1) by (metis of_nat_unat_u32)
  have E: "4 \<le> E" "E < 2 ^ 32" using assms(2,3) unat_u32_lt [of sp] by (cases ws; simp add: assms(1))+
  have i: "4 * i \<le> E - 4" using assms(2,3) by (simp add: Suc_le_eq [symmetric])
  have "sp - (4 + 4 * of_nat i) = W (E - 4) - W (4 * i)" unfolding W_minus_4 [OF E(1), symmetric] sp by simp
  also have "\<dots> = W (E - 4 - 4 * i)" by (rule of_nat_diff [OF i, symmetric])
  finally have a: "sp - (4 + 4 * of_nat i) = W (E - 4 - 4 * i)" .
  have b: "sp - 4 = W (E - 4)" unfolding sp by (rule W_minus_4 [OF E(1)])
  show ?thesis unfolding a b by (rule write_down_nth) (use assms E in simp_all)
qed

lemma do_syscall_loads_eq:
  fixes s :: "'a proc_state_scheme"
  assumes E: "92 \<le> unat (esp (regs s))" and args: "args = [n, b, c, d, si, di, bp]"
  shows "do_syscall_loads (pushes (rev args @ [ra]) s) =
    s\<lparr>regs := (regs s)\<lparr>eax := n, ebx := b, ecx := c, edx := d, esi := si, edi := di, ebp := bp, esp := esp (regs s) - 48\<rparr>,
      mem := write_down (mem s) (esp (regs s) - 4) (rev args @ [ra, ebp (regs s), edi (regs s), esi (regs s), ebx (regs s)])\<rparr>"
proof -
  let ?r = "regs s"
  let ?ws = "rev args @ [ra, ebp ?r, edi ?r, esi ?r, ebx ?r]"
  have W: "rd32 (write_down (mem s) (esp ?r - 4) ?ws) (esp ?r - (4 + 4 * of_nat i)) = ?ws ! i" if "i < 12" for i
    by (rule pushed_word [OF refl]) (use E that in \<open>simp_all add: args\<close>)
  have w: "write_down (write_down (mem s) (esp ?r - 4) (rev args @ [ra])) (esp ?r - 36) [ebp ?r, edi ?r, esi ?r, ebx ?r] =
      write_down (mem s) (esp ?r - 4) ?ws"
    using write_down_append [of "mem s" "esp ?r - 4" "rev args @ [ra]" "[ebp ?r, edi ?r, esi ?r, ebx ?r]"]
    by (simp add: args)
  show ?thesis
    using W [of 0] W [of 1] W [of 2] W [of 3] W [of 4] W [of 5] W [of 6] w
    by (simp add: do_syscall_loads_def pushes_eq Let_def args)
qed

text \<open>The words on the stack when the function is entered, from the first pushed to the last.\<close>

definition syscall_frame :: "u32 list \<Rightarrow> u32 \<Rightarrow> u32 \<Rightarrow> u32 \<Rightarrow> cpu \<Rightarrow> u32 list" where
  "syscall_frame args ra ri rh r = rev args @ [ra, ebp r, edi r, esi r, ebx r, eflags r, 8, ri, eflags r AND NOT 0x200] @
     rev (tl args) @ [rh]"

lemma enter_gate_eq:
  "enter_gate ri s = s\<lparr>regs := (regs s)\<lparr>esp := esp (regs s) - 12, eflags := eflags (regs s) AND NOT 0x200\<rparr>,
     mem := write_down (mem s) (esp (regs s) - 4) [eflags (regs s), 8, ri]\<rparr>"
  by (simp add: enter_gate_def pushes_eq Let_def del: write_down.simps)

lemma handler_calls_eq:
  fixes s :: "'a proc_state_scheme" and table :: u32
  defines "r \<equiv> regs s"
  defines "m \<equiv> write_down (mem s) (esp r - 4) [eflags r, ebp r, edi r, esi r, edx r, ecx r, ebx r]"
  defines "f \<equiv> rd32 m (table + eax r * 4)"
  shows "handler_calls table rh s = (f, s\<lparr>regs := r\<lparr>eax := f, ebx := table, esp := esp r - 32,
     eflags := eflags r AND NOT 0x400\<rparr>, mem := write_down m (esp r - 32) [rh]\<rparr>)"
proof -
  have "write_down (write_down (mem s) (esp r - 4) [eflags r]) (esp r - 8) [ebp r, edi r, esi r, edx r, ecx r, ebx r] = m"
    unfolding m_def by simp
  then show ?thesis unfolding handler_calls_def pushes_eq Let_def f_def
    by (simp add: r_def [symmetric] del: write_down.simps)
qed

lemma handler_entry:
  fixes s :: "'a proc_state_scheme"
  assumes E: "92 \<le> unat (esp (regs s))" and args: "args = [n, b, c, d, si, di, bp]"
    and t: "unat table + 4 * unat n + 4 \<le> 2 ^ 32"
      "{unat table + 4 * unat n..<unat table + 4 * unat n + 4} \<inter> {unat (esp (regs s)) - 92..<unat (esp (regs s))} = {}"
  shows "handler_calls table rh (enter_gate ri (do_syscall_loads (pushes (rev args @ [ra]) s))) =
    (rd32 (mem s) (table + n * 4),
     s\<lparr>regs := (regs s)\<lparr>eax := rd32 (mem s) (table + n * 4), ebx := table, ecx := c, edx := d, esi := si, edi := di, ebp := bp,
         esp := esp (regs s) - 92, eflags := (eflags (regs s) AND NOT 0x200) AND NOT 0x400\<rparr>,
       mem := write_down (mem s) (esp (regs s) - 4) (syscall_frame args ra ri rh (regs s))\<rparr>)"
proof -
  let ?r = "regs s"
  let ?ws = "rev args @ [ra, ebp ?r, edi ?r, esi ?r, ebx ?r]"
  let ?gs = "[eflags ?r, 8, ri, eflags ?r AND NOT 0x200] @ [bp, di, si, d, c, b]"
  define m where "m = write_down (mem s) (esp ?r - 4) (?ws @ ?gs)"
  have nf: "NOT 0x200 = (- 513 :: u32)" by simp
  have w: "write_down (write_down (write_down (mem s) (esp ?r - 4) ?ws) (esp ?r - 52) [eflags ?r, 8, ri])
      (esp ?r - 64) [eflags ?r AND NOT 0x200, bp, di, si, d, c, b] = m"
    unfolding m_def by (simp add: args)
  have f: "rd32 m (table + n * 4) = rd32 (mem s) (table + n * 4)"
  proof -
    have T: "esp ?r - 4 = W (unat (esp ?r) - 4)" using E by (simp add: of_nat_diff)
    have "length (?ws @ ?gs) = 22" by (simp add: args)
    then have "same_on (- {unat (esp ?r) - 4 + 4 - 4 * 22..<unat (esp ?r) - 4 + 4}) (mem s) m"
      unfolding m_def T using write_down_same_on [of "?ws @ ?gs" "unat (esp ?r) - 4" "mem s"] E unat_u32_lt [of "esp ?r"] by simp
    then have "rd32 m (W (unat table + 4 * unat n)) = rd32 (mem s) (W (unat table + 4 * unat n))"
      by (rule rd32_same_on) (use t E in auto)
    then show ?thesis by (simp add: mult.commute)
  qed
  have l: "write_down m (esp ?r - 92) [rh] = write_down (mem s) (esp ?r - 4) (syscall_frame args ra ri rh ?r)"
    unfolding m_def by (simp add: args syscall_frame_def)
  show ?thesis
    unfolding do_syscall_loads_eq [OF E args] enter_gate_eq handler_calls_eq
    by (simp add: w [unfolded nf] f l [unfolded nf] del: write_down.simps)
qed

text \<open>
  What the function must keep: it returns with its return address popped, and leaves the words
  above it, up to the wrapper's arguments, as they were.
\<close>

definition keeps_frame :: "nat \<Rightarrow> 'a proc_state_scheme \<Rightarrow> 'a proc_state_scheme \<Rightarrow> bool" where
  "keeps_frame n t u \<longleftrightarrow> esp (regs u) = esp (regs t) + 4 \<and>
     same_on {unat (esp (regs t)) + 4..<unat (esp (regs t)) + 4 + n} (mem t) (mem u)"

abbreviation "keeps_stack \<equiv> keeps_frame 60"

text \<open>After the return the words pushed before the call are there.\<close>

lemma frame_word:
  fixes t u :: "'a proc_state_scheme"
  assumes t: "esp (regs t) = sp - 4 * of_nat (length ws)" "mem t = write_down m (sp - 4) ws" and u: "keeps_frame n t u"
    and E: "4 * length ws \<le> unat sp" and i: "Suc i < length ws" "4 * (length ws - 1 - i) \<le> n"
  shows "rd32 (mem u) (sp - (4 + 4 * of_nat i)) = ws ! i"
proof -
  have le: "4 + 4 * i \<le> unat sp" using E i by simp
  have sp: "unat (esp (regs t)) = unat sp - 4 * length ws"
  proof -
    have "esp (regs t) = W (unat sp - 4 * length ws)" unfolding t(1) using of_nat_diff [OF E, where 'a = "32 word"] by simp
    moreover have "unat sp - 4 * length ws < 2 ^ 32" using unat_u32_lt [of sp] by simp
    ultimately show ?thesis by (simp only: unat_of_nat_u32)
  qed
  have "(4 :: u32) + 4 * of_nat i = of_nat (4 + 4 * i)" by simp
  then have a: "sp - (4 + 4 * of_nat i) = W (unat sp - (4 + 4 * i))" using of_nat_diff [OF le, where 'a = "32 word"] by simp
  have "same_on {unat (esp (regs t)) + 4..<unat (esp (regs t)) + 4 + n} (mem t) (mem u)" using u by (simp add: keeps_frame_def)
  then have "rd32 (mem u) (sp - (4 + 4 * of_nat i)) = rd32 (mem t) (sp - (4 + 4 * of_nat i))"
    unfolding a by (rule rd32_same_on) (use i E unat_u32_lt [of sp] in \<open>auto simp: sp\<close>)
  also have "\<dots> = ws ! i" unfolding t(2) by (rule pushed_word [OF refl]) (use E i in simp_all)
  finally show ?thesis .
qed

lemma syscall_exit_path:
  fixes s t u :: "'a proc_state_scheme"
  assumes E: "92 \<le> unat (esp (regs s))" and args: "args = [n, b, c, d, si, di, bp]"
    and t: "esp (regs t) = esp (regs s) - 92" "mem t = write_down (mem s) (esp (regs s) - 4) (syscall_frame args ra ri rh (regs s))"
    and u: "keeps_stack t u"
  shows "pops [to_ebx, to_esi, to_edi, to_ebp, to_eip] (handler_returns u) =
    u\<lparr>regs := (regs u)\<lparr>ecx := c, edx := d, ebx := ebx (regs s), esp := esp (regs s) - 28, ebp := ebp (regs s),
       esi := esi (regs s), edi := edi (regs s), eflags := eflags (regs s), eip := ra\<rparr>\<rparr>"
proof -
  let ?sp = "esp (regs s)" and ?ws = "syscall_frame args ra ri rh (regs s)"
  have len: "length ?ws = 23" by (simp add: syscall_frame_def args)
  have W: "rd32 (mem u) (?sp - (4 + 4 * of_nat i)) = ?ws ! i" if "7 \<le> i" "i < 22" for i
    by (rule frame_word [OF _ t(2) u]) (use E that len t(1) in simp_all)
  have f: "?ws ! 7 = ra" "?ws ! 8 = ebp (regs s)" "?ws ! 9 = edi (regs s)" "?ws ! 10 = esi (regs s)" "?ws ! 11 = ebx (regs s)"
    "?ws ! 12 = eflags (regs s)" "?ws ! 19 = d" "?ws ! 20 = c"
    by (simp_all add: syscall_frame_def args)
  have e: "esp (regs u) = ?sp - 88" using u t(1) by (simp add: keeps_frame_def)
  show ?thesis
    using W [of 7] W [of 8] W [of 9] W [of 10] W [of 11] W [of 12] W [of 19] W [of 20]
    by (simp add: handler_returns_def pops_def pop_def e f)
qed

subsection \<open>The property\<close>

lemma syscall_path:
  fixes s :: "'a proc_state_scheme"
  assumes "92 \<le> unat (esp (regs s))" "unat table + 4 * unat n + 4 \<le> 2 ^ 32"
    and "{unat table + 4 * unat n..<unat table + 4 * unat n + 4} \<inter> {unat (esp (regs s)) - 92..<unat (esp (regs s))} = {}"
  defines "f \<equiv> rd32 (mem s) (table + n * 4)"
  shows "\<exists>t. esp (regs t) = esp (regs s) - 92 \<and> rd32 (mem t) (esp (regs t)) = rh \<and>
      map (\<lambda>i. rd32 (mem t) (esp (regs t) + 4 + 4 * of_nat i)) [0..<6] = [b, c, d, si, di, bp] \<and>
      same_on (- {unat (esp (regs s)) - 92..<unat (esp (regs s))}) (mem s) (mem t) \<and>
      (case run f t of
        None \<Rightarrow> syscall_with run table ra ri rh [n, b, c, d, si, di, bp] s = None
      | Some u \<Rightarrow> keeps_stack t u \<longrightarrow> syscall_with run table ra ri rh [n, b, c, d, si, di, bp] s =
          Some (u\<lparr>regs := (regs s)\<lparr>eax := eax (regs u), ecx := c, edx := d, eip := ra\<rparr>\<rparr>))"
proof -
  define args where "args = [n, b, c, d, si, di, bp]"
  let ?sp = "esp (regs s)" and ?ws = "syscall_frame args ra ri rh (regs s)"
  define t where "t = snd (handler_calls table rh (enter_gate ri (do_syscall_loads (pushes (rev args @ [ra]) s))))"
  note en = handler_entry [OF assms(1) args_def assms(2,3), of rh ri ra, folded f_def]
  have t: "handler_calls table rh (enter_gate ri (do_syscall_loads (pushes (rev args @ [ra]) s))) = (f, t)"
    unfolding t_def en by simp
  have tf: "esp (regs t) = ?sp - 92" "mem t = write_down (mem s) (?sp - 4) ?ws" using en unfolding t by simp_all
  have len: "length ?ws = 23" by (simp add: syscall_frame_def args_def)
  have W: "rd32 (mem t) (?sp - (4 + 4 * of_nat i)) = ?ws ! i" if "i < 23" for i
    unfolding tf(2) by (rule pushed_word [OF refl]) (use assms(1) that len in simp_all)
  have "rd32 (mem t) (esp (regs t)) = rh" using W [of 22] unfolding tf(1) by (simp add: syscall_frame_def args_def)
  moreover have "map (\<lambda>i. rd32 (mem t) (esp (regs t) + 4 + 4 * of_nat i)) [0..<6] = [b, c, d, si, di, bp]"
    using W [of 21] W [of 20] W [of 19] W [of 18] W [of 17] W [of 16] unfolding tf(1)
    by (simp add: syscall_frame_def args_def upt_conv_Cons)
  moreover have "same_on (- {unat ?sp - 92..<unat ?sp}) (mem s) (mem t)"
  proof -
    have T: "?sp - 4 = W (unat ?sp - 4)" using assms(1) by (simp add: of_nat_diff)
    show ?thesis unfolding tf(2) T using write_down_same_on [of ?ws "unat ?sp - 4" "mem s"] assms(1) len unat_u32_lt [of ?sp]
      by simp
  qed
  moreover have "syscall_with run table ra ri rh args s = None" if "run f t = None"
    using that by (simp add: syscall_with_def do_syscall_def t)
  moreover have "syscall_with run table ra ri rh args s = Some (u\<lparr>regs := (regs s)\<lparr>eax := eax (regs u), ecx := c, edx := d, eip := ra\<rparr>\<rparr>)"
    if r: "run f t = Some u" and k: "keeps_stack t u" for u
  proof -
    note p = syscall_exit_path [OF assms(1) args_def tf k]
    show ?thesis unfolding syscall_with_def do_syscall_def Let_def t prod.case r bind.simps Option.bind_lunit p
      by (simp add: args_def)
  qed
  ultimately show ?thesis unfolding args_def [symmetric] using tf(1) by (intro exI [of _ t]) (simp split: option.split)
qed

text \<open>
  C21: A system call made through \<open>do_syscall\<close> and the handler enters the function which the
  table lists for its number, with the other arguments as its parameters in order; and when
  that function returns by the calling convention, the user program goes on at the wrapper's
  return address with its stack pointer, ebx, esi, edi, ebp and flags as before, eax being
  what the function left; ecx and edx are not restored and hold the wrapper's second and third
  argument. (The table has to be outside the 92 bytes of stack used.)
\<close>

theorem syscall_calls_function:
  fixes s :: "'a proc_state_scheme"
  assumes "92 \<le> unat (esp (regs s))" "unat table + 4 * unat n + 4 \<le> 2 ^ 32"
    and "{unat table + 4 * unat n..<unat table + 4 * unat n + 4} \<inter> {unat (esp (regs s)) - 92..<unat (esp (regs s))} = {}"
  defines "f \<equiv> rd32 (mem s) (table + n * 4)"
  shows "\<exists>t. esp (regs t) = esp (regs s) - 92 \<and> rd32 (mem t) (esp (regs t)) = rh \<and>
      map (\<lambda>i. rd32 (mem t) (esp (regs t) + 4 + 4 * of_nat i)) [0..<6] = [b, c, d, si, di, bp] \<and>
      same_on (- {unat (esp (regs s)) - 92..<unat (esp (regs s))}) (mem s) (mem t) \<and>
      (case run f t of
        None \<Rightarrow> syscall_with run table ra ri rh [n, b, c, d, si, di, bp] s = None
      | Some u \<Rightarrow> keeps_stack t u \<longrightarrow> syscall_with run table ra ri rh [n, b, c, d, si, di, bp] s =
          Some (u\<lparr>regs := (regs s)\<lparr>eax := eax (regs u), ecx := c, edx := d, eip := ra\<rparr>\<rparr>))"
  unfolding f_def by (rule syscall_path [OF assms(1-3)])

lemma run_syscall_exit_keeps:
  obtains u where "run_syscall_exit r t = Some u" "keeps_stack t u"
proof -
  let ?d = "ucast (rd32 (mem t) (esp (regs t) + 4)) + 48 :: u8"
  obtain t1 where t1: "terminal_writestring (lit ''exiting!'') t = Some t1" "term_frame t t1"
    using writestring_lit [of "''exiting!''" t] by (auto simp: bytes_of_def)
  have "cstr (mem t1) (Lit [?d] 0) (if ?d = 0 then [] else [?d])" by (simp add: cstr_Nil cstr_Cons)
  from terminal_writestring_cstr [OF this] obtain t2 where t2: "terminal_writestring (Lit [?d] 0) t1 = Some t2"
    by (auto split: if_splits)
  have F: "term_frame t t2" by (rule term_frame_trans [OF t1(2) term_frame_writestring [OF t2]])
  then have e: "mem t2 = mem t" "regs t2 = regs t" by (simp add: term_frame_def) (subst term_frame_state [OF F], simp)
  show thesis
  proof (rule that)
    show "run_syscall_exit r t = Some (pops [to_eip] (t2\<lparr>regs := (regs t2)\<lparr>eax := r\<rparr>\<rparr>))"
      using t1(1) t2 by (simp add: run_syscall_exit_def syscall_exit_def)
    show "keeps_stack t (pops [to_eip] (t2\<lparr>regs := (regs t2)\<lparr>eax := r\<rparr>\<rparr>))"
      by (simp add: keeps_frame_def pops_def pop_def e)
  qed
qed

lemma syscall_calls_function_witness:
  "\<exists>(s :: kernel_state) u. syscall_with (\<lambda>f. if f = 0x1234 then run_syscall_exit 0 else (\<lambda>_. None)) 0x9000 0x5000 0x6000 0x7000
     (exit_args 2) s = Some u \<and> eip (regs u) = 0x5000 \<and> esp (regs u) = esp (regs s)"
proof -
  let ?run = "\<lambda>f. if f = 0x1234 then run_syscall_exit 0 else (\<lambda>_. None)"
  let ?s = "boot_kernel\<lparr>mem := wr32 (\<lambda>_. 0) (of_nat 0x9004) 0x1234\<rparr>"
  have e: "esp (regs ?s) = 0x8000" by (simp add: boot_kernel_def)
  have f: "rd32 (mem ?s) (0x9000 + 1 * 4) = 0x1234" by (simp add: rd32_wr32_same)
  obtain t where t: "case ?run 0x1234 t of
        None \<Rightarrow> syscall_with ?run 0x9000 0x5000 0x6000 0x7000 [1, 2, 0, 0, 0, 0, 0] ?s = None
      | Some u \<Rightarrow> keeps_stack t u \<longrightarrow> syscall_with ?run 0x9000 0x5000 0x6000 0x7000 [1, 2, 0, 0, 0, 0, 0] ?s =
          Some (u\<lparr>regs := (regs ?s)\<lparr>eax := eax (regs u), ecx := 0, edx := 0, eip := 0x5000\<rparr>\<rparr>)"
    using syscall_calls_function [where s = ?s and table = "0x9000" and n = 1 and rh = "0x7000" and b = 2 and c = 0 and d = 0
        and si = 0 and di = 0 and bp = 0 and run = ?run and ra = "0x5000" and ri = "0x6000", unfolded f e] by auto
  obtain u where "run_syscall_exit 0 t = Some u" "keeps_stack t u" by (rule run_syscall_exit_keeps)
  with t have c: "syscall_with ?run 0x9000 0x5000 0x6000 0x7000 (exit_args 2) ?s =
      Some (u\<lparr>regs := (regs ?s)\<lparr>eax := eax (regs u), ecx := 0, edx := 0, eip := 0x5000\<rparr>\<rparr>)"
    by (simp add: exit_args_def)
  show ?thesis by (rule exI [of _ ?s], rule exI, rule conjI, rule c) simp
qed

text \<open>The other wrappers' numbers select entries that are null.\<close>

lemma unlisted_calls:
  "args \<in> {read_args fd buf count, write_args fd buf count, open_args name flags mode, close_args fd} \<Longrightarrow>
     sys_table exit_addr ! unat (hd args) = 0"
  by (auto simp: read_args_def write_args_def open_args_def close_args_def sys_table_def)

text \<open>The test program's \<open>exit\<close> returns, so that \<open>main\<close> ends with 0 instead of the process.\<close>

lemma test_main_returns:
  fixes s :: "'a proc_state_scheme"
  assumes "92 \<le> unat (esp (regs s))" "unat table + 8 \<le> 2 ^ 32" "rd32 (mem s) (table + 4) = exit_addr"
    and "{unat table + 4..<unat table + 8} \<inter> {unat (esp (regs s)) - 92..<unat (esp (regs s))} = {}"
  shows "\<exists>u. test_main (\<lambda>f. if f = exit_addr then run_syscall_exit r else (\<lambda>_. None)) table ra ri rh s = Some (0, u) \<and>
    esp (regs u) = esp (regs s) \<and> eip (regs u) = ra"
proof -
  let ?run = "\<lambda>f. if f = exit_addr then run_syscall_exit r else (\<lambda>_. None)"
  have one: "unat (1 :: u32) = 1" "unat table + 4 * unat (1 :: u32) + 4 = unat table + 8" by simp_all
  obtain t where t: "case ?run exit_addr t of
        None \<Rightarrow> syscall_with ?run table ra ri rh [1, 2, 0, 0, 0, 0, 0] s = None
      | Some u \<Rightarrow> keeps_stack t u \<longrightarrow> syscall_with ?run table ra ri rh [1, 2, 0, 0, 0, 0, 0] s =
          Some (u\<lparr>regs := (regs s)\<lparr>eax := eax (regs u), ecx := 0, edx := 0, eip := ra\<rparr>\<rparr>)"
    using syscall_path [where s = s and table = table and n = 1 and rh = rh and b = 2 and c = 0 and d = 0
        and si = 0 and di = 0 and bp = 0 and run = ?run and ra = ra and ri = ri] assms by (auto simp: one)
  obtain u where "run_syscall_exit r t = Some u" "keeps_stack t u" by (rule run_syscall_exit_keeps)
  with t show ?thesis by (simp add: test_main_def exit_args_def)
qed

end
