(* ===== verification/Stubs.thy ===== *)
theory Stubs
  imports Syscalls ProcProps
begin

section \<open>Stubs: start-up, segments and interrupt stubs (kernel/boot.S, gdt.S, isr.S, ist.S)\<close>

text \<open>
  The assembly around the C functions: the multiboot header, the segment table and \<open>start\<close>;
  the stubs that the interrupt table's gates lead to. A stub calls a C function, which is the
  parameter \<open>run\<close>: its execution from its first instruction to its return. The processor
  pushes the flags, the code segment, the return address and, for some exceptions, an error
  code, and an interrupt gate (not a trap gate) clears the interrupt flag.
\<close>

subsection \<open>Segments and start\<close>

text \<open>The segment table's bytes; a descriptor's base, limit in bytes and access byte.\<close>

definition gdt :: "u8 list" where
  "gdt = replicate 8 0 @
     [0xFF, 0xFF, 0, 0, 0, 0x9A, 0xCF, 0] @
     [0xFF, 0xFF, 0, 0, 0, 0x92, 0xCF, 0]"

definition gdt_limit :: u16 where
  "gdt_limit = of_nat (length gdt) - 1"

definition CODE_SEG :: u16 where "CODE_SEG = 8"
definition DATA_SEG :: u16 where "DATA_SEG = 16"

definition segment_base :: "u8 list \<Rightarrow> nat \<Rightarrow> nat" where
  "segment_base table sel = unat (table ! (sel + 2)) + 2 ^ 8 * unat (table ! (sel + 3)) +
     2 ^ 16 * unat (table ! (sel + 4)) + 2 ^ 24 * unat (table ! (sel + 7))"

definition segment_last :: "u8 list \<Rightarrow> nat \<Rightarrow> nat" where
  "segment_last table sel =
     (let n = unat (table ! sel) + 2 ^ 8 * unat (table ! (sel + 1)) + 2 ^ 16 * unat (table ! (sel + 6) AND 0xF)
      in if bit (table ! (sel + 6)) 7 then 2 ^ 12 * (n + 1) - 1 else n)"

text \<open>
  Both segments span the whole 32-bit address space, so that an offset is an address: this is
  what theory Memory takes for granted.
\<close>

lemma flat_segments:
  "sel \<in> {CODE_SEG, DATA_SEG} \<Longrightarrow>
     segment_base gdt (unat sel) = 0 \<and> segment_last gdt (unat sel) = 2 ^ 32 - 1 \<and> unat sel + 7 \<le> unat gdt_limit"
  by (auto simp: CODE_SEG_def DATA_SEG_def gdt_def gdt_limit_def segment_base_def segment_last_def Let_def nth_append nth_Cons')

definition multiboot_header :: "u32 list" where
  "multiboot_header = (let MAGIC = 0x1BADB002; FLAGS = 1 OR 2 in [MAGIC, FLAGS, - (MAGIC + FLAGS)])"

lemma multiboot_checksum: "sum_list multiboot_header = 0"
  by (simp add: multiboot_header_def Let_def)

record segments =
  gdtr :: "u8 list"
  seg_cs :: u16
  seg_ds :: u16
  seg_es :: u16
  seg_fs :: u16
  seg_gs :: u16
  seg_ss :: u16

definition load_gdt :: "segments \<Rightarrow> segments" where
  "load_gdt g = g\<lparr>gdtr := gdt\<rparr>"

text \<open>\<open>start\<close> up to the call of \<open>kernel_main\<close>; \<open>stack_top\<close> is a link-time address.\<close>

definition start_segments :: "segments \<Rightarrow> segments" where
  "start_segments g = (let g = load_gdt g; g = g\<lparr>seg_cs := CODE_SEG\<rparr>; ax = DATA_SEG
     in g\<lparr>seg_ds := ax, seg_es := ax, seg_fs := ax, seg_gs := ax, seg_ss := ax\<rparr>)"

definition start_regs :: "u32 \<Rightarrow> cpu \<Rightarrow> cpu" where
  "start_regs stk c = c\<lparr>eax := (eax c AND 0xFFFF0000) OR ucast DATA_SEG, esp := stk, eflags := eflags c AND NOT 0x200\<rparr>"

subsection \<open>Instructions\<close>

definition pushal_regs :: "'a proc_state_scheme \<Rightarrow> 'a proc_state_scheme" where
  "pushal_regs s = (let (c, m) = pushal (regs s, mem s) in s\<lparr>regs := c, mem := m\<rparr>)"

definition popal_regs :: "'a proc_state_scheme \<Rightarrow> 'a proc_state_scheme" where
  "popal_regs s = s\<lparr>regs := popal (mem s) (regs s)\<rparr>"

definition cld :: "'a proc_state_scheme \<Rightarrow> 'a proc_state_scheme" where
  "cld s = s\<lparr>regs := (regs s)\<lparr>eflags := eflags (regs s) AND NOT 0x400\<rparr>\<rparr>"

definition cli :: "'a proc_state_scheme \<Rightarrow> 'a proc_state_scheme" where
  "cli s = s\<lparr>regs := (regs s)\<lparr>eflags := eflags (regs s) AND NOT 0x200\<rparr>\<rparr>"

definition sti :: "'a proc_state_scheme \<Rightarrow> 'a proc_state_scheme" where
  "sti s = s\<lparr>regs := (regs s)\<lparr>eflags := eflags (regs s) OR 0x200\<rparr>\<rparr>"

definition iret :: "'a proc_state_scheme \<Rightarrow> 'a proc_state_scheme" where
  "iret s = pops [to_eip, dropped, to_eflags] s"

text \<open>A trap gate, with the error code that some exceptions push.\<close>

definition enter_trap :: "u32 \<Rightarrow> u32 option \<Rightarrow> 'a proc_state_scheme \<Rightarrow> 'a proc_state_scheme" where
  "enter_trap ri err s = pushes ([eflags (regs s), 8, ri] @ (case err of None \<Rightarrow> [] | Some e \<Rightarrow> [e])) s"

subsection \<open>Device interrupts (boot.S)\<close>

definition keyboard_stub ::
  "('a proc_state_scheme \<Rightarrow> 'a proc_state_scheme option) \<Rightarrow> u32 \<Rightarrow> 'a proc_state_scheme \<Rightarrow> 'a proc_state_scheme option" where
  "keyboard_stub run rh s = do {
     let s = cld (pushal_regs s);
     s \<leftarrow> run (pushes [rh] s);
     Some (iret (popal_regs s)) }"

definition clock_stub ::
  "('a proc_state_scheme \<Rightarrow> 'a proc_state_scheme option) \<Rightarrow> u32 \<Rightarrow> 'a proc_state_scheme \<Rightarrow> 'a proc_state_scheme option" where
  "clock_stub run rh s = do {
     let s = cld (pushal_regs (cli s));
     s \<leftarrow> run (pushes [rh] s);
     Some (iret (sti (popal_regs s))) }"

subsection \<open>Exceptions (isr.S, ist.S)\<close>

definition isr_0 ::
  "('a proc_state_scheme \<Rightarrow> 'a proc_state_scheme option) \<Rightarrow> u32 \<Rightarrow> 'a proc_state_scheme \<Rightarrow> 'a proc_state_scheme option" where
  "isr_0 run rh s = do {
     let s = cld (pushal_regs s);
     s \<leftarrow> run (pushes [rh] s);
     let sp = esp (regs s);
     let s = s\<lparr>regs := (regs s)\<lparr>edx := rd32 (mem s) (sp + 0x20)\<rparr>\<rparr>;
     let s = s\<lparr>regs := (regs s)\<lparr>edx := edx (regs s) + 2\<rparr>\<rparr>;
     let s = s\<lparr>mem := wr32 (mem s) (sp + 0x20) (edx (regs s))\<rparr>;
     Some (iret (popal_regs s)) }"

definition unrecoverable_error ::
  "('a proc_state_scheme \<Rightarrow> 'a proc_state_scheme option) \<Rightarrow> u32 \<Rightarrow> 'a proc_state_scheme \<Rightarrow> 'a proc_state_scheme option" where
  "unrecoverable_error run rh s = do {
     s \<leftarrow> run (pushes [rh] s);
     Some (iret s) }"

text \<open>\<open>exception_handler\<close> halts the machine, so that the stub's \<open>iret\<close> is not reached.\<close>

definition isr_stub :: "u32 \<Rightarrow> 'a kernel_state_scheme \<Rightarrow> 'a kernel_state_scheme outcome option" where
  "isr_stub rh s = do {
     r \<leftarrow> exception_handler (pushes [rh] s);
     Some (case r of Halted s \<Rightarrow> Halted s | Returns s \<Rightarrow> Returns (iret (pops [to_eip] s))) }"

datatype isr = Isr nat | Isr_stub nat

definition isr_table :: "isr list" where
  "isr_table = [Isr 0, Isr_stub 1, Isr 2, Isr_stub 3, Isr 4, Isr 5, Isr_stub 6, Isr_stub 7, Isr 8, Isr_stub 9,
     Isr 10, Isr 11, Isr 12, Isr_stub 13, Isr_stub 14, Isr_stub 15, Isr 16, Isr_stub 17, Isr_stub 18, Isr 19]
     @ map Isr_stub [20..<32]"

text \<open>
  A C function without parameters as compiled, leaving \<open>k\<close> in the registers that a call may
  change; \<open>kill_process\<close> takes its parameter from above the return address.
\<close>

definition c_call ::
  "('a proc_state_scheme \<Rightarrow> 'a proc_state_scheme option) \<Rightarrow> u32 \<times> u32 \<times> u32 \<Rightarrow> 'a proc_state_scheme \<Rightarrow> 'a proc_state_scheme option" where
  "c_call f k s = do {
     s \<leftarrow> f s;
     Some (pops [to_eip] (case k of (a, c, d) \<Rightarrow> s\<lparr>regs := (regs s)\<lparr>eax := a, ecx := c, edx := d\<rparr>\<rparr>)) }"

definition kill_process_of_stack :: "'a proc_state_scheme \<Rightarrow> 'a proc_state_scheme option" where
  "kill_process_of_stack s = kill_process (rd32 (mem s) (esp (regs s) + 4)) s"

subsection \<open>Proofs\<close>

lemma pushal_regs_eq:
  "pushal_regs s = pushes [eax (regs s), ecx (regs s), edx (regs s), ebx (regs s), esp (regs s), ebp (regs s), esi (regs s), edi (regs s)] s"
  by (simp add: pushal_regs_def pushal_def pushes_def)

lemma pushes_append: "pushes (vs @ ws) s = pushes ws (pushes vs s)"
  by (simp add: pushes_def split: prod.split)

lemma pushes_flags:
  "pushes vs (s\<lparr>regs := (regs s)\<lparr>eflags := f\<rparr>\<rparr>) = (pushes vs s)\<lparr>regs := (regs (pushes vs s))\<lparr>eflags := f\<rparr>\<rparr>"
  by (simp add: pushes_eq)

text \<open>The words on the stack when the C function of a device interrupt is entered.\<close>

definition device_frame :: "u32 \<Rightarrow> u32 \<Rightarrow> cpu \<Rightarrow> u32 list" where
  "device_frame ri rh c = [eflags c, 8, ri, eax c, ecx c, edx c, ebx c, esp c - 12, ebp c, esi c, edi c, rh]"

text \<open>With that frame on the stack, both device stubs return to the interrupted instruction with all registers.\<close>

definition on_frame :: "u32 \<Rightarrow> u32 \<Rightarrow> cpu \<Rightarrow> 'a proc_state_scheme \<Rightarrow> bool" where
  "on_frame ri rh c u \<longleftrightarrow> esp (regs u) = esp c - 44 \<and>
     (\<forall>i<11. rd32 (mem u) (esp c - (4 + 4 * of_nat i)) = device_frame ri rh c ! i)"

lemma on_frame_return:
  fixes u :: "'a proc_state_scheme"
  assumes "on_frame ri rh c u"
  shows "iret (popal_regs u) = u\<lparr>regs := c\<lparr>eip := ri\<rparr>\<rparr>" "iret (sti (popal_regs u)) = u\<lparr>regs := c\<lparr>eip := ri\<rparr>\<rparr>"
proof -
  have e: "esp (regs u) = esp c - 44" using assms by (simp add: on_frame_def)
  have W: "rd32 (mem u) (esp c - (4 + 4 * of_nat i)) = device_frame ri rh c ! i" if "i < 11" for i
    using assms that by (simp add: on_frame_def)
  have r: "rd32 (mem u) (esp c - 44) = edi c" "rd32 (mem u) (esp c - 40) = esi c" "rd32 (mem u) (esp c - 36) = ebp c"
    "rd32 (mem u) (esp c - 28) = ebx c" "rd32 (mem u) (esp c - 24) = edx c" "rd32 (mem u) (esp c - 20) = ecx c"
    "rd32 (mem u) (esp c - 16) = eax c" "rd32 (mem u) (esp c - 12) = ri" "rd32 (mem u) (esp c - 4) = eflags c"
    using W [of 10] W [of 9] W [of 8] W [of 6] W [of 5] W [of 4] W [of 3] W [of 2] W [of 0] by (simp_all add: device_frame_def)
  show "iret (popal_regs u) = u\<lparr>regs := c\<lparr>eip := ri\<rparr>\<rparr>" "iret (sti (popal_regs u)) = u\<lparr>regs := c\<lparr>eip := ri\<rparr>\<rparr>"
    by (simp_all add: iret_def sti_def popal_regs_def popal_def pops_def pop_def e r)
qed

lemma on_frame_kept:
  fixes u :: "'a proc_state_scheme"
  assumes E: "48 \<le> unat (esp c)" and t: "esp (regs t) = esp c - 48" "mem t = write_down m (esp c - 4) (device_frame ri rh c)"
    and u: "keeps_frame 44 t u"
  shows "on_frame ri rh c u"
proof -
  have len: "length (device_frame ri rh c) = 12" by (simp add: device_frame_def)
  have "rd32 (mem u) (esp c - (4 + 4 * of_nat i)) = device_frame ri rh c ! i" if "i < 11" for i
    by (rule frame_word [OF _ t(2) u]) (use E that len t(1) in simp_all)
  then show ?thesis using u t(1) by (simp add: on_frame_def keeps_frame_def)
qed

text \<open>The return address can be replaced in the frame.\<close>

lemma on_frame_redirect:
  fixes u :: "'a proc_state_scheme"
  assumes E: "48 \<le> unat (esp c)" and F: "on_frame ri rh c u"
  shows "on_frame ri' rh c (u\<lparr>mem := wr32 (mem u) (esp c - 12) ri'\<rparr>)"
proof -
  have adr: "esp c - (4 + 4 * of_nat i) = W (unat (esp c) - (4 + 4 * i))" if "i < 11" for i
  proof -
    have "4 + 4 * i \<le> unat (esp c)" using E that by simp
    from of_nat_diff [OF this, where 'a = "32 word"] show ?thesis by simp
  qed
  have a12: "esp c - 12 = W (unat (esp c) - 12)" using adr [of 2] by simp
  have "rd32 (wr32 (mem u) (esp c - 12) ri') (esp c - (4 + 4 * of_nat i)) = device_frame ri' rh c ! i" if i: "i < 11" for i
  proof (cases "i = 2")
    case True
    then show ?thesis by (simp add: mem_simps device_frame_def)
  next
    case False
    have "rd32 (wr32 (mem u) (esp c - 12) ri') (esp c - (4 + 4 * of_nat i)) = rd32 (mem u) (esp c - (4 + 4 * of_nat i))"
      unfolding a12 adr [OF i] by (rule rd32_wr32_disj) (use E i False unat_u32_lt [of "esp c"] in \<open>auto simp: disj_def\<close>)
    moreover have "device_frame ri' rh c ! i = device_frame ri rh c ! i" using False by (simp add: device_frame_def nth_Cons')
    ultimately show ?thesis using F i by (simp add: on_frame_def)
  qed
  then show ?thesis using F by (simp add: on_frame_def)
qed

definition device_called :: "u32 \<Rightarrow> u32 \<Rightarrow> u32 \<Rightarrow> 'a proc_state_scheme \<Rightarrow> 'a proc_state_scheme" where
  "device_called ri rh f s = s\<lparr>regs := (regs s)\<lparr>esp := esp (regs s) - 48, eflags := f\<rparr>,
     mem := write_down (mem s) (esp (regs s) - 4) (device_frame ri rh (regs s))\<rparr>"

lemma device_entry:
  fixes s :: "'a proc_state_scheme"
  shows "pushes [rh] (cld (pushal_regs (enter_gate ri s))) = device_called ri rh ((eflags (regs s) AND NOT 0x200) AND NOT 0x400) s"
    "pushes [rh] (cld (pushal_regs (cli (enter_trap ri None s)))) = device_called ri rh ((eflags (regs s) AND NOT 0x200) AND NOT 0x400) s"
    "pushes [rh] (cld (pushal_regs (enter_trap ri None s))) = device_called ri rh (eflags (regs s) AND NOT 0x400) s"
proof -
  let ?c = "regs s"
  have w: "write_down (write_down (write_down (mem s) (esp ?c - 4) [eflags ?c, 8, ri]) (esp ?c - 16)
        [eax ?c, ecx ?c, edx ?c, ebx ?c, esp ?c - 12, ebp ?c, esi ?c, edi ?c]) (esp ?c - 48) [rh] =
      write_down (mem s) (esp ?c - 4) (device_frame ri rh ?c)"
    by (simp add: device_frame_def)
  show "pushes [rh] (cld (pushal_regs (enter_gate ri s))) = device_called ri rh ((eflags (regs s) AND NOT 0x200) AND NOT 0x400) s"
    "pushes [rh] (cld (pushal_regs (cli (enter_trap ri None s)))) = device_called ri rh ((eflags (regs s) AND NOT 0x200) AND NOT 0x400) s"
    "pushes [rh] (cld (pushal_regs (enter_trap ri None s))) = device_called ri rh (eflags (regs s) AND NOT 0x400) s"
    unfolding device_called_def enter_gate_def enter_trap_def pushal_regs_eq cld_def cli_def pushes_eq Let_def
    by (simp_all add: w del: write_down.simps)
qed

lemma device_called_memory:
  fixes s :: "'a proc_state_scheme"
  assumes "48 \<le> unat (esp (regs s))"
  shows "rd32 (mem (device_called ri rh f s)) (esp (regs s) - 48) = rh"
    "same_on (- {unat (esp (regs s)) - 48..<unat (esp (regs s))}) (mem s) (mem (device_called ri rh f s))"
proof -
  let ?sp = "esp (regs s)" and ?ws = "device_frame ri rh (regs s)"
  have len: "length ?ws = 12" by (simp add: device_frame_def)
  have "rd32 (mem (device_called ri rh f s)) (?sp - (4 + 4 * of_nat 11)) = ?ws ! 11"
    unfolding device_called_def by simp (rule pushed_word [OF refl, where i = 11, simplified], use assms len in simp_all)
  then show "rd32 (mem (device_called ri rh f s)) (?sp - 48) = rh" by (simp add: device_frame_def)
  have T: "?sp - 4 = W (unat ?sp - 4)" using assms by (simp add: of_nat_diff)
  show "same_on (- {unat ?sp - 48..<unat ?sp}) (mem s) (mem (device_called ri rh f s))"
    unfolding device_called_def T using write_down_same_on [of ?ws "unat ?sp - 4" "mem s"] assms len unat_u32_lt [of ?sp] by simp
qed

subsection \<open>The properties\<close>

text \<open>
  C22: The keyboard's and the clock's stubs are transparent: the C handler is entered with its
  return address on the stack, the direction and interrupt flags clear and nothing but the
  stack below the interrupted program's changed; when the handler returns, at once or after
  other processes have run, and has left the 44 bytes of the frame alone, the interrupted
  program goes on at its instruction with every register and flag as it was, in the memory
  and with the kernel state that the handler leaves.
\<close>

theorem interrupts_transparent:
  fixes s :: "'a proc_state_scheme"
  assumes "48 \<le> unat (esp (regs s))"
    and "stub \<in> {\<lambda>run. keyboard_stub run rh (enter_gate ri s), \<lambda>run. clock_stub run rh (enter_trap ri None s)}"
  shows "\<exists>t. rd32 (mem t) (esp (regs t)) = rh \<and> eflags (regs t) AND 0x600 = 0 \<and>
    same_on (- {unat (esp (regs s)) - 48..<unat (esp (regs s))}) (mem s) (mem t) \<and>
    (\<forall>run. case run t of None \<Rightarrow> stub run = None
      | Some u \<Rightarrow> keeps_frame 44 t u \<longrightarrow> stub run = Some (u\<lparr>regs := (regs s)\<lparr>eip := ri\<rparr>\<rparr>))"
proof -
  let ?f = "(eflags (regs s) AND NOT 0x200) AND NOT 0x400"
  define t where "t = device_called ri rh ?f s"
  have t: "esp (regs t) = esp (regs s) - 48" "mem t = write_down (mem s) (esp (regs s) - 4) (device_frame ri rh (regs s))"
    "eflags (regs t) = ?f" by (simp_all add: t_def device_called_def)
  have "((x AND NOT a) AND NOT b) AND (a OR b) = 0" for x a b :: u32 by (rule bit_word_eqI) (auto simp: bit_simps)
  from this [of "eflags (regs s)" "0x200" "0x400"] have "eflags (regs t) AND 0x600 = 0" unfolding t(3) by simp
  moreover have "case run t of None \<Rightarrow> stub run = None
      | Some u \<Rightarrow> keeps_frame 44 t u \<longrightarrow> stub run = Some (u\<lparr>regs := (regs s)\<lparr>eip := ri\<rparr>\<rparr>)" for run
  proof (cases "run t")
    case None
    then show ?thesis using assms(2) by (auto simp: keyboard_stub_def clock_stub_def Let_def device_entry t_def)
  next
    case (Some u)
    then show ?thesis using assms(2) on_frame_return [OF on_frame_kept [OF assms(1) t(1,2)]]
      by (auto simp: keyboard_stub_def clock_stub_def Let_def device_entry t_def)
  qed
  moreover note device_called_memory [OF assms(1), of ri rh ?f, folded t_def]
  ultimately show ?thesis unfolding t(1) [symmetric] by blast
qed

lemma c_call_keeps:
  fixes t :: "'a proc_state_scheme"
  assumes "f t = Some v" "mem v = mem t" "regs v = regs t"
  obtains u where "c_call f k t = Some u" "keeps_frame n t u" "mem u = mem v" "u = v\<lparr>regs := regs u\<rparr>"
proof -
  obtain a b d where k: "k = (a, b, d)" by (cases k)
  show thesis
    by (rule that [of "pops [to_eip] (v\<lparr>regs := (regs v)\<lparr>eax := a, ecx := b, edx := d\<rparr>\<rparr>)"])
      (use assms k in \<open>simp_all add: c_call_def keeps_frame_def pops_def pop_def\<close>)
qed

lemma writestring_call:
  fixes t :: "'a proc_state_scheme"
  assumes "0 \<notin> set (bytes_of msg)" "length msg < 2 ^ 32"
  obtains v where "terminal_writestring (lit msg) t = Some v" "term_frame t v" "mem v = mem t" "regs v = regs t"
proof -
  obtain v where v: "terminal_writestring (lit msg) t = Some v" "term_frame t v" using writestring_lit [OF assms] by blast
  have "mem v = mem t" using v(2) by (simp add: term_frame_def)
  moreover have "regs v = regs t" by (subst term_frame_state [OF v(2)]) simp
  ultimately show thesis using that v by blast
qed

lemma interrupts_transparent_witness:
  "\<exists>(s :: kernel_state) u. keyboard_stub (c_call (terminal_writestring (lit ''key'')) (1, 2, 3)) 0x6000 (enter_gate 0x5000 s) = Some u \<and>
     regs u = (regs s)\<lparr>eip := 0x5000\<rparr>"
proof -
  let ?s = "boot_kernel" and ?run = "c_call (terminal_writestring (lit ''key'')) (1, 2, 3) :: kernel_state \<Rightarrow> kernel_state option"
  let ?stub = "\<lambda>run. keyboard_stub run 0x6000 (enter_gate 0x5000 ?s)"
  have E: "48 \<le> unat (esp (regs ?s))" by (simp add: boot_kernel_def)
  have "?stub \<in> {\<lambda>run. keyboard_stub run 0x6000 (enter_gate 0x5000 ?s), \<lambda>run. clock_stub run 0x6000 (enter_trap 0x5000 None ?s)}" by simp
  from interrupts_transparent [OF E this] obtain t where t: "case ?run t of None \<Rightarrow> ?stub ?run = None
      | Some u \<Rightarrow> keeps_frame 44 t u \<longrightarrow> ?stub ?run = Some (u\<lparr>regs := (regs ?s)\<lparr>eip := 0x5000\<rparr>\<rparr>)" by blast
  have z: "0 \<notin> set (bytes_of ''key'')" "length ''key'' < 2 ^ 32" by (simp_all add: bytes_of_def)
  obtain v where v: "terminal_writestring (lit ''key'') t = Some v" "mem v = mem t" "regs v = regs t" by (rule writestring_call [OF z])
  obtain u where "?run t = Some u" "keeps_frame 44 t u"
    by (rule c_call_keeps [of "terminal_writestring (lit ''key'')", OF v])
  with t have "?stub ?run = Some (u\<lparr>regs := (regs ?s)\<lparr>eip := 0x5000\<rparr>\<rparr>)" by simp
  then show ?thesis by (intro exI [of _ ?s] exI, intro conjI, assumption) simp
qed

text \<open>
  C24: A division by zero is survived: after its message the stub adds 2 to the return address in
  the frame, so that the program goes on two bytes behind the faulting instruction with all
  registers and flags as they were; nothing else changes but the screen and the stack below
  the program's.
\<close>

theorem div_by_zero_skips:
  fixes s :: "'a proc_state_scheme"
  assumes "48 \<le> unat (esp (regs s))"
  shows "\<exists>u. isr_0 (c_call handle_div_by_zero k) rh (enter_trap ri None s) = Some u \<and>
    regs u = (regs s)\<lparr>eip := ri + 2\<rparr> \<and> term_frame (s\<lparr>regs := regs u, mem := mem u\<rparr>) u \<and>
    same_on (- {unat (esp (regs s)) - 48..<unat (esp (regs s))}) (mem s) (mem u)"
proof -
  let ?c = "regs s"
  define t where "t = device_called ri rh (eflags ?c AND NOT 0x400) s"
  have t: "esp (regs t) = esp ?c - 48" "mem t = write_down (mem s) (esp ?c - 4) (device_frame ri rh ?c)"
    by (simp_all add: t_def device_called_def)
  have t_in: "pushes [rh] (cld (pushal_regs (enter_trap ri None s))) = t" by (simp only: device_entry t_def)
  have z: "0 \<notin> set (bytes_of ''Div by zero!'')" "length ''Div by zero!'' < 2 ^ 32" by (simp_all add: bytes_of_def)
  obtain v where v: "terminal_writestring (lit ''Div by zero!'') t = Some v" "term_frame t v" "mem v = mem t" "regs v = regs t"
    by (rule writestring_call [OF z])
  have "handle_div_by_zero t = Some v" by (simp add: handle_div_by_zero_def v(1))
  from c_call_keeps [of handle_div_by_zero, OF this v(3,4)] obtain u where
    u: "c_call handle_div_by_zero k t = Some u" "keeps_frame 44 t u" "mem u = mem v" "u = v\<lparr>regs := regs u\<rparr>" by blast
  note F = on_frame_kept [OF assms t u(2)]
  have sp: "esp (regs u) + 0x20 = esp ?c - 12" using F by (simp add: on_frame_def)
  have ri: "rd32 (mem u) (esp ?c - 12) = ri" using F [unfolded on_frame_def] by (auto dest!: spec [of _ 2] simp: device_frame_def)
  let ?m = "wr32 (mem u) (esp ?c - 12) (ri + 2)"
  let ?u = "u\<lparr>regs := (regs u)\<lparr>edx := ri + 2\<rparr>, mem := ?m\<rparr>"
  have "on_frame (ri + 2) rh ?c (u\<lparr>mem := ?m\<rparr>)" by (rule on_frame_redirect [OF assms F])
  then have "on_frame (ri + 2) rh ?c ?u" by (simp add: on_frame_def)
  note R = on_frame_return(1) [OF this]
  have run: "isr_0 (c_call handle_div_by_zero k) rh (enter_trap ri None s) = Some (?u\<lparr>regs := ?c\<lparr>eip := ri + 2\<rparr>\<rparr>)"
    using u(1) R by (simp add: isr_0_def t_in Let_def sp ri)
  have a12: "esp ?c - 12 = W (unat (esp ?c) - 12)" using assms by (simp add: of_nat_diff)
  have "same_on (- {unat (esp ?c) - 12..<unat (esp ?c) - 12 + 4}) (mem u) ?m"
    unfolding a12 by (rule same_on_wr32) (use assms unat_u32_lt [of "esp ?c"] in simp_all)
  then have "same_on (- {unat (esp ?c) - 48..<unat (esp ?c)}) (mem u) ?m" by (rule same_on_subset) (use assms in auto)
  moreover have "mem u = mem t" using u(3) v(3) by simp
  ultimately have S: "same_on (- {unat (esp ?c) - 48..<unat (esp ?c)}) (mem s) ?m"
    using same_on_trans [OF device_called_memory(2) [OF assms, of ri rh "eflags ?c AND NOT 0x400"]] by (simp add: t_def)
  have "term_frame (s\<lparr>regs := ?c\<lparr>eip := ri + 2\<rparr>, mem := ?m\<rparr>) (?u\<lparr>regs := ?c\<lparr>eip := ri + 2\<rparr>\<rparr>)"
    using v(2) u(4) by (cases s; cases v; cases u) (simp add: term_frame_def t_def device_called_def)
  with run S show ?thesis by (intro exI [of _ "?u\<lparr>regs := ?c\<lparr>eip := ri + 2\<rparr>\<rparr>"]) simp
qed

lemma div_by_zero_skips_witness:
  "\<exists>(s :: kernel_state) u. isr_0 (c_call handle_div_by_zero (1, 2, 3)) 0x6000 (enter_trap 0x5000 None s) = Some u \<and> eip (regs u) = 0x5002"
proof -
  have "48 \<le> unat (esp (regs boot_kernel))" by (simp add: boot_kernel_def)
  from div_by_zero_skips [OF this, of "(1, 2, 3)" "0x6000" "0x5000"] show ?thesis by force
qed

text \<open>
  C23: The stubs of the other exceptions do not pass a PID to \<open>kill_process\<close>, which takes the word
  above its return address for one. Without an error code that word is the address of the
  faulting instruction: above the largest PID, so that no process is killed and the program
  executes the faulting instruction again, with only the scratch registers changed. With an
  error code it is the code, and a process whose PID is that number is killed.
\<close>

theorem exceptions_kill_by_stack_word:
  fixes s :: "'a proc_state_scheme"
  assumes "20 \<le> unat (esp (regs s))" "proc_inv s" "MAX_PID < ri"
  shows "(\<exists>u. unrecoverable_error (c_call kill_process_of_stack (a, c, d)) rh (enter_trap ri None s) = Some u \<and>
      u = s\<lparr>regs := (regs s)\<lparr>eip := ri, eax := a, ecx := c, edx := d\<rparr>, mem := mem u\<rparr> \<and>
      same_on (- {unat (esp (regs s)) - 16..<unat (esp (regs s))}) (mem s) (mem u)) \<and>
    (\<forall>e. \<exists>t. (\<forall>run. unrecoverable_error run rh (enter_trap ri (Some e) s) = map_option iret (run t)) \<and>
      proc_table t = proc_table s \<and> kill_process_of_stack t = kill_process e t)"
proof (intro conjI allI)
  let ?sp = "esp (regs s)" and ?ws = "[eflags (regs s), 8, ri, rh]"
  define t where "t = pushes ?ws s"
  have t: "t = s\<lparr>regs := (regs s)\<lparr>esp := ?sp - 16\<rparr>, mem := write_down (mem s) (?sp - 4) ?ws\<rparr>"
    by (simp add: t_def pushes_eq)
  have W: "rd32 (mem t) (?sp - (4 + 4 * of_nat i)) = ?ws ! i" if "i < 4" for i
    using pushed_word [OF refl, where ws = ?ws and i = i and sp = ?sp and m = "mem s"] assms(1) that by (simp add: t del: write_down.simps)
  have w: "rd32 (mem t) (?sp - 4) = eflags (regs s)" "rd32 (mem t) (?sp - 12) = ri"
    using W [of 0] W [of 2] by simp_all
  have "ri \<notin> live_pids t" using assms(2,3) by (auto simp: proc_inv_def live_pids_def live_def t)
  then have "kill_process ri t = Some t" by (simp add: kill_process_def get_process_None [symmetric])
  then have k: "kill_process_of_stack t = Some t" using w(2) by (simp add: kill_process_of_stack_def t)
  have t_in: "pushes [rh] (enter_trap ri None s) = t" by (simp add: enter_trap_def t_def pushes_append [symmetric])
  let ?u = "s\<lparr>regs := (regs s)\<lparr>eip := ri, eax := a, ecx := c, edx := d\<rparr>, mem := mem t\<rparr>"
  have "unrecoverable_error (c_call kill_process_of_stack (a, c, d)) rh (enter_trap ri None s) = Some ?u"
    using w k by (simp add: unrecoverable_error_def t_in c_call_def iret_def pops_def pop_def t)
  moreover have "same_on (- {unat ?sp - 16..<unat ?sp}) (mem s) (mem t)"
  proof -
    have T: "?sp - 4 = W (unat ?sp - 4)" using assms(1) by (simp add: of_nat_diff)
    show ?thesis unfolding t T using write_down_same_on [of ?ws "unat ?sp - 4" "mem s"] assms(1) unat_u32_lt [of ?sp] by simp
  qed
  ultimately show "\<exists>u. unrecoverable_error (c_call kill_process_of_stack (a, c, d)) rh (enter_trap ri None s) = Some u \<and>
      u = s\<lparr>regs := (regs s)\<lparr>eip := ri, eax := a, ecx := c, edx := d\<rparr>, mem := mem u\<rparr> \<and>
      same_on (- {unat ?sp - 16..<unat ?sp}) (mem s) (mem u)" by (intro exI [of _ ?u]) simp
next
  fix e
  let ?sp = "esp (regs s)" and ?es = "[eflags (regs s), 8, ri, e, rh]"
  have e: "rd32 (write_down (mem s) (?sp - 4) ?es) (?sp - (4 + 4 * of_nat 3)) = ?es ! 3"
    by (rule pushed_word [OF refl]) (use assms(1) in simp_all)
  show "\<exists>t. (\<forall>run. unrecoverable_error run rh (enter_trap ri (Some e) s) = map_option iret (run t)) \<and>
      proc_table t = proc_table s \<and> kill_process_of_stack t = kill_process e t"
  proof (intro exI [of _ "pushes ?es s"] conjI allI)
    fix run :: "'a proc_state_scheme \<Rightarrow> 'a proc_state_scheme option"
    have "pushes [rh] (enter_trap ri (Some e) s) = pushes ?es s" by (simp add: enter_trap_def pushes_append [symmetric])
    then show "unrecoverable_error run rh (enter_trap ri (Some e) s) = map_option iret (run (pushes ?es s))"
      by (cases "run (pushes ?es s)") (simp_all add: unrecoverable_error_def)
  qed (use e in \<open>simp_all add: kill_process_of_stack_def pushes_eq del: write_down.simps\<close>)
qed

lemma exceptions_kill_by_stack_word_witness:
  "\<exists>u. unrecoverable_error (c_call kill_process_of_stack (1, 2, 3)) 0x6000 (enter_trap 0x100000 None busy) = Some u \<and>
     eip (regs u) = 0x100000 \<and> live_pids u = {0, 1, 2}"
proof -
  have "20 \<le> unat (esp (regs busy))" by (simp add: busy_def boot_table_def)
  then obtain u where u: "unrecoverable_error (c_call kill_process_of_stack (1, 2, 3)) 0x6000 (enter_trap 0x100000 None busy) = Some u"
    "u = busy\<lparr>regs := (regs busy)\<lparr>eip := 0x100000, eax := 1, ecx := 2, edx := 3\<rparr>, mem := mem u\<rparr>"
    using exceptions_kill_by_stack_word [of busy "0x100000" 1 2 3 "0x6000"] busy_inv(1) by force
  have "live_pids u = live_pids busy" by (subst u(2)) (simp add: live_pids_def live_def)
  moreover have "eip (regs u) = 0x100000" by (subst u(2)) simp
  moreover have "live_pids busy = {0, 1, 2}" unfolding live_pids_def live_busy using busy_pid by auto
  ultimately show ?thesis using u(1) by (intro exI [of _ u]) simp
qed

end
