(* ===== verification/Hello.thy ===== *)
theory Hello
  imports Elf
begin

section \<open>Hello: the user program greeting (mnt/home/doc/hello.c, hi.c)\<close>

text \<open>
  The program brings a console of its own. Its text buffer is a pointer, so it is modelled on
  memory: a cell is two bytes from the pointer on. The last part shows that this console,
  once its pointer is set, does what the kernel's does on the same screen.
\<close>

subsection \<open>State and operations\<close>

record user_state =
  user_mem :: memory
  user_row :: u32
  user_column :: u32
  user_color :: u8
  user_buffer :: u32

text \<open>The initial values of the globals.\<close>

definition user_start :: "memory \<Rightarrow> user_state" where
  "user_start m = \<lparr>user_mem = m, user_row = - 1, user_column = - 1, user_color = - 1, user_buffer = 0xFFFF\<rparr>"

definition wr16 :: "memory \<Rightarrow> u32 \<Rightarrow> u16 \<Rightarrow> memory" where
  "wr16 m a v = m(a := ucast v, a + 1 := ucast (drop_bit 8 v))"

partial_function (option) user_strlen_loop :: "memory \<Rightarrow> cptr \<Rightarrow> u32 \<Rightarrow> u32 option" where
  "user_strlen_loop m s len = (if ld m s \<noteq> 0 then user_strlen_loop m (padd s 1) (len + 1) else Some len)"

definition user_strlen :: "memory \<Rightarrow> cptr \<Rightarrow> u32 option" where
  "user_strlen m s = user_strlen_loop m s 0"

definition user_vga_entry_color :: "vga_color \<Rightarrow> vga_color \<Rightarrow> u8" where
  "user_vga_entry_color fg bg = vga_code fg OR push_bit 4 (vga_code bg)"

definition user_vga_entry :: "u8 \<Rightarrow> u8 \<Rightarrow> u16" where
  "user_vga_entry uc color = ucast uc OR push_bit 8 (ucast color)"

text \<open>Both are what the kernel's console has.\<close>

lemma user_vga [simp]: "user_vga_entry_color fg bg = vga_entry_color fg bg" "user_vga_entry uc color = vga_entry uc color"
  by (simp_all add: fun_eq_iff user_vga_entry_color_def user_vga_entry_def vga_entry_color_def vga_entry_def)

definition user_init_terminal :: "user_state \<Rightarrow> user_state" where
  "user_init_terminal u = u\<lparr>user_row := 0, user_column := 0,
     user_color := user_vga_entry_color VGA_COLOR_LIGHT_GREY VGA_COLOR_BLACK, user_buffer := 0xB8000\<rparr>"

definition user_putentryat :: "u8 \<Rightarrow> u8 \<Rightarrow> u32 \<Rightarrow> u32 \<Rightarrow> user_state \<Rightarrow> user_state" where
  "user_putentryat c color x y u =
     (let index = y * VGA_WIDTH + x
      in u\<lparr>user_mem := wr16 (user_mem u) (user_buffer u + 2 * index) (user_vga_entry c color)\<rparr>)"

definition user_clear :: "user_state \<Rightarrow> user_state" where
  "user_clear u =
     (let u = fold (\<lambda>y u. fold (\<lambda>x u.
        user_putentryat (of_char CHR '' '') (user_color u) (of_nat x) (of_nat y) u) [0..<80] u) [0..<25] u
      in u\<lparr>user_column := 0, user_row := 0\<rparr>)"

definition user_advance_row :: "user_state \<Rightarrow> user_state" where
  "user_advance_row u =
     (let u = u\<lparr>user_row := user_row u + 1\<rparr>;
          u = (if user_row u = VGA_HEIGHT then user_clear (u\<lparr>user_row := 0\<rparr>) else u)
      in u\<lparr>user_column := 0\<rparr>)"

definition user_setcolor :: "u8 \<Rightarrow> user_state \<Rightarrow> user_state" where
  "user_setcolor color u = u\<lparr>user_color := color\<rparr>"

definition user_putchar :: "u8 \<Rightarrow> user_state \<Rightarrow> user_state" where
  "user_putchar c u =
     (if c = 0x0A then user_advance_row u
      else
        let u = user_putentryat c (user_color u) (user_column u) (user_row u) u;
            u = u\<lparr>user_column := user_column u + 1\<rparr>
        in if user_column u = VGA_WIDTH
           then let u = u\<lparr>user_column := 0, user_row := user_row u + 1\<rparr>
                in if user_row u = VGA_HEIGHT then u\<lparr>user_row := 0\<rparr> else u
           else u)"

fun user_write_loop :: "cptr \<Rightarrow> nat \<Rightarrow> user_state \<Rightarrow> user_state" where
  "user_write_loop data 0 u = u"
| "user_write_loop data (Suc n) u =
     (let c = ld (user_mem u) data
      in user_write_loop (padd data 1) n (if c = 0x0A then user_advance_row u else user_putchar c u))"

definition user_write :: "cptr \<Rightarrow> u32 \<Rightarrow> user_state \<Rightarrow> user_state" where
  "user_write data sz u = user_write_loop data (unat sz) u"

definition user_writestring :: "cptr \<Rightarrow> user_state \<Rightarrow> user_state option" where
  "user_writestring data u = do { len \<leftarrow> user_strlen (user_mem u) data; Some (user_write data len u) }"

definition hello :: "user_state \<Rightarrow> user_state option" where
  "hello u = user_writestring (lit (''Hello!'' @ [CHR 0x0A])) u"

definition hi :: "user_state \<Rightarrow> user_state option" where
  "hi u = user_writestring (lit (''hi'' @ [CHR 0x0A])) u"

definition user_main :: "user_state \<Rightarrow> (u32 \<times> user_state) option" where
  "user_main u = do {
     u \<leftarrow> hello (user_init_terminal u);
     u \<leftarrow> hi u;
     Some (1, u) }"

subsection \<open>The cells in memory\<close>

definition screen :: "nat set" where
  "screen = {0xB8000..<0xB8000 + 4000}"

definition cell_at :: "memory \<Rightarrow> nat \<Rightarrow> u16" where
  "cell_at m i = rd16 m (W (0xB8000 + 2 * i))"

lemma bytes16: "(ucast (ucast v :: u8) :: u16) OR push_bit 8 (ucast (ucast (drop_bit 8 v) :: u8)) = (v :: u16)"
proof (rule bit_word_eqI)
  fix n assume n: "n < LENGTH(16)"
  show "bit ((ucast (ucast v :: u8) :: u16) OR push_bit 8 (ucast (ucast (drop_bit 8 v) :: u8))) n = bit v n"
    using n by (cases "n < 8") (auto simp: bit_simps)
qed

lemma cell_at_wr16:
  assumes "i < 2000" "j < 2000"
  shows "cell_at (wr16 m (W (0xB8000 + 2 * i)) v) j = (if j = i then v else cell_at m j)"
proof -
  define p q where "p = 0xB8000 + 2 * i" and "q = 0xB8000 + 2 * j"
  have ne: "(W q :: u32) = W p \<longleftrightarrow> j = i" "(W q + 1 :: u32) = W p + 1 \<longleftrightarrow> j = i" "(W q + 1 :: u32) \<noteq> W p" "(W q :: u32) \<noteq> W p + 1"
  proof -
    have "(W (q + a) :: u32) = W (p + b) \<longleftrightarrow> q + a = p + b" if "a < 2" "b < 2" for a b
      by (rule of_nat_u32_eq) (use assms that in \<open>simp_all add: p_def q_def\<close>)
    from this [of 0 0] this [of 1 1] this [of 1 0] this [of 0 1]
    show "(W q :: u32) = W p \<longleftrightarrow> j = i" "(W q + 1 :: u32) = W p + 1 \<longleftrightarrow> j = i" "(W q + 1 :: u32) \<noteq> W p" "(W q :: u32) \<noteq> W p + 1"
      unfolding p_def q_def by (simp_all add: add.commute, presburger+)
  qed
  have "(W p :: u32) \<noteq> W p + 1" by simp
  then show ?thesis using ne bytes16 [of v] unfolding cell_at_def p_def [symmetric] q_def [symmetric]
    by (auto simp: rd16_def wr16_def)
qed

subsection \<open>The program's console does what the kernel's does\<close>

text \<open>The same cursor and colour, the cells in memory are the kernel's, and so is all other memory.\<close>

definition same_screen :: "user_state \<Rightarrow> 'a term_state_scheme \<Rightarrow> bool" where
  "same_screen u s \<longleftrightarrow> user_row u = terminal_row s \<and> user_column u = terminal_column s \<and> user_color u = terminal_color s \<and>
     user_buffer u = 0xB8000 \<and> (\<forall>i<2000. cell_at (user_mem u) i = terminal_buffer s (W i)) \<and> same_on (- screen) (mem s) (user_mem u)"

lemma fold_sim:
  assumes "\<And>x u s. x \<in> set xs \<Longrightarrow> R u s \<Longrightarrow> R (f x u) (g x s)" "R u s"
  shows "R (fold f xs u) (fold g xs s)"
  using assms by (induction xs arbitrary: u s) auto

lemma sim_putentryat:
  assumes R: "same_screen u s" and xy: "x < VGA_WIDTH" "y < VGA_HEIGHT"
  shows "same_screen (user_putentryat c col x y u) (terminal_putentryat c col x y s)"
proof -
  define k where "k = unat y * 80 + unat x"
  have k: "k < 2000" using xy by (simp add: k_def word_less_nat_alt)
  have i: "y * VGA_WIDTH + x = W k" by (simp add: k_def)
  define A where "A = 0xB8000 + 2 * k"
  have a: "(0xB8000 :: u32) + 2 * W k = W A" by (simp add: A_def)
  have j: "W j = (W k :: u32) \<longleftrightarrow> j = k" if "j < 2000" for j by (rule of_nat_u32_eq) (use that k in simp_all)
  have S: "same_on (- screen) m (wr16 m (W A) v)" for m v
  proof -
    have 1: "same_on (- screen) m (m(W A := b))" for m b by (rule same_on_upd) (use k in \<open>simp_all add: screen_def A_def\<close>)
    have 2: "same_on (- screen) m (m(W (Suc A) := b))" for m b by (rule same_on_upd) (use k in \<open>simp_all add: screen_def A_def\<close>)
    have "wr16 m (W A) v = m(W A := ucast v, W (Suc A) := ucast (drop_bit 8 v))"
      unfolding wr16_def of_nat_Suc by (simp only: add.commute)
    then show ?thesis using same_on_trans [OF 1 2] by simp
  qed
  have "user_putentryat c col x y u = u\<lparr>user_mem := wr16 (user_mem u) (W A) (vga_entry c col)\<rparr>"
    using R unfolding user_putentryat_def Let_def i by (simp only: same_screen_def a user_vga)
  moreover have "terminal_putentryat c col x y s = s\<lparr>terminal_buffer := (terminal_buffer s)(W k := vga_entry c col)\<rparr>"
    unfolding terminal_putentryat_def Let_def i ..
  moreover have "same_on (- screen) (mem s) (wr16 (user_mem u) (W A) (vga_entry c col))"
    using R S same_on_trans unfolding same_screen_def by blast
  moreover have "cell_at (wr16 (user_mem u) (W A) (vga_entry c col)) n = ((terminal_buffer s)(W k := vga_entry c col)) (W n)"
    if "n < 2000" for n
    using R j [OF that] that cell_at_wr16 [OF k that, folded A_def] by (simp add: same_screen_def)
  ultimately show ?thesis using R by (simp add: same_screen_def)
qed

lemma small_cell: "x < 80 \<Longrightarrow> (of_nat x :: u32) < VGA_WIDTH" "x < 25 \<Longrightarrow> (of_nat x :: u32) < VGA_HEIGHT"
  by (simp_all add: of_nat_u32_less [of _ 80, simplified] of_nat_u32_less [of _ 25, simplified])

lemma sim_clear:
  assumes R: "same_screen u s"
  shows "same_screen (user_clear u) (terminal_clear s)"
proof -
  have "same_screen (fold (\<lambda>y u. fold (\<lambda>x u.
        user_putentryat (of_char CHR '' '') (user_color u) (of_nat x) (of_nat y) u) [0..<80] u) [0..<25] u)
      (fold (\<lambda>y s. fold (\<lambda>x s.
        terminal_putentryat (of_char CHR '' '') (terminal_color s) (of_nat x) (of_nat y) s) [0..<80] s) [0..<25] s)"
  proof (rule fold_sim [where R = same_screen, OF _ R], rule fold_sim [where R = same_screen])
    fix x y and u :: user_state and s :: "'a term_state_scheme"
    assume "x \<in> set [0..<80]" "y \<in> set [0..<25]" and R: "same_screen u s"
    then show "same_screen (user_putentryat (of_char CHR '' '') (user_color u) (of_nat x) (of_nat y) u)
        (terminal_putentryat (of_char CHR '' '') (terminal_color s) (of_nat x) (of_nat y) s)"
      using sim_putentryat [OF R, of "of_nat x" "of_nat y" "of_char CHR '' ''" "user_color u"] small_cell
      by (simp add: same_screen_def [of u])
  qed
  then show ?thesis unfolding user_clear_def terminal_clear_def Let_def by (simp add: same_screen_def)
qed

lemma sim_advance_row:
  assumes R: "same_screen u s"
  shows "same_screen (user_advance_row u) (terminal_advance_row s)"
proof -
  have "same_screen (u\<lparr>user_row := 0\<rparr>) (s\<lparr>terminal_row := 0\<rparr>)" using R by (simp add: same_screen_def)
  from sim_clear [OF this] R show ?thesis
    unfolding user_advance_row_def terminal_advance_row_def Let_def
    by (cases "terminal_row s + 1 = VGA_HEIGHT") (simp_all add: same_screen_def)
qed

lemma sim_putchar:
  assumes R: "same_screen u s" and o: "on_screen s"
  shows "same_screen (user_putchar c u) (terminal_putchar c s)"
proof (cases "c = 0x0A")
  case True
  then show ?thesis using sim_advance_row [OF R] by (simp add: user_putchar_def terminal_putchar_def)
next
  case False
  let ?u = "user_putentryat c (user_color u) (user_column u) (user_row u) u"
  let ?s = "terminal_putentryat c (terminal_color s) (terminal_column s) (terminal_row s) s"
  have "same_screen ?u ?s"
    using sim_putentryat [OF R, of "terminal_column s" "terminal_row s" c "terminal_color s"] o R
    by (simp add: on_screen_def same_screen_def [of u])
  with False show ?thesis unfolding user_putchar_def terminal_putchar_def Let_def
    by (simp add: same_screen_def)
qed

lemma sim_write_loop:
  "same_screen u s \<Longrightarrow> on_screen s \<Longrightarrow> readable (- screen) p n \<Longrightarrow>
    same_screen (user_write_loop p n u) (terminal_write_loop p n s)"
proof (induction n arbitrary: p u s)
  case (Suc n)
  have "same_on (- screen) (mem s) (user_mem u)" using Suc.prems(1) by (simp add: same_screen_def)
  from ld_same_on [OF this Suc.prems(3), of 0] have l: "ld (user_mem u) p = ld (mem s) p" by simp
  let ?c = "ld (mem s) p"
  let ?u = "if ?c = 0x0A then user_advance_row u else user_putchar ?c u"
  let ?s = "if ?c = 0x0A then terminal_advance_row s else terminal_putchar ?c s"
  have "same_screen ?u ?s" "on_screen ?s"
    using sim_advance_row [OF Suc.prems(1)] sim_putchar [OF Suc.prems(1,2), of ?c]
      advance_row_screen [OF Suc.prems(2)] putchar_screen [OF Suc.prems(2), of ?c] by simp_all
  moreover have "readable (- screen) (padd p 1) n" by (rule readable_step [OF Suc.prems(3)])
  ultimately show ?case using Suc.IH by (simp add: l Let_def)
qed simp

lemma user_strlen_cstr: "cstr m p bs \<Longrightarrow> user_strlen m p = Some (of_nat (length bs))"
proof -
  have "cstr m p bs \<Longrightarrow> user_strlen_loop m p len = Some (len + of_nat (length bs))" for len
  proof (induction bs arbitrary: p len)
    case (Cons c bs)
    then show ?case by (subst user_strlen_loop.simps) (simp add: cstr_Cons add.assoc)
  qed (simp add: user_strlen_loop.simps cstr_Nil)
  then show "cstr m p bs \<Longrightarrow> user_strlen m p = Some (of_nat (length bs))" by (simp add: user_strlen_def)
qed

lemma writestring_sim:
  assumes R: "same_screen u s" and o: "on_screen s" and c: "cstr (mem s) p bs" "readable (- screen) p (Suc (length bs))"
    and len: "length bs < 2 ^ 32"
  obtains u' s' where "user_writestring p u = Some u'" "terminal_writestring p s = Some s'" "same_screen u' s'" "on_screen s'"
proof -
  have S: "same_on (- screen) (mem s) (user_mem u)" using R by (simp add: same_screen_def)
  have k: "user_writestring p u = Some (user_write_loop p (length bs) u)"
    using user_strlen_cstr [OF cstr_same_on [OF S c(2,1)]] len by (simp add: user_writestring_def user_write_def unat_of_nat_u32)
  have t: "terminal_writestring p s = Some (terminal_write_loop p (length bs) s)"
    using terminal_writestring_cstr [OF c(1)] len by simp
  have "readable (- screen) p (length bs)" by (rule readable_less [OF c(2)]) simp
  from that [OF k t sim_write_loop [OF R o this]] write_loop_screen [OF o] show thesis by blast
qed

text \<open>
  C25: The user program's console, which writes the two bytes of each cell through its pointer,
  refines the kernel's console: on a text outside the screen's memory, both print functions
  return, with the same cursor and colour and the same 2000 cells, and the program has changed
  no byte outside the screen's memory.
\<close>

theorem user_console_refines:
  assumes "same_screen u s" "on_screen s" "cstr (mem s) p bs" "readable (- screen) p (Suc (length bs))" "length bs < 2 ^ 32"
  shows "\<exists>u' s'. user_writestring p u = Some u' \<and> terminal_writestring p s = Some s' \<and> same_screen u' s' \<and>
    on_screen s' \<and> same_on (- screen) (user_mem u) (user_mem u')"
proof -
  obtain u' s' where r: "user_writestring p u = Some u'" "terminal_writestring p s = Some s'" "same_screen u' s'" "on_screen s'"
    by (rule writestring_sim [OF assms])
  have "same_on (- screen) (user_mem u) (mem s)" using assms(1) by (simp add: same_screen_def same_on_def)
  moreover have "mem s' = mem s" using term_frame_writestring [OF r(2)] by (simp add: term_frame_def)
  then have "same_on (- screen) (mem s) (user_mem u')" using r(3) by (simp add: same_screen_def)
  ultimately show ?thesis using r same_on_trans by blast
qed

lemma user_console_refines_witness:
  "\<exists>u' s'. hello (user_init_terminal (user_start (\<lambda>_. 0))) = Some u' \<and>
     terminal_writestring (lit (''Hello!'' @ [CHR 0x0A])) \<lparr>mem = (\<lambda>_. 0), terminal_row = 0, terminal_column = 0,
       terminal_color = 7, terminal_buffer = (\<lambda>_. 0)\<rparr> = Some s' \<and> same_screen u' s'"
proof -
  let ?u = "user_init_terminal (user_start (\<lambda>_. 0))" and ?t = "''Hello!'' @ [CHR 0x0A]"
  let ?s = "\<lparr>mem = (\<lambda>_. 0), terminal_row = 0, terminal_column = 0, terminal_color = 7, terminal_buffer = (\<lambda>_. 0)\<rparr> :: term_state"
  have R: "same_screen ?u ?s"
    by (simp add: same_screen_def user_init_terminal_def user_start_def vga_entry_color_def cell_at_def rd16_def)
  have o: "on_screen ?s" by (simp add: on_screen_def)
  have c: "cstr (mem ?s) (lit ?t) (bytes_of ?t)" by (rule cstr_lit) (simp add: bytes_of_def)
  have r: "readable (- screen) (lit ?t) (Suc (length (bytes_of ?t)))" "length (bytes_of ?t) < 2 ^ 32" by (simp_all add: lit_def)
  from user_console_refines [OF R o c r] show ?thesis unfolding hello_def by blast
qed

end
