(* ===== verification/Spec2Isabelle.thy ===== *)
theory Spec2Isabelle
  imports TextProps HeapClient Multitask Commands ElfProps Stubs Hello
begin

text \<open>
  A verification development for ShompOS, a small 32-bit x86 kernel in C (directory ShompOS/).

  The program. The kernel boots (src/kernel/kernel.c, \<open>kernel_main\<close>), sets up the text
  console, the interrupt table, the heap and an in-memory file system, creates a few
  processes and lets the timer interrupt switch between them; the keyboard interrupt
  collects command lines and runs them. Its parts, from the bottom up:
    the string library (src/fake_libc/string.c);
    the console (kernel.c, the terminal functions);
    the heap, a buddy allocator (src/memory/heap.c), which reports errors on the console;
    the process table, context switch and scheduler (src/process/), whose stacks are heap
    blocks;
    the file system (src/fs/ramfs.c) and its commands (src/fs/ramfs_executables.c), whose
    files, directories and descriptors are heap objects;
    the ELF loader (src/elf/elf.c), which reads a file and creates a process;
    the keyboard handler, command interpreter, interrupt and device set-up (kernel.c).

  The machine. There is no paging, so memory is one total function from 32-bit addresses to
  bytes (theory Memory), pointers are addresses, structures are read and written by 32-bit
  accesses at their fields' offsets, and a null pointer is address 0, which can be read and
  written. String literals, which have no address in the sources, are a second kind of
  character pointer. Integers have their width in the sources and wrap. A loop that may run
  for ever is a partial function into the option type, where None is not returning: that
  an operation returns is then part of what is proved of it. Every state record extends the
  one of the part below: \<open>term_state\<close>, \<open>heap_state\<close>, \<open>proc_state\<close>, \<open>fs_state\<close>,
  \<open>kernel_state\<close>. Local variables whose address is taken are at an address that is a
  parameter (\<open>loc\<close>, \<open>buf\<close>).

  The theories.
    Prelude, Memory: machine types, memory, byte ranges, what a write leaves alone; the locales
    of a step relation with an invariant and of one that implements another, interpreted on
    the steps of a client of the heap (HeapClient), of the process table (Scheduler), of the
    commands (FsInv) and of the kernel (Multitask).
    CString, StrAlloc: string.c; TextProps has its properties and those of the console.
    Terminal: the console.
    Heap: heap.c and fake_libc.c. HeapList (circular lists in memory), HeapLayout (blocks and
    buddies), HeapInv (the invariant), HeapOps (split and coalesce), HeapAlloc, HeapSpec
    (specifications of allocate and free) lead to Allocator: the interface that the
    other parts use, a locale with the heap as its interpretation. HeapProps has the
    properties of the operations, HeapClient those of any sequence of them: a client that takes,
    fills and gives back blocks keeps the bytes it stored, and leaves no fragments.
    HeapDebug has the debugging printers.
    Process: process.c and context_switch.S. ProcTable (the table's invariant), ProcInv (its
    preservation), ProcSwitch (saved and restored contexts), Scheduler (which process is
    picked, no starvation, the reachable states), ProcHeap (stacks as heap blocks); the
    properties are in ProcProps.
    Owned: data structures made of heap objects, a locale that extends the allocator's.
    Ramfs: ramfs.c. RamfsRep represents files, directories and descriptors as nodes and
    interprets the locale; FsSteps and FsDir prove the operations that add; FsTree (the
    invariant \<open>tree_ok\<close> of the nodes: who points to whom), FsDelete (deletion), FsPath (path
    lookup and open), FsData (read, write, seek) and FsInv (the relation \<open>fs_step\<close>, which
    implements the steps \<open>tree_step\<close> of the map of nodes and leaves all other heap objects
    alone) prove the rest. FsProps and FileIO have the
    properties, Stdio those of the standard files.
    Elf, ElfProps: elf.c, the span of the segments and their loading.
    RamfsExec: the commands of ramfs_executables.c; Commands relates touch, rm and mkdir to
    operations on a directory's listing.
    Keyboard, Kernel: the rest of kernel.c. KeyLine (typing refines a line editor), Shell (a
    line and the command it runs) and Interrupts (the interrupt table) have the properties.
    Syscalls: the path of a system call from the wrapper in mnt/inc to the C function and back.
    Stubs: the assembly of boot.S, gdt.S, isr.S and ist.S: segments and start, and the stubs
    around the C handlers of the keyboard, the clock and the exceptions.
    Boot: what \<open>kernel_main\<close> leaves, the composition of the parts.
    Multitask: the scheduler, the context switch, the stacks on the heap and the file system
    together implement a system in which every process has a processor and a stack of its
    own beside a tree of files that the commands change; the boot and the first timer interrupt lead to its invariant \<open>multi_ok\<close>.
    Hello: the user program mnt/home/doc, whose console is the kernel's on cells in memory.

  The abstract view. The heap is a map from the addresses of live blocks to their sizes
  (\<open>heap_rel\<close>); allocate adds a block, free removes one, and neither touches a byte of
  another live block. The file system is a map from addresses to nodes (\<open>fs_rel\<close>) on top of it.
  The process table is a set of live PIDs, with at most one active, and the live processes are
  machines with registers and a stack each (\<open>machines_of\<close>), of which one executes at a time.

  Bounds. The allocator's largest request is 32759 bytes (a 32 KiB block less its 9-byte
  header); clients' requests are bounded by it. The table has 8 processes, and no PID is
  above 0xB10B; a process waits for at most 7 calls of the scheduler because the backstop
  takes one slot. Waiting times are assumed not to wrap. In the file system \<open>room n s\<close> says
  that the break can still move up by \<open>n\<close> largest blocks within 32-bit addresses; an operation
  uses at most one for each object that it allocates.

  Not modelled. Loops that only pass time; what other code runs when an interrupt occurs in
  the middle of a function (each C function is one step; in Multitask the code of a process is
  any code that stays on its own stack and the screen); the stack that a C function uses, of
  which only the words that assembly and \<open>init_process\<close> put there are modelled; how the
  processor uses descriptors beyond the bases and limits of gdt.S; the function \<open>init_mnt\<close>,
  generated by the build, which is a parameter; the addresses the linker chooses, which are
  parameters too.
\<close>

end
